(* ===== verification/Prelude.thy ===== *)
theory Prelude
  imports
    Main
    "HOL-Library.Word"
    "HOL-Library.Multiset"
    "HOL-Library.Char_ord"
    "HOL-Library.List_Lexorder"
    "HOL-Library.Option_ord"
    "HOL-Library.Product_Lexorder"
begin

text \<open>
  What the component theories share: names for the machine types of Rust, its \<open>Result\<close>,
  its \<open>Ordering\<close> with comparators and stable sorting, checked and saturating arithmetic on
  words, the string operations of the standard library that the code calls, and the idiom
  "find the record with this key in a \<open>Vec\<close> and change it".

  A Rust \<open>String\<close> or \<open>&str\<close> is its sequence of UTF-8 bytes, a \<open>string\<close> here (a list of
  8-bit characters): \<open>len\<close> counts bytes, \<open>cmp\<close> is the lexicographic order of the bytes.
\<close>

section \<open>Machine types and results\<close>

type_synonym u8 = "8 word"
type_synonym u32 = "32 word"
type_synonym u64 = "64 word"
type_synonym i32 = "32 word"

text \<open>\<open>Result\<close>: the error on the left, as in the code's \<open>Err\<close>, the value on the right.\<close>

abbreviation Ok :: "'a \<Rightarrow> 'e + 'a" where "Ok \<equiv> Inr"
abbreviation Err :: "'e \<Rightarrow> 'e + 'a" where "Err \<equiv> Inl"

definition is_ok :: "'e + 'a \<Rightarrow> bool" where
  "is_ok r = (case r of Inl _ \<Rightarrow> False | Inr _ \<Rightarrow> True)"

lemma is_ok_simps [simp]: "is_ok (Ok x)" "\<not> is_ok (Err e)"
  by (simp_all add: is_ok_def)

named_theorems word_nat "facts that read word arithmetic through \<open>unat\<close>"
named_theorems cmp_simps "how comparators compute"

section \<open>Arithmetic on words\<close>

definition checked_add :: "'l::len word \<Rightarrow> 'l word \<Rightarrow> 'l word option" where
  "checked_add a b = (if unat a + unat b < 2 ^ LENGTH('l) then Some (a + b) else None)"

definition saturating_add :: "'l::len word \<Rightarrow> 'l word \<Rightarrow> 'l word" where
  "saturating_add a b = (if unat a + unat b < 2 ^ LENGTH('l) then a + b else - 1)"

definition saturating_sub :: "'l::len word \<Rightarrow> 'l word \<Rightarrow> 'l word" where
  "saturating_sub a b = (if b \<le> a then a - b else 0)"

definition saturating_mul :: "'l::len word \<Rightarrow> 'l word \<Rightarrow> 'l word" where
  "saturating_mul a b = (if unat a * unat b < 2 ^ LENGTH('l) then a * b else - 1)"

definition saturating_pow :: "'l::len word \<Rightarrow> nat \<Rightarrow> 'l word" where
  "saturating_pow a n = (if unat a ^ n < 2 ^ LENGTH('l) then a ^ n else - 1)"

lemma unat_all_ones [word_nat]: "unat (- 1 :: 'l::len word) = 2 ^ LENGTH('l) - 1"
  by (simp add: unsigned_minus_1_eq_mask mask_eq_exp_minus_1)

lemma unat_lt_exp: "unat (a :: 'l::len word) < 2 ^ LENGTH('l)"
  by (rule unsigned_less)

lemma checked_add_Some [word_nat]:
  "checked_add a b = Some c \<Longrightarrow> unat c = unat a + unat b"
  by (auto simp: checked_add_def unat_word_ariths split: if_splits)

lemma checked_add_None_iff:
  "checked_add (a :: 'l::len word) b = None \<longleftrightarrow> 2 ^ LENGTH('l) \<le> unat a + unat b"
  by (auto simp: checked_add_def)

lemma unat_saturating_add [word_nat]:
  "unat (saturating_add (a :: 'l::len word) b) = min (unat a + unat b) (2 ^ LENGTH('l) - 1)"
proof (cases "unat a + unat b < 2 ^ LENGTH('l)")
  case True
  then have "unat a + unat b \<le> 2 ^ LENGTH('l) - 1" by linarith
  with True show ?thesis by (simp add: saturating_add_def unat_word_ariths min_absorb1)
next
  case False
  then show ?thesis by (simp add: saturating_add_def unat_all_ones)
qed

lemma unat_saturating_sub [word_nat]: "unat (saturating_sub a b) = unat a - unat b"
  by (auto simp: saturating_sub_def unat_sub word_le_nat_alt)

lemma unat_saturating_mul [word_nat]:
  "unat (saturating_mul (a :: 'l::len word) b) = min (unat a * unat b) (2 ^ LENGTH('l) - 1)"
proof (cases "unat a * unat b < 2 ^ LENGTH('l)")
  case True
  then have "unat a * unat b \<le> 2 ^ LENGTH('l) - 1" by linarith
  with True show ?thesis by (simp add: saturating_mul_def unat_word_ariths min_absorb1)
next
  case False
  then show ?thesis by (simp add: saturating_mul_def unat_all_ones)
qed

lemma unat_power_mod: "unat ((a :: 'l::len word) ^ n) = unat a ^ n mod 2 ^ LENGTH('l)"
proof (induction n)
  case 0
  have "(1 :: nat) < 2 ^ LENGTH('l)" by (rule one_less_power) simp_all
  then show ?case by simp
next
  case (Suc n)
  then show ?case by (simp add: unat_word_ariths mod_mult_right_eq)
qed

lemma unat_saturating_pow [word_nat]:
  "unat (saturating_pow (a :: 'l::len word) n) = min (unat a ^ n) (2 ^ LENGTH('l) - 1)"
proof (cases "unat a ^ n < 2 ^ LENGTH('l)")
  case True
  then have "unat a ^ n \<le> 2 ^ LENGTH('l) - 1" by linarith
  with True show ?thesis by (simp add: saturating_pow_def unat_power_mod min_absorb1)
next
  case False
  then show ?thesis by (simp add: saturating_pow_def unat_all_ones)
qed

text \<open>An increment that cannot wrap.\<close>

lemma unat_inc [word_nat]:
  "unat (a :: 'l::len word) + 1 < 2 ^ LENGTH('l) \<Longrightarrow> unat (a + 1) = unat a + 1"
  by (simp add: unat_word_ariths)

section \<open>Orderings, comparators and stable sorting\<close>

text \<open>\<open>std::cmp::Ordering\<close>, its \<open>reverse\<close> and its \<open>then\<close>, and the derived \<open>Ord::cmp\<close>.\<close>

datatype ordering = Less | Equal | Greater

fun reverse_ord :: "ordering \<Rightarrow> ordering" where
  "reverse_ord Less = Greater"
| "reverse_ord Equal = Equal"
| "reverse_ord Greater = Less"

fun then_cmp :: "ordering \<Rightarrow> ordering \<Rightarrow> ordering" where
  "then_cmp Equal r = r"
| "then_cmp Less r = Less"
| "then_cmp Greater r = Greater"

definition cmp_lin :: "'a::linorder \<Rightarrow> 'a \<Rightarrow> ordering" where
  "cmp_lin a b = (if a < b then Less else if a = b then Equal else Greater)"

lemma cmp_lin_simps [cmp_simps]:
  "cmp_lin a b = Less \<longleftrightarrow> a < b"
  "cmp_lin a b = Equal \<longleftrightarrow> a = b"
  "cmp_lin a b = Greater \<longleftrightarrow> b < a"
  by (auto simp: cmp_lin_def)

lemma cmp_lin_self [simp]: "cmp_lin a a = Equal"
  by (simp add: cmp_lin_def)

lemma cmp_lin_Pair [cmp_simps]: "cmp_lin (a, b) (c, d) = then_cmp (cmp_lin a c) (cmp_lin b d)"
  by (auto simp: cmp_lin_def)

lemma cmp_lin_unat: "cmp_lin (a :: 'l::len word) b = cmp_lin (unat a) (unat b)"
  by (auto simp: cmp_lin_def word_less_nat_alt word_unat_eq_iff)

lemma then_cmp_assoc: "then_cmp (then_cmp p q) r = then_cmp p (then_cmp q r)"
  by (cases p) simp_all

lemma cmp_lin_Suc [simp]: "cmp_lin (Suc m) (Suc n) = cmp_lin m n"
  by (simp add: cmp_lin_def)

lemma then_cmp_iffs [cmp_simps]:
  "then_cmp p q = Equal \<longleftrightarrow> p = Equal \<and> q = Equal"
  "then_cmp p q = Less \<longleftrightarrow> p = Less \<or> p = Equal \<and> q = Less"
  "then_cmp p q = Greater \<longleftrightarrow> p = Greater \<or> p = Equal \<and> q = Greater"
  by (cases p; simp)+

lemma reverse_ord_then [simp]: "reverse_ord (then_cmp p q) = then_cmp (reverse_ord p) (reverse_ord q)"
  by (cases p) simp_all

lemma reverse_ord_reverse [simp]: "reverse_ord (reverse_ord p) = p"
  by (cases p) simp_all

lemma reverse_ord_iffs [simp]:
  "reverse_ord p = Less \<longleftrightarrow> p = Greater" "reverse_ord p = Equal \<longleftrightarrow> p = Equal"
  "reverse_ord p = Greater \<longleftrightarrow> p = Less"
  by (cases p; simp)+

text \<open>The stable \<open>slice::sort_by\<close>, as an insertion that never passes an equal element.\<close>

fun insert_by :: "('a \<Rightarrow> 'a \<Rightarrow> ordering) \<Rightarrow> 'a \<Rightarrow> 'a list \<Rightarrow> 'a list" where
  "insert_by cmp x [] = [x]"
| "insert_by cmp x (y # ys) = (if cmp x y = Greater then y # insert_by cmp x ys else x # y # ys)"

fun sort_by :: "('a \<Rightarrow> 'a \<Rightarrow> ordering) \<Rightarrow> 'a list \<Rightarrow> 'a list" where
  "sort_by cmp [] = []"
| "sort_by cmp (x # xs) = insert_by cmp x (sort_by cmp xs)"

lemma mset_insert_by [simp]: "mset (insert_by cmp x ys) = add_mset x (mset ys)"
  by (induction ys) auto

lemma mset_sort_by [simp]: "mset (sort_by cmp xs) = mset xs"
  by (induction xs) auto

lemma set_insert_by [simp]: "set (insert_by cmp x ys) = insert x (set ys)"
  by (induction ys) auto

lemma set_sort_by [simp]: "set (sort_by cmp xs) = set xs"
  by (induction xs) auto

text \<open>
  The contract of Rust's \<open>Ord\<close>: what \<open>sort_by\<close>, \<open>max\<close> and \<open>BTreeMap\<close> rely on. The
  comparators of the components are instances of it.
\<close>

locale rust_ord =
  fixes cmp :: "'a \<Rightarrow> 'a \<Rightarrow> ordering"
  assumes cmp_refl: "cmp a a = Equal"
    and cmp_sym: "cmp b a = reverse_ord (cmp a b)"
    and cmp_trans: "cmp a b \<noteq> Greater \<Longrightarrow> cmp b c \<noteq> Greater \<Longrightarrow> cmp a c \<noteq> Greater"
begin

lemma equal_sym: "cmp a b = Equal \<Longrightarrow> cmp b a = Equal"
  by (simp add: cmp_sym [of a b])

lemma less_asym: "cmp a b = Less \<Longrightarrow> cmp b a = Greater"
  by (simp add: cmp_sym [of a b])

lemma not_greater_total: "cmp a b = Greater \<Longrightarrow> cmp b a = Less"
  by (simp add: cmp_sym [of a b])

lemma equal_iff: "cmp a b = Equal \<longleftrightarrow> cmp a b \<noteq> Greater \<and> cmp b a \<noteq> Greater"
  by (cases "cmp a b") (simp_all add: cmp_sym [of a b])

lemma less_iff: "cmp a b = Less \<longleftrightarrow> cmp b a = Greater"
  by (simp add: cmp_sym [of a b])

lemma equal_trans: "cmp a b = Equal \<Longrightarrow> cmp b c = Equal \<Longrightarrow> cmp a c = Equal"
  unfolding equal_iff using cmp_trans by blast

lemma less_trans:
  assumes "cmp a b = Less" and "cmp b c \<noteq> Greater"
  shows "cmp a c = Less"
proof (rule ccontr)
  assume "cmp a c \<noteq> Less"
  then have "cmp c a \<noteq> Greater" by (simp add: cmp_sym [of a c])
  with assms(2) have "cmp b a \<noteq> Greater" by (rule cmp_trans)
  with assms(1) show False by (simp add: cmp_sym [of a b])
qed

lemma le_less_trans:
  assumes "cmp a b \<noteq> Greater" and "cmp b c = Less"
  shows "cmp a c = Less"
proof (rule ccontr)
  assume "cmp a c \<noteq> Less"
  then have "cmp c a \<noteq> Greater" by (simp add: cmp_sym [of a c])
  then have "cmp c b \<noteq> Greater" using assms(1) by (rule cmp_trans)
  with assms(2) show False by (simp add: cmp_sym [of b c])
qed

lemma sorted_insert_by:
  "sorted_wrt (\<lambda>a b. cmp a b \<noteq> Greater) ys \<Longrightarrow>
   sorted_wrt (\<lambda>a b. cmp a b \<noteq> Greater) (insert_by cmp x ys)"
proof (induction ys)
  case Nil
  then show ?case by simp
next
  case (Cons y ys)
  show ?case
  proof (cases "cmp x y = Greater")
    case True
    then have "cmp y x \<noteq> Greater" by (simp add: cmp_sym [of x y])
    with Cons True show ?thesis by auto
  next
    case False
    moreover from False Cons.prems have "\<forall>z \<in> set ys. cmp x z \<noteq> Greater"
      using cmp_trans by auto
    ultimately show ?thesis using Cons.prems by auto
  qed
qed

lemma sorted_sort_by: "sorted_wrt (\<lambda>a b. cmp a b \<noteq> Greater) (sort_by cmp xs)"
  by (induction xs) (simp_all add: sorted_insert_by)

text \<open>
  When the comparator tells the elements apart, sorting depends on the elements only and not
  on the order they came in.
\<close>

lemma sorted_unique:
  assumes "sorted_wrt (\<lambda>a b. cmp a b \<noteq> Greater) xs" and "sorted_wrt (\<lambda>a b. cmp a b \<noteq> Greater) ys"
    and "mset xs = mset ys"
    and "\<And>a b. a \<in> set xs \<Longrightarrow> b \<in> set xs \<Longrightarrow> cmp a b = Equal \<Longrightarrow> a = b"
  shows "xs = ys"
  using assms
proof (induction xs arbitrary: ys)
  case Nil
  then show ?case by simp
next
  case (Cons x xs)
  then obtain y ys' where ys: "ys = y # ys'" by (cases ys) auto
  from Cons.prems(3) have "set (x # xs) = set ys" by (rule mset_eq_setD)
  then have yx: "y \<in> set (x # xs)" and xy: "x \<in> set (y # ys')" by (auto simp: ys)
  from yx Cons.prems(1) have le1: "cmp x y \<noteq> Greater" by (auto simp: cmp_refl)
  from xy Cons.prems(2) have le2: "cmp y x \<noteq> Greater" by (auto simp: cmp_refl ys)
  from le1 le2 have "cmp x y = Equal" by (simp add: equal_iff)
  with yx have "x = y" by (intro Cons.prems(4)) auto
  with Cons ys show ?case by auto
qed

lemma sort_by_order_independent:
  assumes "mset xs = mset ys"
    and "\<And>a b. a \<in> set xs \<Longrightarrow> b \<in> set xs \<Longrightarrow> cmp a b = Equal \<Longrightarrow> a = b"
  shows "sort_by cmp xs = sort_by cmp ys"
  by (rule sorted_unique) (simp_all add: assms sorted_sort_by)

end

lemma rust_ord_lin: "rust_ord (cmp_lin :: 'a::linorder \<Rightarrow> 'a \<Rightarrow> ordering)"
  by unfold_locales (auto simp: cmp_lin_def split: if_splits)

lemma rust_ord_key: "rust_ord cmp \<Longrightarrow> rust_ord (\<lambda>a b. cmp (f a) (f b))"
  unfolding rust_ord_def by blast

lemma rust_ord_rev: "rust_ord cmp \<Longrightarrow> rust_ord (\<lambda>a b. cmp b a)"
  unfolding rust_ord_def by (metis reverse_ord_reverse)

lemma rust_ord_then:
  assumes "rust_ord c" and "rust_ord d"
  shows "rust_ord (\<lambda>a b. then_cmp (c a b) (d a b))"
proof unfold_locales
  fix a b
  show "then_cmp (c a a) (d a a) = Equal"
    by (simp add: rust_ord.cmp_refl [OF assms(1)] rust_ord.cmp_refl [OF assms(2)])
  show "then_cmp (c b a) (d b a) = reverse_ord (then_cmp (c a b) (d a b))"
    by (simp add: rust_ord.cmp_sym [OF assms(1), of b a] rust_ord.cmp_sym [OF assms(2), of b a])
next
  fix a b e
  assume ab: "then_cmp (c a b) (d a b) \<noteq> Greater" and be: "then_cmp (c b e) (d b e) \<noteq> Greater"
  then have "c a b \<noteq> Greater" and "c b e \<noteq> Greater" by (auto simp: cmp_simps)
  moreover have "d a e \<noteq> Greater" if "c a e = Equal"
  proof -
    have "c a b \<noteq> Less" using that rust_ord.less_trans [OF assms(1)] \<open>c b e \<noteq> Greater\<close> by force
    moreover have "c b e \<noteq> Less"
      using that rust_ord.le_less_trans [OF assms(1)] \<open>c a b \<noteq> Greater\<close> by force
    ultimately have "c a b = Equal" and "c b e = Equal"
      using \<open>c a b \<noteq> Greater\<close> \<open>c b e \<noteq> Greater\<close> by (cases "c a b"; cases "c b e"; simp)+
    with ab be show ?thesis using rust_ord.cmp_trans [OF assms(2), of a b e] by simp
  qed
  ultimately show "then_cmp (c a e) (d a e) \<noteq> Greater"
    using rust_ord.cmp_trans [OF assms(1)] by (auto simp: cmp_simps)
qed

text \<open>Comparing lists element by element, a proper prefix first.\<close>

fun cmp_list :: "('a \<Rightarrow> 'a \<Rightarrow> ordering) \<Rightarrow> 'a list \<Rightarrow> 'a list \<Rightarrow> ordering" where
  "cmp_list cmp [] [] = Equal"
| "cmp_list cmp [] (y # ys) = Less"
| "cmp_list cmp (x # xs) [] = Greater"
| "cmp_list cmp (x # xs) (y # ys) = then_cmp (cmp x y) (cmp_list cmp xs ys)"

lemma rust_ord_list:
  assumes "rust_ord cmp"
  shows "rust_ord (cmp_list cmp)"
proof unfold_locales
  fix xs ys zs :: "'a list"
  show "cmp_list cmp xs xs = Equal"
    by (induction xs) (simp_all add: rust_ord.cmp_refl [OF assms])
  show "cmp_list cmp ys xs = reverse_ord (cmp_list cmp xs ys)"
  proof (induction xs arbitrary: ys)
    case Nil
    then show ?case by (cases ys) simp_all
  next
    case (Cons x xs)
    then show ?case by (cases ys) (simp_all add: rust_ord.cmp_sym [OF assms, of _ x])
  qed
  show "cmp_list cmp xs ys \<noteq> Greater \<Longrightarrow> cmp_list cmp ys zs \<noteq> Greater \<Longrightarrow> cmp_list cmp xs zs \<noteq> Greater"
  proof (induction xs arbitrary: ys zs)
    case Nil
    then show ?case by (cases zs) simp_all
  next
    case (Cons x xs)
    from Cons.prems obtain y ys' z zs' where eqs: "ys = y # ys'" "zs = z # zs'"
      by (cases ys; cases zs) simp_all
    show ?case
    proof (cases "cmp x y = Equal \<and> cmp y z = Equal")
      case True
      then have "cmp x z = Equal" using rust_ord.equal_trans [OF assms] by blast
      with True Cons show ?thesis by (auto simp: eqs)
    next
      case False
      with Cons.prems have "cmp x y = Less \<and> cmp y z \<noteq> Greater \<or> cmp x y \<noteq> Greater \<and> cmp y z = Less"
        by (cases "cmp x y"; cases "cmp y z"; simp add: eqs)
      then have "cmp x z = Less"
        using rust_ord.less_trans [OF assms] rust_ord.le_less_trans [OF assms] by blast
      then show ?thesis by (simp add: eqs)
    qed
  qed
qed

lemma rust_ord_lin_key: "rust_ord (\<lambda>a b. cmp_lin (f a) (f b))"
  by (rule rust_ord_key [OF rust_ord_lin])

lemma rust_ord_lin_rev: "rust_ord (\<lambda>a b. cmp_lin (f b) (f a))"
  by (rule rust_ord_rev [OF rust_ord_lin_key])

text \<open>Comparators that chain comparisons of keys, ascending or descending.\<close>

lemmas rust_ord_intros = rust_ord_then rust_ord_lin_key rust_ord_lin_rev

section \<open>Records found by key\<close>

lemma find_append: "find p (xs @ ys) = (case find p xs of None \<Rightarrow> find p ys | Some x \<Rightarrow> Some x)"
  by (induction xs) auto

text \<open>
  The contract of a store of records: a lookup by key, and an update that runs a function on the
  record found. What a client relies on is that the update is seen under its own key only,
  as long as the function keeps the key.
\<close>

locale keyed_store =
  fixes get :: "'s \<Rightarrow> 'k \<Rightarrow> 'r option"
    and upd :: "'s \<Rightarrow> 'k \<Rightarrow> ('r \<Rightarrow> 'r) \<Rightarrow> 's"
    and key :: "'r \<Rightarrow> 'k"
  assumes get_key: "get s k = Some r \<Longrightarrow> key r = k"
    and get_upd_same: "get s k = Some r \<Longrightarrow> key (f r) = k \<Longrightarrow> get (upd s k f) k = Some (f r)"
    and get_upd_other: "(\<And>r. key (f r) = key r) \<Longrightarrow> k' \<noteq> k \<Longrightarrow> get (upd s k f) k' = get s k'"
begin

lemma get_upd:
  "(\<And>r. key (f r) = key r) \<Longrightarrow> get s k = Some r \<Longrightarrow>
   get (upd s k f) k' = (if k' = k then Some (f r) else get s k')"
  using get_upd_same [of s k r f] get_upd_other [of f k' k s] get_key [of s k r] by simp

lemma get_upd_twice:
  "(\<And>r. key (f r) = key r) \<Longrightarrow> (\<And>r. key (g r) = key r) \<Longrightarrow> get s k = Some r \<Longrightarrow>
   get (upd (upd s k f) k g) k = Some (g (f r))"
  using get_upd_same [of s k r f] get_upd_same [of "upd s k f" k "f r" g] get_key [of s k r] by simp

end

section \<open>Strings\<close>

definition codes :: "string \<Rightarrow> nat list" where
  "codes s = map of_char s"

text \<open>
  The UTF-8 encodings of the characters with the Unicode property White_Space, which
  \<open>str::trim\<close> removes at both ends.
\<close>

definition white_space :: "nat list list" where
  "white_space = map (\<lambda>c. [c]) [9, 10, 11, 12, 13, 32] @ [[194, 133], [194, 160], [225, 154, 128]]
     @ map (\<lambda>c. [226, 128, c]) ([128..<139] @ [168, 169, 175]) @ [[226, 129, 159], [227, 128, 128]]"

fun starts_with :: "'a list \<Rightarrow> 'a list \<Rightarrow> bool" where
  "starts_with s [] = True"
| "starts_with [] (x # xs) = False"
| "starts_with (c # cs) (x # xs) = (c = x \<and> starts_with cs xs)"

fun strip_seqs :: "nat list list \<Rightarrow> nat \<Rightarrow> string \<Rightarrow> string" where
  "strip_seqs pats 0 s = s"
| "strip_seqs pats (Suc n) s =
     (case find (starts_with (codes s)) pats of
        None \<Rightarrow> s
      | Some p \<Rightarrow> strip_seqs pats n (drop (length p) s))"

text \<open>A string of \<open>n\<close> bytes holds at most \<open>n\<close> characters to remove, so \<open>length s\<close> rounds are enough.\<close>

definition trim_start :: "string \<Rightarrow> string" where
  "trim_start s = strip_seqs white_space (length s) s"

definition trim_end :: "string \<Rightarrow> string" where
  "trim_end s = rev (strip_seqs (map rev white_space) (length s) (rev s))"

definition trim :: "string \<Rightarrow> string" where
  "trim s = trim_end (trim_start s)"

text \<open>A text that begins and ends with a printed ASCII character is trimmed already.\<close>

definition printed :: "char \<Rightarrow> bool" where
  "printed c \<longleftrightarrow> 33 \<le> (of_char c :: nat) \<and> (of_char c :: nat) \<le> 126"

lemma strip_seqs_none:
  assumes "printed c" "\<And>p. p \<in> set pats \<Longrightarrow> p \<noteq> [] \<and> (hd p \<le> 32 \<or> 126 < hd p)"
  shows "strip_seqs pats n (c # s) = c # s"
proof (cases n)
  case (Suc m)
  have "\<not> starts_with (codes (c # s)) p" if "p \<in> set pats" for p
    using assms(1) assms(2) [OF that] by (cases p) (auto simp: codes_def printed_def)
  then have "find (starts_with (codes (c # s))) pats = None" by (simp add: find_None_iff)
  then show ?thesis by (simp add: Suc)
qed simp

lemma trim_printed:
  assumes "s \<noteq> []" "printed (hd s)" "printed (last s)"
  shows "trim s = s"
proof -
  have w: "\<forall>p \<in> set white_space. p \<noteq> [] \<and> (hd p \<le> 32 \<or> 126 < hd p)"
    "\<forall>p \<in> set (map rev white_space). p \<noteq> [] \<and> (hd p \<le> 32 \<or> 126 < hd p)"
    by code_simp+
  obtain a t where s: "s = a # t" using assms(1) by (cases s) auto
  obtain b u where r: "rev s = b # u" using assms(1) by (cases "rev s") auto
  have "trim_start s = s" using strip_seqs_none [of a white_space "length s" t] w(1) assms(2) by (simp add: trim_start_def s)
  moreover have "b = last s" using r assms(1) by (metis hd_rev list.sel(1))
  then have "strip_seqs (map rev white_space) (length s) (rev s) = rev s"
    using strip_seqs_none [of b "map rev white_space" "length s" u] w(2) assms(3) by (simp add: r)
  then have "trim_end s = s" by (simp add: trim_end_def)
  ultimately show ?thesis by (simp add: trim_def)
qed

lemma trim_code [code]:
  "trim s = (if s \<noteq> [] \<and> printed (hd s) \<and> printed (last s) then s else trim_end (trim_start s))"
  using trim_printed [of s] by (auto simp: trim_def)

text \<open>\<open>str::split\<close> on a character, and the split at its first occurrence made with \<open>find\<close> and \<open>split_at\<close>.\<close>

fun split_on :: "char \<Rightarrow> string \<Rightarrow> string list" where
  "split_on d [] = [[]]"
| "split_on d (c # cs) = (if c = d then [] # split_on d cs
     else (case split_on d cs of [] \<Rightarrow> [[c]] | h # t \<Rightarrow> (c # h) # t))"

definition split_first :: "char \<Rightarrow> string \<Rightarrow> string \<times> string option" where
  "split_first d s = (takeWhile (\<lambda>c. c \<noteq> d) s,
     (case dropWhile (\<lambda>c. c \<noteq> d) s of [] \<Rightarrow> None | _ # rest \<Rightarrow> Some rest))"

lemma split_on_not_Nil [simp]: "split_on d s \<noteq> []"
  by (induction s) (auto split: list.splits)

lemma split_on_no_sep: "d \<notin> set s \<Longrightarrow> split_on d s = [s]"
  by (induction s) auto

lemma split_on_append: "d \<notin> set s \<Longrightarrow> split_on d (s @ d # t) = s # split_on d t"
  by (induction s) auto

lemma split_first_sep: "d \<notin> set s \<Longrightarrow> split_first d (s @ d # t) = (s, Some t)"
proof -
  assume "d \<notin> set s"
  then have all: "\<And>c. c \<in> set s \<Longrightarrow> c \<noteq> d" by auto
  have "takeWhile (\<lambda>c. c \<noteq> d) (s @ d # t) = s @ takeWhile (\<lambda>c. c \<noteq> d) (d # t)"
    by (rule takeWhile_append2) (rule all)
  moreover have "dropWhile (\<lambda>c. c \<noteq> d) (s @ d # t) = dropWhile (\<lambda>c. c \<noteq> d) (d # t)"
    by (rule dropWhile_append2) (rule all)
  ultimately show ?thesis by (simp add: split_first_def)
qed

lemma split_first_no_sep:
  assumes "d \<notin> set s"
  shows "split_first d s = (s, None)"
proof -
  from assms have all: "\<And>c. c \<in> set s \<Longrightarrow> c \<noteq> d" by auto
  have "takeWhile (\<lambda>c. c \<noteq> d) s = s" and "dropWhile (\<lambda>c. c \<noteq> d) s = []"
    using all by (simp_all add: takeWhile_eq_all_conv dropWhile_eq_Nil_conv)
  then show ?thesis by (simp only: split_first_def list.case)
qed

text \<open>Decimal numerals: \<open>{}\<close> formatting of an unsigned integer and \<open>u64::from_str\<close>.\<close>

definition digit :: "nat \<Rightarrow> char" where
  "digit n = char_of (48 + n)"

fun dec :: "nat \<Rightarrow> string" where
  "dec n = (if n < 10 then [digit n] else dec (n div 10) @ [digit (n mod 10)])"

declare dec.simps [simp del]

definition is_digit :: "char \<Rightarrow> bool" where
  "is_digit c \<longleftrightarrow> 48 \<le> (of_char c :: nat) \<and> (of_char c :: nat) \<le> 57"

definition digits_value :: "string \<Rightarrow> int" where
  "digits_value s = foldl (\<lambda>n c. 10 * n + (of_char c - 48)) 0 s"

definition parse_u64 :: "string \<Rightarrow> u64 option" where
  "parse_u64 s =
     (let ds = (case s of [] \<Rightarrow> [] | c # cs \<Rightarrow> if c = CHR ''+'' then cs else s)
      in if ds = [] \<or> \<not> list_all is_digit ds then None
         else if digits_value ds < 2 ^ 64 then Some (word_of_int (digits_value ds)) else None)"

text \<open>\<open>i64::from_str\<close> (one sign, then digits, in range) and its printed form.\<close>

definition parse_i64 :: "string \<Rightarrow> int option" where
  "parse_i64 s =
     (let (neg, ds) = (case s of [] \<Rightarrow> (False, []) | c # cs \<Rightarrow>
                         if c = CHR ''-'' then (True, cs) else if c = CHR ''+'' then (False, cs) else (False, s));
          n = (if neg then - digits_value ds else digits_value ds)
      in if ds = [] \<or> \<not> list_all is_digit ds then None
         else if - (2 ^ 63) \<le> n \<and> n < 2 ^ 63 then Some n else None)"

definition show_i64 :: "int \<Rightarrow> string" where
  "show_i64 n = (if n < 0 then CHR ''-'' # dec (nat (- n)) else dec (nat n))"

lemma of_char_digit: "n < 10 \<Longrightarrow> (of_char (digit n) :: nat) = 48 + n"
  by (simp add: digit_def)

lemma of_char_digit_int: "n < 10 \<Longrightarrow> (of_char (digit n) :: int) = 48 + int n"
  using of_char_digit [of n] by (metis of_nat_add of_nat_numeral of_nat_of_char)

lemma is_digit_digit: "n < 10 \<Longrightarrow> is_digit (digit n)"
  by (simp add: is_digit_def of_char_digit)

lemma dec_digits: "list_all is_digit (dec n)"
proof (induction n rule: dec.induct)
  case (1 n)
  then show ?case by (subst dec.simps) (auto simp: is_digit_digit)
qed

lemma dec_not_Nil [simp]: "dec n \<noteq> []"
  by (subst dec.simps) simp

lemma digits_value_dec: "digits_value (dec n) = int n"
proof (induction n rule: dec.induct)
  case (1 n)
  show ?case
  proof (cases "n < 10")
    case True
    then show ?thesis by (subst dec.simps) (simp add: digits_value_def of_char_digit_int)
  next
    case False
    with 1 have "digits_value (dec (n div 10)) = int (n div 10)" by simp
    moreover have "10 * int (n div 10) + int (n mod 10) = int n"
      by (metis of_nat_add of_nat_mult of_nat_numeral mult_div_mod_eq)
    ultimately show ?thesis using False
      by (subst dec.simps) (simp add: digits_value_def of_char_digit_int)
  qed
qed

lemma no_char_in_dec: "\<not> is_digit c \<Longrightarrow> c \<notin> set (dec n)"
  using dec_digits [of n] by (auto simp: list_all_iff)

lemma not_digits [simp]:
  "\<not> is_digit CHR ''.''" "\<not> is_digit CHR ''-''" "\<not> is_digit CHR ''+''"
  by (simp_all add: is_digit_def)

lemma parse_u64_dec: "parse_u64 (dec (unat a)) = Some a"
proof -
  obtain c cs where d: "dec (unat a) = c # cs" by (cases "dec (unat a)") auto
  with no_char_in_dec [of "CHR ''+''" "unat a"] have "c \<noteq> CHR ''+''" by auto
  moreover have "uint a < 2 ^ 64" using uint_lt2p [of a] by simp
  ultimately show ?thesis
    using dec_digits [of "unat a"] digits_value_dec [of "unat a"] by (simp add: parse_u64_def d)
qed

section \<open>Ordered maps\<close>

text \<open>
  A \<open>BTreeMap\<close> as the list of its entries in key order: \<open>insert\<close> overwrites, \<open>collect\<close>
  inserts from left to right (so the last entry of a key wins), iteration is the list itself.
\<close>

type_synonym ('k, 'v) btree = "('k \<times> 'v) list"

fun btree_insert :: "'k::linorder \<Rightarrow> 'v \<Rightarrow> ('k, 'v) btree \<Rightarrow> ('k, 'v) btree" where
  "btree_insert k v [] = [(k, v)]"
| "btree_insert k v ((l, w) # m) =
     (if k < l then (k, v) # (l, w) # m
      else if k = l then (k, v) # m
      else (l, w) # btree_insert k v m)"

definition btree_of :: "('k::linorder \<times> 'v) list \<Rightarrow> ('k, 'v) btree" where
  "btree_of kvs = foldl (\<lambda>m (k, v). btree_insert k v m) [] kvs"

abbreviation btree_keys :: "('k, 'v) btree \<Rightarrow> 'k list" where
  "btree_keys m \<equiv> map fst m"

definition btree_wf :: "('k::linorder, 'v) btree \<Rightarrow> bool" where
  "btree_wf m \<longleftrightarrow> sorted_wrt (<) (btree_keys m)"

lemma set_btree_insert_keys [simp]:
  "fst ` set (btree_insert k v m) = insert k (fst ` set m)"
  by (induction k v m rule: btree_insert.induct) auto

lemma btree_wf_insert: "btree_wf m \<Longrightarrow> btree_wf (btree_insert k v m)"
proof (induction k v m rule: btree_insert.induct)
  case (2 k v l w m)
  then show ?case
    using set_btree_insert_keys [of k v m] by (auto simp: btree_wf_def simp del: set_btree_insert_keys)
qed (simp add: btree_wf_def)

lemma map_of_btree_insert:
  "btree_wf m \<Longrightarrow> map_of (btree_insert k v m) = (map_of m)(k \<mapsto> v)"
proof (induction k v m rule: btree_insert.induct)
  case (2 k v l w m)
  then show ?case by (auto simp: btree_wf_def fun_upd_twist)
qed simp

lemma btree_of_snoc: "btree_of (kvs @ [(k, v)]) = btree_insert k v (btree_of kvs)"
  by (simp add: btree_of_def)

lemma btree_wf_of [simp]: "btree_wf (btree_of kvs)"
proof (induction kvs rule: rev_induct)
  case Nil
  show ?case by (simp add: btree_of_def btree_wf_def)
next
  case (snoc x xs)
  then show ?case by (cases x) (simp add: btree_of_snoc btree_wf_insert)
qed

lemma map_of_btree_of: "map_of (btree_of kvs) = map_of (rev kvs)"
proof (induction kvs rule: rev_induct)
  case Nil
  show ?case by (simp add: btree_of_def)
next
  case (snoc x xs)
  then show ?case by (cases x) (simp add: btree_of_snoc map_of_btree_insert)
qed

lemma btree_keys_of: "fst ` set (btree_of kvs) = fst ` set kvs"
proof (induction kvs rule: rev_induct)
  case Nil
  show ?case by (simp add: btree_of_def)
next
  case (snoc x xs)
  then show ?case by (cases x) (simp add: btree_of_snoc)
qed

lemma btree_distinct: "btree_wf m \<Longrightarrow> distinct (btree_keys m)"
  by (simp add: btree_wf_def strict_sorted_iff)

lemma btree_mem: "btree_wf m \<Longrightarrow> (k, v) \<in> set m \<longleftrightarrow> map_of m k = Some v"
  using btree_distinct [of m] by (auto dest: map_of_SomeD)

text \<open>Ordered maps with the same lookups are the same.\<close>

lemma btree_ext:
  assumes "btree_wf m" and "btree_wf n" and "map_of m = map_of n"
  shows "m = n"
proof -
  have "set m = set n" using btree_mem [OF assms(1)] btree_mem [OF assms(2)] assms(3) by auto
  moreover have "btree_keys m = btree_keys n"
  proof (rule sorted_distinct_set_unique)
    show "set (btree_keys m) = set (btree_keys n)" using \<open>set m = set n\<close> by auto
  qed (use assms in \<open>simp_all add: btree_wf_def strict_sorted_iff\<close>)
  moreover have "map snd m = map (\<lambda>k. the (map_of m k)) (btree_keys m)" if "btree_wf m" for m :: "('a, 'b) btree"
    using btree_mem [OF that] by auto
  ultimately have "map snd m = map snd n" using assms by metis
  with \<open>btree_keys m = btree_keys n\<close> show ?thesis by (metis zip_map_fst_snd)
qed

text \<open>\<open>str::to_ascii_lowercase\<close>.\<close>

definition ascii_lower :: "string \<Rightarrow> string" where
  "ascii_lower s = map (\<lambda>c. let n = of_char c :: nat in if 65 \<le> n \<and> n \<le> 90 then char_of (n + 32) else c) s"

text \<open>\<open>Ord::clamp\<close> and \<open>Option::unwrap_or\<close>.\<close>

definition clamp :: "'a::linorder \<Rightarrow> 'a \<Rightarrow> 'a \<Rightarrow> 'a" where
  "clamp x lo hi = (if x < lo then lo else if hi < x then hi else x)"

definition unwrap_or :: "'a option \<Rightarrow> 'a \<Rightarrow> 'a" where
  "unwrap_or r d = (case r of Some x \<Rightarrow> x | None \<Rightarrow> d)"

end
