(* ===== verification/Semver.thy ===== *)
theory Semver
  imports Prelude
begin

text \<open>
  \<open>backend/shared/src/semver.rs\<close>: semantic versions (\<open>SemVer\<close>), their parsing and printing,
  their precedence order with pre-release identifiers, and the constraints
  \<open>VersionConstraint\<close> (exact, caret, tilde) that the dependency code evaluates.
\<close>

section \<open>Versions\<close>

record semver =
  sv_major :: u64
  sv_minor :: u64
  sv_patch :: u64
  sv_pre :: "string option"
  sv_build :: "string option"

text \<open>\<open>PartialEq\<close>: the build metadata is left out.\<close>

definition semver_eq :: "semver \<Rightarrow> semver \<Rightarrow> bool" where
  "semver_eq a b \<longleftrightarrow> sv_major a = sv_major b \<and> sv_minor a = sv_minor b
     \<and> sv_patch a = sv_patch b \<and> sv_pre a = sv_pre b"

definition semver_parse :: "string \<Rightarrow> semver option" where
  "semver_parse s =
     (let (version_part, build_metadata) = split_first CHR ''+'' s;
          (core_version, pre_release) = split_first CHR ''-'' version_part
      in case split_on CHR ''.'' core_version of
           [ma, mi, pa] \<Rightarrow>
             (case parse_u64 ma of None \<Rightarrow> None | Some major \<Rightarrow>
              (case parse_u64 mi of None \<Rightarrow> None | Some minor \<Rightarrow>
               (case parse_u64 pa of None \<Rightarrow> None | Some patch \<Rightarrow>
                 Some \<lparr>sv_major = major, sv_minor = minor, sv_patch = patch,
                       sv_pre = pre_release, sv_build = build_metadata\<rparr>)))
         | _ \<Rightarrow> None)"

definition semver_display :: "semver \<Rightarrow> string" where
  "semver_display v =
     dec (unat (sv_major v)) @ ''.'' @ dec (unat (sv_minor v)) @ ''.'' @ dec (unat (sv_patch v))
     @ (case sv_pre v of None \<Rightarrow> [] | Some pre \<Rightarrow> ''-'' @ pre)
     @ (case sv_build v of None \<Rightarrow> [] | Some build \<Rightarrow> ''+'' @ build)"

section \<open>Precedence\<close>

text \<open>One pair of dot-separated identifiers: numeric below alphanumeric, else by value or by bytes.\<close>

definition cmp_identifier :: "string \<Rightarrow> string \<Rightarrow> ordering" where
  "cmp_identifier a b =
     (case (parse_u64 a, parse_u64 b) of
        (Some m, Some n) \<Rightarrow> cmp_lin m n
      | (Some _, None) \<Rightarrow> Less
      | (None, Some _) \<Rightarrow> Greater
      | (None, None) \<Rightarrow> cmp_lin a b)"

fun cmp_identifiers :: "string list \<Rightarrow> string list \<Rightarrow> ordering" where
  "cmp_identifiers (a # as) (b # bs) =
     (case cmp_identifier a b of Equal \<Rightarrow> cmp_identifiers as bs | c \<Rightarrow> c)"
| "cmp_identifiers as bs = Equal"

text \<open>The loop over \<open>zip\<close> stops with the shorter list; equal so far, the lengths decide.\<close>

definition compare_pre_release :: "string \<Rightarrow> string \<Rightarrow> ordering" where
  "compare_pre_release a b =
     (let as = split_on CHR ''.'' a; bs = split_on CHR ''.'' b
      in case cmp_identifiers as bs of
           Equal \<Rightarrow> cmp_lin (length as) (length bs)
         | c \<Rightarrow> c)"

definition semver_cmp :: "semver \<Rightarrow> semver \<Rightarrow> ordering" where
  "semver_cmp v w =
     (let base_cmp = then_cmp (then_cmp (cmp_lin (sv_major v) (sv_major w))
                                        (cmp_lin (sv_minor v) (sv_minor w)))
                              (cmp_lin (sv_patch v) (sv_patch w))
      in if base_cmp \<noteq> Equal then base_cmp
         else case (sv_pre v, sv_pre w) of
                (None, None) \<Rightarrow> Equal
              | (Some _, None) \<Rightarrow> Less
              | (None, Some _) \<Rightarrow> Greater
              | (Some a, Some b) \<Rightarrow> compare_pre_release a b)"

section \<open>Constraints\<close>

datatype version_constraint = Exact semver | Caret semver | Tilde semver

definition constraint_parse :: "string \<Rightarrow> version_constraint option" where
  "constraint_parse s0 =
     (let s = trim s0 in
      case s of
        c # rest \<Rightarrow>
          (if c = CHR ''^'' then map_option Caret (semver_parse rest)
           else if c = CHR ''~'' then map_option Tilde (semver_parse rest)
           else map_option Exact (semver_parse s))
      | [] \<Rightarrow> map_option Exact (semver_parse s))"

fun constraint_matches :: "version_constraint \<Rightarrow> semver \<Rightarrow> bool" where
  "constraint_matches (Exact req) version = semver_eq version req"
| "constraint_matches (Caret req) version =
     (if semver_cmp version req = Less then False
      else if sv_major req = 0 then
        (if sv_minor req = 0 then
           sv_major version = 0 \<and> sv_minor version = 0 \<and> sv_patch version = sv_patch req
         else sv_major version = 0 \<and> sv_minor version = sv_minor req)
      else sv_major version = sv_major req)"
| "constraint_matches (Tilde req) version =
     (if semver_cmp version req = Less then False
      else sv_major version = sv_major req \<and> sv_minor version = sv_minor req)"

section \<open>The order is a total preorder\<close>

text \<open>
  Each identifier has a sort key, and the comparison of two versions is a lexicographic
  comparison of keys: release numbers, "has no pre-release", identifiers.
\<close>

definition identifier_key :: "string \<Rightarrow> nat \<times> nat \<times> string" where
  "identifier_key a = (case parse_u64 a of Some n \<Rightarrow> (0, unat n, []) | None \<Rightarrow> (1, 0, a))"

definition identifiers :: "string option \<Rightarrow> string list" where
  "identifiers p = (case p of None \<Rightarrow> [] | Some a \<Rightarrow> split_on CHR ''.'' a)"

definition core :: "semver \<Rightarrow> nat \<times> nat \<times> nat" where
  "core v = (unat (sv_major v), unat (sv_minor v), unat (sv_patch v))"

lemma cmp_identifier_key: "cmp_identifier a b = cmp_lin (identifier_key a) (identifier_key b)"
  by (simp add: cmp_identifier_def identifier_key_def cmp_lin_Pair cmp_lin_unat cmp_lin_def
      split: option.splits)

lemma cmp_identifiers_list:
  "(case cmp_identifiers as bs of Equal \<Rightarrow> cmp_lin (length as) (length bs) | c \<Rightarrow> c)
   = cmp_list cmp_identifier as bs"
proof (induction as arbitrary: bs)
  case Nil
  then show ?case by (cases bs) (simp_all add: cmp_lin_def)
next
  case (Cons a as)
  show ?case
  proof (cases bs)
    case Nil
    then show ?thesis by (simp add: cmp_lin_def)
  next
    case (Cons b bs')
    then show ?thesis
      using Cons.IH [of bs'] by (cases "cmp_identifier a b"; cases "cmp_identifiers as bs'") simp_all
  qed
qed

lemma semver_cmp_alt:
  "semver_cmp v w = then_cmp (cmp_lin (core v) (core w))
     (then_cmp (cmp_lin (sv_pre v = None) (sv_pre w = None))
        (cmp_list cmp_identifier (identifiers (sv_pre v)) (identifiers (sv_pre w))))"
proof -
  have base: "then_cmp (then_cmp (cmp_lin (sv_major v) (sv_major w)) (cmp_lin (sv_minor v) (sv_minor w)))
      (cmp_lin (sv_patch v) (sv_patch w)) = cmp_lin (core v) (core w)"
    by (simp add: core_def cmp_lin_Pair cmp_lin_unat then_cmp_assoc)
  have pre: "(case (sv_pre v, sv_pre w) of (None, None) \<Rightarrow> Equal | (Some _, None) \<Rightarrow> Less
      | (None, Some _) \<Rightarrow> Greater | (Some a, Some b) \<Rightarrow> compare_pre_release a b)
    = then_cmp (cmp_lin (sv_pre v = None) (sv_pre w = None))
        (cmp_list cmp_identifier (identifiers (sv_pre v)) (identifiers (sv_pre w)))"
    by (cases "sv_pre v"; cases "sv_pre w")
      (simp_all add: identifiers_def compare_pre_release_def cmp_identifiers_list Let_def cmp_lin_def)
  show ?thesis
    unfolding semver_cmp_def Let_def base pre by (cases "cmp_lin (core v) (core w)") simp_all
qed

lemma semver_rust_ord: "rust_ord semver_cmp"
proof -
  have "rust_ord (\<lambda>v w. then_cmp (cmp_lin (core v) (core w))
     (then_cmp (cmp_lin (sv_pre v = None) (sv_pre w = None))
        (cmp_list cmp_identifier (identifiers (sv_pre v)) (identifiers (sv_pre w)))))"
    unfolding cmp_identifier_key [abs_def]
    by (intro rust_ord_then rust_ord_key [OF rust_ord_lin]
        rust_ord_key [where f = "\<lambda>v. identifiers (sv_pre v)", OF rust_ord_list]
        rust_ord_key [where f = identifier_key, OF rust_ord_lin])
  then show ?thesis unfolding semver_cmp_alt [abs_def] .
qed

interpretation sv: rust_ord semver_cmp by (rule semver_rust_ord)

lemma identifier_rust_ord: "rust_ord cmp_identifier"
  unfolding cmp_identifier_key [abs_def] by (rule rust_ord_key [OF rust_ord_lin])

interpretation pre_ids: rust_ord "cmp_list cmp_identifier"
  by (rule rust_ord_list [OF identifier_rust_ord])

lemma semver_eq_cmp: "semver_eq u v \<Longrightarrow> semver_cmp u v = Equal"
  by (simp add: semver_eq_def semver_cmp_alt core_def pre_ids.cmp_refl)

section \<open>Properties\<close>

text \<open>
  \<open>SemVer::cmp\<close> is a total preorder on all versions, pre-releases included: reflexive,
  the swapped comparison is the reversed one, and transitive. Sorting versions and looking
  for a maximum are therefore well defined.
\<close>

theorem semver_cmp_total_preorder:
  "semver_cmp u u = Equal \<and> semver_cmp v u = reverse_ord (semver_cmp u v) \<and>
   (semver_cmp u v \<noteq> Greater \<and> semver_cmp v w \<noteq> Greater \<longrightarrow> semver_cmp u w \<noteq> Greater)"
  using sv.cmp_refl sv.cmp_sym [of v u] sv.cmp_trans [of u v w] by blast

definition v_1_0_0_alpha :: semver where
  "v_1_0_0_alpha = \<lparr>sv_major = 1, sv_minor = 0, sv_patch = 0, sv_pre = Some ''alpha'', sv_build = None\<rparr>"

definition v_1_0_0_alpha_1 :: semver where
  "v_1_0_0_alpha_1 = \<lparr>sv_major = 1, sv_minor = 0, sv_patch = 0, sv_pre = Some ''alpha.1'', sv_build = Some ''b''\<rparr>"

definition v_1_0_0 :: semver where
  "v_1_0_0 = \<lparr>sv_major = 1, sv_minor = 0, sv_patch = 0, sv_pre = None, sv_build = None\<rparr>"

theorem semver_cmp_total_preorder_witness:
  "semver_cmp v_1_0_0_alpha v_1_0_0_alpha_1 = Less \<and> semver_cmp v_1_0_0_alpha_1 v_1_0_0 = Less
   \<and> semver_cmp v_1_0_0_alpha v_1_0_0 \<noteq> Greater"
proof -
  have 1: "semver_cmp v_1_0_0_alpha v_1_0_0_alpha_1 = Less" by code_simp
  have 2: "semver_cmp v_1_0_0_alpha_1 v_1_0_0 = Less" by code_simp
  show ?thesis
    using semver_cmp_total_preorder [of v_1_0_0_alpha v_1_0_0_alpha_1 v_1_0_0] 1 2 by simp
qed

lemma dec_no_sep [simp]:
  "CHR ''.'' \<notin> set (dec n)" "CHR ''-'' \<notin> set (dec n)" "CHR ''+'' \<notin> set (dec n)"
  by (simp_all add: no_char_in_dec)

lemma split_first_opt:
  "d \<notin> set s \<Longrightarrow> split_first d (s @ (case x of None \<Rightarrow> [] | Some t \<Rightarrow> [d] @ t)) = (s, x)"
  by (cases x) (simp_all add: split_first_no_sep split_first_sep)

text \<open>
  Printing and parsing round-trip: whatever version \<open>Display\<close> prints, \<open>parse\<close> reads
  back unchanged, as long as its pre-release holds no \<open>+\<close> (no version that \<open>parse\<close> returned
  has one).
\<close>

theorem semver_parse_display:
  assumes "\<And>pre. sv_pre v = Some pre \<Longrightarrow> CHR ''+'' \<notin> set pre"
  shows "semver_parse (semver_display v) = Some v"
proof -
  define nums where "nums = dec (unat (sv_major v)) @ ''.'' @ dec (unat (sv_minor v)) @ ''.''
    @ dec (unat (sv_patch v))"
  define pre where "pre = (case sv_pre v of None \<Rightarrow> [] | Some p \<Rightarrow> ''-'' @ p)"
  have disp: "semver_display v = (nums @ pre) @ (case sv_build v of None \<Rightarrow> [] | Some b \<Rightarrow> ''+'' @ b)"
    by (simp add: semver_display_def nums_def pre_def)
  have "CHR ''+'' \<notin> set (nums @ pre)"
    using assms by (auto simp: nums_def pre_def split: option.splits)
  then have 1: "split_first CHR ''+'' (semver_display v) = (nums @ pre, sv_build v)"
    unfolding disp by (rule split_first_opt)
  have "CHR ''-'' \<notin> set nums" by (simp add: nums_def)
  then have 2: "split_first CHR ''-'' (nums @ pre) = (nums, sv_pre v)"
    unfolding pre_def by (rule split_first_opt)
  have 3: "split_on CHR ''.'' nums = [dec (unat (sv_major v)), dec (unat (sv_minor v)), dec (unat (sv_patch v))]"
    by (simp add: nums_def split_on_append split_on_no_sep)
  show ?thesis by (simp add: semver_parse_def 1 2 3 parse_u64_dec)
qed

theorem semver_parse_display_witness:
  "semver_display v_1_0_0_alpha_1 = ''1.0.0-alpha.1+b'' \<and>
   semver_parse (semver_display v_1_0_0_alpha_1) = Some v_1_0_0_alpha_1"
proof -
  have "semver_display v_1_0_0_alpha_1 = ''1.0.0-alpha.1+b''" by code_simp
  moreover have "semver_parse (semver_display v_1_0_0_alpha_1) = Some v_1_0_0_alpha_1"
    by (rule semver_parse_display) (auto simp: v_1_0_0_alpha_1_def)
  ultimately show ?thesis by blast
qed

text \<open>The documented meaning of the constraints: an interval of release numbers above the requirement.\<close>

fun caret_upper :: "nat \<times> nat \<times> nat \<Rightarrow> nat \<times> nat \<times> nat" where
  "caret_upper (ma, mi, pa) =
     (if ma = 0 then (if mi = 0 then (0, 0, pa + 1) else (0, mi + 1, 0)) else (ma + 1, 0, 0))"

fun tilde_upper :: "nat \<times> nat \<times> nat \<Rightarrow> nat \<times> nat \<times> nat" where
  "tilde_upper (ma, mi, pa) = (ma, mi + 1, 0)"

lemma core_le: "semver_cmp v r \<noteq> Less \<Longrightarrow> core r \<le> core v"
  by (auto simp: semver_cmp_alt cmp_simps not_less)

lemma core_lexi:
  "core v < (a, b, c) \<longleftrightarrow> unat (sv_major v) < a \<or> unat (sv_major v) = a \<and>
     (unat (sv_minor v) < b \<or> unat (sv_minor v) = b \<and> unat (sv_patch v) < c)"
  "core r \<le> core v \<longleftrightarrow> unat (sv_major r) < unat (sv_major v) \<or> sv_major r = sv_major v \<and>
     (unat (sv_minor r) < unat (sv_minor v) \<or> sv_minor r = sv_minor v \<and> unat (sv_patch r) \<le> unat (sv_patch v))"
  by (auto simp: core_def word_unat_eq_iff)

text \<open>
  A caret constraint holds exactly for the versions not below the requirement whose release
  numbers are below the next incompatible release (\<open>2.0.0\<close> for \<open>^1.2.3\<close>, \<open>0.3.0\<close> for \<open>^0.2.3\<close>,
  \<open>0.0.4\<close> for \<open>^0.0.3\<close>), a tilde constraint for those below the next minor release. The
  bound is on the release numbers, so a pre-release of the upper bound does not match.
\<close>

theorem constraint_matches_interval:
  "constraint_matches (Caret r) v = (semver_cmp v r \<noteq> Less \<and> core v < caret_upper (core r))
   \<and> constraint_matches (Tilde r) v = (semver_cmp v r \<noteq> Less \<and> core v < tilde_upper (core r))"
proof (cases "semver_cmp v r = Less")
  case True
  then show ?thesis by simp
next
  case False
  then have le: "core r \<le> core v" by (rule core_le)
  have "constraint_matches (Caret r) v = (core v < caret_upper (core r))"
    using le False unfolding core_lexi
    by (simp add: core_def word_unat_eq_iff) linarith
  moreover have "constraint_matches (Tilde r) v = (core v < tilde_upper (core r))"
    using le False unfolding core_lexi
    by (simp add: core_def word_unat_eq_iff) linarith
  ultimately show ?thesis using False by simp
qed

text \<open>
  The order and the equality of versions disagree: two versions can compare as \<open>Equal\<close>
  and still be different for \<open>==\<close>, because numeric pre-release identifiers are compared by
  value and \<open>==\<close> compares their text. The \<open>Ord\<close> contract asks for \<open>cmp = Equal\<close> exactly when
  \<open>==\<close>; one direction is \<open>semver_eq_cmp\<close>, the other fails for two strings that \<open>parse\<close>
  accepts, and an exact constraint on the one rejects the other.
\<close>

theorem semver_eq_cmp_disagree:
  "\<exists>a b. semver_parse ''1.0.0-01'' = Some a \<and> semver_parse ''1.0.0-1'' = Some b
      \<and> semver_cmp a b = Equal \<and> \<not> semver_eq a b \<and> \<not> constraint_matches (Exact a) b"
proof -
  define a where "a = \<lparr>sv_major = 1, sv_minor = 0, sv_patch = 0, sv_pre = Some ''01'', sv_build = None\<rparr>"
  define b where "b = \<lparr>sv_major = 1, sv_minor = 0, sv_patch = 0, sv_pre = Some ''1'', sv_build = None\<rparr>"
  have "semver_parse ''1.0.0-01'' = Some a" and "semver_parse ''1.0.0-1'' = Some b"
    and "semver_cmp a b = Equal"
    unfolding a_def b_def by code_simp+
  moreover have "\<not> semver_eq a b" and "\<not> constraint_matches (Exact a) b"
    by (simp_all add: semver_eq_def a_def b_def)
  ultimately show ?thesis by blast
qed

end
