(* ===== verification/Contract_Spec.thy ===== *)
theory Contract_Spec
  imports Prelude
begin

text \<open>
  \<open>backend/shared/src/contract_spec.rs\<close>: the entries of a Soroban \<open>contractspecv0\<close> section,
  the text form of its types, and the XDR reader that decodes the section.

  The reader's \<open>Cursor\<close> is a record of the section's bytes and the position; a reading method
  returns its value with the moved cursor or an error. The nesting counter \<open>type_depth\<close>
  goes up on entry to \<open>read_type_def\<close> and down on exit, so it is 0 at every outer call: it is
  the argument of \<open>read_type_def\<close> here, as the number of levels left (\<open>MAX_TYPE_DEPTH\<close> minus
  the counter), and the recursion is structural.

  The lemmas: every reader advances inside the section and reports its errors inside it,
  the loop over the entries terminates, what is read nests at most 32 levels, and reading
  inverts an XDR encoder.
\<close>

section \<open>Types and entries\<close>

datatype type_def =
    Val | Bool | Void | Error | U32 | I32 | U64 | I64 | Timepoint | Duration
  | U128 | I128 | U256 | I256 | Bytes | String | Symbol | Address | MuxedAddress
  | Option type_def
  | Result type_def type_def
  | Vec type_def
  | Map type_def type_def
  | Tuple "type_def list"
  | BytesN u32
  | Udt string

record fn_input = in_doc :: string  in_name :: string  in_type :: type_def

record fn_spec =
  fn_doc :: string  fn_name :: string  fn_inputs :: "fn_input list"  fn_outputs :: "type_def list"

record struct_field = sf_doc :: string  sf_name :: string  sf_type :: type_def

record struct_spec =
  st_doc :: string  st_lib :: string  st_name :: string  st_fields :: "struct_field list"

datatype union_case =
    VoidCase (uc_doc: string) (uc_name: string)
  | TupleCase (uc_doc: string) (uc_name: string) (uc_types: "type_def list")

record union_spec =
  un_doc :: string  un_lib :: string  un_name :: string  un_cases :: "union_case list"

record enum_case = ec_doc :: string  ec_name :: string  ec_value :: u32

record enum_spec =
  en_doc :: string  en_lib :: string  en_name :: string  en_cases :: "enum_case list"

datatype param_location = Data | TopicList

record event_param =
  ep_doc :: string  ep_name :: string  ep_type :: type_def  ep_location :: param_location

datatype data_format = SingleValue | VecFormat | MapFormat

record event_spec =
  ev_doc :: string  ev_lib :: string  ev_name :: string
  ev_prefix_topics :: "string list"  ev_params :: "event_param list"  ev_data_format :: data_format

text \<open>Error enums have the fields of enums.\<close>

datatype entry =
    FunctionV0 fn_spec | UdtStructV0 struct_spec | UdtUnionV0 union_spec
  | UdtEnumV0 enum_spec | UdtErrorEnumV0 enum_spec | EventV0 event_spec

text \<open>\<open>Display\<close> for types; the items of a tuple are separated by a comma and a blank.\<close>

fun join_comma :: "string list \<Rightarrow> string" where
  "join_comma [] = []"
| "join_comma [x] = x"
| "join_comma (x # y # xs) = x @ '', '' @ join_comma (y # xs)"

fun type_display :: "type_def \<Rightarrow> string" where
  "type_display Val = ''Val''"
| "type_display Bool = ''bool''"
| "type_display Void = ''void''"
| "type_display Error = ''error''"
| "type_display U32 = ''u32''"
| "type_display I32 = ''i32''"
| "type_display U64 = ''u64''"
| "type_display I64 = ''i64''"
| "type_display Timepoint = ''timepoint''"
| "type_display Duration = ''duration''"
| "type_display U128 = ''u128''"
| "type_display I128 = ''i128''"
| "type_display U256 = ''u256''"
| "type_display I256 = ''i256''"
| "type_display Bytes = ''bytes''"
| "type_display String = ''string''"
| "type_display Symbol = ''symbol''"
| "type_display Address = ''address''"
| "type_display MuxedAddress = ''muxed_address''"
| "type_display (Option t) = ''option<'' @ type_display t @ ''>''"
| "type_display (Result t e) = ''result<'' @ type_display t @ '', '' @ type_display e @ ''>''"
| "type_display (Vec t) = ''vec<'' @ type_display t @ ''>''"
| "type_display (Map k v) = ''map<'' @ type_display k @ '', '' @ type_display v @ ''>''"
| "type_display (Tuple ts) = ''tuple<'' @ join_comma (map type_display ts) @ ''>''"
| "type_display (BytesN n) = ''bytes'' @ dec (unat n)"
| "type_display (Udt name) = name"

section \<open>The reader\<close>

datatype spec_error =
    UnexpectedEof (err_at: nat)
  | InvalidDiscriminant (err_at: nat) (err_value: i32)
  | InvalidUtf8 (err_at: nat)
  | TrailingBytes (err_at: nat)
  | TypeNestingTooDeep (err_at: nat)

record cursor = bytes :: "u8 list"  pos :: nat

type_synonym 'a reader = "cursor \<Rightarrow> spec_error + ('a \<times> cursor)"

text \<open>The operator \<open>?\<close> between two reads, the final \<open>Ok\<close>, and an early \<open>Err\<close>.\<close>

definition and_then :: "'a reader \<Rightarrow> ('a \<Rightarrow> 'b reader) \<Rightarrow> 'b reader" where
  "and_then p f c = (case p c of Inl e \<Rightarrow> Err e | Inr (x, c') \<Rightarrow> f x c')"

definition give :: "'a \<Rightarrow> 'a reader" where
  "give x c = Ok (x, c)"

definition fail :: "spec_error \<Rightarrow> 'a reader" where
  "fail e c = Err e"

text \<open>The rest of a method that starts with \<open>let at = self.pos\<close>.\<close>

definition at_pos :: "(nat \<Rightarrow> 'a reader) \<Rightarrow> 'a reader" where
  "at_pos f c = f (pos c) c"

definition remaining :: "cursor \<Rightarrow> nat" where
  "remaining c = length (bytes c) - pos c"

definition from_be_bytes :: "u8 list \<Rightarrow> u32" where
  "from_be_bytes bs = of_nat (foldl (\<lambda>n b. 256 * n + unat b) 0 bs)"

definition read_u32 :: "u32 reader" where
  "read_u32 c =
     (if remaining c < 4 then Err (UnexpectedEof (pos c))
      else Ok (from_be_bytes (take 4 (drop (pos c) (bytes c))), c\<lparr>pos := pos c + 4\<rparr>))"

definition read_i32 :: "i32 reader" where
  "read_i32 = read_u32"

text \<open>\<open>read_var_bytes\<close>: the length, then that many bytes and the padding to a multiple of 4.\<close>

definition read_padded :: "u32 \<Rightarrow> u8 list reader" where
  "read_padded n c =
     (let len = unat n in
      if remaining c < len then Err (UnexpectedEof (pos c))
      else
        (let data = take len (drop (pos c) (bytes c));
             c1 = c\<lparr>pos := pos c + len\<rparr>;
             padding = (4 - len mod 4) mod 4
         in if remaining c1 < padding then Err (UnexpectedEof (pos c1))
            else Ok (data, c1\<lparr>pos := pos c1 + padding\<rparr>)))"

definition read_var_bytes :: "u8 list reader" where
  "read_var_bytes = and_then read_u32 read_padded"

text \<open>\<open>String::from_utf8\<close>: the well-formed byte sequences of the Unicode standard.\<close>

definition is_cont :: "nat \<Rightarrow> bool" where
  "is_cont b \<longleftrightarrow> 128 \<le> b \<and> b < 192"

definition utf8_lead3 :: "nat \<Rightarrow> nat \<Rightarrow> bool" where
  "utf8_lead3 b c \<longleftrightarrow> b = 224 \<and> 160 \<le> c \<and> c < 192 \<or> 225 \<le> b \<and> b \<le> 236 \<and> is_cont c
     \<or> b = 237 \<and> 128 \<le> c \<and> c < 160 \<or> 238 \<le> b \<and> b \<le> 239 \<and> is_cont c"

definition utf8_lead4 :: "nat \<Rightarrow> nat \<Rightarrow> bool" where
  "utf8_lead4 b c \<longleftrightarrow> b = 240 \<and> 144 \<le> c \<and> c < 192 \<or> 241 \<le> b \<and> b \<le> 243 \<and> is_cont c
     \<or> b = 244 \<and> 128 \<le> c \<and> c < 144"

fun valid_utf8 :: "nat list \<Rightarrow> bool" where
  "valid_utf8 [] = True"
| "valid_utf8 (b # bs) =
     (if b < 128 then valid_utf8 bs
      else case bs of
          [] \<Rightarrow> False
        | c1 # r1 \<Rightarrow>
            if 194 \<le> b \<and> b \<le> 223 then is_cont c1 \<and> valid_utf8 r1
            else case r1 of
                [] \<Rightarrow> False
              | c2 # r2 \<Rightarrow>
                  if utf8_lead3 b c1 then is_cont c2 \<and> valid_utf8 r2
                  else case r2 of
                      [] \<Rightarrow> False
                    | c3 # r3 \<Rightarrow> utf8_lead4 b c1 \<and> is_cont c2 \<and> is_cont c3 \<and> valid_utf8 r3)"

definition read_string :: "string reader" where
  "read_string =
     at_pos (\<lambda>at. and_then read_var_bytes (\<lambda>bs.
       if valid_utf8 (map unat bs) then give (map (\<lambda>b. char_of (unat b)) bs)
       else fail (InvalidUtf8 at)))"

primrec read_n :: "nat \<Rightarrow> 'a reader \<Rightarrow> 'a list reader" where
  "read_n 0 item = give []"
| "read_n (Suc n) item = and_then item (\<lambda>x. and_then (read_n n item) (\<lambda>xs. give (x # xs)))"

definition read_vec :: "'a reader \<Rightarrow> 'a list reader" where
  "read_vec item = and_then read_u32 (\<lambda>count. read_n (unat count) item)"

definition MAX_TYPE_DEPTH :: nat where
  "MAX_TYPE_DEPTH = 32"

text \<open>\<open>read_type_def_inner\<close>, given the reader for the nested types.\<close>

definition read_type_def_inner :: "type_def reader \<Rightarrow> type_def reader" where
  "read_type_def_inner nested = at_pos (\<lambda>at. and_then read_i32 (\<lambda>disc.
     if disc = 0 then give Val
     else if disc = 1 then give Bool
     else if disc = 2 then give Void
     else if disc = 3 then give Error
     else if disc = 4 then give U32
     else if disc = 5 then give I32
     else if disc = 6 then give U64
     else if disc = 7 then give I64
     else if disc = 8 then give Timepoint
     else if disc = 9 then give Duration
     else if disc = 10 then give U128
     else if disc = 11 then give I128
     else if disc = 12 then give U256
     else if disc = 13 then give I256
     else if disc = 14 then give Bytes
     else if disc = 16 then give String
     else if disc = 17 then give Symbol
     else if disc = 19 then give Address
     else if disc = 20 then give MuxedAddress
     else if disc = 1000 then and_then nested (\<lambda>t. give (Option t))
     else if disc = 1001 then and_then nested (\<lambda>t. and_then nested (\<lambda>e. give (Result t e)))
     else if disc = 1002 then and_then nested (\<lambda>t. give (Vec t))
     else if disc = 1004 then and_then nested (\<lambda>k. and_then nested (\<lambda>v. give (Map k v)))
     else if disc = 1005 then and_then (read_vec nested) (\<lambda>ts. give (Tuple ts))
     else if disc = 1006 then and_then read_u32 (\<lambda>n. give (BytesN n))
     else if disc = 2000 then and_then read_string (\<lambda>name. give (Udt name))
     else fail (InvalidDiscriminant at disc)))"

primrec read_type_def_at :: "nat \<Rightarrow> type_def reader" where
  "read_type_def_at 0 = at_pos (\<lambda>at. fail (TypeNestingTooDeep at))"
| "read_type_def_at (Suc levels) = read_type_def_inner (read_type_def_at levels)"

definition read_type_def :: "type_def reader" where
  "read_type_def = read_type_def_at MAX_TYPE_DEPTH"

definition read_function_input :: "fn_input reader" where
  "read_function_input =
     and_then read_string (\<lambda>doc. and_then read_string (\<lambda>name. and_then read_type_def (\<lambda>t.
       give \<lparr>in_doc = doc, in_name = name, in_type = t\<rparr>)))"

definition read_function :: "fn_spec reader" where
  "read_function =
     and_then read_string (\<lambda>doc. and_then read_string (\<lambda>name.
     and_then (read_vec read_function_input) (\<lambda>inputs. and_then (read_vec read_type_def) (\<lambda>outputs.
       give \<lparr>fn_doc = doc, fn_name = name, fn_inputs = inputs, fn_outputs = outputs\<rparr>))))"

definition read_struct_field :: "struct_field reader" where
  "read_struct_field =
     and_then read_string (\<lambda>doc. and_then read_string (\<lambda>name. and_then read_type_def (\<lambda>t.
       give \<lparr>sf_doc = doc, sf_name = name, sf_type = t\<rparr>)))"

definition read_struct :: "struct_spec reader" where
  "read_struct =
     and_then read_string (\<lambda>doc. and_then read_string (\<lambda>lib. and_then read_string (\<lambda>name.
     and_then (read_vec read_struct_field) (\<lambda>fields.
       give \<lparr>st_doc = doc, st_lib = lib, st_name = name, st_fields = fields\<rparr>))))"

definition read_union_case :: "union_case reader" where
  "read_union_case = at_pos (\<lambda>at. and_then read_i32 (\<lambda>kind.
     if kind = 0 then
       and_then read_string (\<lambda>doc. and_then read_string (\<lambda>name. give (VoidCase doc name)))
     else if kind = 1 then
       and_then read_string (\<lambda>doc. and_then read_string (\<lambda>name.
       and_then (read_vec read_type_def) (\<lambda>types. give (TupleCase doc name types))))
     else fail (InvalidDiscriminant at kind)))"

definition read_union :: "union_spec reader" where
  "read_union =
     and_then read_string (\<lambda>doc. and_then read_string (\<lambda>lib. and_then read_string (\<lambda>name.
     and_then (read_vec read_union_case) (\<lambda>cases.
       give \<lparr>un_doc = doc, un_lib = lib, un_name = name, un_cases = cases\<rparr>))))"

definition read_enum_case :: "enum_case reader" where
  "read_enum_case =
     and_then read_string (\<lambda>doc. and_then read_string (\<lambda>name. and_then read_u32 (\<lambda>v.
       give \<lparr>ec_doc = doc, ec_name = name, ec_value = v\<rparr>)))"

definition read_enum :: "enum_spec reader" where
  "read_enum =
     and_then read_string (\<lambda>doc. and_then read_string (\<lambda>lib. and_then read_string (\<lambda>name.
     and_then (read_vec read_enum_case) (\<lambda>cases.
       give \<lparr>en_doc = doc, en_lib = lib, en_name = name, en_cases = cases\<rparr>))))"

text \<open>\<open>read_error_enum\<close> reads the same fields in the same order.\<close>

definition read_error_enum :: "enum_spec reader" where
  "read_error_enum =
     and_then read_string (\<lambda>doc. and_then read_string (\<lambda>lib. and_then read_string (\<lambda>name.
     and_then (read_vec read_enum_case) (\<lambda>cases.
       give \<lparr>en_doc = doc, en_lib = lib, en_name = name, en_cases = cases\<rparr>))))"

definition read_event_param :: "event_param reader" where
  "read_event_param =
     and_then read_string (\<lambda>doc. and_then read_string (\<lambda>name. and_then read_type_def (\<lambda>t.
     at_pos (\<lambda>at. and_then read_i32 (\<lambda>l.
       if l = 0 then give \<lparr>ep_doc = doc, ep_name = name, ep_type = t, ep_location = Data\<rparr>
       else if l = 1 then give \<lparr>ep_doc = doc, ep_name = name, ep_type = t, ep_location = TopicList\<rparr>
       else fail (InvalidDiscriminant at l))))))"

definition read_data_format :: "data_format reader" where
  "read_data_format = at_pos (\<lambda>at. and_then read_i32 (\<lambda>d.
     if d = 0 then give SingleValue else if d = 1 then give VecFormat
     else if d = 2 then give MapFormat else fail (InvalidDiscriminant at d)))"

definition read_event :: "event_spec reader" where
  "read_event =
     and_then read_string (\<lambda>doc. and_then read_string (\<lambda>lib. and_then read_string (\<lambda>name.
     and_then (read_vec read_string) (\<lambda>topics. and_then (read_vec read_event_param) (\<lambda>params.
     and_then read_data_format (\<lambda>fmt.
       give \<lparr>ev_doc = doc, ev_lib = lib, ev_name = name, ev_prefix_topics = topics,
             ev_params = params, ev_data_format = fmt\<rparr>))))))"

definition read_entry :: "entry reader" where
  "read_entry = at_pos (\<lambda>at. and_then read_i32 (\<lambda>kind.
     if kind = 0 then and_then read_function (\<lambda>x. give (FunctionV0 x))
     else if kind = 1 then and_then read_struct (\<lambda>x. give (UdtStructV0 x))
     else if kind = 2 then and_then read_union (\<lambda>x. give (UdtUnionV0 x))
     else if kind = 3 then and_then read_enum (\<lambda>x. give (UdtEnumV0 x))
     else if kind = 4 then and_then read_error_enum (\<lambda>x. give (UdtErrorEnumV0 x))
     else if kind = 5 then and_then read_event (\<lambda>x. give (EventV0 x))
     else fail (InvalidDiscriminant at kind)))"

section \<open>Every reader stays inside the section\<close>

text \<open>
  The contract between a reading method and the methods that call it, over a section of \<open>n\<close>
  bytes: on success it leaves the bytes alone and moves the position forward by at least
  \<open>width\<close>, not past the end; an error names a position of the section, and is never
  \<open>TrailingBytes\<close>.
\<close>

locale xdr_reader =
  fixes n :: nat and width :: nat and rd :: "'a reader"
  assumes advances: "length (bytes c) = n \<Longrightarrow> pos c \<le> n \<Longrightarrow> rd c = Ok (x, c') \<Longrightarrow>
      bytes c' = bytes c \<and> pos c + width \<le> pos c' \<and> pos c' \<le> n"
    and errors: "length (bytes c) = n \<Longrightarrow> pos c \<le> n \<Longrightarrow> rd c = Err e \<Longrightarrow>
      err_at e \<le> n \<and> (\<forall>at. e \<noteq> TrailingBytes at)"

named_theorems xdr "readers that meet the contract of \<open>xdr_reader\<close>"

lemma xdr_and_then [xdr]:
  assumes p: "xdr_reader n w p" and f: "\<And>x. xdr_reader n 0 (f x)"
  shows "xdr_reader n w (and_then p f)"
proof unfold_locales
  fix c x c'
  assume c: "length (bytes c) = n" "pos c \<le> n" and "and_then p f c = Ok (x, c')"
  then obtain y c1 where p1: "p c = Ok (y, c1)" and f1: "f y c1 = Ok (x, c')"
    by (auto simp: and_then_def split: sum.splits)
  have "bytes c1 = bytes c \<and> pos c + w \<le> pos c1 \<and> pos c1 \<le> n"
    by (rule xdr_reader.advances [OF p c p1])
  then show "bytes c' = bytes c \<and> pos c + w \<le> pos c' \<and> pos c' \<le> n"
    using xdr_reader.advances [OF f _ _ f1] c by simp
next
  fix c e
  assume c: "length (bytes c) = n" "pos c \<le> n" and e: "and_then p f c = Err e"
  show "err_at e \<le> n \<and> (\<forall>at. e \<noteq> TrailingBytes at)"
  proof (cases "p c")
    case (Inl e')
    with e have "p c = Err e" by (simp add: and_then_def)
    then show ?thesis by (rule xdr_reader.errors [OF p c])
  next
    case (Inr r)
    then obtain y c1 where p1: "p c = Ok (y, c1)" by (cases r) auto
    with e have f1: "f y c1 = Err e" by (simp add: and_then_def)
    have "bytes c1 = bytes c \<and> pos c + w \<le> pos c1 \<and> pos c1 \<le> n"
      by (rule xdr_reader.advances [OF p c p1])
    then show ?thesis by (intro xdr_reader.errors [OF f _ _ f1]) (simp_all add: c)
  qed
qed

lemma xdr_at_pos [xdr]:
  assumes "\<And>at. at \<le> n \<Longrightarrow> xdr_reader n w (f at)"
  shows "xdr_reader n w (at_pos f)"
proof unfold_locales
  fix c x c'
  assume c: "length (bytes c) = n" "pos c \<le> n" and "at_pos f c = Ok (x, c')"
  then have "f (pos c) c = Ok (x, c')" by (simp add: at_pos_def)
  from xdr_reader.advances [OF assms [OF c(2)] c this]
  show "bytes c' = bytes c \<and> pos c + w \<le> pos c' \<and> pos c' \<le> n" .
next
  fix c e
  assume c: "length (bytes c) = n" "pos c \<le> n" and "at_pos f c = Err e"
  then have "f (pos c) c = Err e" by (simp add: at_pos_def)
  from xdr_reader.errors [OF assms [OF c(2)] c this]
  show "err_at e \<le> n \<and> (\<forall>at. e \<noteq> TrailingBytes at)" .
qed

lemma xdr_give [xdr]: "xdr_reader n 0 (give x)"
  by unfold_locales (auto simp: give_def)

lemma xdr_fail [xdr]:
  "at \<le> n \<Longrightarrow> xdr_reader n w (fail (InvalidDiscriminant at v))"
  "at \<le> n \<Longrightarrow> xdr_reader n w (fail (InvalidUtf8 at))"
  "at \<le> n \<Longrightarrow> xdr_reader n w (fail (TypeNestingTooDeep at))"
  by (unfold_locales; auto simp: fail_def)+

lemma xdr_if [xdr]:
  "(b \<Longrightarrow> xdr_reader n w p) \<Longrightarrow> (\<not> b \<Longrightarrow> xdr_reader n w q) \<Longrightarrow> xdr_reader n w (if b then p else q)"
  by simp

lemma xdr_weaken:
  assumes "xdr_reader n w p"
  shows "xdr_reader n 0 p"
proof unfold_locales
  fix c x c'
  assume "length (bytes c) = n" "pos c \<le> n" "p c = Ok (x, c')"
  from xdr_reader.advances [OF assms this] show "bytes c' = bytes c \<and> pos c + 0 \<le> pos c' \<and> pos c' \<le> n"
    by simp
next
  fix c e
  assume "length (bytes c) = n" "pos c \<le> n" "p c = Err e"
  then show "err_at e \<le> n \<and> (\<forall>at. e \<noteq> TrailingBytes at)" by (rule xdr_reader.errors [OF assms])
qed

lemma xdr_read_u32: "xdr_reader n 4 read_u32"
  by unfold_locales (auto simp: read_u32_def remaining_def split: if_splits)

lemma xdr_read_i32: "xdr_reader n 4 read_i32"
  unfolding read_i32_def by (rule xdr_read_u32)

lemma xdr_read_var_bytes: "xdr_reader n 4 read_var_bytes"
  unfolding read_var_bytes_def
  by (intro xdr_and_then xdr_read_u32, unfold_locales)
    (auto simp: read_padded_def Let_def remaining_def split: if_splits)

lemma xdr_read_string: "xdr_reader n 4 read_string"
  unfolding read_string_def by (intro xdr xdr_read_var_bytes)

lemma xdr_read_n: "xdr_reader n 0 item \<Longrightarrow> xdr_reader n 0 (read_n k item)"
  by (induction k) (auto intro!: xdr)

lemma xdr_read_vec: "xdr_reader n 0 item \<Longrightarrow> xdr_reader n 4 (read_vec item)"
  unfolding read_vec_def by (intro xdr xdr_read_u32 xdr_read_n)

lemmas [xdr] = xdr_read_u32 xdr_read_i32 xdr_read_string xdr_read_vec
  xdr_read_u32 [THEN xdr_weaken] xdr_read_i32 [THEN xdr_weaken] xdr_read_string [THEN xdr_weaken]
  xdr_read_vec [THEN xdr_weaken]

lemma xdr_read_type_def_inner:
  "xdr_reader n 0 nested \<Longrightarrow> xdr_reader n 4 (read_type_def_inner nested)"
  unfolding read_type_def_inner_def by (intro xdr)

lemma xdr_read_type_def_at: "xdr_reader n 0 (read_type_def_at k)"
  by (induction k) (auto intro!: xdr xdr_read_type_def_inner [THEN xdr_weaken])

lemma xdr_read_type_def [xdr]: "xdr_reader n 0 read_type_def"
  unfolding read_type_def_def by (rule xdr_read_type_def_at)

lemma xdr_read_items [xdr]:
  "xdr_reader n 0 read_function_input" "xdr_reader n 0 read_struct_field"
  "xdr_reader n 0 read_union_case" "xdr_reader n 0 read_enum_case"
  "xdr_reader n 0 read_event_param" "xdr_reader n 0 read_data_format"
  unfolding read_function_input_def read_struct_field_def read_union_case_def read_enum_case_def
    read_event_param_def read_data_format_def
  by (intro xdr; simp)+

lemma xdr_read_bodies [xdr]:
  "xdr_reader n 0 read_function" "xdr_reader n 0 read_struct" "xdr_reader n 0 read_union"
  "xdr_reader n 0 read_enum" "xdr_reader n 0 read_error_enum" "xdr_reader n 0 read_event"
  unfolding read_function_def read_struct_def read_union_def read_enum_def read_error_enum_def
    read_event_def
  by (intro xdr; simp)+

interpretation entry: xdr_reader n 4 read_entry for n
  unfolding read_entry_def by (intro xdr)

section \<open>The loop over the entries\<close>

text \<open>\<open>parse_contract_spec\<close>: entries are read until no byte remains.\<close>

lemma cursor_inside:
  assumes "read_entry c = Ok (e, c')" and "0 < remaining c"
  shows "remaining c' < remaining c"
proof -
  from assms(2) have "pos c \<le> length (bytes c)" by (simp add: remaining_def)
  from entry.advances [OF refl this assms(1)] have "bytes c' = bytes c" and "pos c + 4 \<le> pos c'"
    and "pos c' \<le> length (bytes c)" by simp_all
  then show ?thesis by (simp add: remaining_def)
qed

function parse_entries :: "cursor \<Rightarrow> spec_error + entry list" where
  "parse_entries c =
     (if 0 < remaining c then
        (case read_entry c of
           Inl e \<Rightarrow> Err e
         | Inr r \<Rightarrow> (case parse_entries (snd r) of Inl e \<Rightarrow> Err e | Inr es \<Rightarrow> Ok (fst r # es)))
      else Ok [])"
  by pat_completeness auto
termination
  by (relation "measure remaining") (auto simp: cursor_inside)

declare parse_entries.simps [simp del]

definition parse_contract_spec :: "u8 list \<Rightarrow> spec_error + entry list" where
  "parse_contract_spec bs = parse_entries \<lparr>bytes = bs, pos = 0\<rparr>"

section \<open>The encoder\<close>

text \<open>
  The XDR encoding that the reader decodes, and the values that have one: lengths below
  \<open>2^32\<close>, strings of well-formed UTF-8, at most \<open>k\<close> levels of type nesting.
\<close>

definition enc_u32 :: "u32 \<Rightarrow> u8 list" where
  "enc_u32 v = map (\<lambda>k. of_nat (unat v div 256 ^ k)) [3, 2, 1, 0]"

definition padding :: "nat \<Rightarrow> u8 list" where
  "padding len = replicate ((4 - len mod 4) mod 4) 0"

definition enc_string :: "string \<Rightarrow> u8 list" where
  "enc_string s = enc_u32 (of_nat (length s)) @ map (\<lambda>c. of_nat (of_char c)) s @ padding (length s)"

definition enc_vec :: "('a \<Rightarrow> u8 list) \<Rightarrow> 'a list \<Rightarrow> u8 list" where
  "enc_vec enc xs = enc_u32 (of_nat (length xs)) @ concat (map enc xs)"

lemma enc_vec_cong [fundef_cong]:
  "xs = ys \<Longrightarrow> (\<And>x. x \<in> set ys \<Longrightarrow> f x = g x) \<Longrightarrow> enc_vec f xs = enc_vec g ys"
  by (auto simp: enc_vec_def cong: map_cong)

fun enc_type :: "type_def \<Rightarrow> u8 list" where
  "enc_type Val = enc_u32 0"
| "enc_type Bool = enc_u32 1"
| "enc_type Void = enc_u32 2"
| "enc_type Error = enc_u32 3"
| "enc_type U32 = enc_u32 4"
| "enc_type I32 = enc_u32 5"
| "enc_type U64 = enc_u32 6"
| "enc_type I64 = enc_u32 7"
| "enc_type Timepoint = enc_u32 8"
| "enc_type Duration = enc_u32 9"
| "enc_type U128 = enc_u32 10"
| "enc_type I128 = enc_u32 11"
| "enc_type U256 = enc_u32 12"
| "enc_type I256 = enc_u32 13"
| "enc_type Bytes = enc_u32 14"
| "enc_type String = enc_u32 16"
| "enc_type Symbol = enc_u32 17"
| "enc_type Address = enc_u32 19"
| "enc_type MuxedAddress = enc_u32 20"
| "enc_type (Option t) = enc_u32 1000 @ enc_type t"
| "enc_type (Result t e) = enc_u32 1001 @ enc_type t @ enc_type e"
| "enc_type (Vec t) = enc_u32 1002 @ enc_type t"
| "enc_type (Map k v) = enc_u32 1004 @ enc_type k @ enc_type v"
| "enc_type (Tuple ts) = enc_u32 1005 @ enc_vec enc_type ts"
| "enc_type (BytesN n) = enc_u32 1006 @ enc_u32 n"
| "enc_type (Udt name) = enc_u32 2000 @ enc_string name"

definition wf_string :: "string \<Rightarrow> bool" where
  "wf_string s \<longleftrightarrow> length s < 2 ^ 32 \<and> valid_utf8 (codes s)"

definition wf_vec :: "('a \<Rightarrow> bool) \<Rightarrow> 'a list \<Rightarrow> bool" where
  "wf_vec ok xs \<longleftrightarrow> length xs < 2 ^ 32 \<and> list_all ok xs"

fun wf_type :: "nat \<Rightarrow> type_def \<Rightarrow> bool" where
  "wf_type 0 t = False"
| "wf_type (Suc k) t =
     (case t of
        Option a \<Rightarrow> wf_type k a
      | Result a e \<Rightarrow> wf_type k a \<and> wf_type k e
      | Vec a \<Rightarrow> wf_type k a
      | Map a b \<Rightarrow> wf_type k a \<and> wf_type k b
      | Tuple ts \<Rightarrow> wf_vec (wf_type k) ts
      | Udt name \<Rightarrow> wf_string name
      | _ \<Rightarrow> True)"

definition enc_input :: "fn_input \<Rightarrow> u8 list" where
  "enc_input i = enc_string (in_doc i) @ enc_string (in_name i) @ enc_type (in_type i)"

definition wf_input :: "fn_input \<Rightarrow> bool" where
  "wf_input i \<longleftrightarrow> wf_string (in_doc i) \<and> wf_string (in_name i) \<and> wf_type MAX_TYPE_DEPTH (in_type i)"

definition enc_function :: "fn_spec \<Rightarrow> u8 list" where
  "enc_function f = enc_string (fn_doc f) @ enc_string (fn_name f) @
     enc_vec enc_input (fn_inputs f) @ enc_vec enc_type (fn_outputs f)"

definition wf_function :: "fn_spec \<Rightarrow> bool" where
  "wf_function f \<longleftrightarrow> wf_string (fn_doc f) \<and> wf_string (fn_name f) \<and>
     wf_vec wf_input (fn_inputs f) \<and> wf_vec (wf_type MAX_TYPE_DEPTH) (fn_outputs f)"

definition enc_field :: "struct_field \<Rightarrow> u8 list" where
  "enc_field i = enc_string (sf_doc i) @ enc_string (sf_name i) @ enc_type (sf_type i)"

definition wf_field :: "struct_field \<Rightarrow> bool" where
  "wf_field i \<longleftrightarrow> wf_string (sf_doc i) \<and> wf_string (sf_name i) \<and> wf_type MAX_TYPE_DEPTH (sf_type i)"

definition enc_struct :: "struct_spec \<Rightarrow> u8 list" where
  "enc_struct s = enc_string (st_doc s) @ enc_string (st_lib s) @ enc_string (st_name s) @
     enc_vec enc_field (st_fields s)"

definition wf_struct :: "struct_spec \<Rightarrow> bool" where
  "wf_struct s \<longleftrightarrow> wf_string (st_doc s) \<and> wf_string (st_lib s) \<and> wf_string (st_name s) \<and>
     wf_vec wf_field (st_fields s)"

fun enc_union_case :: "union_case \<Rightarrow> u8 list" where
  "enc_union_case (VoidCase d n) = enc_u32 0 @ enc_string d @ enc_string n"
| "enc_union_case (TupleCase d n ts) = enc_u32 1 @ enc_string d @ enc_string n @ enc_vec enc_type ts"

fun wf_union_case :: "union_case \<Rightarrow> bool" where
  "wf_union_case (VoidCase d n) \<longleftrightarrow> wf_string d \<and> wf_string n"
| "wf_union_case (TupleCase d n ts) \<longleftrightarrow>
     wf_string d \<and> wf_string n \<and> wf_vec (wf_type MAX_TYPE_DEPTH) ts"

definition enc_union :: "union_spec \<Rightarrow> u8 list" where
  "enc_union u = enc_string (un_doc u) @ enc_string (un_lib u) @ enc_string (un_name u) @
     enc_vec enc_union_case (un_cases u)"

definition wf_union :: "union_spec \<Rightarrow> bool" where
  "wf_union u \<longleftrightarrow> wf_string (un_doc u) \<and> wf_string (un_lib u) \<and> wf_string (un_name u) \<and>
     wf_vec wf_union_case (un_cases u)"

definition enc_enum_case :: "enum_case \<Rightarrow> u8 list" where
  "enc_enum_case e = enc_string (ec_doc e) @ enc_string (ec_name e) @ enc_u32 (ec_value e)"

definition wf_enum_case :: "enum_case \<Rightarrow> bool" where
  "wf_enum_case e \<longleftrightarrow> wf_string (ec_doc e) \<and> wf_string (ec_name e)"

definition enc_enum :: "enum_spec \<Rightarrow> u8 list" where
  "enc_enum u = enc_string (en_doc u) @ enc_string (en_lib u) @ enc_string (en_name u) @
     enc_vec enc_enum_case (en_cases u)"

definition wf_enum :: "enum_spec \<Rightarrow> bool" where
  "wf_enum u \<longleftrightarrow> wf_string (en_doc u) \<and> wf_string (en_lib u) \<and> wf_string (en_name u) \<and>
     wf_vec wf_enum_case (en_cases u)"

definition enc_param :: "event_param \<Rightarrow> u8 list" where
  "enc_param p = enc_string (ep_doc p) @ enc_string (ep_name p) @ enc_type (ep_type p) @
     enc_u32 (case ep_location p of Data \<Rightarrow> 0 | TopicList \<Rightarrow> 1)"

definition wf_param :: "event_param \<Rightarrow> bool" where
  "wf_param p \<longleftrightarrow> wf_string (ep_doc p) \<and> wf_string (ep_name p) \<and> wf_type MAX_TYPE_DEPTH (ep_type p)"

definition enc_event :: "event_spec \<Rightarrow> u8 list" where
  "enc_event v = enc_string (ev_doc v) @ enc_string (ev_lib v) @ enc_string (ev_name v) @
     enc_vec enc_string (ev_prefix_topics v) @ enc_vec enc_param (ev_params v) @
     enc_u32 (case ev_data_format v of SingleValue \<Rightarrow> 0 | VecFormat \<Rightarrow> 1 | MapFormat \<Rightarrow> 2)"

definition wf_event :: "event_spec \<Rightarrow> bool" where
  "wf_event v \<longleftrightarrow> wf_string (ev_doc v) \<and> wf_string (ev_lib v) \<and> wf_string (ev_name v) \<and>
     wf_vec wf_string (ev_prefix_topics v) \<and> wf_vec wf_param (ev_params v)"

fun enc_entry :: "entry \<Rightarrow> u8 list" where
  "enc_entry (FunctionV0 f) = enc_u32 0 @ enc_function f"
| "enc_entry (UdtStructV0 s) = enc_u32 1 @ enc_struct s"
| "enc_entry (UdtUnionV0 u) = enc_u32 2 @ enc_union u"
| "enc_entry (UdtEnumV0 e) = enc_u32 3 @ enc_enum e"
| "enc_entry (UdtErrorEnumV0 e) = enc_u32 4 @ enc_enum e"
| "enc_entry (EventV0 v) = enc_u32 5 @ enc_event v"

fun wf_entry :: "entry \<Rightarrow> bool" where
  "wf_entry (FunctionV0 f) = wf_function f"
| "wf_entry (UdtStructV0 s) = wf_struct s"
| "wf_entry (UdtUnionV0 u) = wf_union u"
| "wf_entry (UdtEnumV0 e) = wf_enum e"
| "wf_entry (UdtErrorEnumV0 e) = wf_enum e"
| "wf_entry (EventV0 v) = wf_event v"

section \<open>Reading inverts encoding\<close>

text \<open>The cursor between the bytes read and the bytes to read.\<close>

definition cur :: "u8 list \<Rightarrow> u8 list \<Rightarrow> cursor" where
  "cur read rest = \<lparr>bytes = read @ rest, pos = length read\<rparr>"

text \<open>
  A reader and an encoder that belong together: on an encoded value, whatever stands before
  and after it, the reader returns the value and stops right behind it.
\<close>

locale xdr_codec =
  fixes rd :: "'a reader" and enc :: "'a \<Rightarrow> u8 list" and wf :: "'a \<Rightarrow> bool"
  assumes decodes: "wf x \<Longrightarrow> rd (cur pre (enc x @ rest)) = Ok (x, cur (pre @ enc x) rest)"
begin

lemma decodes_then: "wf x \<Longrightarrow> and_then rd f (cur pre (enc x @ rest)) = f x (cur (pre @ enc x) rest)"
  by (simp add: and_then_def decodes)

lemma decodes_n:
  "list_all wf xs \<Longrightarrow>
   read_n (length xs) rd (cur pre (concat (map enc xs) @ rest)) =
     Ok (xs, cur (pre @ concat (map enc xs)) rest)"
proof (induction xs arbitrary: pre)
  case Nil
  then show ?case by (simp add: give_def)
next
  case (Cons x xs)
  then show ?case by (simp add: decodes_then and_then_def [of "read_n _ _"] give_def)
qed

end

named_theorems codec "what readers return on encoded values"

lemma foldl_be: "(v :: nat) < 2 ^ 32 \<Longrightarrow>
  ((v div 256 ^ 3 * 256 + v div 256 ^ 2 mod 256) * 256 + v div 256 mod 256) * 256 + v mod 256 = v"
proof -
  have "v div 256 ^ 2 = v div 256 div 256" and "v div 256 ^ 3 = v div 256 div 256 div 256"
    by (simp_all add: div_mult2_eq [symmetric])
  then show ?thesis by (simp only: div_mult_mod_eq)
qed

lemma from_be_bytes_enc: "from_be_bytes (enc_u32 v) = v"
proof -
  have v: "unat v < 2 ^ 32" using unat_lt_exp [of v] by simp
  then have top: "unat v div 256 ^ 3 < 256" by (simp add: less_mult_imp_div_less)
  have byte: "unat (of_nat n :: u8) = n mod 256" for n
    by (simp add: unsigned_of_nat take_bit_eq_mod)
  have bytes: "map unat (enc_u32 v) = [unat v div 256 ^ 3, unat v div 256 ^ 2 mod 256,
      unat v div 256 mod 256, unat v mod 256]"
    using top by (simp only: enc_u32_def list.map byte power_0 power_one_right div_by_1 mod_less)
  have "from_be_bytes (enc_u32 v) = of_nat (foldl (\<lambda>n b. 256 * n + b) 0 (map unat (enc_u32 v)))"
    by (simp only: from_be_bytes_def foldl_map)
  also have "\<dots> = of_nat (((unat v div 256 ^ 3 * 256 + unat v div 256 ^ 2 mod 256) * 256
      + unat v div 256 mod 256) * 256 + unat v mod 256)"
    by (simp only: bytes foldl.simps mult_0_right add_0 mult.commute [of 256] mult_zero_left)
  also have "\<dots> = v" by (simp only: foldl_be [OF v]) simp
  finally show ?thesis .
qed

lemma length_enc_u32 [simp]: "length (enc_u32 v) = 4"
  by (simp add: enc_u32_def)

interpretation u32_codec: xdr_codec read_u32 enc_u32 "\<lambda>_. True"
  by unfold_locales (simp add: read_u32_def cur_def remaining_def from_be_bytes_enc)

interpretation i32_codec: xdr_codec read_i32 enc_u32 "\<lambda>_. True"
  unfolding read_i32_def by (rule u32_codec.xdr_codec_axioms)

lemmas [codec] = u32_codec.decodes_then [OF TrueI] i32_codec.decodes_then [OF TrueI]

lemma give_at [codec]: "give x c = Ok (x, c)"
  by (simp add: give_def)

lemma at_pos_cur [codec]: "at_pos f (cur pre rest) = f (length pre) (cur pre rest)"
  by (simp add: at_pos_def cur_def)

lemma unat_of_length: "length xs < 2 ^ 32 \<Longrightarrow> unat (of_nat (length xs) :: u32) = length xs"
  by (simp add: unsigned_of_nat take_bit_eq_mod)

lemma unat_char: "unat (of_nat (of_char c) :: u8) = of_char c"
  by (simp only: unsigned_of_nat take_bit_eq_mod) simp

lemma char_byte: "char_of (unat (of_nat (of_char c) :: u8)) = c"
  by (simp only: unat_char char_of_char)

lemma length_padding [simp]: "length (padding len) = (4 - len mod 4) mod 4"
  by (simp add: padding_def)

lemma read_var_bytes_cur:
  assumes "length bs < 2 ^ 32"
  shows "read_var_bytes (cur pre (enc_u32 (of_nat (length bs)) @ bs @ padding (length bs) @ rest)) =
    Ok (bs, cur (pre @ enc_u32 (of_nat (length bs)) @ bs @ padding (length bs)) rest)"
  unfolding read_var_bytes_def u32_codec.decodes_then [OF TrueI]
  by (simp add: read_padded_def unat_of_length [OF assms] cur_def remaining_def Let_def)

lemma read_string_codec: "xdr_codec read_string enc_string wf_string"
proof unfold_locales
  fix s pre rest
  assume s: "wf_string s"
  define bs :: "u8 list" where "bs = map (\<lambda>c. of_nat (of_char c)) s"
  have len: "length bs = length s" by (simp add: bs_def)
  have chars: "map (\<lambda>b. char_of (unat b)) bs = s" by (simp add: bs_def char_byte map_idI)
  have "map unat bs = codes s" by (simp add: codes_def bs_def unat_char)
  then have valid: "valid_utf8 (map unat bs)" using s by (simp add: wf_string_def)
  have enc: "enc_string s = enc_u32 (of_nat (length bs)) @ bs @ padding (length bs)"
    by (simp add: enc_string_def bs_def)
  have "length bs < 2 ^ 32" using s by (simp add: wf_string_def len)
  from read_var_bytes_cur [OF this, of pre rest]
  show "read_string (cur pre (enc_string s @ rest)) = Ok (s, cur (pre @ enc_string s) rest)"
    by (simp add: read_string_def at_pos_def and_then_def enc valid chars give_at)
qed

interpretation string_codec: xdr_codec read_string enc_string wf_string
  by (rule read_string_codec)

lemma read_vec_codec:
  assumes "xdr_codec rd enc ok"
  shows "xdr_codec (read_vec rd) (enc_vec enc) (wf_vec ok)"
proof unfold_locales
  fix xs pre rest
  assume "wf_vec ok xs"
  then have len: "length xs < 2 ^ 32" and ok: "list_all ok xs" by (simp_all add: wf_vec_def)
  show "read_vec rd (cur pre (enc_vec enc xs @ rest)) = Ok (xs, cur (pre @ enc_vec enc xs) rest)"
    using xdr_codec.decodes_n [OF assms ok, of "pre @ enc_u32 (of_nat (length xs))" rest]
    by (simp add: read_vec_def enc_vec_def codec unat_of_length [OF len])
qed

lemmas [codec] = string_codec.decodes_then

text \<open>Types, by the number of levels.\<close>

lemma read_type_codec: "xdr_codec (read_type_def_at k) enc_type (wf_type k)"
proof (induction k)
  case 0
  show ?case by unfold_locales simp
next
  case (Suc k)
  note [codec] = xdr_codec.decodes_then [OF Suc] xdr_codec.decodes_then [OF read_vec_codec [OF Suc]]
  show ?case
  proof unfold_locales
    fix t pre rest
    assume "wf_type (Suc k) t"
    then show "read_type_def_at (Suc k) (cur pre (enc_type t @ rest)) = Ok (t, cur (pre @ enc_type t) rest)"
      by (cases t) (simp_all add: read_type_def_inner_def codec)
  qed
qed

lemma read_type_def_codec: "xdr_codec read_type_def enc_type (wf_type MAX_TYPE_DEPTH)"
  unfolding read_type_def_def by (rule read_type_codec)

interpretation type_codec: xdr_codec read_type_def enc_type "wf_type MAX_TYPE_DEPTH"
  by (rule read_type_def_codec)

lemmas [codec] = type_codec.decodes_then
  xdr_codec.decodes_then [OF read_vec_codec [OF read_type_def_codec]]
  xdr_codec.decodes_then [OF read_vec_codec [OF read_string_codec]]

text \<open>The bodies, each from the readers and the encoders of its parts.\<close>

lemma read_input_codec: "xdr_codec read_function_input enc_input wf_input"
  by unfold_locales (simp add: read_function_input_def enc_input_def wf_input_def codec)

lemma read_function_codec: "xdr_codec read_function enc_function wf_function"
  by unfold_locales (simp add: read_function_def enc_function_def wf_function_def codec
      xdr_codec.decodes_then [OF read_vec_codec [OF read_input_codec]])

lemma read_field_codec: "xdr_codec read_struct_field enc_field wf_field"
  by unfold_locales (simp add: read_struct_field_def enc_field_def wf_field_def codec)

lemma read_struct_codec: "xdr_codec read_struct enc_struct wf_struct"
  by unfold_locales (simp add: read_struct_def enc_struct_def wf_struct_def codec
      xdr_codec.decodes_then [OF read_vec_codec [OF read_field_codec]])

lemma read_union_case_codec: "xdr_codec read_union_case enc_union_case wf_union_case"
proof unfold_locales
  fix u pre rest
  assume "wf_union_case u"
  then show "read_union_case (cur pre (enc_union_case u @ rest)) = Ok (u, cur (pre @ enc_union_case u) rest)"
    by (cases u) (simp_all add: read_union_case_def codec)
qed

lemma read_union_codec: "xdr_codec read_union enc_union wf_union"
  by unfold_locales (simp add: read_union_def enc_union_def wf_union_def codec
      xdr_codec.decodes_then [OF read_vec_codec [OF read_union_case_codec]])

lemma read_enum_case_codec: "xdr_codec read_enum_case enc_enum_case wf_enum_case"
  by unfold_locales (simp add: read_enum_case_def enc_enum_case_def wf_enum_case_def codec)

lemma read_enum_codec: "xdr_codec read_enum enc_enum wf_enum"
  by unfold_locales (simp add: read_enum_def enc_enum_def wf_enum_def codec
      xdr_codec.decodes_then [OF read_vec_codec [OF read_enum_case_codec]])

lemma read_error_enum_codec: "xdr_codec read_error_enum enc_enum wf_enum"
  by unfold_locales (simp add: read_error_enum_def enc_enum_def wf_enum_def codec
      xdr_codec.decodes_then [OF read_vec_codec [OF read_enum_case_codec]])

lemma read_param_codec: "xdr_codec read_event_param enc_param wf_param"
  by unfold_locales (simp add: read_event_param_def enc_param_def wf_param_def codec
      split: param_location.split)

lemma read_data_format_cur [codec]:
  "and_then read_data_format f (cur pre (enc_u32 (case d of SingleValue \<Rightarrow> 0 | VecFormat \<Rightarrow> 1
     | MapFormat \<Rightarrow> 2) @ rest)) =
   f d (cur (pre @ enc_u32 (case d of SingleValue \<Rightarrow> 0 | VecFormat \<Rightarrow> 1 | MapFormat \<Rightarrow> 2)) rest)"
  by (cases d) (simp_all add: read_data_format_def and_then_def [of "at_pos _"] codec)

lemma read_event_codec: "xdr_codec read_event enc_event wf_event"
  by unfold_locales (simp add: read_event_def enc_event_def wf_event_def codec
      xdr_codec.decodes_then [OF read_vec_codec [OF read_param_codec]])

lemmas body_codecs = read_function_codec read_struct_codec read_union_codec read_enum_codec
  read_error_enum_codec read_event_codec

interpretation entry_codec: xdr_codec read_entry enc_entry wf_entry
proof unfold_locales
  fix e pre rest
  assume "wf_entry e"
  then show "read_entry (cur pre (enc_entry e @ rest)) = Ok (e, cur (pre @ enc_entry e) rest)"
    by (cases e) (simp_all add: read_entry_def codec body_codecs [THEN xdr_codec.decodes_then])
qed

lemma parse_entries_encoded:
  "list_all wf_entry es \<Longrightarrow> parse_entries (cur pre (concat (map enc_entry es))) = Ok es"
proof (induction es arbitrary: pre)
  case Nil
  have "\<not> 0 < remaining (cur pre [])" by (simp add: remaining_def cur_def)
  then show ?case by (subst parse_entries.simps) simp
next
  case (Cons e es)
  have "0 < length (enc_entry e)" by (cases e) simp_all
  then have rem: "0 < remaining (cur pre (enc_entry e @ concat (map enc_entry es)))"
    by (simp add: remaining_def cur_def)
  from Cons show ?case
    by (subst parse_entries.simps) (simp add: rem entry_codec.decodes)
qed

text \<open>
  C5. Reading a section inverts encoding it: whatever well-formed entries (functions, structs,
  unions, enums, error enums and events, with types nested at most 32 levels, UTF-8 strings
  and lengths below \<open>2^32\<close>) are encoded back to back, \<open>parse_contract_spec\<close> returns exactly
  them, in order, and consumes every byte.
\<close>

theorem parse_contract_spec_encoded:
  assumes "list_all wf_entry es"
  shows "parse_contract_spec (concat (map enc_entry es)) = Ok es"
  using parse_entries_encoded [OF assms, of "[]"] by (simp add: parse_contract_spec_def cur_def)

definition sample_spec :: "entry list" where
  "sample_spec =
     [FunctionV0 \<lparr>fn_doc = '''', fn_name = ''get'',
        fn_inputs = [\<lparr>in_doc = ''key'', in_name = ''k'', in_type = Map Symbol (Vec (Option U32))\<rparr>],
        fn_outputs = [Tuple [Udt ''Point'', BytesN 32]]\<rparr>,
      UdtEnumV0 \<lparr>en_doc = '''', en_lib = '''', en_name = ''Kind'',
        en_cases = [\<lparr>ec_doc = '''', ec_name = ''A'', ec_value = 7\<rparr>]\<rparr>]"

lemma wf_type_numeral:
  "wf_type (numeral k) t =
     (case t of
        Option a \<Rightarrow> wf_type (pred_numeral k) a
      | Result a e \<Rightarrow> wf_type (pred_numeral k) a \<and> wf_type (pred_numeral k) e
      | Vec a \<Rightarrow> wf_type (pred_numeral k) a
      | Map a b \<Rightarrow> wf_type (pred_numeral k) a \<and> wf_type (pred_numeral k) b
      | Tuple ts \<Rightarrow> wf_vec (wf_type (pred_numeral k)) ts
      | Udt name \<Rightarrow> wf_string name
      | _ \<Rightarrow> True)"
  by (simp only: numeral_eq_Suc wf_type.simps)

lemma sample_spec_wf: "list_all wf_entry sample_spec"
  by (simp add: sample_spec_def wf_function_def wf_string_def wf_vec_def wf_input_def wf_enum_def
      wf_enum_case_def codes_def MAX_TYPE_DEPTH_def wf_type_numeral)

theorem parse_contract_spec_encoded_witness:
  "parse_contract_spec (concat (map enc_entry sample_spec)) = Ok sample_spec"
  by (rule parse_contract_spec_encoded [OF sample_spec_wf])

section \<open>What is read is well formed\<close>

definition yields :: "('a \<Rightarrow> bool) \<Rightarrow> 'a reader \<Rightarrow> bool" where
  "yields ok rd \<longleftrightarrow> (\<forall>c x c'. rd c = Ok (x, c') \<longrightarrow> ok x)"

named_theorems yield "what readers yield"

lemma yields_and_then:
  assumes "yields ok p" and "\<And>x. ok x \<Longrightarrow> yields ok' (f x)"
  shows "yields ok' (and_then p f)"
  unfolding yields_def
proof (intro allI impI)
  fix c x c'
  assume "and_then p f c = Ok (x, c')"
  then obtain y c1 where "p c = Ok (y, c1)" and "f y c1 = Ok (x, c')"
    by (auto simp: and_then_def split: sum.splits)
  with assms show "ok' x" unfolding yields_def by blast
qed

lemma yields_simple [yield]:
  "ok x \<Longrightarrow> yields ok (give x)"
  "yields ok (fail e)"
  "(\<And>at. yields ok (g at)) \<Longrightarrow> yields ok (at_pos g)"
  "(b \<Longrightarrow> yields ok p) \<Longrightarrow> (\<not> b \<Longrightarrow> yields ok q) \<Longrightarrow> yields ok (if b then p else q)"
  by (auto simp: yields_def give_def fail_def at_pos_def)

lemma yields_number [yield]:
  "(\<And>n. yields ok (f n)) \<Longrightarrow> yields ok (and_then read_u32 f)"
  "(\<And>n. yields ok (f n)) \<Longrightarrow> yields ok (and_then read_i32 f)"
  by (rule yields_and_then [of "\<lambda>_. True"], simp add: yields_def, simp)+

lemma yields_read_var_bytes: "yields (\<lambda>bs. length bs < 2 ^ 32) read_var_bytes"
proof -
  have "length (take (unat n) bs) < 2 ^ 32" for n :: u32 and bs :: "u8 list"
    using unat_lt_exp [of n] by (simp add: min_less_iff_disj)
  then have "yields (\<lambda>bs. length bs < 2 ^ 32) (read_padded n)" for n
    by (auto simp: yields_def read_padded_def Let_def simp del: length_take split: if_splits)
  then show ?thesis unfolding read_var_bytes_def by (intro yield)
qed

lemma yields_read_string: "yields wf_string read_string"
proof -
  have "codes (map (\<lambda>b. char_of (unat b)) bs) = map unat bs" for bs :: "u8 list"
    using unat_lt_exp [where 'l = 8] by (auto simp: codes_def)
  then show ?thesis
    unfolding read_string_def
    by (intro yields_and_then [OF yields_read_var_bytes] yields_simple) (simp_all add: wf_string_def)
qed

lemma yields_read_vec:
  assumes "yields ok item"
  shows "yields (wf_vec ok) (read_vec item)"
proof -
  have "yields (\<lambda>xs. length xs = k \<and> list_all ok xs) (read_n k item)" for k
  proof (induction k)
    case 0
    show ?case by (simp add: yields_def give_def)
  next
    case (Suc k)
    then show ?case unfolding read_n.simps by (intro yields_and_then [OF assms] yields_and_then [OF Suc] yields_simple) simp
  qed
  then have "yields (wf_vec ok) (read_n (unat n) item)" for n :: u32
    using unat_lt_exp [of n] by (fastforce simp: yields_def wf_vec_def)
  then show ?thesis unfolding read_vec_def by (intro yield)
qed

lemmas [yield] = yields_and_then [OF yields_read_string]

lemma yields_read_type_def_at: "yields (wf_type k) (read_type_def_at k)"
proof (induction k)
  case 0
  show ?case unfolding read_type_def_at.simps by (intro yield)
next
  case (Suc k)
  note nested = yields_and_then [OF Suc] yields_and_then [OF yields_read_vec [OF Suc]]
  show ?case
    unfolding read_type_def_at.simps read_type_def_inner_def by (intro yield nested) simp_all
qed

lemma yields_read_type_def: "yields (wf_type MAX_TYPE_DEPTH) read_type_def"
  unfolding read_type_def_def by (rule yields_read_type_def_at)

lemmas [yield] = yields_and_then [OF yields_read_type_def]
  yields_and_then [OF yields_read_vec [OF yields_read_type_def]]
  yields_and_then [OF yields_read_vec [OF yields_read_string]]

lemma yields_items:
  "yields wf_input read_function_input" "yields wf_field read_struct_field"
  "yields wf_union_case read_union_case" "yields wf_enum_case read_enum_case"
  "yields wf_param read_event_param" "yields (\<lambda>_. True) read_data_format"
  unfolding read_function_input_def read_struct_field_def read_union_case_def read_enum_case_def
    read_event_param_def read_data_format_def
  by ((intro yield)?; simp add: wf_input_def wf_field_def wf_enum_case_def wf_param_def yields_def)+

lemmas [yield] = yields_items [THEN yields_read_vec, THEN yields_and_then]
  yields_items(6) [THEN yields_and_then]

lemma yields_bodies:
  "yields wf_function read_function" "yields wf_struct read_struct" "yields wf_union read_union"
  "yields wf_enum read_enum" "yields wf_enum read_error_enum" "yields wf_event read_event"
  unfolding read_function_def read_struct_def read_union_def read_enum_def read_error_enum_def
    read_event_def
  by (intro yield; simp add: wf_function_def wf_struct_def wf_union_def wf_enum_def wf_event_def)+

lemmas [yield] = yields_bodies [THEN yields_and_then]

lemma yields_read_entry: "yields wf_entry read_entry"
  unfolding read_entry_def by (intro yield) simp_all

lemma parse_entries_ok:
  "parse_entries c = Ok es \<Longrightarrow> list_all wf_entry es \<and> 4 * length es \<le> remaining c"
proof (induction c arbitrary: es rule: parse_entries.induct)
  case (1 c)
  show ?case
  proof (cases "0 < remaining c")
    case True
    with "1.prems" obtain e c' es' where e: "read_entry c = Ok (e, c')"
      and es': "parse_entries c' = Ok es'" and es: "es = e # es'"
      by (subst (asm) parse_entries.simps) (auto split: sum.splits)
    from "1.IH" [OF True e] es' have IH: "list_all wf_entry es' \<and> 4 * length es' \<le> remaining c'" by simp
    from True have "pos c \<le> length (bytes c)" by (simp add: remaining_def)
    from entry.advances [OF refl this e] have "bytes c' = bytes c" and "pos c + 4 \<le> pos c'"
      and "pos c' \<le> length (bytes c)" by simp_all
    then have "remaining c' + 4 \<le> remaining c" by (simp add: remaining_def)
    moreover have "wf_entry e" using yields_read_entry e by (auto simp: yields_def)
    ultimately show ?thesis using IH by (simp add: es)
  next
    case False
    with "1.prems" show ?thesis by (subst (asm) parse_entries.simps) simp
  qed
qed

text \<open>
  Whatever bytes stand in the section, an accepted section yields entries in which every
  type is nested at most 32 levels, every string is well-formed UTF-8 and every vector has
  fewer than \<open>2^32\<close> items, and there are at most a quarter as many entries as bytes.
\<close>

theorem parse_contract_spec_well_formed:
  assumes "parse_contract_spec bs = Ok es"
  shows "list_all wf_entry es \<and> 4 * length es \<le> length bs"
  using parse_entries_ok [OF assms [unfolded parse_contract_spec_def]] by (simp add: remaining_def)

theorem parse_contract_spec_well_formed_witness:
  "list_all wf_entry sample_spec \<and>
   4 * length sample_spec \<le> length (concat (map enc_entry sample_spec))"
  by (rule parse_contract_spec_well_formed)
    (use parse_entries_encoded [OF sample_spec_wf, of "[]"] in
      \<open>simp add: parse_contract_spec_def cur_def\<close>)

lemma parse_entries_err:
  "parse_entries c = Err e \<Longrightarrow> err_at e \<le> length (bytes c) \<and> (\<forall>at. e \<noteq> TrailingBytes at)"
proof (induction c rule: parse_entries.induct)
  case (1 c)
  show ?case
  proof (cases "0 < remaining c")
    case True
    then have c: "pos c \<le> length (bytes c)" by (simp add: remaining_def)
    show ?thesis
    proof (cases "read_entry c")
      case (Inl e')
      with True "1.prems" have "read_entry c = Err e" by (subst (asm) parse_entries.simps) simp
      then show ?thesis by (rule entry.errors [OF refl c])
    next
      case (Inr r)
      then obtain x c' where r: "read_entry c = Ok (x, c')" by (cases r) auto
      with True "1.prems" have "parse_entries c' = Err e"
        by (subst (asm) parse_entries.simps) (simp split: sum.splits)
      with "1.IH" [OF True r] entry.advances [OF refl c r] show ?thesis by simp
    qed
  next
    case False
    with "1.prems" show ?thesis by (subst (asm) parse_entries.simps) simp
  qed
qed

text \<open>
  A rejected section is rejected with an error that points into the section (at most one
  past its last byte), and the error is never \<open>TrailingBytes\<close>: no reading method reports it.
\<close>

theorem parse_contract_spec_error:
  assumes "parse_contract_spec bs = Err e"
  shows "err_at e \<le> length bs \<and> (\<forall>at. e \<noteq> TrailingBytes at)"
  using parse_entries_err [OF assms [unfolded parse_contract_spec_def]] by simp

theorem parse_contract_spec_error_witness:
  "err_at (UnexpectedEof 0) \<le> length [0 :: u8, 0, 0] \<and> (\<forall>at. UnexpectedEof 0 \<noteq> TrailingBytes at)"
proof (rule parse_contract_spec_error)
  show "parse_contract_spec [0, 0, 0] = Err (UnexpectedEof 0)"
    by (simp add: parse_contract_spec_def parse_entries.simps remaining_def read_entry_def at_pos_def
        and_then_def read_i32_def read_u32_def)
qed

lemma read_nested_options:
  "read_type_def_at k (cur pre (enc_type ((Option ^^ n) Val) @ rest)) =
     (if n < k then Ok ((Option ^^ n) Val, cur (pre @ enc_type ((Option ^^ n) Val)) rest)
      else Err (TypeNestingTooDeep (length pre + 4 * k)))"
proof (induction k arbitrary: n pre)
  case 0
  show ?case by (simp add: codec fail_def)
next
  case (Suc k)
  show ?case
  proof (cases n)
    case 0
    then show ?thesis by (simp add: read_type_def_inner_def codec)
  next
    case (Suc m)
    have "read_type_def_at (Suc k) (cur pre (enc_type ((Option ^^ n) Val) @ rest)) =
      and_then (read_type_def_at k) (\<lambda>t. give (Option t))
        (cur (pre @ enc_u32 1000) (enc_type ((Option ^^ m) Val) @ rest))"
      by (simp add: Suc read_type_def_inner_def codec)
    then show ?thesis
      using Suc.IH [of "pre @ enc_u32 1000" m] by (simp add: Suc and_then_def give_def)
  qed
qed

text \<open>
  Nesting is cut off exactly at \<open>MAX_TYPE_DEPTH\<close>: \<open>n\<close> options around \<open>val\<close> are read back
  for up to 31 options, and from 32 on the reader fails, at the byte where the 33rd level starts.
\<close>

theorem nesting_limit:
  "read_type_def (cur pre (enc_type ((Option ^^ n) Val) @ rest)) =
     (if n < 32 then Ok ((Option ^^ n) Val, cur (pre @ enc_type ((Option ^^ n) Val)) rest)
      else Err (TypeNestingTooDeep (length pre + 128)))"
  by (simp add: read_type_def_def MAX_TYPE_DEPTH_def read_nested_options)

end
