(* ===== verification/Compatibility.thy ===== *)
theory Compatibility
  imports Contract_Spec
begin

text \<open>
  \<open>backend/shared/src/contract_compatibility.rs\<close>: the classification of the differences between
  two contract specs.

  A diff function that pushes onto \<open>changes\<close> is the list of what it pushes, in the order of the
  pushes. The indices are ordered maps (\<open>btree_of\<close>), so of two entries of one name the last
  counts. The lemmas give, for each of the six diff functions, the highest level it reports as a
  condition on the two indices; together they say what a verdict \<open>Compatible\<close> means.
\<close>

section \<open>Levels, changes and reports\<close>

datatype compat_level = Compatible | PotentiallyBreaking | Breaking | Unknown

fun severity_rank :: "compat_level \<Rightarrow> nat" where
  "severity_rank Compatible = 0"
| "severity_rank PotentiallyBreaking = 1"
| "severity_rank Breaking = 2"
| "severity_rank Unknown = 3"

definition level_max :: "compat_level \<Rightarrow> compat_level \<Rightarrow> compat_level" where
  "level_max a b = (if severity_rank b > severity_rank a then b else a)"

datatype change_category = FunctionChange | TypeChange | EventChange | ErrorChange | NetworkChange

record change =
  category :: change_category
  level :: compat_level
  subject :: string
  description :: string

definition change_of :: "change_category \<Rightarrow> compat_level \<Rightarrow> string \<Rightarrow> string \<Rightarrow> change" where
  "change_of cat lev subj desc = \<lparr>category = cat, level = lev, subject = subj, description = desc\<rparr>"

record compat_report =
  algorithm :: string
  overall :: compat_level
  changes :: "change list"

definition ALGORITHM :: string where
  "ALGORITHM = ''soroban-compatibility-v1''"

definition report_unknown :: "string \<Rightarrow> compat_report" where
  "report_unknown reason =
     \<lparr>algorithm = ALGORITHM, overall = Unknown,
      changes = [change_of FunctionChange Unknown ''spec'' reason]\<rparr>"

definition meets :: "compat_level \<Rightarrow> compat_level \<Rightarrow> bool" where
  "meets threshold lev =
     (case threshold of
        Breaking \<Rightarrow> lev = Breaking
      | PotentiallyBreaking \<Rightarrow> lev \<in> {Breaking, PotentiallyBreaking}
      | Unknown \<Rightarrow> lev \<in> {Breaking, PotentiallyBreaking, Unknown}
      | Compatible \<Rightarrow> True)"

definition has_at_least :: "compat_report \<Rightarrow> compat_level \<Rightarrow> bool" where
  "has_at_least r threshold \<longleftrightarrow>
     list_ex (\<lambda>c. meets threshold (level c)) (changes r) \<or> meets threshold (overall r)"

datatype spec_source = Entries "entry list" | Missing | Malformed string

text \<open>The network context holds only the optional passphrase.\<close>

type_synonym network_context = "string option"

fun union_case_types :: "union_case \<Rightarrow> type_def list" where
  "union_case_types (VoidCase d n) = []"
| "union_case_types (TupleCase d n ts) = ts"

section \<open>The indices\<close>

definition index_by_name :: "entry list \<Rightarrow> (entry \<Rightarrow> 'a option) \<Rightarrow> ('a \<Rightarrow> string) \<Rightarrow> (string, 'a) btree" where
  "index_by_name entries select name_of =
     btree_of (map (\<lambda>item. (name_of item, item)) (List.map_filter select entries))"

fun select_function :: "entry \<Rightarrow> fn_spec option" where
  "select_function (FunctionV0 f) = Some f"
| "select_function _ = None"

fun select_struct :: "entry \<Rightarrow> struct_spec option" where
  "select_struct (UdtStructV0 s) = Some s"
| "select_struct _ = None"

fun select_union :: "entry \<Rightarrow> union_spec option" where
  "select_union (UdtUnionV0 u) = Some u"
| "select_union _ = None"

fun select_enum :: "entry \<Rightarrow> enum_spec option" where
  "select_enum (UdtEnumV0 e) = Some e"
| "select_enum _ = None"

fun select_error_enum :: "entry \<Rightarrow> enum_spec option" where
  "select_error_enum (UdtErrorEnumV0 e) = Some e"
| "select_error_enum _ = None"

fun select_event :: "entry \<Rightarrow> event_spec option" where
  "select_event (EventV0 v) = Some v"
| "select_event _ = None"

text \<open>
  The shape that the diff functions share: the entries of the first index, each removed or
  matched, then the keys that only the second index has.
\<close>

definition diff_index :: "('k \<Rightarrow> 'a \<Rightarrow> change list) \<Rightarrow> ('k \<Rightarrow> 'a \<Rightarrow> 'b \<Rightarrow> change list) \<Rightarrow>
    ('k \<Rightarrow> 'b \<Rightarrow> change list) \<Rightarrow> ('k, 'a) btree \<Rightarrow> ('k, 'b) btree \<Rightarrow> change list" where
  "diff_index removed matched added a b =
     concat (map (\<lambda>(k, x). case map_of b k of None \<Rightarrow> removed k x | Some y \<Rightarrow> matched k x y) a)
     @ concat (map (\<lambda>(k, y). if map_of a k = None then added k y else []) b)"

fun join :: "string \<Rightarrow> string list \<Rightarrow> string" where
  "join sep [] = []"
| "join sep [x] = x"
| "join sep (x # y # xs) = x @ sep @ join sep (y # xs)"

definition quoted :: "string \<Rightarrow> string" where
  "quoted s = ''`'' @ s @ ''`''"

definition arrow :: "string \<Rightarrow> string \<Rightarrow> string" where
  "arrow a b = '' ('' @ a @ '' -> '' @ b @ '')''"

section \<open>The diff functions\<close>

definition diff_inputs :: "string \<Rightarrow> fn_input list \<Rightarrow> fn_input list \<Rightarrow> change list" where
  "diff_inputs name fs gs =
     concat (map (\<lambda>(i, f, g).
       (if in_type f \<noteq> in_type g
        then [change_of FunctionChange Breaking name
                (''Function '' @ quoted name @ '' parameter '' @ dec i @ '' type changed''
                 @ arrow (type_display (in_type f)) (type_display (in_type g)))] else []) @
       (if in_name f \<noteq> in_name g
        then [change_of FunctionChange PotentiallyBreaking name
                (''Function '' @ quoted name @ '' parameter '' @ dec i @ '' renamed''
                 @ arrow (quoted (in_name f)) (quoted (in_name g)))] else []))
       (zip [0..<length fs] (zip fs gs)))"

definition diff_function :: "string \<Rightarrow> fn_spec \<Rightarrow> fn_spec \<Rightarrow> change list" where
  "diff_function name f g =
     (if length (fn_inputs f) \<noteq> length (fn_inputs g)
      then [change_of FunctionChange Breaking name
              (''Function '' @ quoted name @ '' parameter count changed''
               @ arrow (dec (length (fn_inputs f))) (dec (length (fn_inputs g))))]
      else diff_inputs name (fn_inputs f) (fn_inputs g)) @
     (if fn_outputs f \<noteq> fn_outputs g
      then [change_of FunctionChange Breaking name
              (''Function '' @ quoted name @ '' return type changed''
               @ arrow (join '','' (map type_display (fn_outputs f)))
                   (join '','' (map type_display (fn_outputs g))))]
      else [])"

definition diff_functions :: "entry list \<Rightarrow> entry list \<Rightarrow> change list" where
  "diff_functions from to =
     diff_index
       (\<lambda>name f. [change_of FunctionChange Breaking name (''Function '' @ quoted name @ '' was removed'')])
       diff_function
       (\<lambda>name g. [change_of FunctionChange Compatible name (''Function '' @ quoted name @ '' was added'')])
       (index_by_name from select_function fn_name) (index_by_name to select_function fn_name)"

definition struct_fields :: "struct_spec \<Rightarrow> (string, type_def) btree" where
  "struct_fields s = btree_of (map (\<lambda>f. (sf_name f, sf_type f)) (st_fields s))"

definition field_added_level :: "type_def \<Rightarrow> compat_level" where
  "field_added_level t = (case t of Option _ \<Rightarrow> PotentiallyBreaking | _ \<Rightarrow> Breaking)"

definition diff_struct :: "string \<Rightarrow> struct_spec \<Rightarrow> struct_spec \<Rightarrow> change list" where
  "diff_struct name s t =
     (let field = (\<lambda>fname. ''Struct '' @ quoted name @ '' field '' @ quoted fname) in
      diff_index
        (\<lambda>fname _. [change_of TypeChange Breaking name (field fname @ '' was removed'')])
        (\<lambda>fname ftype other_type.
           if ftype \<noteq> other_type
           then [change_of TypeChange Breaking name
                   (field fname @ '' type changed'' @ arrow (type_display ftype) (type_display other_type))]
           else [])
        (\<lambda>fname ftype. [change_of TypeChange (field_added_level ftype) name
           (field fname @ '' was added ('' @ type_display ftype @ '')'')])
        (struct_fields s) (struct_fields t))"

definition diff_structs :: "entry list \<Rightarrow> entry list \<Rightarrow> change list" where
  "diff_structs from to =
     diff_index
       (\<lambda>name s. [change_of TypeChange Breaking name (''Struct '' @ quoted name @ '' was removed'')])
       diff_struct
       (\<lambda>name t. [change_of TypeChange Compatible name (''Struct '' @ quoted name @ '' was added'')])
       (index_by_name from select_struct st_name) (index_by_name to select_struct st_name)"

definition union_map :: "union_spec \<Rightarrow> (string, type_def list) btree" where
  "union_map u = btree_of (map (\<lambda>c. (uc_name c, union_case_types c)) (un_cases u))"

definition diff_union :: "string \<Rightarrow> union_spec \<Rightarrow> union_spec \<Rightarrow> change list" where
  "diff_union name u v =
     (let ca = union_map u; cb = union_map v;
          case_of = (\<lambda>c. ''Union '' @ quoted name @ '' case '' @ quoted c);
          order_a = map uc_name (un_cases u); order_b = map uc_name (un_cases v);
          common_a = filter (\<lambda>c. map_of cb c \<noteq> None) order_a;
          common_b = filter (\<lambda>c. map_of ca c \<noteq> None) order_b
      in diff_index
           (\<lambda>c _. [change_of TypeChange Breaking name (case_of c @ '' was removed'')])
           (\<lambda>c types other_types.
              if types \<noteq> other_types
              then [change_of TypeChange Breaking name (case_of c @ '' payload changed'')] else [])
           (\<lambda>c _. [change_of TypeChange PotentiallyBreaking name
              (case_of c @ '' was added (breaks exhaustive matches on consumers)'')])
           ca cb @
         (if common_a \<noteq> common_b
          then [change_of TypeChange Breaking name
                  (''Union '' @ quoted name @ '' case ordering (discriminant values) changed'')]
          else []))"

definition diff_unions :: "entry list \<Rightarrow> entry list \<Rightarrow> change list" where
  "diff_unions from to =
     diff_index
       (\<lambda>name u. [change_of TypeChange Breaking name (''Union '' @ quoted name @ '' was removed'')])
       diff_union
       (\<lambda>name v. [change_of TypeChange Compatible name (''Union '' @ quoted name @ '' was added'')])
       (index_by_name from select_union un_name) (index_by_name to select_union un_name)"

definition enum_map :: "enum_spec \<Rightarrow> (string, u32) btree" where
  "enum_map e = btree_of (map (\<lambda>c. (ec_name c, ec_value c)) (en_cases e))"

definition show_u32 :: "u32 \<Rightarrow> string" where
  "show_u32 v = dec (unat v)"

definition diff_enum :: "string \<Rightarrow> enum_spec \<Rightarrow> enum_spec \<Rightarrow> change list" where
  "diff_enum name e other =
     (let case_of = (\<lambda>c. ''Enum '' @ quoted name @ '' case '' @ quoted c) in
      diff_index
        (\<lambda>c _. [change_of TypeChange Breaking name (case_of c @ '' was removed'')])
        (\<lambda>c value other_value.
           if other_value \<noteq> value
           then [change_of TypeChange Breaking name
                   (case_of c @ '' value changed'' @ arrow (show_u32 value) (show_u32 other_value))]
           else [])
        (\<lambda>c _. [change_of TypeChange PotentiallyBreaking name (case_of c @ '' was added'')])
        (enum_map e) (enum_map other))"

definition diff_enums :: "entry list \<Rightarrow> entry list \<Rightarrow> change list" where
  "diff_enums from to =
     diff_index
       (\<lambda>name e. [change_of TypeChange Breaking name (''Enum '' @ quoted name @ '' was removed'')])
       diff_enum
       (\<lambda>name e. [change_of TypeChange Compatible name (''Enum '' @ quoted name @ '' was added'')])
       (index_by_name from select_enum en_name) (index_by_name to select_enum en_name)"

definition diff_error_enum :: "string \<Rightarrow> enum_spec \<Rightarrow> enum_spec \<Rightarrow> change list" where
  "diff_error_enum name e other =
     (let case_of = (\<lambda>c. ''Error '' @ quoted (name @ ''::'' @ c)) in
      diff_index
        (\<lambda>c _. [change_of ErrorChange PotentiallyBreaking name (case_of c @ '' was removed or renamed'')])
        (\<lambda>c value other_value.
           if other_value \<noteq> value
           then [change_of ErrorChange PotentiallyBreaking name
                   (case_of c @ '' code changed'' @ arrow (show_u32 value) (show_u32 other_value))]
           else [])
        (\<lambda>c _. [change_of ErrorChange PotentiallyBreaking name
           (case_of c @ '' was added (breaks exhaustive matches on consumers)'')])
        (enum_map e) (enum_map other))"

definition diff_error_enums :: "entry list \<Rightarrow> entry list \<Rightarrow> change list" where
  "diff_error_enums from to =
     diff_index
       (\<lambda>name e. [change_of ErrorChange PotentiallyBreaking name
          (''Error enum '' @ quoted name @ '' was removed'')])
       diff_error_enum
       (\<lambda>name e. [change_of ErrorChange Compatible name (''Error enum '' @ quoted name @ '' was added'')])
       (index_by_name from select_error_enum en_name) (index_by_name to select_error_enum en_name)"

definition param_shape :: "event_param \<Rightarrow> string \<times> string \<times> param_location" where
  "param_shape p = (ep_name p, type_display (ep_type p), ep_location p)"

definition diff_event :: "string \<Rightarrow> event_spec \<Rightarrow> event_spec \<Rightarrow> change list" where
  "diff_event name v other =
     (if ev_data_format v \<noteq> ev_data_format other \<or> ev_prefix_topics v \<noteq> ev_prefix_topics other
      then [change_of EventChange Breaking name
              (''Event '' @ quoted name @ '' topic layout or data format changed'')]
      else if map param_shape (ev_params v) \<noteq> map param_shape (ev_params other)
      then [change_of EventChange Breaking name (''Event '' @ quoted name @ '' payload shape changed'')]
      else [])"

definition diff_events :: "entry list \<Rightarrow> entry list \<Rightarrow> change list" where
  "diff_events from to =
     diff_index
       (\<lambda>name v. [change_of EventChange PotentiallyBreaking name
          (''Event '' @ quoted name @ '' was removed (breaking for indexers)'')])
       diff_event
       (\<lambda>name v. [change_of EventChange Compatible name (''Event '' @ quoted name @ '' was added'')])
       (index_by_name from select_event ev_name) (index_by_name to select_event ev_name)"

definition diff_entries :: "entry list \<Rightarrow> entry list \<Rightarrow> change list" where
  "diff_entries from to =
     diff_functions from to @ diff_structs from to @ diff_unions from to @
     diff_enums from to @ diff_error_enums from to @ diff_events from to"

section \<open>The comparison\<close>

definition network_change :: "network_context \<Rightarrow> network_context \<Rightarrow> change list" where
  "network_change na nb =
     (case (na, nb) of
        (Some a, Some b) \<Rightarrow>
          if a \<noteq> b
          then [change_of NetworkChange Breaking ''network''
                  (''Network passphrase differs ('' @ a @ '' vs '' @ b @
                   ''); these are not the same deployment context and must not be compared as compatible.'')]
          else []
      | _ \<Rightarrow> [])"

definition compare_entries :: "entry list \<Rightarrow> entry list \<Rightarrow> network_context \<Rightarrow> network_context \<Rightarrow> compat_report" where
  "compare_entries a b na nb =
     (let chs = network_change na nb @ diff_entries a b
      in \<lparr>algorithm = ALGORITHM,
          overall = foldl (\<lambda>acc c. level_max acc (level c)) Compatible chs,
          changes = chs\<rparr>)"

definition missing_reason :: string where
  "missing_reason = ''One or both contract specs are missing (no contractspecv0 section); compatibility cannot be determined.''"

definition malformed_reason :: "string \<Rightarrow> string" where
  "malformed_reason reason =
     ''One or both contract specs are malformed and could not be parsed: '' @ reason"

fun compare :: "spec_source \<Rightarrow> spec_source \<Rightarrow> network_context \<Rightarrow> network_context \<Rightarrow> compat_report" where
  "compare (Entries a) (Entries b) na nb = compare_entries a b na nb"
| "compare Missing _ na nb = report_unknown missing_reason"
| "compare _ Missing na nb = report_unknown missing_reason"
| "compare (Malformed reason) _ na nb = report_unknown (malformed_reason reason)"
| "compare _ (Malformed reason) na nb = report_unknown (malformed_reason reason)"

section \<open>The verdict is the highest level\<close>

definition lev_le :: "compat_level \<Rightarrow> compat_level \<Rightarrow> bool" where
  "lev_le a b \<longleftrightarrow> severity_rank a \<le> severity_rank b"

definition at_most :: "compat_level \<Rightarrow> change list \<Rightarrow> bool" where
  "at_most n chs \<longleftrightarrow> (\<forall>c \<in> set chs. lev_le (level c) n)"

named_theorems levels "which levels the diff functions report"

lemma at_most_simps [levels]:
  "at_most n []"
  "at_most n (chs @ chs') \<longleftrightarrow> at_most n chs \<and> at_most n chs'"
  "at_most n (change_of cat lev subj desc # chs) \<longleftrightarrow> lev_le lev n \<and> at_most n chs"
  "at_most n (if b then chs else chs') \<longleftrightarrow> (if b then at_most n chs else at_most n chs')"
  by (auto simp: at_most_def change_of_def)

lemma at_most_concat [levels]: "at_most n (concat (map f xs)) \<longleftrightarrow> (\<forall>x \<in> set xs. at_most n (f x))"
  by (auto simp: at_most_def)

lemma severity_rank_inj: "severity_rank a = severity_rank b \<longleftrightarrow> a = b"
  by (cases a; cases b) simp_all

lemma lev_le_iffs [levels]:
  "lev_le l Compatible \<longleftrightarrow> l = Compatible"
  "lev_le l PotentiallyBreaking \<longleftrightarrow> l = Compatible \<or> l = PotentiallyBreaking"
  "lev_le l Breaking \<longleftrightarrow> l \<noteq> Unknown"
  "lev_le Compatible l"
  by (cases l; simp add: lev_le_def)+

lemma rank_level_max: "severity_rank (level_max a b) = max (severity_rank a) (severity_rank b)"
  by (simp add: level_max_def max_def)

lemma rank_foldl:
  "lev_le (foldl (\<lambda>acc c. level_max acc (level c)) a chs) n \<longleftrightarrow> lev_le a n \<and> at_most n chs"
  by (induction chs arbitrary: a) (auto simp: lev_le_def rank_level_max at_most_def)

lemma overall_entries:
  "lev_le (overall (compare (Entries a) (Entries b) na nb)) n \<longleftrightarrow>
   at_most n (network_change na nb) \<and> at_most n (diff_entries a b)"
  by (simp add: compare_entries_def Let_def rank_foldl levels)

lemma ball_btree:
  assumes "btree_wf m"
  shows "(\<forall>p \<in> set m. P (fst p) (snd p)) \<longleftrightarrow> (\<forall>k x. map_of m k = Some x \<longrightarrow> P k x)"
  using btree_mem [OF assms] by force

lemma at_most_diff_index [levels]:
  assumes "btree_wf a" and "btree_wf b"
  shows "at_most n (diff_index removed matched added a b) \<longleftrightarrow>
    (\<forall>k x. map_of a k = Some x \<longrightarrow>
       (case map_of b k of None \<Rightarrow> at_most n (removed k x) | Some y \<Rightarrow> at_most n (matched k x y))) \<and>
    (\<forall>k y. map_of b k = Some y \<longrightarrow> map_of a k = None \<longrightarrow> at_most n (added k y))"
  unfolding ball_btree [OF assms(1), symmetric] ball_btree [OF assms(2), symmetric]
  by (simp add: diff_index_def levels case_prod_beta option.case_distrib [of "at_most n"])

lemma btree_wf_indices [simp]:
  "btree_wf (index_by_name es sel nm)" "btree_wf (struct_fields s)" "btree_wf (union_map u)"
  "btree_wf (enum_map e)"
  by (simp_all add: index_by_name_def struct_fields_def union_map_def enum_map_def)

section \<open>What the matched entries report\<close>

lemma at_most_diff_inputs:
  assumes "length fs = length gs"
  shows "at_most n (diff_inputs name fs gs) \<longleftrightarrow>
    (lev_le Breaking n \<or> map in_type fs = map in_type gs) \<and> (lev_le PotentiallyBreaking n \<or> map in_name fs = map in_name gs)"
proof -
  have len: "map snd (zip [0..<length fs] (zip fs gs)) = zip fs gs" using assms by simp
  have "at_most n (diff_inputs name fs gs) \<longleftrightarrow> (\<forall>p \<in> set (zip [0..<length fs] (zip fs gs)).
      (lev_le Breaking n \<or> in_type (fst (snd p)) = in_type (snd (snd p))) \<and>
      (lev_le PotentiallyBreaking n \<or> in_name (fst (snd p)) = in_name (snd (snd p))))"
    by (simp add: diff_inputs_def levels case_prod_beta) blast
  also have "\<dots> \<longleftrightarrow> (\<forall>q \<in> set (map snd (zip [0..<length fs] (zip fs gs))).
      (lev_le Breaking n \<or> in_type (fst q) = in_type (snd q)) \<and> (lev_le PotentiallyBreaking n \<or> in_name (fst q) = in_name (snd q)))"
    by simp
  also have "\<dots> \<longleftrightarrow> (\<forall>i < length fs.
      (lev_le Breaking n \<or> in_type (fs ! i) = in_type (gs ! i)) \<and> (lev_le PotentiallyBreaking n \<or> in_name (fs ! i) = in_name (gs ! i)))"
    unfolding len using assms by (auto simp: set_zip)
  also have "\<dots> \<longleftrightarrow> (lev_le Breaking n \<or> map in_type fs = map in_type gs) \<and> (lev_le PotentiallyBreaking n \<or> map in_name fs = map in_name gs)"
    using assms by (auto simp: list_eq_iff_nth_eq)
  finally show ?thesis .
qed

lemma at_most_diff_function:
  "at_most n (diff_function name f g) \<longleftrightarrow>
   (lev_le Breaking n \<or> map in_type (fn_inputs f) = map in_type (fn_inputs g) \<and> fn_outputs f = fn_outputs g) \<and>
   (lev_le PotentiallyBreaking n \<or> map in_name (fn_inputs f) = map in_name (fn_inputs g))"
proof (cases "length (fn_inputs f) = length (fn_inputs g)")
  case True
  then show ?thesis by (auto simp: diff_function_def levels at_most_diff_inputs)
next
  case False
  then have "map in_type (fn_inputs f) \<noteq> map in_type (fn_inputs g)" by (metis length_map)
  moreover have "lev_le Breaking n \<Longrightarrow> lev_le PotentiallyBreaking n" by (cases n) (simp_all add: lev_le_def)
  ultimately show ?thesis using False by (auto simp: diff_function_def levels)
qed

lemma map_le_iff:
  "(\<forall>k x. m k = Some x \<longrightarrow> (case m' k of None \<Rightarrow> False | Some y \<Rightarrow> x = y)) \<longleftrightarrow> m \<subseteq>\<^sub>m m'"
  by (force simp: map_le_def dom_def split: option.splits)

lemma btree_eq_iff:
  assumes "btree_wf a" and "btree_wf b"
  shows "a = b \<longleftrightarrow> map_of a \<subseteq>\<^sub>m map_of b \<and> (\<forall>k. map_of a k = None \<longrightarrow> map_of b k = None)"
proof
  assume r: "map_of a \<subseteq>\<^sub>m map_of b \<and> (\<forall>k. map_of a k = None \<longrightarrow> map_of b k = None)"
  have "map_of a k = map_of b k" for k
    using r by (cases "map_of a k") (auto simp: map_le_def dom_def)
  then show "a = b" by (intro btree_ext assms) auto
qed auto

text \<open>
  A diff of two ordered maps whose removals and mismatches are worse than \<open>n\<close>: at most \<open>n\<close>
  means that the first map is a part of the second and that what is new is tolerated.
\<close>

lemma at_most_diff_map:
  assumes wf: "btree_wf a" "btree_wf b"
    and "\<And>k x. \<not> at_most n (removed k x)"
    and "\<And>k x y. at_most n (matched k x y) \<longleftrightarrow> x = y"
  shows "at_most n (diff_index removed matched added a b) \<longleftrightarrow>
    map_of a \<subseteq>\<^sub>m map_of b \<and> (\<forall>k y. map_of b k = Some y \<longrightarrow> map_of a k = None \<longrightarrow> at_most n (added k y))"
  by (simp only: at_most_diff_index [OF wf] assms(3,4) map_le_iff)

lemma at_most_diff_map_eq:
  assumes wf: "btree_wf a" "btree_wf b"
    and "\<And>k x. \<not> at_most n (removed k x)"
    and "\<And>k x y. at_most n (matched k x y) \<longleftrightarrow> x = y"
    and "\<And>k y. \<not> at_most n (added k y)"
  shows "at_most n (diff_index removed matched added a b) \<longleftrightarrow> a = b"
  unfolding at_most_diff_map [OF assms(1-4)] btree_eq_iff [OF wf]
  using assms(5) by (metis not_None_eq)

lemma at_most_diff_struct:
  "at_most Compatible (diff_struct name s t) \<longleftrightarrow> struct_fields s = struct_fields t"
  "at_most PotentiallyBreaking (diff_struct name s t) \<longleftrightarrow>
     map_of (struct_fields s) \<subseteq>\<^sub>m map_of (struct_fields t) \<and>
     (\<forall>k ty. map_of (struct_fields t) k = Some ty \<longrightarrow> map_of (struct_fields s) k = None \<longrightarrow>
        (\<exists>u. ty = Option u))"
proof -
  show "at_most Compatible (diff_struct name s t) \<longleftrightarrow> struct_fields s = struct_fields t"
    unfolding diff_struct_def Let_def
    by (rule at_most_diff_map_eq)
      (auto simp: levels field_added_level_def split: type_def.splits)
  have "at_most PotentiallyBreaking [change_of TypeChange (field_added_level ty) name d] \<longleftrightarrow> (\<exists>u. ty = Option u)" for ty d
    by (auto simp: levels field_added_level_def split: type_def.splits)
  then show "at_most PotentiallyBreaking (diff_struct name s t) \<longleftrightarrow>
     map_of (struct_fields s) \<subseteq>\<^sub>m map_of (struct_fields t) \<and>
     (\<forall>k ty. map_of (struct_fields t) k = Some ty \<longrightarrow> map_of (struct_fields s) k = None \<longrightarrow>
        (\<exists>u. ty = Option u))"
    unfolding diff_struct_def Let_def by (subst at_most_diff_map) (auto simp: levels)
qed

text \<open>The cases that both unions have, in the order of one of them.\<close>

definition common_order :: "union_spec \<Rightarrow> union_spec \<Rightarrow> string list" where
  "common_order u v = filter (\<lambda>c. c \<in> set (map uc_name (un_cases v))) (map uc_name (un_cases u))"

lemma union_map_mem: "map_of (union_map v) c \<noteq> None \<longleftrightarrow> c \<in> set (map uc_name (un_cases v))"
  by (auto simp: union_map_def map_of_btree_of map_of_eq_None_iff image_image)

lemma common_order_same:
  assumes "union_map u = union_map v"
  shows "common_order u v = map uc_name (un_cases u)"
proof -
  have "set (map uc_name (un_cases u)) = set (map uc_name (un_cases v))"
    by (simp only: set_eq_iff union_map_mem [symmetric] assms simp_thms)
  then show ?thesis unfolding common_order_def by (metis filter_True)
qed

lemma at_most_diff_union:
  "at_most Compatible (diff_union name u v) \<longleftrightarrow>
     union_map u = union_map v \<and> map uc_name (un_cases u) = map uc_name (un_cases v)"
  "at_most PotentiallyBreaking (diff_union name u v) \<longleftrightarrow>
     map_of (union_map u) \<subseteq>\<^sub>m map_of (union_map v) \<and> common_order u v = common_order v u"
proof -
  have order: "filter (\<lambda>c. map_of (union_map y) c \<noteq> None) (map uc_name (un_cases x)) = common_order x y" for x y
    unfolding common_order_def union_map_mem ..
  show "at_most PotentiallyBreaking (diff_union name u v) \<longleftrightarrow>
     map_of (union_map u) \<subseteq>\<^sub>m map_of (union_map v) \<and> common_order u v = common_order v u"
    unfolding diff_union_def Let_def order levels(2)
    by (subst at_most_diff_map) (auto simp: levels)
  have "at_most Compatible (diff_union name u v) \<longleftrightarrow> union_map u = union_map v \<and> common_order u v = common_order v u"
    unfolding diff_union_def Let_def order levels(2)
    by (subst at_most_diff_map_eq) (auto simp: levels)
  then show "at_most Compatible (diff_union name u v) \<longleftrightarrow>
     union_map u = union_map v \<and> map uc_name (un_cases u) = map uc_name (un_cases v)"
    using common_order_same [of u v] common_order_same [of v u] by auto
qed

lemma at_most_diff_enum:
  "at_most Compatible (diff_enum name e e') \<longleftrightarrow> enum_map e = enum_map e'"
  "at_most PotentiallyBreaking (diff_enum name e e') \<longleftrightarrow> map_of (enum_map e) \<subseteq>\<^sub>m map_of (enum_map e')"
  "at_most Compatible (diff_error_enum name e e') \<longleftrightarrow> enum_map e = enum_map e'"
  "at_most PotentiallyBreaking (diff_error_enum name e e')"
proof -
  show "at_most Compatible (diff_enum name e e') \<longleftrightarrow> enum_map e = enum_map e'"
    unfolding diff_enum_def Let_def by (rule at_most_diff_map_eq) (auto simp: levels)
  show "at_most PotentiallyBreaking (diff_enum name e e') \<longleftrightarrow> map_of (enum_map e) \<subseteq>\<^sub>m map_of (enum_map e')"
    unfolding diff_enum_def Let_def by (subst at_most_diff_map) (auto simp: levels)
  show "at_most Compatible (diff_error_enum name e e') \<longleftrightarrow> enum_map e = enum_map e'"
    unfolding diff_error_enum_def Let_def by (rule at_most_diff_map_eq) (auto simp: levels)
  show "at_most PotentiallyBreaking (diff_error_enum name e e')"
    unfolding diff_error_enum_def Let_def by (subst at_most_diff_index) (auto simp: levels split: option.splits)
qed

lemma at_most_diff_event:
  "n \<in> {Compatible, PotentiallyBreaking} \<Longrightarrow> at_most n (diff_event name v w) \<longleftrightarrow>
     ev_data_format v = ev_data_format w \<and> ev_prefix_topics v = ev_prefix_topics w \<and>
     map param_shape (ev_params v) = map param_shape (ev_params w)"
  by (auto simp: diff_event_def levels)

section \<open>What the verdicts mean\<close>

text \<open>
  The interface of a spec, name by name: what a client of the contract can observe of its
  functions, types, errors and events, without the documentation strings.
\<close>

record interface =
  fns :: "string \<rightharpoonup> string list \<times> type_def list \<times> type_def list"
  structs :: "string \<rightharpoonup> (string, type_def) btree"
  unions :: "string \<rightharpoonup> (string, type_def list) btree \<times> string list"
  enums :: "string \<rightharpoonup> (string, u32) btree"
  error_enums :: "string \<rightharpoonup> (string, u32) btree"
  events :: "string \<rightharpoonup> data_format \<times> string list \<times> (string \<times> string \<times> param_location) list"

definition function_sig :: "fn_spec \<Rightarrow> string list \<times> type_def list \<times> type_def list" where
  "function_sig f = (map in_name (fn_inputs f), map in_type (fn_inputs f), fn_outputs f)"

definition union_sig :: "union_spec \<Rightarrow> (string, type_def list) btree \<times> string list" where
  "union_sig u = (union_map u, map uc_name (un_cases u))"

definition event_sig :: "event_spec \<Rightarrow> data_format \<times> string list \<times> (string \<times> string \<times> param_location) list" where
  "event_sig v = (ev_data_format v, ev_prefix_topics v, map param_shape (ev_params v))"

definition named :: "entry list \<Rightarrow> (entry \<Rightarrow> 'a option) \<Rightarrow> ('a \<Rightarrow> string) \<Rightarrow> string \<rightharpoonup> 'a" where
  "named es select name_of = map_of (index_by_name es select name_of)"

definition interface_of :: "entry list \<Rightarrow> interface" where
  "interface_of es =
     \<lparr>fns = map_option function_sig \<circ> named es select_function fn_name,
      structs = map_option struct_fields \<circ> named es select_struct st_name,
      unions = map_option union_sig \<circ> named es select_union un_name,
      enums = map_option enum_map \<circ> named es select_enum en_name,
      error_enums = map_option enum_map \<circ> named es select_error_enum en_name,
      events = map_option event_sig \<circ> named es select_event ev_name\<rparr>"

definition extends :: "interface \<Rightarrow> interface \<Rightarrow> bool" where
  "extends i j \<longleftrightarrow>
     fns i \<subseteq>\<^sub>m fns j \<and> structs i \<subseteq>\<^sub>m structs j \<and> unions i \<subseteq>\<^sub>m unions j \<and>
     enums i \<subseteq>\<^sub>m enums j \<and> error_enums i \<subseteq>\<^sub>m error_enums j \<and> events i \<subseteq>\<^sub>m events j"

definition same_network :: "network_context \<Rightarrow> network_context \<Rightarrow> bool" where
  "same_network na nb = (case (na, nb) of (Some a, Some b) \<Rightarrow> a = b | _ \<Rightarrow> True)"

lemma at_most_network: "n \<in> {Compatible, PotentiallyBreaking} \<Longrightarrow> at_most n (network_change na nb) \<longleftrightarrow> same_network na nb"
  by (auto simp: network_change_def same_network_def levels split: option.splits)

definition kept :: "('a \<Rightarrow> 'b \<Rightarrow> bool) \<Rightarrow> ('k \<rightharpoonup> 'a) \<Rightarrow> ('k \<rightharpoonup> 'b) \<Rightarrow> bool" where
  "kept R m m' \<longleftrightarrow> (\<forall>k x. m k = Some x \<longrightarrow> (\<exists>y. m' k = Some y \<and> R x y))"

lemma kept_sig: "kept (\<lambda>x y. sig x = sig y) m m' \<longleftrightarrow> (map_option sig \<circ> m) \<subseteq>\<^sub>m (map_option sig \<circ> m')"
  unfolding kept_def map_le_def dom_def comp_def
  by (rule iffI; intro allI ballI impI; force simp: map_option_case split: option.splits)

lemma at_most_named:
  assumes "\<And>k x. \<not> at_most n (removed k x)"
    and "\<And>k y. at_most n (added k y)"
    and "\<And>k x y. at_most n (matched k x y) \<longleftrightarrow> R x y"
  shows "at_most n (diff_index removed matched added
      (index_by_name a sel nm) (index_by_name b sel nm)) \<longleftrightarrow> kept R (named a sel nm) (named b sel nm)"
proof -
  have "at_most n (diff_index removed matched added (index_by_name a sel nm) (index_by_name b sel nm)) \<longleftrightarrow>
    (\<forall>k x. named a sel nm k = Some x \<longrightarrow>
       (case named b sel nm k of None \<Rightarrow> False | Some y \<Rightarrow> R x y))"
    unfolding named_def by (subst at_most_diff_index) (simp_all add: assms cong: option.case_cong)
  also have "\<dots> \<longleftrightarrow> kept R (named a sel nm) (named b sel nm)"
    unfolding kept_def by (force split: option.splits)
  finally show ?thesis .
qed

lemma compatible_kinds:
  "at_most Compatible (diff_functions a b) \<longleftrightarrow> fns (interface_of a) \<subseteq>\<^sub>m fns (interface_of b)"
  "at_most Compatible (diff_structs a b) \<longleftrightarrow> structs (interface_of a) \<subseteq>\<^sub>m structs (interface_of b)"
  "at_most Compatible (diff_unions a b) \<longleftrightarrow> unions (interface_of a) \<subseteq>\<^sub>m unions (interface_of b)"
  "at_most Compatible (diff_enums a b) \<longleftrightarrow> enums (interface_of a) \<subseteq>\<^sub>m enums (interface_of b)"
  "at_most Compatible (diff_error_enums a b) \<longleftrightarrow> error_enums (interface_of a) \<subseteq>\<^sub>m error_enums (interface_of b)"
  "at_most Compatible (diff_events a b) \<longleftrightarrow> events (interface_of a) \<subseteq>\<^sub>m events (interface_of b)"
  unfolding interface_of_def interface.simps kept_sig [symmetric]
    diff_functions_def diff_structs_def diff_unions_def diff_enums_def diff_error_enums_def diff_events_def
  by (rule at_most_named;
      auto simp: levels at_most_diff_function at_most_diff_struct at_most_diff_union at_most_diff_enum
        at_most_diff_event function_sig_def union_sig_def event_sig_def)+

lemma compatible_iff:
  "at_most Compatible (network_change na nb) \<and> at_most Compatible (diff_entries a b) \<longleftrightarrow>
   same_network na nb \<and> extends (interface_of a) (interface_of b)"
  by (auto simp: at_most_network diff_entries_def levels compatible_kinds extends_def)

text \<open>
  C7. The verdict \<open>Compatible\<close> means that the new spec extends the old one: it is given exactly
  when the passphrases do not conflict and every function, struct, union, enum, error enum and
  event of the old spec is in the new one under the same name with the same signature
  (parameter names and types, outputs, fields, cases and their order, values, topics and payload).
\<close>

theorem verdict_compatible:
  "overall (compare (Entries a) (Entries b) na nb) = Compatible \<longleftrightarrow>
   same_network na nb \<and> extends (interface_of a) (interface_of b)"
  using overall_entries [of a b na nb Compatible] compatible_iff [of na nb a b] by (simp add: levels)

text \<open>
  The verdict \<open>Compatible\<close> is transitive along a chain of versions on one network, so
  comparing neighbouring versions is enough.
\<close>

theorem verdict_compatible_trans:
  assumes "overall (compare (Entries a) (Entries b) na na) = Compatible"
    and "overall (compare (Entries b) (Entries c) na na) = Compatible"
  shows "overall (compare (Entries a) (Entries c) na na) = Compatible"
proof -
  have iff: "overall (compare (Entries x) (Entries y) na na) = Compatible \<longleftrightarrow>
      same_network na na \<and> extends (interface_of x) (interface_of y)" for x y
    using overall_entries [of x y na na Compatible] compatible_iff [of na na x y] by (simp add: levels)
  have "extends i k" if "extends i j" "extends j k" for i j k
    using that unfolding extends_def by (metis map_le_trans)
  with assms show ?thesis unfolding iff by blast
qed

theorem verdict_compatible_trans_witness:
  "overall (compare (Entries []) (Entries sample_spec) None None) = Compatible"
proof (rule verdict_compatible_trans)
  show "overall (compare (Entries []) (Entries []) None None) = Compatible"
    by (simp add: compare_entries_def network_change_def diff_entries_def diff_functions_def
        diff_structs_def diff_unions_def diff_enums_def diff_error_enums_def diff_events_def
        index_by_name_def btree_of_def diff_index_def List.map_filter_simps)
  show "overall (compare (Entries []) (Entries sample_spec) None None) = Compatible"
    by (simp add: compare_entries_def network_change_def diff_entries_def diff_functions_def
        diff_structs_def diff_unions_def diff_enums_def diff_error_enums_def diff_events_def
        index_by_name_def btree_of_def diff_index_def List.map_filter_simps sample_spec_def
        change_of_def level_max_def)
qed

text \<open>What a client keeps when the verdict is not \<open>Breaking\<close>.\<close>

definition callable :: "fn_spec \<Rightarrow> fn_spec \<Rightarrow> bool" where
  "callable f g \<longleftrightarrow> map in_type (fn_inputs f) = map in_type (fn_inputs g) \<and> fn_outputs f = fn_outputs g"

definition widened :: "struct_spec \<Rightarrow> struct_spec \<Rightarrow> bool" where
  "widened s t \<longleftrightarrow> map_of (struct_fields s) \<subseteq>\<^sub>m map_of (struct_fields t) \<and>
     (\<forall>k ty. map_of (struct_fields t) k = Some ty \<longrightarrow> map_of (struct_fields s) k = None \<longrightarrow>
        (\<exists>u. ty = Option u))"

definition keeps_cases :: "union_spec \<Rightarrow> union_spec \<Rightarrow> bool" where
  "keeps_cases u v \<longleftrightarrow> map_of (union_map u) \<subseteq>\<^sub>m map_of (union_map v) \<and> common_order u v = common_order v u"

definition keeps_values :: "enum_spec \<Rightarrow> enum_spec \<Rightarrow> bool" where
  "keeps_values e e' \<longleftrightarrow> map_of (enum_map e) \<subseteq>\<^sub>m map_of (enum_map e')"

definition not_broken :: "entry list \<Rightarrow> entry list \<Rightarrow> bool" where
  "not_broken a b \<longleftrightarrow>
     kept callable (named a select_function fn_name) (named b select_function fn_name) \<and>
     kept widened (named a select_struct st_name) (named b select_struct st_name) \<and>
     kept keeps_cases (named a select_union un_name) (named b select_union un_name) \<and>
     kept keeps_values (named a select_enum en_name) (named b select_enum en_name) \<and>
     (\<forall>k v w. named a select_event ev_name k = Some v \<longrightarrow> named b select_event ev_name k = Some w \<longrightarrow>
        event_sig v = event_sig w)"

lemma unbroken_kinds:
  "at_most PotentiallyBreaking (diff_functions a b) \<longleftrightarrow>
     kept callable (named a select_function fn_name) (named b select_function fn_name)"
  "at_most PotentiallyBreaking (diff_structs a b) \<longleftrightarrow>
     kept widened (named a select_struct st_name) (named b select_struct st_name)"
  "at_most PotentiallyBreaking (diff_unions a b) \<longleftrightarrow>
     kept keeps_cases (named a select_union un_name) (named b select_union un_name)"
  "at_most PotentiallyBreaking (diff_enums a b) \<longleftrightarrow>
     kept keeps_values (named a select_enum en_name) (named b select_enum en_name)"
  unfolding diff_functions_def diff_structs_def diff_unions_def diff_enums_def
  by (rule at_most_named;
      auto simp: levels at_most_diff_function at_most_diff_struct at_most_diff_union at_most_diff_enum
        callable_def widened_def keeps_cases_def keeps_values_def)+

lemma unbroken_events:
  "at_most PotentiallyBreaking (diff_error_enums a b)"
  "at_most PotentiallyBreaking (diff_events a b) \<longleftrightarrow>
     (\<forall>k v w. named a select_event ev_name k = Some v \<longrightarrow> named b select_event ev_name k = Some w \<longrightarrow>
        event_sig v = event_sig w)"
proof -
  show "at_most PotentiallyBreaking (diff_error_enums a b)"
    unfolding diff_error_enums_def
    by (subst at_most_diff_index) (auto simp: levels at_most_diff_enum split: option.splits)
  show "at_most PotentiallyBreaking (diff_events a b) \<longleftrightarrow>
     (\<forall>k v w. named a select_event ev_name k = Some v \<longrightarrow> named b select_event ev_name k = Some w \<longrightarrow>
        event_sig v = event_sig w)"
    unfolding diff_events_def named_def
    by (subst at_most_diff_index)
      (simp_all add: levels at_most_diff_event event_sig_def split: option.splits, blast)
qed

text \<open>
  A verdict below \<open>Breaking\<close> is given exactly when the passphrases do not conflict and
  nothing a client calls or decodes is lost: every old function is still there with the same
  parameter types and outputs, every old struct with its fields and only optional fields added,
  every old union with its cases and their order, every old enum with its values, and every
  event that is still emitted keeps its layout. (Functions may rename parameters, error enums
  may change freely, events may be dropped.)
\<close>

theorem verdict_not_breaking:
  "overall (compare (Entries a) (Entries b) na nb) \<in> {Compatible, PotentiallyBreaking} \<longleftrightarrow>
   same_network na nb \<and> not_broken a b"
proof -
  have "overall (compare (Entries a) (Entries b) na nb) \<in> {Compatible, PotentiallyBreaking} \<longleftrightarrow>
    at_most PotentiallyBreaking (network_change na nb) \<and> at_most PotentiallyBreaking (diff_entries a b)"
    using overall_entries [of a b na nb PotentiallyBreaking] by (simp only: levels) simp
  then show ?thesis
    by (simp add: at_most_network diff_entries_def levels unbroken_kinds unbroken_events not_broken_def)
qed

lemma nothing_unknown: "overall (compare (Entries a) (Entries b) nf nt) \<noteq> Unknown"
proof -
  have "at_most Breaking (network_change na nb)" for na nb
    by (auto simp: network_change_def levels split: option.splits)
  moreover have "at_most Breaking (diff_entries a b)" for a b
    unfolding diff_entries_def diff_functions_def diff_structs_def diff_unions_def diff_enums_def
      diff_error_enums_def diff_events_def diff_struct_def diff_union_def diff_enum_def diff_error_enum_def
      Let_def
    by (simp add: levels at_most_diff_function diff_event_def field_added_level_def
        split: option.splits type_def.splits)
  ultimately show ?thesis
    using overall_entries [of a b nf nt Breaking] by (simp only: levels)
qed

text \<open>
  No verdict is guessed: the report is \<open>Unknown\<close> exactly when one of the two specs is
  missing or malformed.
\<close>

theorem verdict_unknown:
  "overall (compare f t nf nt) = Unknown \<longleftrightarrow> \<not> (\<exists>a b. f = Entries a \<and> t = Entries b)"
  using nothing_unknown by (cases f; cases t) (auto simp: report_unknown_def)

text \<open>
  Each \<open>--fail-on\<close> threshold catches what it documents: on a report of \<open>compare\<close>,
  \<open>breaking\<close> is met exactly by the verdict \<open>Breaking\<close>, \<open>potential\<close> by \<open>Breaking\<close> and
  \<open>PotentiallyBreaking\<close>, \<open>unknown\<close> by every verdict except \<open>Compatible\<close>, and \<open>compatible\<close>
  always: no single change exceeds the verdict.
\<close>

theorem fail_on_thresholds:
  "has_at_least (compare f t nf nt) threshold \<longleftrightarrow>
     (let verdict = overall (compare f t nf nt) in
      case threshold of
        Breaking \<Rightarrow> verdict = Breaking
      | PotentiallyBreaking \<Rightarrow> verdict = Breaking \<or> verdict = PotentiallyBreaking
      | Unknown \<Rightarrow> verdict \<noteq> Compatible
      | Compatible \<Rightarrow> True)"
proof (cases "\<exists>a b. f = Entries a \<and> t = Entries b")
  case True
  then obtain a b where f: "f = Entries a" and t: "t = Entries b" by blast
  define r where "r = compare f t nf nt"
  have "lev_le (overall r) n \<longleftrightarrow> at_most n (changes r)" for n
    unfolding r_def f t overall_entries
    by (simp add: compare_entries_def Let_def levels)
  then have "at_most (overall r) (changes r)" by (metis lev_le_def order_refl)
  then have "\<forall>c \<in> set (changes r). lev_le (level c) (overall r)" by (simp add: at_most_def)
  then have "list_ex (\<lambda>c. meets threshold (level c)) (changes r) \<Longrightarrow> meets threshold (overall r)"
    using nothing_unknown [of a b nf nt]
    by (cases "overall r"; cases threshold) (auto simp: list_ex_iff meets_def levels r_def f t)
  then have "has_at_least r threshold \<longleftrightarrow> meets threshold (overall r)"
    by (auto simp: has_at_least_def)
  moreover have "overall r \<noteq> Unknown" unfolding r_def f t by (rule nothing_unknown)
  ultimately show ?thesis
    unfolding r_def by (cases "overall (compare f t nf nt)"; cases threshold) (simp_all add: meets_def)
next
  case False
  then show ?thesis
    by (cases f; cases t; cases threshold) (auto simp: report_unknown_def has_at_least_def meets_def change_of_def)
qed

lemma diff_index_self:
  assumes "btree_wf a" and "\<And>k x. matched k x x = []"
  shows "diff_index removed matched added a a = []"
proof -
  have "map_of a k = Some x" if "(k, x) \<in> set a" for k x using that btree_mem [OF assms(1)] by simp
  then have "\<forall>p \<in> set a. (case p of (k, x) \<Rightarrow>
      case map_of a k of None \<Rightarrow> removed k x | Some y \<Rightarrow> matched k x y) = []"
    and "\<forall>p \<in> set a. (case p of (k, y) \<Rightarrow> if map_of a k = None then added k y else []) = []"
    by (auto simp: assms(2))
  then show ?thesis by (simp add: diff_index_def)
qed

text \<open>
  A spec compared with itself on one network has no changes, whatever names it repeats.
\<close>

theorem compare_self:
  "compare (Entries es) (Entries es) n n = \<lparr>algorithm = ALGORITHM, overall = Compatible, changes = []\<rparr>"
proof -
  have "diff_inputs name fs fs = []" for name fs
    by (auto simp: diff_inputs_def set_zip)
  then have "diff_entries es es = []"
    by (simp add: diff_entries_def diff_functions_def diff_structs_def diff_unions_def diff_enums_def
        diff_error_enums_def diff_events_def diff_function_def diff_struct_def diff_union_def
        diff_enum_def diff_error_enum_def diff_event_def Let_def diff_index_self)
  moreover have "network_change n n = []" by (auto simp: network_change_def split: option.splits)
  ultimately show ?thesis by (simp add: compare_entries_def)
qed

text \<open>
  Event payloads are compared by the printed type, so a change between a built-in type and
  a user type of the same printed name goes unnoticed in an event, where the same change in a
  function parameter is \<open>Breaking\<close>.
\<close>

definition one_event :: "type_def \<Rightarrow> entry" where
  "one_event t = EventV0 \<lparr>ev_doc = '''', ev_lib = '''', ev_name = ''e'', ev_prefix_topics = [],
     ev_params = [\<lparr>ep_doc = '''', ep_name = ''p'', ep_type = t, ep_location = Data\<rparr>],
     ev_data_format = SingleValue\<rparr>"

definition one_function :: "type_def \<Rightarrow> entry" where
  "one_function t = FunctionV0 \<lparr>fn_doc = '''', fn_name = ''f'',
     fn_inputs = [\<lparr>in_doc = '''', in_name = ''p'', in_type = t\<rparr>], fn_outputs = []\<rparr>"

theorem event_types_by_name:
  "overall (compare (Entries [one_event Val]) (Entries [one_event (Udt ''Val'')]) n n) = Compatible \<and>
   overall (compare (Entries [one_function Val]) (Entries [one_function (Udt ''Val'')]) n n) = Breaking"
  by (auto simp: compare_entries_def Let_def network_change_def diff_entries_def diff_functions_def
      diff_structs_def diff_unions_def diff_enums_def diff_error_enums_def diff_events_def
      index_by_name_def btree_of_def diff_index_def List.map_filter_simps one_event_def one_function_def
      diff_event_def param_shape_def diff_function_def diff_inputs_def change_of_def level_max_def
      split: option.splits)

end
