(* ===== verification/Pagination.thy ===== *)
theory Pagination
  imports Prelude
begin

text \<open>
  \<open>backend/registry_client/src/pagination.rs\<close>: the walk over the pages of a query.

  \<open>next_page\<close> is one call on the state of a \<open>Paginator\<close> (without its fetcher and its cancel
  token, which are the two inputs of the call): whether the token is cancelled, and the fetcher,
  which answers a request with an error, a page, or \<open>None\<close> when the cancellation arrives first.
  A \<open>walk\<close> is a sequence of such calls, failed ones included, as a caller makes them that
  retries. \<open>collect_all\<close> may run forever when no bound is set, so it is a partial function.
\<close>

section \<open>Modes, cursors and limits\<close>

definition DEFAULT_PAGE_SIZE :: u32 where "DEFAULT_PAGE_SIZE = 50"
definition MAX_PAGE_SIZE :: u32 where "MAX_PAGE_SIZE = 100"
definition DEFAULT_MAX_PAGES :: u64 where "DEFAULT_MAX_PAGES = 200"
definition DEFAULT_MAX_EMPTY_PAGES :: u32 where "DEFAULT_MAX_EMPTY_PAGES = 3"

datatype pagination_mode = CursorMode | OffsetMode

definition mode_str :: "pagination_mode \<Rightarrow> string" where
  "mode_str m = (case m of CursorMode \<Rightarrow> ''cursor'' | OffsetMode \<Rightarrow> ''offset'')"

definition mode_from_str :: "string \<Rightarrow> string + pagination_mode" where
  "mode_from_str value =
     (let v = ascii_lower (trim value) in
      if v = ''cursor'' \<or> v = ''keyset'' then Ok CursorMode
      else if v = ''offset'' \<or> v = ''limit-offset'' then Ok OffsetMode
      else Err (''unknown pagination mode `'' @ v @ ''`; expected `cursor` or `offset`''))"

datatype page_cursor = CursorAt string | OffsetAt u64

definition cursor_mode :: "page_cursor \<Rightarrow> pagination_mode" where
  "cursor_mode c = (case c of CursorAt _ \<Rightarrow> CursorMode | OffsetAt _ \<Rightarrow> OffsetMode)"

definition as_cursor :: "page_cursor \<Rightarrow> string option" where
  "as_cursor c = (case c of CursorAt token \<Rightarrow> Some token | OffsetAt _ \<Rightarrow> None)"

definition as_offset :: "page_cursor \<Rightarrow> u64 option" where
  "as_offset c = (case c of CursorAt _ \<Rightarrow> None | OffsetAt offset \<Rightarrow> Some offset)"

definition cursor_display :: "page_cursor \<Rightarrow> string" where
  "cursor_display c = (case c of CursorAt token \<Rightarrow> token | OffsetAt offset \<Rightarrow> dec (unat offset))"

datatype pagination_error =
    MixedPagination u64
  | ModeMismatch pagination_mode pagination_mode
  | RepeatedCursor u64
  | StalledOffset u64 u64
  | OffsetOverflow u64 u64
  | EmptyPageLoop u32

definition advance_offset :: "u64 \<Rightarrow> u64 \<Rightarrow> pagination_error + u64" where
  "advance_offset offset page_len =
     (case checked_add offset page_len of None \<Rightarrow> Err (OffsetOverflow offset page_len) | Some o' \<Rightarrow> Ok o')"

record 'a page =
  pg_items :: "'a list"
  pg_next :: "page_cursor option"
  pg_total :: "u64 option"

definition page_empty :: "'a page" where
  "page_empty = \<lparr>pg_items = [], pg_next = None, pg_total = None\<rparr>"

definition page_map :: "('a \<Rightarrow> 'b) \<Rightarrow> 'a page \<Rightarrow> 'b page" where
  "page_map f p = \<lparr>pg_items = map f (pg_items p), pg_next = pg_next p, pg_total = pg_total p\<rparr>"

record page_request =
  rq_cursor :: "page_cursor option"
  rq_limit :: u32
  rq_mode :: pagination_mode
  rq_page_index :: u64

record page_limits =
  page_size :: u32
  max_pages :: "u64 option"
  max_items :: "u64 option"
  max_empty_pages :: u32

definition limits_default :: page_limits where
  "limits_default = \<lparr>page_size = DEFAULT_PAGE_SIZE, max_pages = Some DEFAULT_MAX_PAGES,
     max_items = None, max_empty_pages = DEFAULT_MAX_EMPTY_PAGES\<rparr>"

definition limits_single_page :: "u32 \<Rightarrow> page_limits" where
  "limits_single_page n = \<lparr>page_size = n, max_pages = Some 1, max_items = None,
     max_empty_pages = DEFAULT_MAX_EMPTY_PAGES\<rparr>"

definition with_page_size :: "u32 \<Rightarrow> page_limits \<Rightarrow> page_limits" where
  "with_page_size n l = l\<lparr>page_size := n\<rparr>"

definition with_max_pages :: "u64 option \<Rightarrow> page_limits \<Rightarrow> page_limits" where
  "with_max_pages n l = l\<lparr>max_pages := n\<rparr>"

definition with_max_items :: "u64 option \<Rightarrow> page_limits \<Rightarrow> page_limits" where
  "with_max_items n l = l\<lparr>max_items := n\<rparr>"

definition with_max_empty_pages :: "u32 \<Rightarrow> page_limits \<Rightarrow> page_limits" where
  "with_max_empty_pages n l = l\<lparr>max_empty_pages := n\<rparr>"

definition effective_page_size :: "page_limits \<Rightarrow> u64 option \<Rightarrow> u32" where
  "effective_page_size l remaining_items =
     (let sz = clamp (page_size l) 1 MAX_PAGE_SIZE in
      case remaining_items of
        Some remaining \<Rightarrow> min sz (ucast (clamp remaining 1 (ucast MAX_PAGE_SIZE)))
      | None \<Rightarrow> sz)"

definition empty_page_budget :: "page_limits \<Rightarrow> u32" where
  "empty_page_budget l = max (max_empty_pages l) 1"

datatype stop_reason = Exhausted | MaxItems | MaxPages | Cancelled

definition stop_reason_str :: "stop_reason \<Rightarrow> string" where
  "stop_reason_str r = (case r of Exhausted \<Rightarrow> ''exhausted'' | MaxItems \<Rightarrow> ''max_items''
     | MaxPages \<Rightarrow> ''max_pages'' | Cancelled \<Rightarrow> ''cancelled'')"

definition is_complete :: "stop_reason \<Rightarrow> bool" where
  "is_complete r \<longleftrightarrow> r = Exhausted"

section \<open>The paginator\<close>

record paginator =
  p_mode :: pagination_mode
  p_limits :: page_limits
  p_next :: "page_cursor option"
  offset_position :: u64
  seen_cursors :: "string set"
  pages_fetched :: u64
  items_emitted :: u64
  p_total :: "u64 option"
  consecutive_empty_pages :: u32
  p_stop :: "stop_reason option"

definition paginator_new :: "pagination_mode \<Rightarrow> paginator" where
  "paginator_new mode =
     \<lparr>p_mode = mode, p_limits = limits_default, p_next = None, offset_position = 0, seen_cursors = {},
      pages_fetched = 0, items_emitted = 0, p_total = None, consecutive_empty_pages = 0, p_stop = None\<rparr>"

definition with_limits :: "page_limits \<Rightarrow> paginator \<Rightarrow> paginator" where
  "with_limits l p = p\<lparr>p_limits := l\<rparr>"

definition start_at :: "page_cursor option \<Rightarrow> paginator \<Rightarrow> pagination_error + paginator" where
  "start_at start p =
     (case (start, p_mode p) of
        (Some (OffsetAt offset), CursorMode) \<Rightarrow> Err (MixedPagination offset)
      | (Some (CursorAt _), OffsetMode) \<Rightarrow> Err (ModeMismatch OffsetMode CursorMode)
      | _ \<Rightarrow>
          (let p1 = (case start of
                 Some (CursorAt token) \<Rightarrow>
                   if token \<noteq> [] then p\<lparr>seen_cursors := insert token (seen_cursors p)\<rparr> else p
               | _ \<Rightarrow> p);
               p2 = (case start of
                 Some (OffsetAt offset) \<Rightarrow> p1\<lparr>offset_position := offset\<rparr>
               | _ \<Rightarrow> p1)
           in Ok (p2\<lparr>p_next := start\<rparr>)))"

text \<open>The fetcher's error and the walk's own, as in the client's \<open>Error\<close>.\<close>

datatype 'e walk_error = FetchError 'e | PaginationError pagination_error

type_synonym ('e, 'a) fetcher = "page_request \<Rightarrow> ('e + 'a page) option"

definition validate_continuation :: "paginator \<Rightarrow> 'a page \<Rightarrow> u64 \<Rightarrow> pagination_error + page_cursor option" where
  "validate_continuation p page page_len =
     (let page_number = pages_fetched p + 1 in
      case pg_next page of
        None \<Rightarrow> Ok None
      | Some next \<Rightarrow>
          if cursor_mode next \<noteq> p_mode p then Err (ModeMismatch (p_mode p) (cursor_mode next))
          else
            (case next of
               CursorAt token \<Rightarrow>
                 if token = [] then Ok None
                 else if token \<in> seen_cursors p then Err (RepeatedCursor page_number)
                 else Ok (Some (CursorAt token))
             | OffsetAt offset \<Rightarrow>
                 (case advance_offset (offset_position p) page_len of
                    Inl e \<Rightarrow> Err e
                  | Inr _ \<Rightarrow>
                      if offset \<le> offset_position p
                      then Err (StalledOffset (offset_position p) page_number)
                      else Ok (Some (OffsetAt offset)))))"

definition stop :: "stop_reason \<Rightarrow> paginator \<Rightarrow> paginator" where
  "stop reason p = p\<lparr>p_stop := Some reason\<rparr>"

text \<open>The items left to emit: the outer option is absent when the bound is reached.\<close>

definition remaining_items :: "paginator \<Rightarrow> u64 option option" where
  "remaining_items p =
     (case max_items (p_limits p) of
        None \<Rightarrow> Some None
      | Some bound \<Rightarrow>
          (let remaining = saturating_sub bound (items_emitted p)
           in if remaining = 0 then None else Some (Some remaining)))"

definition page_length :: "'a page \<Rightarrow> u64" where
  "page_length page = of_nat (length (pg_items page))"

text \<open>What is checked before anything is committed: the continuation and the run of empty pages.\<close>

definition check_page :: "paginator \<Rightarrow> 'a page \<Rightarrow> pagination_error + page_cursor option" where
  "check_page p page =
     (case validate_continuation p page (page_length page) of
        Inl e \<Rightarrow> Err e
      | Inr next \<Rightarrow>
          (let empties = saturating_add (consecutive_empty_pages p) 1 in
           if pg_items page = [] \<and> next \<noteq> None \<and> empty_page_budget (p_limits p) \<le> empties
           then Err (EmptyPageLoop empties) else Ok next))"

definition truncates :: "u64 option \<Rightarrow> 'a page \<Rightarrow> bool" where
  "truncates remaining page = (case remaining of None \<Rightarrow> False | Some r \<Rightarrow> r < page_length page)"

definition truncate_page :: "u64 option \<Rightarrow> 'a page \<Rightarrow> 'a page" where
  "truncate_page remaining page =
     (case remaining of
        Some r \<Rightarrow> if r < page_length page then page\<lparr>pg_items := take (unat r) (pg_items page)\<rparr> else page
      | None \<Rightarrow> page)"

text \<open>The commit: counters and positions, then where the walk goes on.\<close>

definition count_page :: "'a page \<Rightarrow> page_cursor option \<Rightarrow> paginator \<Rightarrow> paginator" where
  "count_page page next p =
     p\<lparr>pages_fetched := pages_fetched p + 1,
       items_emitted := items_emitted p + page_length page,
       p_total := (case pg_total page of Some t \<Rightarrow> Some t | None \<Rightarrow> p_total p),
       consecutive_empty_pages :=
         (if pg_items page = [] then saturating_add (consecutive_empty_pages p) 1 else 0),
       seen_cursors :=
         (case next of Some (CursorAt token) \<Rightarrow> insert token (seen_cursors p) | _ \<Rightarrow> seen_cursors p),
       offset_position := (case next of Some (OffsetAt offset) \<Rightarrow> offset | _ \<Rightarrow> offset_position p)\<rparr>"

definition continue_walk :: "bool \<Rightarrow> page_cursor option \<Rightarrow> paginator \<Rightarrow> paginator" where
  "continue_walk truncated next p =
     (if truncated then p\<lparr>p_next := None, p_stop := Some MaxItems\<rparr>
      else if next = None then p\<lparr>p_next := next, p_stop := Some Exhausted\<rparr>
      else if (case max_items (p_limits p) of Some bound \<Rightarrow> bound \<le> items_emitted p | None \<Rightarrow> False)
      then p\<lparr>p_next := next, p_stop := Some MaxItems\<rparr>
      else p\<lparr>p_next := next\<rparr>)"

definition next_page :: "bool \<Rightarrow> ('e, 'a) fetcher \<Rightarrow> paginator \<Rightarrow> paginator \<times> ('e walk_error + 'a page option)" where
  "next_page cancelled fetch p =
     (if p_stop p \<noteq> None then (p, Ok None)
      else if cancelled then (stop Cancelled p, Ok None)
      else if (case max_pages (p_limits p) of Some bound \<Rightarrow> bound \<le> pages_fetched p | None \<Rightarrow> False)
      then (stop MaxPages p, Ok None)
      else
        (case remaining_items p of
           None \<Rightarrow> (stop MaxItems p, Ok None)
         | Some remaining \<Rightarrow>
             (case fetch \<lparr>rq_cursor = p_next p, rq_limit = effective_page_size (p_limits p) remaining,
                          rq_mode = p_mode p, rq_page_index = pages_fetched p\<rparr> of
                None \<Rightarrow> (stop Cancelled p, Ok None)
              | Some (Inl e) \<Rightarrow> (p, Err (FetchError e))
              | Some (Inr page) \<Rightarrow>
                  (case check_page p page of
                     Inl e \<Rightarrow> (p, Err (PaginationError e))
                   | Inr next \<Rightarrow>
                       (let page' = truncate_page remaining page in
                        (continue_walk (truncates remaining page) next (count_page page' next p),
                         Ok (Some page')))))))"

record 'a page_collection =
  co_items :: "'a list"
  co_total :: "u64 option"
  co_pages_fetched :: u64
  co_stop_reason :: stop_reason
  co_next :: "page_cursor option"

text \<open>The inputs of the \<open>n\<close>-th call of \<open>next_page\<close> are \<open>env n\<close>.\<close>

partial_function (option) collect_from ::
    "(nat \<Rightarrow> bool \<times> ('e, 'a) fetcher) \<Rightarrow> nat \<Rightarrow> 'a list \<Rightarrow> paginator \<Rightarrow>
     (paginator \<times> ('e walk_error + 'a page_collection)) option" where
  "collect_from env n acc p =
     (case next_page (fst (env n)) (snd (env n)) p of
        (p', Inl e) \<Rightarrow> Some (p', Err e)
      | (p', Inr None) \<Rightarrow>
          Some (p', Ok \<lparr>co_items = acc, co_total = p_total p', co_pages_fetched = pages_fetched p',
            co_stop_reason = (case p_stop p' of Some r \<Rightarrow> r | None \<Rightarrow> Exhausted), co_next = p_next p'\<rparr>)
      | (p', Inr (Some page)) \<Rightarrow> collect_from env (Suc n) (acc @ pg_items page) p')"

definition collect_all ::
    "(nat \<Rightarrow> bool \<times> ('e, 'a) fetcher) \<Rightarrow> paginator \<Rightarrow>
     (paginator \<times> ('e walk_error + 'a page_collection)) option" where
  "collect_all env p = collect_from env 0 [] p"

section \<open>One call\<close>

text \<open>
  A call ends in one of four ways. \<open>committed\<close> describes the only one that moves the walk: the
  walk was open and below its bounds, the fetched page passed the checks, and what is handed
  out is that page, cut to the remaining items.
\<close>

definition committed :: "('e, 'a) fetcher \<Rightarrow> paginator \<Rightarrow> 'a page \<Rightarrow> paginator \<Rightarrow> 'a page \<Rightarrow> bool" where
  "committed fetch p page p' page' \<longleftrightarrow>
     p_stop p = None \<and>
     (\<forall>bound. max_pages (p_limits p) = Some bound \<longrightarrow> pages_fetched p < bound) \<and>
     fetch \<lparr>rq_cursor = p_next p,
            rq_limit = effective_page_size (p_limits p) (the (remaining_items p)),
            rq_mode = p_mode p, rq_page_index = pages_fetched p\<rparr> = Some (Inr page) \<and>
     (\<exists>remaining next. remaining_items p = Some remaining \<and> check_page p page = Ok next \<and>
        page' = truncate_page remaining page \<and>
        p' = continue_walk (truncates remaining page) next (count_page page' next p))"

lemma next_page_cases:
  obtains (Error) e where "next_page c fetch p = (p, Err e)"
  | (Stopped) "next_page c fetch p = (p, Ok None)" and "p_stop p \<noteq> None"
  | (Stops) r where "next_page c fetch p = (p\<lparr>p_stop := Some r\<rparr>, Ok None)"
  | (Page) page p' page' where "next_page c fetch p = (p', Ok (Some page'))"
      and "committed fetch p page p' page'"
proof (cases "p_stop p \<noteq> None \<or> c \<or> (\<exists>bound. max_pages (p_limits p) = Some bound \<and> bound \<le> pages_fetched p)")
  case True
  show thesis
  proof (cases "p_stop p")
    case None
    with True have "\<exists>r. next_page c fetch p = (p\<lparr>p_stop := Some r\<rparr>, Ok None)"
      by (auto simp: next_page_def stop_def split: option.splits)
    with that(3) show thesis by blast
  next
    case (Some r)
    then show thesis using that(2) by (simp add: next_page_def)
  qed
next
  case False
  then have open_walk: "p_stop p = None" "\<not> c"
    and pages: "\<forall>bound. max_pages (p_limits p) = Some bound \<longrightarrow> pages_fetched p < bound" by auto
  then have no_max: "\<not> (case max_pages (p_limits p) of Some bound \<Rightarrow> bound \<le> pages_fetched p | None \<Rightarrow> False)"
    by (auto split: option.splits)
  show thesis
  proof (cases "remaining_items p")
    case None
    with open_walk no_max show thesis by (intro that(3) [of MaxItems]) (simp add: next_page_def stop_def)
  next
    case (Some remaining)
    define rq where "rq = \<lparr>rq_cursor = p_next p, rq_limit = effective_page_size (p_limits p) remaining,
      rq_mode = p_mode p, rq_page_index = pages_fetched p\<rparr>"
    consider "fetch rq = None" | e where "fetch rq = Some (Inl e)"
      | page e where "fetch rq = Some (Inr page)" "check_page p page = Err e"
      | page nxt where "fetch rq = Some (Inr page)" "check_page p page = Ok nxt"
      by (metis option.exhaust sumE)
    then show thesis
    proof cases
      case 1
      with open_walk no_max Some show thesis
        by (intro that(3) [of Cancelled]) (simp add: next_page_def stop_def rq_def)
    next
      case (2 e)
      with open_walk no_max Some show thesis
        by (intro that(1) [of "FetchError e"]) (simp add: next_page_def rq_def)
    next
      case (3 page e)
      with open_walk no_max Some show thesis
        by (intro that(1) [of "PaginationError e"]) (simp add: next_page_def rq_def)
    next
      case (4 page nxt)
      with open_walk no_max Some have "next_page c fetch p =
          (continue_walk (truncates remaining page) nxt (count_page (truncate_page remaining page) nxt p),
           Ok (Some (truncate_page remaining page)))"
        by (simp add: next_page_def rq_def Let_def)
      moreover have "committed fetch p page
          (continue_walk (truncates remaining page) nxt (count_page (truncate_page remaining page) nxt p))
          (truncate_page remaining page)"
        using 4 open_walk pages Some by (auto simp: committed_def rq_def)
      ultimately show thesis by (rule that(4))
    qed
  qed
qed

text \<open>
  A failed call leaves the walk exactly as it was, so the retry asks for the same page:
  the state after an error is the state before, whatever the error.
\<close>

theorem next_page_error_keeps_state:
  assumes "next_page c fetch p = (p', Err e)"
  shows "p' = p"
  using assms by (cases rule: next_page_cases [of c fetch p]) auto

theorem next_page_error_keeps_state_witness:
  "next_page False (\<lambda>_. Some (Err ''timeout'')) (paginator_new CursorMode) =
     (paginator_new CursorMode, Err (FetchError ''timeout'')) \<and>
   paginator_new CursorMode = paginator_new CursorMode"
proof
  show failed: "next_page False (\<lambda>_. Some (Err ''timeout'')) (paginator_new CursorMode) =
     (paginator_new CursorMode, Err (FetchError ''timeout''))"
    by (simp add: next_page_def paginator_new_def limits_default_def DEFAULT_MAX_PAGES_def
        remaining_items_def)
  show "paginator_new CursorMode = paginator_new CursorMode"
    by (rule next_page_error_keeps_state [OF failed])
qed

section \<open>Walks\<close>

text \<open>
  A sequence of calls, and what they hand out: each page with the continuation that it was
  requested with.
\<close>

fun walk :: "(bool \<times> ('e, 'a) fetcher) list \<Rightarrow> paginator \<Rightarrow> paginator \<times> (page_cursor option \<times> 'a page) list" where
  "walk [] p = (p, [])"
| "walk ((c, fetch) # env) p =
     (case next_page c fetch p of
        (p', r) \<Rightarrow>
          (case walk env p' of
             (q, out) \<Rightarrow> (q, (case r of Inr (Some page) \<Rightarrow> (p_next p, page) # out | _ \<Rightarrow> out))))"

text \<open>Where a walk may go from a state: to a position that it has not been at.\<close>

definition fresh :: "paginator \<Rightarrow> page_cursor option \<Rightarrow> bool" where
  "fresh p c = (case c of None \<Rightarrow> False
     | Some (CursorAt token) \<Rightarrow> token \<noteq> [] \<and> token \<notin> seen_cursors p
     | Some (OffsetAt offset) \<Rightarrow> offset_position p < offset)"

definition position_ok :: "paginator \<Rightarrow> bool" where
  "position_ok p = (case p_next p of None \<Rightarrow> True
     | Some (CursorAt token) \<Rightarrow> p_mode p = CursorMode \<and> (token = [] \<or> token \<in> seen_cursors p)
     | Some (OffsetAt offset) \<Rightarrow> p_mode p = OffsetMode \<and> offset_position p = offset)"

lemma check_page_fresh:
  "check_page p page = Ok (Some nxt) \<Longrightarrow> fresh p (Some nxt) \<and> cursor_mode nxt = p_mode p"
  by (auto simp: check_page_def validate_continuation_def fresh_def Let_def cursor_mode_def
      split: sum.splits option.splits page_cursor.splits if_splits)

lemma committed_next:
  assumes "committed fetch p page p' page'"
  shows "position_ok p'" and "p_mode p' = p_mode p" and "p_limits p' = p_limits p"
    and "p_stop p' = None \<Longrightarrow> fresh p (p_next p')"
    and "fresh p' c \<Longrightarrow> fresh p c"
proof -
  obtain remaining nxt where nxt: "check_page p page = Ok nxt"
    and p': "p' = continue_walk (truncates remaining page) nxt (count_page page' nxt p)"
    using assms by (auto simp: committed_def)
  have "fresh p nxt \<and> cursor_mode (the nxt) = p_mode p" if "nxt \<noteq> None"
    using check_page_fresh [of p page "the nxt"] nxt that by auto
  then show "position_ok p'" and "p_mode p' = p_mode p" and "p_limits p' = p_limits p"
    and "p_stop p' = None \<Longrightarrow> fresh p (p_next p')" and "fresh p' c \<Longrightarrow> fresh p c"
    unfolding p' continue_walk_def count_page_def position_ok_def fresh_def cursor_mode_def
    by (auto split: option.splits page_cursor.splits if_splits)
qed

lemma walk_stopped: "p_stop p \<noteq> None \<Longrightarrow> walk env p = (p, [])"
  by (induction env) (auto simp: next_page_def)

text \<open>The shape of an induction over walks: a call either keeps the position or commits a page.\<close>

lemma walk_induct [consumes 1, case_names Nil Keep Page]:
  assumes "walk env p = (r, out)"
    and "\<And>p. P [] p p []"
    and "\<And>c fetch env p q r out. p_next q = p_next p \<Longrightarrow> p_mode q = p_mode p \<Longrightarrow> p_limits q = p_limits p \<Longrightarrow>
      offset_position q = offset_position p \<Longrightarrow> seen_cursors q = seen_cursors p \<Longrightarrow>
      pages_fetched q = pages_fetched p \<Longrightarrow> items_emitted q = items_emitted p \<Longrightarrow>
      P env q r out \<Longrightarrow> P ((c, fetch) # env) p r out"
    and "\<And>c fetch env p page p' page' r out. committed fetch p page p' page' \<Longrightarrow>
      walk env p' = (r, out) \<Longrightarrow> P env p' r out \<Longrightarrow>
      P ((c, fetch) # env) p r ((p_next p, page') # out)"
  shows "P env p r out"
  using assms(1)
proof (induction env arbitrary: p r out)
  case Nil
  then show ?case using assms(2) by simp
next
  case (Cons x env)
  obtain c fetch where x: "x = (c, fetch)" by (cases x)
  show ?case
  proof (cases rule: next_page_cases [of c fetch p])
    case (Error e)
    with Cons.prems have "walk env p = (r, out)" by (simp add: x split: prod.splits)
    from Cons.IH [OF this] show ?thesis unfolding x by (intro assms(3) [of p p]) simp_all
  next
    case Stopped
    with Cons.prems have "walk env p = (r, out)" by (simp add: x split: prod.splits)
    from Cons.IH [OF this] show ?thesis unfolding x by (intro assms(3) [of p p]) simp_all
  next
    case (Stops s)
    with Cons.prems have "walk env (p\<lparr>p_stop := Some s\<rparr>) = (r, out)" by (simp add: x split: prod.splits)
    from Cons.IH [OF this] show ?thesis
      unfolding x by (intro assms(3) [of "p\<lparr>p_stop := Some s\<rparr>" p]) simp_all
  next
    case (Page page p' page')
    with Cons.prems obtain out' where "walk env p' = (r, out')" and "out = (p_next p, page') # out'"
      by (auto simp: x split: prod.splits)
    then show ?thesis unfolding x using assms(4) [OF Page(2)] Cons.IH by blast
  qed
qed

lemma same_position:
  assumes "p_next q = p_next p" and "p_mode q = p_mode p" and "offset_position q = offset_position p"
    and "seen_cursors q = seen_cursors p"
  shows "position_ok q = position_ok p" and "fresh q = fresh p"
  by (auto simp: position_ok_def fresh_def assms cong: option.case_cong page_cursor.case_cong)

lemma walk_positions:
  "walk env p = (r, out) \<Longrightarrow> position_ok p \<Longrightarrow>
   distinct (map fst out) \<and> (\<forall>c \<in> fst ` set out. c = p_next p \<or> fresh p c)"
proof (induction rule: walk_induct)
  case (Nil p)
  then show ?case by simp
next
  case (Keep c fetch env p q r out)
  have same: "position_ok q = position_ok p" "fresh q = fresh p"
    by (rule same_position; fact Keep)+
  then have "position_ok q" using Keep(9) by simp
  from Keep(8) [OF this] show ?case by (simp add: same Keep(1))
next
  case (Page c fetch env p page p' page' r out)
  note next_facts = committed_next [OF Page(1)]
  have IH: "distinct (map fst out)" "\<forall>c \<in> fst ` set out. c = p_next p' \<or> fresh p' c"
    using Page(3) next_facts(1) by auto
  have "fresh p c" if "c \<in> fst ` set out" for c
  proof -
    have "p_stop p' = None"
    proof (rule ccontr)
      assume "p_stop p' \<noteq> None"
      from walk_stopped [OF this, of env] Page(2) that show False by simp
    qed
    from bspec [OF IH(2) that] next_facts(4) [OF this] next_facts(5) [of c] show ?thesis by auto
  qed
  moreover have "\<not> fresh p (p_next p)"
    using Page(4) by (auto simp: position_ok_def fresh_def split: option.splits page_cursor.splits)
  ultimately show ?case using IH(1) by auto
qed

lemma start_at_ok:
  assumes "start_at s (with_limits l (paginator_new mode)) = Ok p"
  shows "position_ok p" and "p_next p = s" and "p_mode p = mode" and "p_limits p = l"
    and "pages_fetched p = 0" and "items_emitted p = 0" and "p_stop p = None"
  using assms
  by (auto simp: start_at_def with_limits_def paginator_new_def position_ok_def Let_def
      split: option.splits page_cursor.splits pagination_mode.splits if_splits)

text \<open>
  C21. No page is read twice: along any sequence of calls on a started walk, with failed,
  cancelled and repeated ones among them and whatever the server answers, the pages handed out
  were requested with pairwise different continuations (different cursors, or different
  offsets).
\<close>

theorem walk_never_repeats:
  assumes "start_at s (with_limits l (paginator_new mode)) = Ok p"
  shows "distinct (map fst (snd (walk env p)))"
  using walk_positions [OF prod.collapse [symmetric] start_at_ok(1) [OF assms]] by blast

definition two_pages :: "(string, nat) fetcher" where
  "two_pages rq = Some (Ok
     (case rq_cursor rq of
        None \<Rightarrow> \<lparr>pg_items = [1, 2], pg_next = Some (CursorAt ''a''), pg_total = Some 3\<rparr>
      | Some _ \<Rightarrow> \<lparr>pg_items = [3], pg_next = None, pg_total = Some 3\<rparr>))"

theorem walk_never_repeats_witness:
  "distinct (map fst (snd (walk [(False, two_pages), (False, \<lambda>_. Some (Err ''timeout'')), (False, two_pages)]
     (with_limits limits_default (paginator_new CursorMode)))))"
  by (rule walk_never_repeats [of None limits_default CursorMode])
    (simp add: start_at_def with_limits_def paginator_new_def)

section \<open>Bounds\<close>

text \<open>The length of a vector fits in a word.\<close>

definition page_fits :: "('e, 'a) fetcher \<Rightarrow> bool" where
  "page_fits fetch \<longleftrightarrow> (\<forall>rq page. fetch rq = Some (Inr page) \<longrightarrow> length (pg_items page) < 2 ^ 64)"

lemma page_length_nat: "length (pg_items page) < 2 ^ 64 \<Longrightarrow> unat (page_length page) = length (pg_items page)"
  by (simp add: page_length_def unsigned_of_nat take_bit_eq_mod)

lemma continue_walk_fields [simp]:
  "pages_fetched (continue_walk b nxt p) = pages_fetched p"
  "items_emitted (continue_walk b nxt p) = items_emitted p"
  "p_limits (continue_walk b nxt p) = p_limits p"
  by (auto simp: continue_walk_def)

lemma committed_pages:
  assumes "committed fetch p page p' page'" and "max_pages (p_limits p) = Some m"
  shows "unat (pages_fetched p') = unat (pages_fetched p) + 1" and "unat (pages_fetched p) < unat m"
proof -
  have "pages_fetched p < m" using assms by (auto simp: committed_def)
  then show lt: "unat (pages_fetched p) < unat m" by (simp add: word_less_nat_alt)
  have "pages_fetched p' = pages_fetched p + 1"
    using assms(1) by (auto simp: committed_def count_page_def)
  moreover have "unat m < 2 ^ 64" using unat_lt_exp [of m] by simp
  ultimately show "unat (pages_fetched p') = unat (pages_fetched p) + 1"
    using lt by (simp add: unat_inc)
qed

lemma committed_items:
  assumes "committed fetch p page p' page'" and "max_items (p_limits p) = Some m"
    and fits: "page_fits fetch" and le: "unat (items_emitted p) \<le> unat m"
  shows "unat (items_emitted p') = unat (items_emitted p) + length (pg_items page')"
    and "unat (items_emitted p') \<le> unat m"
proof -
  obtain remaining nxt where rem: "remaining_items p = Some remaining"
    and page': "page' = truncate_page remaining page"
    and p': "p' = continue_walk (truncates remaining page) nxt (count_page page' nxt p)"
    using assms(1) by (auto simp: committed_def)
  have len: "length (pg_items page) < 2 ^ 64"
    using assms(1) fits by (auto simp: committed_def page_fits_def)
  have r: "remaining = Some (saturating_sub m (items_emitted p))"
    using rem assms(2) by (auto simp: remaining_items_def Let_def split: if_splits)
  have "length (pg_items page') \<le> unat m - unat (items_emitted p)"
    using len by (auto simp: page' r truncate_page_def word_less_nat_alt page_length_nat unat_saturating_sub)
  then have sum: "unat (items_emitted p) + length (pg_items page') \<le> unat m" using le by simp
  moreover have "unat m < 2 ^ 64" using unat_lt_exp [of m] by simp
  moreover have "length (pg_items page') < 2 ^ 64" using len by (auto simp: page' truncate_page_def split: option.split)
  ultimately have "unat (items_emitted p + page_length page') = unat (items_emitted p) + length (pg_items page')"
    by (simp add: unat_word_ariths page_length_nat)
  then show "unat (items_emitted p') = unat (items_emitted p) + length (pg_items page')"
    and "unat (items_emitted p') \<le> unat m"
    using sum by (simp_all add: p' count_page_def)
qed

lemma walk_pages_bounded:
  "walk env p = (r, out) \<Longrightarrow> max_pages (p_limits p) = Some m \<Longrightarrow> unat (pages_fetched p) \<le> unat m \<Longrightarrow>
   unat (pages_fetched p) + length out \<le> unat m"
proof (induction rule: walk_induct)
  case (Page c fetch env p page p' page' r out)
  from committed_pages [OF Page(1,4)] committed_next(3) [OF Page(1)] Page(3,4) show ?case by simp
qed simp_all

lemma walk_items_bounded:
  "walk env p = (r, out) \<Longrightarrow> max_items (p_limits p) = Some m \<Longrightarrow> unat (items_emitted p) \<le> unat m \<Longrightarrow>
   list_all (\<lambda>(c, fetch). page_fits fetch) env \<Longrightarrow>
   unat (items_emitted p) + length (concat (map (pg_items \<circ> snd) out)) \<le> unat m"
proof (induction rule: walk_induct)
  case (Page c fetch env p page p' page' r out)
  have "page_fits fetch" using Page(6) by simp
  from committed_items [OF Page(1,4) this Page(5)] committed_next(3) [OF Page(1)] Page(3,4,6)
  show ?case by simp
qed simp_all

text \<open>
  The bounds hold for every walk, whatever the server returns: with \<open>max_pages = m\<close> at
  most \<open>m\<close> pages are handed out, with \<open>max_items = m\<close> at most \<open>m\<close> items, over all calls
  together.
\<close>

theorem walk_respects_bounds:
  assumes "start_at s (with_limits l (paginator_new mode)) = Ok p"
    and "list_all (\<lambda>(c, fetch). page_fits fetch) env"
  shows "(\<forall>m. max_pages l = Some m \<longrightarrow> length (snd (walk env p)) \<le> unat m) \<and>
    (\<forall>m. max_items l = Some m \<longrightarrow> length (concat (map (pg_items \<circ> snd) (snd (walk env p)))) \<le> unat m)"
proof -
  note p = start_at_ok [OF assms(1)]
  have "length (snd (walk env p)) \<le> unat m" if "max_pages l = Some m" for m
    using walk_pages_bounded [where env = env and p = p and m = m, OF prod.collapse [symmetric]] that by (simp add: p)
  moreover have "length (concat (map (pg_items \<circ> snd) (snd (walk env p)))) \<le> unat m"
    if "max_items l = Some m" for m
    using walk_items_bounded [where env = env and p = p and m = m, OF prod.collapse [symmetric]] that assms(2)
    by (simp add: p comp_def)
  ultimately show ?thesis by blast
qed

theorem walk_respects_bounds_witness:
  "length (snd (walk [(False, two_pages), (False, two_pages)]
     (with_limits (with_max_items (Some 2) limits_default) (paginator_new CursorMode)))) \<le> 200 \<and>
   length (concat (map (pg_items \<circ> snd) (snd (walk [(False, two_pages), (False, two_pages)]
     (with_limits (with_max_items (Some 2) limits_default) (paginator_new CursorMode)))))) \<le> 2"
proof -
  let ?l = "with_max_items (Some 2) limits_default"
  have start: "start_at None (with_limits ?l (paginator_new CursorMode)) =
      Ok (with_limits ?l (paginator_new CursorMode))"
    by (simp add: start_at_def with_limits_def paginator_new_def)
  have "page_fits two_pages" by (auto simp: page_fits_def two_pages_def split: option.splits)
  then have "list_all (\<lambda>(c, fetch). page_fits fetch) [(False, two_pages), (False, two_pages)]" by simp
  note bounds = walk_respects_bounds [OF start this]
  have "max_pages ?l = Some DEFAULT_MAX_PAGES" "max_items ?l = Some 2"
    by (simp_all add: with_max_items_def limits_default_def)
  with bounds show ?thesis by (simp add: DEFAULT_MAX_PAGES_def)
qed

section \<open>Collecting everything\<close>

text \<open>
  While pages come, each call raises \<open>pages_fetched\<close>, which stays at most \<open>max_pages\<close>: the
  calls left are at most \<open>max_pages - pages_fetched + 1\<close>.
\<close>

lemma collect_from_returns:
  assumes "max_pages (p_limits p) = Some m"
  shows "\<exists>q r. collect_from env n acc p = Some (q, r) \<and>
    (\<forall>col. r = Ok col \<longrightarrow> p_stop q = Some (co_stop_reason col) \<and>
       (\<exists>out. walk (map env [n..<n + length out + 1]) p = (q, out) \<and>
          co_items col = acc @ concat (map (pg_items \<circ> snd) out)))"
  using assms
proof (induction "unat m - unat (pages_fetched p)" arbitrary: n acc p rule: less_induct)
  case less
  obtain c fetch where env: "env n = (c, fetch)" by (cases "env n")
  show ?case
  proof (cases rule: next_page_cases [of c fetch p])
    case (Error e)
    then show ?thesis by (subst collect_from.simps) (simp add: env)
  next
    case Stopped
    then show ?thesis
      by (subst collect_from.simps) (auto simp: env intro!: exI [of _ "[]"])
  next
    case (Stops s)
    then show ?thesis
      by (subst collect_from.simps) (auto simp: env intro!: exI [of _ "[]"])
  next
    case (Page page p' page')
    have "unat m - unat (pages_fetched p') < unat m - unat (pages_fetched p)"
      using committed_pages [OF Page(2) less.prems] by simp
    from less.hyps [OF this, of "Suc n" "acc @ pg_items page'"] obtain q r where
      rec: "collect_from env (Suc n) (acc @ pg_items page') p' = Some (q, r)"
      and res: "\<And>col. r = Ok col \<Longrightarrow> p_stop q = Some (co_stop_reason col) \<and>
        (\<exists>out. walk (map env [Suc n..<Suc n + length out + 1]) p' = (q, out) \<and>
          co_items col = (acc @ pg_items page') @ concat (map (pg_items \<circ> snd) out))"
      using less.prems committed_next(3) [OF Page(2)] by auto
    have "collect_from env n acc p = Some (q, r)"
      using rec Page(1) by (subst collect_from.simps) (simp add: env)
    moreover have "\<exists>out. walk (map env [n..<n + length out + 1]) p = (q, out) \<and>
        co_items col = acc @ concat (map (pg_items \<circ> snd) out)" if "r = Ok col" for col
    proof -
      from res [OF that] obtain out where w: "walk (map env [Suc n..<Suc n + length out + 1]) p' = (q, out)"
        and items: "co_items col = (acc @ pg_items page') @ concat (map (pg_items \<circ> snd) out)" by blast
      have "[n..<n + length ((p_next p, page') # out) + 1] = n # [Suc n..<Suc n + length out + 1]"
        by (simp add: upt_rec)
      then have "walk (map env [n..<n + length ((p_next p, page') # out) + 1]) p = (q, (p_next p, page') # out)"
        using w Page(1) by (simp add: env)
      with items show ?thesis by (intro exI [of _ "(p_next p, page') # out"]) simp
    qed
    ultimately show ?thesis using res by blast
  qed
qed

text \<open>
  C40. With a page bound (the default) \<open>collect_all\<close> returns for every behaviour of the
  server; when it returns a collection, the items are those of the pages of the walk that it
  made, in the order the server sent them, and the recorded stop reason is the walk's.
\<close>

theorem collect_all_returns:
  assumes "max_pages (p_limits p) = Some m"
  shows "\<exists>q r. collect_all env p = Some (q, r) \<and>
    (\<forall>col. r = Ok col \<longrightarrow> p_stop q = Some (co_stop_reason col) \<and>
       (\<exists>out. walk (map env [0..<length out + 1]) p = (q, out) \<and>
          co_items col = concat (map (pg_items \<circ> snd) out)))"
  using collect_from_returns [OF assms, of env 0 "[]"] by (simp add: collect_all_def)

theorem collect_all_returns_witness:
  "\<exists>q r. collect_all (\<lambda>_. (False, two_pages)) (paginator_new CursorMode) = Some (q, r)"
  using collect_all_returns [of "paginator_new CursorMode" DEFAULT_MAX_PAGES "\<lambda>_. (False, two_pages)"]
  by (auto simp: paginator_new_def limits_default_def)

text \<open>
  A budget of \<open>n\<close> empty pages tolerates \<open>n - 1\<close> of them: with the minimum of 1, the first
  empty page that carries a continuation is an error, and with the default of 3 the third one.
\<close>

theorem empty_page_budget_off_by_one:
  assumes "p_stop p = None" and "p_mode p = CursorMode" and "max_pages (p_limits p) = None"
    and "max_items (p_limits p) = None" and "token \<noteq> []" and "token \<notin> seen_cursors p"
    and "unat (consecutive_empty_pages p) + 1 = unat (empty_page_budget (p_limits p))"
  shows "next_page False (\<lambda>_. Some (Ok \<lparr>pg_items = [], pg_next = Some (CursorAt token), pg_total = None\<rparr>)) p
    = (p, Err (PaginationError (EmptyPageLoop (empty_page_budget (p_limits p)))))"
proof -
  have "unat (saturating_add (consecutive_empty_pages p) 1) = unat (empty_page_budget (p_limits p))"
    using assms(7) unat_lt_exp [of "empty_page_budget (p_limits p)"] by (simp add: unat_saturating_add)
  then have "saturating_add (consecutive_empty_pages p) 1 = empty_page_budget (p_limits p)"
    by (simp add: word_unat_eq_iff)
  then show ?thesis
    using assms
    by (simp add: next_page_def remaining_items_def check_page_def validate_continuation_def Let_def
        cursor_mode_def)
qed

theorem empty_page_budget_off_by_one_witness:
  "next_page False (\<lambda>_. Some (Ok \<lparr>pg_items = [], pg_next = Some (CursorAt ''a''), pg_total = None\<rparr>))
     (with_limits (with_max_pages None (with_max_empty_pages 1 limits_default)) (paginator_new CursorMode)) =
   (with_limits (with_max_pages None (with_max_empty_pages 1 limits_default)) (paginator_new CursorMode),
    Err (PaginationError (EmptyPageLoop 1)))"
  using empty_page_budget_off_by_one [of "with_limits (with_max_pages None (with_max_empty_pages 1 limits_default))
     (paginator_new CursorMode)" "''a''"]
  by (simp add: with_limits_def with_max_pages_def with_max_empty_pages_def limits_default_def
      paginator_new_def empty_page_budget_def)

end
