(* ===== verification/Dependency_Risk.thy ===== *)
theory Dependency_Risk
  imports Semver
begin

text \<open>
  \<open>backend/shared/src/dependency_graph.rs\<close>: the traversal budget, the risk rules, how findings
  are deduplicated, ordered and counted, cycle segments and version conflicts.

  A \<open>Uuid\<close> is its 128-bit value, whose order is the order of its bytes. Derived \<open>Ord\<close> of an
  enum is the order of its constructors; \<open>Option\<close>, tuples and vectors compare as the library's
  orders on options, products and lists do.
\<close>

type_synonym uuid = "128 word"

section \<open>Traversal budget\<close>

definition DEFAULT_MAX_DEPTH :: u32 where "DEFAULT_MAX_DEPTH = 10"
definition MAX_DEPTH_CAP :: u32 where "MAX_DEPTH_CAP = 32"
definition DEFAULT_MAX_NODES :: u64 where "DEFAULT_MAX_NODES = 1000"
definition MAX_NODES_CAP :: u64 where "MAX_NODES_CAP = 10000"
definition TRAVERSAL_STATEMENT_TIMEOUT_MS :: u32 where "TRAVERSAL_STATEMENT_TIMEOUT_MS = 10000"

definition clamp_depth :: "u32 option \<Rightarrow> u32" where
  "clamp_depth requested = clamp (unwrap_or requested DEFAULT_MAX_DEPTH) 1 MAX_DEPTH_CAP"

definition clamp_max_nodes :: "u64 option \<Rightarrow> u64" where
  "clamp_max_nodes requested = clamp (unwrap_or requested DEFAULT_MAX_NODES) 1 MAX_NODES_CAP"

datatype edge_source = Declared | Telemetry

datatype edge_state = Resolved | Unresolved | NetworkMismatch

definition is_traversable :: "edge_state \<Rightarrow> bool" where
  "is_traversable s \<longleftrightarrow> s = Resolved"

section \<open>Diagnostics\<close>

datatype diagnostic_kind = Cycle | UnresolvedEdge | NetworkMismatchEdge | Truncated | VersionConflict | RedactedNode

fun kind_rank :: "diagnostic_kind \<Rightarrow> nat" where
  "kind_rank Cycle = 0"
| "kind_rank UnresolvedEdge = 1"
| "kind_rank NetworkMismatchEdge = 2"
| "kind_rank Truncated = 3"
| "kind_rank VersionConflict = 4"
| "kind_rank RedactedNode = 5"

lemma kind_rank_inj: "kind_rank a = kind_rank b \<longleftrightarrow> a = b"
  by (cases a; cases b) simp_all

instantiation diagnostic_kind :: linorder
begin

definition less_eq_diagnostic_kind :: "diagnostic_kind \<Rightarrow> diagnostic_kind \<Rightarrow> bool" where
  "less_eq_diagnostic_kind a b \<longleftrightarrow> kind_rank a \<le> kind_rank b"

definition less_diagnostic_kind :: "diagnostic_kind \<Rightarrow> diagnostic_kind \<Rightarrow> bool" where
  "less_diagnostic_kind a b \<longleftrightarrow> kind_rank a < kind_rank b"

instance
  by standard (auto simp: less_eq_diagnostic_kind_def less_diagnostic_kind_def kind_rank_inj [symmetric])

end

record diagnostic =
  dg_kind :: diagnostic_kind
  dg_path :: "uuid list"
  dg_detail :: string

datatype truncation_reason = DepthLimit | NodeLimit | TimeLimit

definition truncation_detail :: "truncation_reason \<Rightarrow> u64 \<Rightarrow> string" where
  "truncation_detail r limit =
     (case r of
        DepthLimit \<Rightarrow> ''traversal stopped at the depth limit of '' @ dec (unat limit)
      | NodeLimit \<Rightarrow> ''traversal stopped at the node limit of '' @ dec (unat limit)
      | TimeLimit \<Rightarrow> ''traversal exceeded its '' @ dec (unat limit) @ ''ms time budget'')"

section \<open>Risk rules\<close>

datatype issue_severity = Low | Medium | High | Critical

fun severity_level :: "issue_severity \<Rightarrow> nat" where
  "severity_level Low = 0"
| "severity_level Medium = 1"
| "severity_level High = 2"
| "severity_level Critical = 3"

lemma severity_level_inj: "severity_level a = severity_level b \<longleftrightarrow> a = b"
  by (cases a; cases b) simp_all

instantiation issue_severity :: linorder
begin

definition less_eq_issue_severity :: "issue_severity \<Rightarrow> issue_severity \<Rightarrow> bool" where
  "less_eq_issue_severity a b \<longleftrightarrow> severity_level a \<le> severity_level b"

definition less_issue_severity :: "issue_severity \<Rightarrow> issue_severity \<Rightarrow> bool" where
  "less_issue_severity a b \<longleftrightarrow> severity_level a < severity_level b"

instance
  by standard (auto simp: less_eq_issue_severity_def less_issue_severity_def severity_level_inj [symmetric])

end

datatype risk_rule =
    OpenVulnerability
  | SignatureRevoked
  | ArtifactQuarantined
  | ArtifactUnsigned
  | DeprecatedNoReplacement
  | DeprecatedWithReplacement
  | InterfaceIncompatibility

fun rule_id :: "risk_rule \<Rightarrow> string" where
  "rule_id OpenVulnerability = ''open_vulnerability''"
| "rule_id SignatureRevoked = ''signature_revoked''"
| "rule_id ArtifactQuarantined = ''artifact_quarantined''"
| "rule_id ArtifactUnsigned = ''artifact_unsigned''"
| "rule_id DeprecatedNoReplacement = ''deprecated_no_replacement''"
| "rule_id DeprecatedWithReplacement = ''deprecated_with_replacement''"
| "rule_id InterfaceIncompatibility = ''interface_incompatibility''"

fun direct_severity :: "risk_rule \<Rightarrow> issue_severity option" where
  "direct_severity OpenVulnerability = None"
| "direct_severity SignatureRevoked = Some High"
| "direct_severity ArtifactQuarantined = Some High"
| "direct_severity ArtifactUnsigned = Some Medium"
| "direct_severity DeprecatedNoReplacement = Some Medium"
| "direct_severity DeprecatedWithReplacement = Some Low"
| "direct_severity InterfaceIncompatibility = Some High"

fun inherited_severity :: "risk_rule \<Rightarrow> issue_severity \<Rightarrow> issue_severity option" where
  "inherited_severity OpenVulnerability direct = Some direct"
| "inherited_severity SignatureRevoked direct = Some High"
| "inherited_severity ArtifactQuarantined direct = Some Medium"
| "inherited_severity ArtifactUnsigned direct = Some Low"
| "inherited_severity DeprecatedNoReplacement direct = Some Low"
| "inherited_severity DeprecatedWithReplacement direct = None"
| "inherited_severity InterfaceIncompatibility direct = None"

record finding =
  f_rule :: string
  f_severity :: issue_severity
  f_origin :: uuid
  f_id :: string
  f_path :: "uuid list"
  f_depth :: u32
  f_detail :: string

definition is_direct :: "finding \<Rightarrow> bool" where
  "is_direct f \<longleftrightarrow> f_depth f = 0"

definition dedup_key :: "finding \<Rightarrow> string \<times> uuid \<times> string" where
  "dedup_key f = (f_rule f, f_origin f, f_id f)"

section \<open>Aggregation\<close>

record severity_counts = critical :: u32  high :: u32  medium :: u32  low :: u32

definition count_one :: "severity_counts \<Rightarrow> finding \<Rightarrow> severity_counts" where
  "count_one c f =
     (case f_severity f of
        Critical \<Rightarrow> c\<lparr>critical := critical c + 1\<rparr>
      | High \<Rightarrow> c\<lparr>high := high c + 1\<rparr>
      | Medium \<Rightarrow> c\<lparr>medium := medium c + 1\<rparr>
      | Low \<Rightarrow> c\<lparr>low := low c + 1\<rparr>)"

definition tally :: "finding list \<Rightarrow> severity_counts" where
  "tally fs = foldl count_one \<lparr>critical = 0, high = 0, medium = 0, low = 0\<rparr> fs"

definition total :: "severity_counts \<Rightarrow> u32" where
  "total c = critical c + high c + medium c + low c"

definition ordering_key :: "severity_counts \<Rightarrow> u32 \<times> u32 \<times> u32 \<times> u32" where
  "ordering_key c = (critical c, high c, medium c, low c)"

record effective_risk =
  effective_severity :: "issue_severity option"
  counts :: severity_counts

definition max_of :: "'a::linorder list \<Rightarrow> 'a option" where
  "max_of xs = (case xs of [] \<Rightarrow> None | x # xs' \<Rightarrow> Some (foldl max x xs'))"

definition from_findings :: "finding list \<Rightarrow> effective_risk" where
  "from_findings fs = \<lparr>effective_severity = max_of (map f_severity fs), counts = tally fs\<rparr>"

definition meets_threshold :: "effective_risk \<Rightarrow> issue_severity \<Rightarrow> bool" where
  "meets_threshold r threshold =
     (case effective_severity r of None \<Rightarrow> False | Some s \<Rightarrow> threshold \<le> s)"

definition risk_cmp :: "effective_risk \<Rightarrow> effective_risk \<Rightarrow> ordering" where
  "risk_cmp a b = then_cmp (cmp_lin (effective_severity a) (effective_severity b))
     (cmp_lin (ordering_key (counts a)) (ordering_key (counts b)))"

section \<open>Deduplication and order\<close>

definition path_key :: "finding \<Rightarrow> nat \<times> uuid list" where
  "path_key f = (length (f_path f), f_path f)"

definition finding_cmp :: "finding \<Rightarrow> finding \<Rightarrow> ordering" where
  "finding_cmp a b =
     then_cmp (cmp_lin (f_severity b) (f_severity a))
       (then_cmp (cmp_lin (f_rule a) (f_rule b))
         (then_cmp (cmp_lin (f_path a) (f_path b))
           (then_cmp (cmp_lin (f_origin a) (f_origin b)) (cmp_lin (f_id a) (f_id b)))))"

definition sort_findings :: "finding list \<Rightarrow> finding list" where
  "sort_findings fs = sort_by finding_cmp fs"

definition keep_best :: "(string \<times> uuid \<times> string, finding) btree \<Rightarrow> finding \<Rightarrow>
    (string \<times> uuid \<times> string, finding) btree" where
  "keep_best best f =
     (case map_of best (dedup_key f) of
        Some existing \<Rightarrow>
          if path_key existing \<le> path_key f then best else btree_insert (dedup_key f) f best
      | None \<Rightarrow> btree_insert (dedup_key f) f best)"

definition dedup_findings :: "finding list \<Rightarrow> finding list" where
  "dedup_findings fs = sort_findings (map snd (foldl keep_best [] fs))"

definition diagnostic_cmp :: "diagnostic \<Rightarrow> diagnostic \<Rightarrow> ordering" where
  "diagnostic_cmp a b =
     then_cmp (cmp_lin (dg_kind a) (dg_kind b))
       (then_cmp (cmp_lin (dg_path a) (dg_path b)) (cmp_lin (dg_detail a) (dg_detail b)))"

definition sort_diagnostics :: "diagnostic list \<Rightarrow> diagnostic list" where
  "sort_diagnostics ds = sort_by diagnostic_cmp ds"

section \<open>Cycles and version conflicts\<close>

fun position :: "('a \<Rightarrow> bool) \<Rightarrow> 'a list \<Rightarrow> nat option" where
  "position p [] = None"
| "position p (x # xs) = (if p x then Some 0 else map_option Suc (position p xs))"

definition cycle_segment :: "uuid list \<Rightarrow> uuid \<Rightarrow> uuid list option" where
  "cycle_segment path repeated =
     (case position (\<lambda>node. node = repeated) path of
        None \<Rightarrow> None
      | Some start \<Rightarrow> Some (drop start path @ [repeated]))"

definition constraints_conflict :: "string \<Rightarrow> string \<Rightarrow> string list \<Rightarrow> bool" where
  "constraints_conflict a b published_versions =
     (case (constraint_parse a, constraint_parse b) of
        (Some ca, Some cb) \<Rightarrow>
          published_versions \<noteq> [] \<and>
          \<not> list_ex (\<lambda>v. constraint_matches ca v \<and> constraint_matches cb v)
              (List.map_filter semver_parse published_versions)
      | _ \<Rightarrow> False)"

section \<open>The comparators are orders\<close>

lemma finding_cmp_rust_ord: "rust_ord finding_cmp"
  unfolding finding_cmp_def by (intro rust_ord_intros)

interpretation findings: rust_ord finding_cmp
  by (rule finding_cmp_rust_ord)

interpretation diagnostics: rust_ord diagnostic_cmp
  unfolding diagnostic_cmp_def by (intro rust_ord_intros)

interpretation risks: rust_ord risk_cmp
  unfolding risk_cmp_def by (intro rust_ord_intros)

lemma finding_cmp_key: "finding_cmp a b = Equal \<Longrightarrow> dedup_key a = dedup_key b"
  by (simp add: finding_cmp_def cmp_simps dedup_key_def)

section \<open>Deduplication\<close>

text \<open>
  The map of the loop after some findings: every entry stands under its own key, is one of the
  findings and has the least path among those of its key.
\<close>

definition best_of :: "finding list \<Rightarrow> (string \<times> uuid \<times> string, finding) btree \<Rightarrow> bool" where
  "best_of fs m \<longleftrightarrow> btree_wf m \<and>
     (\<forall>k g. map_of m k = Some g \<longrightarrow> dedup_key g = k \<and> g \<in> set fs) \<and>
     (\<forall>f \<in> set fs. \<exists>g. map_of m (dedup_key f) = Some g \<and> path_key g \<le> path_key f)"

lemma best_of_step: "best_of fs m \<Longrightarrow> best_of (fs @ [f]) (keep_best m f)"
  unfolding best_of_def keep_best_def
  by (cases "map_of m (dedup_key f)")
    (auto simp: btree_wf_insert map_of_btree_insert split: if_splits; fastforce)+

lemma best_of_foldl: "best_of fs (foldl keep_best [] fs)"
proof (induction fs rule: rev_induct)
  case Nil
  show ?case by (simp add: best_of_def btree_wf_def)
next
  case (snoc f fs)
  then show ?case by (simp add: best_of_step)
qed

lemma best_of_dest:
  assumes "best_of fs m"
  shows "btree_wf m"
    and "map_of m k = Some g \<Longrightarrow> dedup_key g = k" and "map_of m k = Some g \<Longrightarrow> g \<in> set fs"
    and "f \<in> set fs \<Longrightarrow> \<exists>g. map_of m (dedup_key f) = Some g \<and> path_key g \<le> path_key f"
  using assms unfolding best_of_def by blast+

lemma best_of_values:
  assumes "best_of fs m"
  shows "set (map snd m) \<subseteq> set fs" and "distinct (map dedup_key (map snd m))"
    and "f \<in> set fs \<Longrightarrow> \<exists>g \<in> set (map snd m). dedup_key g = dedup_key f \<and> path_key g \<le> path_key f"
proof -
  note wf = best_of_dest(1) [OF assms]
  have entry: "dedup_key g = k \<and> g \<in> set fs" if "(k, g) \<in> set m" for k g
    using best_of_dest(2,3) [OF assms] that by (simp add: btree_mem [OF wf])
  then show "set (map snd m) \<subseteq> set fs" by auto
  have "map dedup_key (map snd m) = btree_keys m" using entry by auto
  then show "distinct (map dedup_key (map snd m))" using btree_distinct [OF wf] by (simp only:)
  assume "f \<in> set fs"
  then obtain g where "map_of m (dedup_key f) = Some g" and "path_key g \<le> path_key f"
    using best_of_dest(4) [OF assms] by blast
  note g = this
  have "dedup_key g = dedup_key f" by (rule best_of_dest(2) [OF assms g(1)])
  moreover have "(dedup_key f, g) \<in> set m" using g(1) by (simp only: btree_mem [OF wf])
  then have "g \<in> set (map snd m)" by force
  ultimately show "\<exists>g \<in> set (map snd m). dedup_key g = dedup_key f \<and> path_key g \<le> path_key f"
    using g(2) by blast
qed

text \<open>
  C31. \<open>dedup_findings\<close> keeps one finding per condition, a shortest one: the result holds only
  findings of the input, no two with the same rule, origin and record, for every input finding
  one of its condition whose path is no longer (and not later among the paths of that length),
  and it is sorted in the report order.
\<close>

theorem dedup_findings_shortest:
  assumes "f \<in> set fs"
  shows "distinct (map dedup_key (dedup_findings fs)) \<and> set (dedup_findings fs) \<subseteq> set fs \<and>
    sorted_wrt (\<lambda>a b. finding_cmp a b \<noteq> Greater) (dedup_findings fs) \<and>
    (\<exists>g \<in> set (dedup_findings fs). dedup_key g = dedup_key f \<and>
       (length (f_path g), f_path g) \<le> (length (f_path f), f_path f))"
proof -
  note best = best_of_values [OF best_of_foldl [of fs]]
  have "mset (map dedup_key (dedup_findings fs)) = mset (map dedup_key (map snd (foldl keep_best [] fs)))"
    by (simp only: dedup_findings_def sort_findings_def mset_map mset_sort_by)
  then have "distinct (map dedup_key (dedup_findings fs))" using best(2) mset_eq_imp_distinct_iff by blast
  then show ?thesis
    using best(1) best(3) [OF assms] findings.sorted_sort_by
    by (auto simp: dedup_findings_def sort_findings_def path_key_def)
qed

definition vuln :: "issue_severity \<Rightarrow> uuid list \<Rightarrow> finding" where
  "vuln sev p = \<lparr>f_rule = ''open_vulnerability'', f_severity = sev, f_origin = 9, f_id = ''i-1'',
     f_path = p, f_depth = of_nat (length p - 1), f_detail = ''''\<rparr>"

theorem dedup_findings_shortest_witness:
  "distinct (map dedup_key (dedup_findings [vuln High [1, 2, 9], vuln High [1, 9]])) \<and>
   set (dedup_findings [vuln High [1, 2, 9], vuln High [1, 9]]) \<subseteq> set [vuln High [1, 2, 9], vuln High [1, 9]] \<and>
   sorted_wrt (\<lambda>a b. finding_cmp a b \<noteq> Greater) (dedup_findings [vuln High [1, 2, 9], vuln High [1, 9]]) \<and>
   (\<exists>g \<in> set (dedup_findings [vuln High [1, 2, 9], vuln High [1, 9]]).
      dedup_key g = dedup_key (vuln High [1, 2, 9]) \<and>
      (length (f_path g), f_path g) \<le> (length (f_path (vuln High [1, 2, 9])), f_path (vuln High [1, 2, 9])))"
  by (rule dedup_findings_shortest) simp

lemma best_of_sub:
  assumes best: "best_of fs m" "best_of gs n" and set: "set fs = set gs"
    and g: "map_of m k = Some g"
    and det: "\<And>f g. f \<in> set fs \<Longrightarrow> g \<in> set fs \<Longrightarrow> dedup_key f = dedup_key g \<Longrightarrow> f_path f = f_path g \<Longrightarrow> f = g"
  shows "map_of n k = Some g"
proof -
  note kg = best_of_dest(2,3) [OF best(1) g]
  obtain h where h: "map_of n (dedup_key g) = Some h" "path_key h \<le> path_key g"
    using best_of_dest(4) [OF best(2) kg(2) [unfolded set]] by blast
  note kh = best_of_dest(2,3) [OF best(2) h(1), folded set]
  obtain g' where "map_of m (dedup_key h) = Some g'" "path_key g' \<le> path_key h"
    using best_of_dest(4) [OF best(1) kh(2)] by blast
  then have "path_key g \<le> path_key h" using g kg(1) kh(1) by simp
  then have "path_key g = path_key h" using h(2) by (rule order.antisym)
  then have "f_path g = f_path h" by (simp add: path_key_def)
  then have "g = h" by (intro det kg(2) kh(2) kh(1) [symmetric])
  with h(1) kg(1) show ?thesis by simp
qed

lemma best_of_unique:
  assumes m: "best_of fs m" and n: "best_of gs n" and same: "set fs = set gs"
    and det: "\<And>f g. f \<in> set fs \<Longrightarrow> g \<in> set fs \<Longrightarrow> dedup_key f = dedup_key g \<Longrightarrow> f_path f = f_path g \<Longrightarrow> f = g"
  shows "m = n"
proof (rule btree_ext)
  show "btree_wf m" and "btree_wf n" using best_of_dest(1) m n by blast+
  show "map_of m = map_of n"
  proof
    fix k
    show "map_of m k = map_of n k"
    proof (cases "map_of m k")
      case (Some g)
      have "map_of n k = Some g" by (rule best_of_sub [OF m n same Some]) (rule det)
      with Some show ?thesis by (simp only:)
    next
      case None
      have "map_of n k \<noteq> Some g" for g
      proof
        assume g: "map_of n k = Some g"
        have "map_of m k = Some g" by (rule best_of_sub [OF n m same [symmetric] g]) (rule det, simp_all only: same)
        with None show False by simp
      qed
      then have "map_of n k = None" by (metis option.exhaust)
      with None show ?thesis by (simp only:)
    qed
  qed
qed

text \<open>
  As long as a condition and a path determine the finding, the deduplicated report is a
  function of the set of findings: neither their order nor repetitions change it.
\<close>

theorem dedup_findings_order_independent:
  assumes "set fs = set gs"
    and "\<And>f g. f \<in> set fs \<Longrightarrow> g \<in> set fs \<Longrightarrow> dedup_key f = dedup_key g \<Longrightarrow> f_path f = f_path g \<Longrightarrow> f = g"
  shows "dedup_findings fs = dedup_findings gs"
proof -
  have "foldl keep_best [] fs = foldl keep_best [] gs"
    by (rule best_of_unique [OF best_of_foldl best_of_foldl assms(1)]) (rule assms(2))
  then show ?thesis by (simp only: dedup_findings_def)
qed

theorem dedup_findings_order_independent_witness:
  "dedup_findings [vuln High [1, 2, 9], vuln High [1, 9]] =
   dedup_findings [vuln High [1, 9], vuln High [1, 2, 9], vuln High [1, 9]]"
  by (rule dedup_findings_order_independent) (auto simp: vuln_def)

text \<open>
  Without that condition the report does depend on the order: of two findings of one
  condition and one path the first wins, so the reported severity is that of whichever
  finding came first.
\<close>

theorem dedup_findings_keeps_first:
  "dedup_findings [vuln Low [1, 9], vuln Critical [1, 9]] = [vuln Low [1, 9]] \<and>
   dedup_findings [vuln Critical [1, 9], vuln Low [1, 9]] = [vuln Critical [1, 9]]"
  by (simp add: dedup_findings_def sort_findings_def keep_best_def vuln_def dedup_key_def path_key_def)

section \<open>Risk\<close>

lemma foldl_max_ge: "t \<le> foldl max x xs \<longleftrightarrow> t \<le> x \<or> (\<exists>y \<in> set xs. t \<le> y)" for t :: "'a::linorder"
  by (induction xs arbitrary: x) (auto simp: le_max_iff_disj)

text \<open>
  A \<open>--fail-on\<close> threshold is met exactly when some finding has that severity or a higher
  one, so a report without findings meets none.
\<close>

theorem meets_threshold_iff:
  "meets_threshold (from_findings fs) threshold \<longleftrightarrow> (\<exists>f. f \<in> set fs \<and> threshold \<le> f_severity f)"
  by (cases fs) (auto simp: meets_threshold_def from_findings_def max_of_def foldl_max_ge)

lemma foldl_max_mono: "foldl max x xs \<le> foldl max x (xs @ ys)" for x :: "'a::linorder"
proof -
  have "z \<le> foldl max z zs" for z :: 'a and zs
    using foldl_max_ge [of z z zs] by simp
  then show ?thesis by simp
qed

lemma max_of_mono: "max_of xs \<le> max_of (xs @ ys)"
  by (cases xs) (auto simp: max_of_def foldl_max_mono [simplified])

definition counts_nat :: "severity_counts \<Rightarrow> nat" where
  "counts_nat c = unat (critical c) + unat (high c) + unat (medium c) + unat (low c)"

definition at_least_counts :: "severity_counts \<Rightarrow> severity_counts \<Rightarrow> bool" where
  "at_least_counts c d \<longleftrightarrow> critical c \<le> critical d \<and> high c \<le> high d \<and> medium c \<le> medium d \<and> low c \<le> low d"

lemma count_one_step:
  assumes "counts_nat c + 1 < 2 ^ 32"
  shows "at_least_counts c (count_one c f)" and "counts_nat (count_one c f) = counts_nat c + 1"
proof -
  have small: "unat (critical c) + 1 < 2 ^ 32" "unat (high c) + 1 < 2 ^ 32" "unat (medium c) + 1 < 2 ^ 32"
    "unat (low c) + 1 < 2 ^ 32"
    using assms by (simp_all add: counts_nat_def)
  have inc: "unat (x + 1) = unat x + 1" if "unat x + 1 < 2 ^ 32" for x :: u32
    using that unat_inc [of x] by simp
  note inc = small [THEN inc]
  show "at_least_counts c (count_one c f)"
    by (cases "f_severity f") (simp_all add: count_one_def at_least_counts_def word_le_nat_alt inc)
  show "counts_nat (count_one c f) = counts_nat c + 1"
    by (cases "f_severity f") (simp_all add: count_one_def counts_nat_def inc)
qed

lemma foldl_count:
  "counts_nat c + length fs < 2 ^ 32 \<Longrightarrow>
   at_least_counts c (foldl count_one c fs) \<and> counts_nat (foldl count_one c fs) = counts_nat c + length fs"
proof (induction fs arbitrary: c)
  case Nil
  then show ?case by (simp add: at_least_counts_def)
next
  case (Cons f fs)
  then have "counts_nat c + 1 < 2 ^ 32" by simp
  note step = count_one_step [OF this, of f]
  with Cons.prems have "counts_nat (count_one c f) + length fs < 2 ^ 32" by simp
  from Cons.IH [OF this] step show ?case by (auto simp: at_least_counts_def)
qed

lemma at_least_counts_key: "at_least_counts c d \<Longrightarrow> ordering_key c \<le> ordering_key d"
  by (auto simp: at_least_counts_def ordering_key_def less_le)

text \<open>
  Risk is monotone: further findings (fewer than \<open>2^32\<close> altogether) never lower the
  effective risk of a report.
\<close>

theorem risk_monotone:
  assumes "length fs + length gs < 2 ^ 32"
  shows "risk_cmp (from_findings fs) (from_findings (fs @ gs)) \<noteq> Greater"
proof -
  let ?zero = "\<lparr>critical = 0, high = 0, medium = 0, low = 0\<rparr>"
  have "counts_nat ?zero + length fs < 2 ^ 32" using assms by (simp add: counts_nat_def)
  from foldl_count [OF this] have "counts_nat (tally fs) = length fs"
    by (simp add: tally_def counts_nat_def)
  with assms have "at_least_counts (tally fs) (foldl count_one (tally fs) gs)"
    by (intro foldl_count [THEN conjunct1]) simp
  then have "ordering_key (tally fs) \<le> ordering_key (tally (fs @ gs))"
    using at_least_counts_key by (simp add: tally_def)
  moreover have "max_of (map f_severity fs) \<le> max_of (map f_severity (fs @ gs))"
    by (simp add: max_of_mono)
  ultimately show ?thesis
    unfolding risk_cmp_def from_findings_def cmp_simps by (auto simp: not_less)
qed

theorem risk_monotone_witness:
  "risk_cmp (from_findings [vuln Low [1, 9]]) (from_findings ([vuln Low [1, 9]] @ [vuln High [1, 9]])) \<noteq> Greater"
  by (rule risk_monotone) simp

text \<open>
  A condition is never reported as worse on a dependency than on the contract itself.
\<close>

theorem inherited_not_worse:
  "inherited_severity r (unwrap_or (direct_severity r) recorded) = None \<or>
   the (inherited_severity r (unwrap_or (direct_severity r) recorded)) \<le> unwrap_or (direct_severity r) recorded"
  by (cases r) (simp_all add: unwrap_or_def less_eq_issue_severity_def)

section \<open>Cycles and conflicts\<close>

lemma position_Some: "position p xs = Some i \<Longrightarrow> i < length xs \<and> p (xs ! i) \<and> (\<forall>x \<in> set (take i xs). \<not> p x)"
  by (induction xs arbitrary: i) (auto split: if_splits)

text \<open>
  A cycle segment is a closed walk: it starts and ends at the repeated contract, the rest
  is the end of the path, and it is found exactly when the contract is on the path.
\<close>

theorem cycle_segment_closed:
  "(cycle_segment path repeated = None \<longleftrightarrow> repeated \<notin> set path) \<and>
   (\<forall>segment. cycle_segment path repeated = Some segment \<longrightarrow>
      hd segment = repeated \<and> last segment = repeated \<and>
      (\<exists>before. path = before @ butlast segment \<and> repeated \<notin> set before))"
proof -
  have none: "position (\<lambda>node. node = repeated) path = None \<longleftrightarrow> repeated \<notin> set path"
    by (induction path) auto
  have "hd segment = repeated \<and> last segment = repeated \<and>
      (\<exists>before. path = before @ butlast segment \<and> repeated \<notin> set before)"
    if found: "cycle_segment path repeated = Some segment" for segment
  proof -
    obtain i where i: "position (\<lambda>node. node = repeated) path = Some i" and seg: "segment = drop i path @ [repeated]"
      using found by (cases "position (\<lambda>node. node = repeated) path") (simp_all add: cycle_segment_def)
    note pos = position_Some [OF i]
    have "hd segment = repeated" using pos by (simp add: seg hd_append hd_drop_conv_nth)
    moreover have "last segment = repeated" by (simp add: seg)
    moreover have "path = take i path @ butlast segment \<and> repeated \<notin> set (take i path)"
      using pos by (auto simp: seg)
    ultimately show ?thesis by blast
  qed
  with none show ?thesis by (auto simp: cycle_segment_def split: option.splits)
qed

theorem cycle_segment_closed_witness:
  "(cycle_segment [1, 2, 3] 2 = None \<longleftrightarrow> (2 :: uuid) \<notin> set [1, 2, 3]) \<and>
   hd [2, 3, 2] = (2 :: uuid) \<and> last [2, 3, 2] = (2 :: uuid) \<and>
   (\<exists>before. [1, 2, 3] = before @ butlast [2, 3, 2 :: uuid] \<and> 2 \<notin> set before)"
proof -
  have "cycle_segment [1, 2, 3] 2 = Some [2, 3, 2]" by (simp add: cycle_segment_def)
  with cycle_segment_closed [of "[1, 2, 3]" 2] show ?thesis by blast
qed

lemma list_ex_map_filter:
  "list_ex P (List.map_filter f xs) \<longleftrightarrow> (\<exists>x \<in> set xs. \<exists>v. f x = Some v \<and> P v)"
  by (induction xs) (auto simp: List.map_filter_simps split: option.splits)

text \<open>
  A version conflict is one: it is reported only when both constraints parse and no
  published version satisfies both, and publishing more versions never creates one.
\<close>

theorem constraints_conflict_sound:
  assumes "constraints_conflict a b (vs @ ws)" and "vs \<noteq> []"
  shows "constraints_conflict a b vs \<and> constraints_conflict b a (vs @ ws) \<and>
    (\<exists>ca cb. constraint_parse a = Some ca \<and> constraint_parse b = Some cb \<and>
       \<not> (\<exists>s v. s \<in> set (vs @ ws) \<and> semver_parse s = Some v \<and> constraint_matches ca v \<and> constraint_matches cb v))"
  using assms
  by (auto simp: constraints_conflict_def list_ex_map_filter split: option.splits)

theorem constraints_conflict_sound_witness:
  "constraints_conflict ''^1.0.0'' ''^2.0.0'' [''1.2.0''] \<and>
   constraints_conflict ''^2.0.0'' ''^1.0.0'' ([''1.2.0''] @ [''2.0.1'']) \<and>
   (\<exists>ca cb. constraint_parse ''^1.0.0'' = Some ca \<and> constraint_parse ''^2.0.0'' = Some cb \<and>
      \<not> (\<exists>s v. s \<in> set ([''1.2.0''] @ [''2.0.1'']) \<and> semver_parse s = Some v \<and>
           constraint_matches ca v \<and> constraint_matches cb v))"
  by (rule constraints_conflict_sound) (code_simp, simp)

text \<open>
  When none of the published versions parses, a constraint conflicts with itself: the
  versions that could not be read count as versions that satisfy nothing.
\<close>

theorem unparsed_versions_conflict:
  "constraints_conflict ''^1.0.0'' ''^1.0.0'' [''v1.0.0'']"
  by code_simp

end
