(* ===== verification/Dependency_Traversal.thy ===== *)
theory Dependency_Traversal
  imports Dependency_Risk
begin

text \<open>
  \<open>backend/api/src/dependency_graph.rs\<close> and \<open>dependency_risk.rs\<close>: the bounded walk over the
  dependency edges and the risk report built from its rows.

  The recursive query \<open>FORWARD_TRAVERSAL_SQL\<close> is a function of the rows of its \<open>edges\<close> term
  (what the database holds for the request's network and instant): each recursion step extends
  the rows of the step before, \<open>UNION ALL\<close> appends. The outer \<open>ORDER BY\<close> does not fix the order
  of rows that agree on its columns, so the answer of the database is a relation. The risk
  queries (one per rule) and the published versions are inputs of the report.
\<close>

section \<open>The recursive query\<close>

datatype network = Mainnet | Testnet | Futurenet

definition network_display :: "network \<Rightarrow> string" where
  "network_display n = (case n of Mainnet \<Rightarrow> ''mainnet'' | Testnet \<Rightarrow> ''testnet'' | Futurenet \<Rightarrow> ''futurenet'')"

text \<open>A row of the term \<open>edges\<close>: the edge with the identity and visibility of its target.\<close>

record edge =
  e_source :: uuid
  e_target :: "uuid option"
  e_ref :: string
  e_network :: network
  e_origin :: string
  e_state :: string
  e_constraint :: "string option"
  e_expected :: "string option"
  e_visible :: bool
  e_address :: "string option"
  e_name :: "string option"
  e_interface :: "string option"

record row = 
  r_depth :: nat
  r_edge :: edge
  r_path :: "uuid list"
  r_cycle :: "uuid option"
  r_terminal :: bool

abbreviation r_source :: "row \<Rightarrow> uuid" where "r_source w \<equiv> e_source (r_edge w)"
abbreviation r_target :: "row \<Rightarrow> uuid option" where "r_target w \<equiv> e_target (r_edge w)"
abbreviation r_visible :: "row \<Rightarrow> bool" where "r_visible w \<equiv> e_visible (r_edge w)"

definition dead_end :: "edge \<Rightarrow> bool" where
  "dead_end e \<longleftrightarrow> e_state e \<noteq> ''resolved'' \<or> e_target e = None \<or> \<not> e_visible e"

definition base_row :: "edge \<Rightarrow> row" where
  "base_row e =
     \<lparr>r_depth = 1, r_edge = e,
      r_path = (case e_target e of None \<Rightarrow> [e_source e] | Some t \<Rightarrow> [e_source e, t]),
      r_cycle = None,
      r_terminal = dead_end e\<rparr>"

definition on_path :: "edge \<Rightarrow> uuid list \<Rightarrow> bool" where
  "on_path e path = (case e_target e of None \<Rightarrow> False | Some t \<Rightarrow> t \<in> set path)"

definition extend_row :: "row \<Rightarrow> edge \<Rightarrow> row" where
  "extend_row w e =
     \<lparr>r_depth = r_depth w + 1, r_edge = e,
      r_path = (case e_target e of None \<Rightarrow> r_path w
        | Some t \<Rightarrow> if t \<in> set (r_path w) then r_path w else r_path w @ [t]),
      r_cycle = (if on_path e (r_path w) then e_target e else None),
      r_terminal = (dead_end e \<or> on_path e (r_path w))\<rparr>"

definition walk_base :: "edge list \<Rightarrow> uuid \<Rightarrow> row list" where
  "walk_base edges root = map base_row (filter (\<lambda>e. e_source e = root) edges)"

definition walk_step :: "edge list \<Rightarrow> nat \<Rightarrow> row list \<Rightarrow> row list" where
  "walk_step edges limit ws =
     concat (map (\<lambda>w. map (extend_row w) (filter (\<lambda>e. Some (e_source e) = r_target w) edges))
       (filter (\<lambda>w. r_depth w < limit \<and> \<not> r_terminal w) ws))"

text \<open>
  The recursion ends when a step yields no rows. The rows of step \<open>n\<close> have depth \<open>n + 1\<close> and only
  rows below the limit are extended, so \<open>limit\<close> steps are enough.
\<close>

fun walk_levels :: "edge list \<Rightarrow> nat \<Rightarrow> nat \<Rightarrow> row list \<Rightarrow> row list" where
  "walk_levels edges limit 0 ws = ws"
| "walk_levels edges limit (Suc n) ws = ws @ walk_levels edges limit n (walk_step edges limit ws)"

definition walk_rows :: "edge list \<Rightarrow> uuid \<Rightarrow> nat \<Rightarrow> row list" where
  "walk_rows edges root limit = walk_levels edges limit limit (walk_base edges root)"

text \<open>The outer select hides the details of a node that the caller may not see.\<close>

definition select_row :: "row \<Rightarrow> row" where
  "select_row w =
     (if r_visible w then w
      else w\<lparr>r_edge := (r_edge w)\<lparr>e_address := None, e_name := None, e_interface := None\<rparr>\<rparr>)"

definition nulls_last :: "'a::linorder option \<Rightarrow> 'a option \<Rightarrow> ordering" where
  "nulls_last a b =
     (case (a, b) of (None, None) \<Rightarrow> Equal | (None, Some _) \<Rightarrow> Greater | (Some _, None) \<Rightarrow> Less
      | (Some x, Some y) \<Rightarrow> cmp_lin x y)"

fun network_rank :: "network \<Rightarrow> nat" where
  "network_rank Mainnet = 0" | "network_rank Testnet = 1" | "network_rank Futurenet = 2"

definition row_cmp :: "row \<Rightarrow> row \<Rightarrow> ordering" where
  "row_cmp a b =
     then_cmp (cmp_lin (r_depth a) (r_depth b))
       (then_cmp (cmp_lin (network_rank (e_network (r_edge a))) (network_rank (e_network (r_edge b))))
         (then_cmp (nulls_last (r_target a) (r_target b))
           (then_cmp (cmp_lin (e_ref (r_edge a)) (e_ref (r_edge b)))
             (cmp_lin (e_origin (r_edge a)) (e_origin (r_edge b))))))"

text \<open>\<open>ORDER BY\<close> with \<open>LIMIT n\<close>: the first \<open>n\<close> rows of some sorted arrangement.\<close>

definition answers :: "row list \<Rightarrow> nat \<Rightarrow> row list \<Rightarrow> bool" where
  "answers ws n rows \<longleftrightarrow>
     (\<exists>sorted. mset sorted = mset ws \<and> sorted_wrt (\<lambda>a b. row_cmp a b \<noteq> Greater) sorted \<and> rows = take n sorted)"

definition traversal_query :: "edge list \<Rightarrow> uuid \<Rightarrow> nat \<Rightarrow> nat \<Rightarrow> row list \<Rightarrow> bool" where
  "traversal_query edges root depth budget rows \<longleftrightarrow>
     answers (map select_row (walk_rows edges root depth)) (budget + 1) rows"

section \<open>From the rows to the result\<close>

definition effective_depth :: "bool \<Rightarrow> u32 \<Rightarrow> u32" where
  "effective_depth transitive max_depth = (if transitive then clamp_depth (Some max_depth) else 1)"

text \<open>The validator of contract addresses: 56 characters, a \<open>C\<close> and 55 capital letters or digits.\<close>

definition contract_id_char :: "char \<Rightarrow> bool" where
  "contract_id_char c = (let n = of_char c :: nat in 65 \<le> n \<and> n \<le> 90 \<or> 48 \<le> n \<and> n \<le> 57)"

definition valid_contract_id :: "string \<Rightarrow> bool" where
  "valid_contract_id s =
     (let t = trim s in
      case t of [] \<Rightarrow> False | c # cs \<Rightarrow> c = CHR ''C'' \<and> length cs = 55 \<and> list_all contract_id_char cs)"

definition unresolved_detail :: "string \<Rightarrow> string" where
  "unresolved_detail r =
     (if valid_contract_id r then [CHR 39] @ r @ [CHR 39] @ '' is a valid contract address but is not registered''
      else [CHR 39] @ r @ [CHR 39] @ '' is not a contract address; treated as an undeclared library'')"

definition row_diagnostics :: "row \<Rightarrow> diagnostic list" where
  "row_diagnostics w =
     (if e_state (r_edge w) = ''unresolved''
      then [\<lparr>dg_kind = UnresolvedEdge, dg_path = r_path w, dg_detail = unresolved_detail (e_ref (r_edge w))\<rparr>]
      else if e_state (r_edge w) = ''network_mismatch''
      then [\<lparr>dg_kind = NetworkMismatchEdge, dg_path = r_path w,
             dg_detail = [CHR 39] @ e_ref (r_edge w) @ [CHR 39] @ '' is registered on a different network than ''
               @ network_display (e_network (r_edge w))\<rparr>]
      else []) @
     (if \<not> r_visible w
      then [\<lparr>dg_kind = RedactedNode, dg_path = r_path w,
             dg_detail = ''a node at depth '' @ dec (r_depth w) @ '' is not visible to you''\<rparr>]
      else []) @
     (case r_cycle w of
        None \<Rightarrow> []
      | Some repeated \<Rightarrow>
          (case cycle_segment (r_path w) repeated of
             None \<Rightarrow> []
           | Some segment \<Rightarrow>
               [\<lparr>dg_kind = Cycle, dg_path = segment,
                 dg_detail = ''dependency cycle; traversal stopped at the repeated contract''\<rparr>]))"

text \<open>\<open>Vec::dedup\<close> is \<open>remdups_adj\<close>.\<close>

definition derive_diagnostics :: "row list \<Rightarrow> diagnostic list" where
  "derive_diagnostics rows = remdups_adj (sort_diagnostics (concat (map row_diagnostics rows)))"

record traversal_result =
  t_rows :: "row list"
  t_diagnostics :: "diagnostic list"
  t_truncated :: bool
  t_reason :: "truncation_reason option"

definition truncation :: "row list \<Rightarrow> nat \<Rightarrow> nat \<Rightarrow> truncation_reason option" where
  "truncation rows depth budget =
     (if budget < length rows then Some NodeLimit
      else if list_ex (\<lambda>w. depth \<le> r_depth w \<and> \<not> r_terminal w) rows then Some DepthLimit
      else None)"

definition assemble :: "row list \<Rightarrow> nat \<Rightarrow> nat \<Rightarrow> traversal_result" where
  "assemble rows depth budget =
     (let reason = truncation rows depth budget;
          kept = (if budget < length rows then take budget rows else rows);
          limit = (\<lambda>r. case r of NodeLimit \<Rightarrow> of_nat budget | DepthLimit \<Rightarrow> of_nat depth
                    | TimeLimit \<Rightarrow> ucast TRAVERSAL_STATEMENT_TIMEOUT_MS);
          ds = derive_diagnostics kept @
            (case reason of None \<Rightarrow> []
             | Some r \<Rightarrow> [\<lparr>dg_kind = Truncated, dg_path = [], dg_detail = truncation_detail r (limit r)\<rparr>])
      in \<lparr>t_rows = kept, t_diagnostics = sort_diagnostics ds, t_truncated = (reason \<noteq> None), t_reason = reason\<rparr>)"

definition parse_edge_source :: "string \<Rightarrow> edge_source" where
  "parse_edge_source v = (if v = ''telemetry'' then Telemetry else Declared)"

definition parse_edge_state :: "string \<Rightarrow> edge_state" where
  "parse_edge_state v =
     (if v = ''resolved'' then Resolved else if v = ''network_mismatch'' then NetworkMismatch else Unresolved)"

section \<open>The risk report\<close>

definition keep_shorter :: "(uuid, uuid list) btree \<Rightarrow> row \<Rightarrow> (uuid, uuid list) btree" where
  "keep_shorter best w =
     (case r_target w of
        None \<Rightarrow> best
      | Some target \<Rightarrow>
          if \<not> r_visible w \<or> r_cycle w \<noteq> None then best
          else
            (case map_of best target of
               Some existing \<Rightarrow>
                 if (length existing, existing) \<le> (length (r_path w), r_path w) then best
                 else btree_insert target (r_path w) best
             | None \<Rightarrow> btree_insert target (r_path w) best))"

definition shortest_paths :: "row list \<Rightarrow> (uuid, uuid list) btree" where
  "shortest_paths rows = foldl keep_shorter [] rows"

record risk_row =
  k_contract :: uuid
  k_finding :: string
  k_severity :: "string option"
  k_detail :: string

definition parse_severity :: "string \<Rightarrow> issue_severity option" where
  "parse_severity v =
     (if v = ''low'' then Some Low else if v = ''medium'' then Some Medium
      else if v = ''high'' then Some High else if v = ''critical'' then Some Critical else None)"

definition hops :: "uuid list \<Rightarrow> u32" where
  "hops path = of_nat (length path - 1)"

definition push_one :: "risk_rule \<Rightarrow> uuid \<Rightarrow> (uuid, uuid list) btree \<Rightarrow> risk_row \<Rightarrow> finding list" where
  "push_one rule root reach k =
     (let recorded = (case k_severity k of None \<Rightarrow> None | Some v \<Rightarrow> parse_severity v);
          direct_hit = (k_contract k = root) in
      case (case recorded of Some s \<Rightarrow> Some s | None \<Rightarrow> direct_severity rule) of
        None \<Rightarrow> []
      | Some direct \<Rightarrow>
          (case (if direct_hit then Some direct else inherited_severity rule direct) of
             None \<Rightarrow> []
           | Some severity \<Rightarrow>
               (case (if direct_hit then Some [root] else map_of reach (k_contract k)) of
                  None \<Rightarrow> []
                | Some path \<Rightarrow>
                    [\<lparr>f_rule = rule_id rule, f_severity = severity, f_origin = k_contract k,
                      f_id = k_finding k, f_path = path, f_depth = hops path, f_detail = k_detail k\<rparr>])))"

definition push_all :: "risk_rule \<Rightarrow> risk_row list \<Rightarrow> uuid \<Rightarrow> (uuid, uuid list) btree \<Rightarrow> finding list" where
  "push_all rule rows root reach = concat (map (push_one rule root reach) rows)"

text \<open>The risk sources in the order they are collected; \<open>source\<close> is what the query of a rule returns.\<close>

definition collect_findings :: "(risk_rule \<Rightarrow> uuid list \<Rightarrow> risk_row list) \<Rightarrow> uuid list \<Rightarrow> uuid \<Rightarrow>
    (uuid, uuid list) btree \<Rightarrow> finding list" where
  "collect_findings source subjects root reach =
     concat (map (\<lambda>rule. push_all rule (source rule subjects) root reach)
       [OpenVulnerability, SignatureRevoked, ArtifactQuarantined, ArtifactUnsigned,
        DeprecatedNoReplacement, DeprecatedWithReplacement])"

text \<open>The hyphenated text of a \<open>Uuid\<close> is a parameter; \<open>show\<close> stands for it.\<close>

definition interface_finding :: "(uuid \<Rightarrow> string) \<Rightarrow> uuid \<Rightarrow> (uuid, uuid list) btree \<Rightarrow> row \<Rightarrow> finding list" where
  "interface_finding show_uuid root reach w =
     (case (e_expected (r_edge w), e_interface (r_edge w), r_target w) of
        (Some expected, Some current, Some target) \<Rightarrow>
          if expected = current then []
          else
            (case (if r_source w = root then Some [root, target] else map_of reach target) of
               None \<Rightarrow> []
             | Some path \<Rightarrow>
                 [\<lparr>f_rule = rule_id InterfaceIncompatibility,
                   f_severity = unwrap_or (direct_severity InterfaceIncompatibility) High,
                   f_origin = target,
                   f_id = show_uuid (r_source w) @ '':'' @ show_uuid target,
                   f_path = path, f_depth = hops path,
                   f_detail = ''interface changed since this dependency was declared (expected ''
                     @ expected @ '', now '' @ current @ '')''\<rparr>])
      | _ \<Rightarrow> [])"

definition interface_findings :: "(uuid \<Rightarrow> string) \<Rightarrow> row list \<Rightarrow> uuid \<Rightarrow> (uuid, uuid list) btree \<Rightarrow> finding list" where
  "interface_findings show_uuid rows root reach = concat (map (interface_finding show_uuid root reach) rows)"

text \<open>A \<open>BTreeSet\<close> of strings is its sorted list.\<close>

definition add_constraint :: "(uuid, string list) btree \<Rightarrow> row \<Rightarrow> (uuid, string list) btree" where
  "add_constraint m w =
     (case (r_target w, e_constraint (r_edge w)) of
        (Some target, Some constraint) \<Rightarrow>
          btree_insert target (insort_insert constraint (unwrap_or (map_of m target) [])) m
      | _ \<Rightarrow> m)"

fun conflict_pairs :: "string list \<Rightarrow> (string \<times> string) list" where
  "conflict_pairs [] = []"
| "conflict_pairs (a # bs) = map (Pair a) bs @ conflict_pairs bs"

definition version_conflicts :: "(uuid \<Rightarrow> string list) \<Rightarrow> row list \<Rightarrow> diagnostic list" where
  "version_conflicts published rows =
     concat (map (\<lambda>(target, constraints).
       map (\<lambda>(a, b).
           \<lparr>dg_kind = VersionConflict, dg_path = [target],
            dg_detail = ''constraints '' @ [CHR 39] @ a @ [CHR 39] @ '' and '' @ [CHR 39] @ b @ [CHR 39] @
              '' on the same dependency have no commonly satisfying published version''\<rparr>)
         (filter (\<lambda>(a, b). constraints_conflict a b (published target)) (conflict_pairs constraints)))
       (filter (\<lambda>(_, constraints). 1 < length constraints) (foldl add_constraint [] rows)))"

record risk_report =
  rep_contract :: uuid
  rep_network :: network
  direct_findings :: "finding list"
  inherited_findings :: "finding list"
  rep_diagnostics :: "diagnostic list"
  direct_risk :: effective_risk
  overall_risk :: effective_risk
  total_dependencies :: nat
  rep_max_depth :: nat
  rep_truncated :: bool

definition assess :: "(uuid \<Rightarrow> string) \<Rightarrow> (risk_rule \<Rightarrow> uuid list \<Rightarrow> risk_row list) \<Rightarrow> (uuid \<Rightarrow> string list) \<Rightarrow>
    uuid \<Rightarrow> network \<Rightarrow> traversal_result \<Rightarrow> risk_report" where
  "assess show_uuid source published root net t =
     (let reach = shortest_paths (t_rows t);
          subjects = btree_keys reach @ [root];
          findings = collect_findings source subjects root reach
            @ interface_findings show_uuid (t_rows t) root reach;
          all = dedup_findings findings;
          direct = filter is_direct all
      in \<lparr>rep_contract = root, rep_network = net, direct_findings = direct,
          inherited_findings = filter (\<lambda>f. \<not> is_direct f) all,
          rep_diagnostics = sort_diagnostics (t_diagnostics t @ version_conflicts published (t_rows t)),
          direct_risk = from_findings direct, overall_risk = from_findings all,
          total_dependencies = length reach,
          rep_max_depth = unwrap_or (max_of (map r_depth (t_rows t))) 0,
          rep_truncated = t_truncated t\<rparr>)"

section \<open>The walk\<close>

lemma walk_levels_Nil [simp]: "walk_levels edges limit n [] = []"
  by (induction n) (simp_all add: walk_step_def)

lemma set_walk_step: "w' \<in> set (walk_step edges limit ws) \<longleftrightarrow>
  (\<exists>w \<in> set ws. \<exists>e \<in> set edges. r_depth w < limit \<and> \<not> r_terminal w \<and> Some (e_source e) = r_target w \<and>
     w' = extend_row w e)"
  by (auto simp: walk_step_def)

text \<open>What holds of the first rows and is kept by an extension holds of all rows.\<close>

lemma walk_rows_induct [consumes 1, case_names base extend]:
  assumes "w \<in> set (walk_rows edges root limit)"
    and "\<And>e. e \<in> set edges \<Longrightarrow> e_source e = root \<Longrightarrow> P (base_row e)"
    and "\<And>w e. P w \<Longrightarrow> \<not> r_terminal w \<Longrightarrow> r_depth w < limit \<Longrightarrow> e \<in> set edges \<Longrightarrow>
      r_target w = Some (e_source e) \<Longrightarrow> P (extend_row w e)"
  shows "P w"
proof -
  have "\<forall>w \<in> set ws. P w \<Longrightarrow> \<forall>w \<in> set (walk_levels edges limit n ws). P w" for n ws
  proof (induction n arbitrary: ws)
    case (Suc n)
    have "\<forall>w \<in> set (walk_step edges limit ws). P w"
    proof
      fix w'
      assume "w' \<in> set (walk_step edges limit ws)"
      then obtain w e where w: "w \<in> set ws" "e \<in> set edges" "r_depth w < limit" "\<not> r_terminal w"
        and src: "Some (e_source e) = r_target w" and w': "w' = extend_row w e"
        unfolding set_walk_step by blast
      show "P w'" unfolding w' using w Suc.prems by (intro assms(3)) (auto simp: src)
    qed
    then show ?case using Suc by auto
  qed simp
  moreover have "\<forall>w \<in> set (walk_base edges root). P w"
    using assms(2) by (auto simp: walk_base_def)
  ultimately show ?thesis using assms(1) unfolding walk_rows_def by blast
qed






definition edge_to :: "uuid \<Rightarrow> uuid \<Rightarrow> edge" where
  "edge_to s t = \<lparr>e_source = s, e_target = Some t, e_ref = ''r'', e_network = Testnet, e_origin = ''declared'',
     e_state = ''resolved'', e_constraint = None, e_expected = None, e_visible = True, e_address = None,
     e_name = None, e_interface = None\<rparr>"

lemma edge_to_simps [simp]:
  "e_source (edge_to s t) = s" "e_target (edge_to s t) = Some t" "dead_end (edge_to s t) = False"
  "e_visible (edge_to s t) = True" "e_expected (edge_to s t) = None"
  by (simp_all add: edge_to_def dead_end_def)


text \<open>
  A contract that the caller may not see is no stepping stone: when every edge into \<open>h\<close>
  is hidden, no row comes from an edge of \<open>h\<close>, so what \<open>h\<close> depends on is never enumerated
  through it; and the rows that name \<open>h\<close> carry no address, name or interface.
\<close>

theorem hidden_not_walked:
  assumes "w \<in> set (walk_rows edges root limit)" and "h \<noteq> root"
    and "\<And>e. e \<in> set edges \<Longrightarrow> e_target e = Some h \<Longrightarrow> \<not> e_visible e"
  shows "r_source w \<noteq> h \<and>
    (r_target w \<noteq> Some h \<or>
     e_address (r_edge (select_row w)) = None \<and> e_name (r_edge (select_row w)) = None \<and>
     e_interface (r_edge (select_row w)) = None)"
proof -
  have "r_source w \<noteq> h \<and> (r_target w = Some h \<longrightarrow> r_terminal w \<and> \<not> r_visible w)"
    using assms(1)
  proof (induction rule: walk_rows_induct)
    case (base e)
    then show ?case using assms(2,3) by (auto simp: base_row_def dead_end_def)
  next
    case (extend w e)
    then show ?case using assms(3) by (auto simp: extend_row_def dead_end_def)
  qed
  then show ?thesis by (auto simp: select_row_def)
qed

definition hidden_edge :: "uuid \<Rightarrow> uuid \<Rightarrow> edge" where
  "hidden_edge s t = (edge_to s t)\<lparr>e_visible := False, e_name := Some ''secret''\<rparr>"

theorem hidden_not_walked_witness:
  "r_source (base_row (hidden_edge 1 2)) \<noteq> 2 \<and>
   e_name (r_edge (select_row (base_row (hidden_edge 1 2)))) = None"
proof -
  have walked: "base_row (hidden_edge 1 2) \<in> set (walk_rows [hidden_edge 1 2, edge_to 2 3] 1 5)"
    by (auto simp: walk_rows_def walk_base_def eval_nat_numeral hidden_edge_def edge_to_def)
  have hidden: "\<not> e_visible e" if "e \<in> set [hidden_edge 1 2, edge_to 2 3]" "e_target e = Some 2" for e
    using that by (auto simp: hidden_edge_def edge_to_def)
  have "(2 :: uuid) \<noteq> 1" by simp
  note hidden_not_walked [OF walked this hidden]
  moreover have "r_target (base_row (hidden_edge 1 2)) = Some 2"
    by (simp add: hidden_edge_def edge_to_def base_row_def)
  ultimately show ?thesis by simp
qed

section \<open>Truncation\<close>

text \<open>
  When no row at the depth limit could be extended, a larger limit reads the same rows.
\<close>

lemma walk_levels_deeper:
  assumes "\<forall>w \<in> set (walk_levels edges limit n ws). limit \<le> r_depth w \<longrightarrow> r_terminal w"
    and "\<forall>w \<in> set ws. r_depth w = d" and "limit < n + d" and "limit' < n' + d" and "limit \<le> limit'"
  shows "walk_levels edges limit' n' ws = walk_levels edges limit n ws"
  using assms
proof (induction n arbitrary: ws d n')
  case 0
  have "walk_step edges limit' ws = []"
    using "0.prems" by (auto simp: walk_step_def)
  then show ?case by (cases n') simp_all
next
  case (Suc n)
  have same: "walk_step edges limit' ws = walk_step edges limit ws"
  proof -
    have "filter (\<lambda>w. r_depth w < limit' \<and> \<not> r_terminal w) ws = filter (\<lambda>w. r_depth w < limit \<and> \<not> r_terminal w) ws"
    proof (rule filter_cong [OF refl])
      fix w
      assume "w \<in> set ws"
      then have "limit \<le> r_depth w \<Longrightarrow> r_terminal w" using Suc.prems(1) by auto
      then show "(r_depth w < limit' \<and> \<not> r_terminal w) = (r_depth w < limit \<and> \<not> r_terminal w)"
        using Suc.prems(5) by linarith
    qed
    then show ?thesis by (simp only: walk_step_def)
  qed
  show ?case
  proof (cases n')
    case 0
    then have "walk_step edges limit ws = []" using Suc.prems(2,4,5) by (auto simp: walk_step_def)
    then show ?thesis by (simp add: 0)
  next
    case (Suc m)
    have depth: "\<forall>w \<in> set (walk_step edges limit ws). r_depth w = d + 1"
      using Suc.prems(2) by (auto simp: set_walk_step extend_row_def)
    have "walk_levels edges limit' m (walk_step edges limit ws) = walk_levels edges limit n (walk_step edges limit ws)"
    proof (rule Suc.IH [OF _ depth])
      show "\<forall>w \<in> set (walk_levels edges limit n (walk_step edges limit ws)). limit \<le> r_depth w \<longrightarrow> r_terminal w"
        using Suc.prems(1) by auto
    qed (use Suc.prems Suc in simp_all)
    then show ?thesis by (simp add: Suc same)
  qed
qed

lemma walk_rows_deeper:
  assumes "\<forall>w \<in> set (walk_rows edges root limit). limit \<le> r_depth w \<longrightarrow> r_terminal w"
    and "limit \<le> limit'"
  shows "walk_rows edges root limit' = walk_rows edges root limit"
  unfolding walk_rows_def
  by (rule walk_levels_deeper [where d = 1]) (use assms in \<open>auto simp: walk_rows_def walk_base_def base_row_def\<close>)

lemma select_row_simps [simp]:
  "r_depth (select_row w) = r_depth w" "r_terminal (select_row w) = r_terminal w"
  "r_path (select_row w) = r_path w" "r_cycle (select_row w) = r_cycle w"
  "e_target (r_edge (select_row w)) = r_target w" "e_source (r_edge (select_row w)) = r_source w"
  "e_visible (r_edge (select_row w)) = r_visible w"
  by (auto simp: select_row_def)

text \<open>
  C35. A result that is not marked truncated is complete: whichever order the database chose
  for equal rows, the rows are all the rows of the walk, and those of every walk with a larger
  depth limit.
\<close>

theorem not_truncated_complete:
  assumes "traversal_query edges root depth budget rows"
    and "\<not> t_truncated (assemble rows depth budget)" and "depth \<le> depth'"
  shows "mset (t_rows (assemble rows depth budget)) = mset (map select_row (walk_rows edges root depth'))"
proof -
  obtain sorted where sorted: "mset sorted = mset (map select_row (walk_rows edges root depth))"
    and rows: "rows = take (budget + 1) sorted"
    using assms(1) by (auto simp: traversal_query_def answers_def)
  have len: "length rows \<le> budget" and limit: "\<forall>w \<in> set rows. depth \<le> r_depth w \<longrightarrow> r_terminal w"
    using assms(2) by (auto simp: assemble_def truncation_def Let_def list_ex_iff split: if_splits)
  from len have all: "rows = sorted" by (auto simp: rows min_def split: if_splits)
  then have "set rows = select_row ` set (walk_rows edges root depth)"
    using mset_eq_setD [OF sorted] by simp
  with limit have "\<forall>w \<in> set (walk_rows edges root depth). depth \<le> r_depth w \<longrightarrow> r_terminal w" by auto
  from walk_rows_deeper [OF this assms(3)]
  show ?thesis using len sorted all by (simp add: assemble_def Let_def)
qed

theorem not_truncated_complete_witness:
  "mset (t_rows (assemble [base_row (edge_to 1 2)] 2 10)) = mset (map select_row (walk_rows [edge_to 1 2] 1 7))"
proof (rule not_truncated_complete [where edges = "[edge_to 1 2]" and root = 1])
  have "walk_rows [edge_to 1 2] 1 2 = [base_row (edge_to 1 2)]"
    by (simp add: walk_rows_def walk_base_def walk_step_def edge_to_def eval_nat_numeral base_row_def)
  moreover have "select_row (base_row (edge_to 1 2)) = base_row (edge_to 1 2)"
    by (simp add: select_row_def base_row_def edge_to_def)
  ultimately show "traversal_query [edge_to 1 2] 1 2 10 [base_row (edge_to 1 2)]"
    by (auto simp: traversal_query_def answers_def intro!: exI [of _ "[base_row (edge_to 1 2)]"])
  show "\<not> t_truncated (assemble [base_row (edge_to 1 2)] 2 10)"
    by (simp add: assemble_def truncation_def base_row_def Let_def)
qed simp

text \<open>
  The converse fails for exact fits: a direct-only request for a contract whose single
  dependency has no dependencies itself is marked truncated, although every larger limit
  reads the same single row.
\<close>

theorem exact_fit_marked_truncated:
  "t_truncated (assemble (map select_row (walk_rows [edge_to 1 2] 1 1)) 1 10) \<and>
   (\<forall>n. walk_rows [edge_to 1 2] 1 (n + 1) = walk_rows [edge_to 1 2] 1 1)"
proof
  show "t_truncated (assemble (map select_row (walk_rows [edge_to 1 2] 1 1)) 1 10)"
    by (simp add: walk_rows_def walk_base_def walk_step_def edge_to_def base_row_def dead_end_def select_row_def
        assemble_def truncation_def Let_def)
  have "walk_base [edge_to 1 2] 1 = [base_row (edge_to 1 2)]" by (simp add: walk_base_def)
  moreover have "walk_step [edge_to 1 2] k [base_row (edge_to 1 2)] = []" for k
    by (simp add: walk_step_def base_row_def)
  ultimately show "\<forall>n. walk_rows [edge_to 1 2] 1 (n + 1) = walk_rows [edge_to 1 2] 1 1"
    by (simp add: walk_rows_def)
qed

text \<open>
  The order of the rows is not total: two ways of equal length to one contract, by edges
  with the same reference and origin, compare equal, so which of them a row limit keeps is up
  to the database.
\<close>

theorem row_order_not_total:
  "row_cmp (extend_row (base_row (edge_to 1 2)) (edge_to 2 4)) (extend_row (base_row (edge_to 1 3)) (edge_to 3 4)) = Equal \<and>
   r_path (extend_row (base_row (edge_to 1 2)) (edge_to 2 4)) \<noteq> r_path (extend_row (base_row (edge_to 1 3)) (edge_to 3 4))"
  by (simp add: row_cmp_def extend_row_def base_row_def edge_to_def nulls_last_def cmp_simps)

section \<open>The report\<close>

lemma shortest_paths_visible:
  assumes "\<And>w. w \<in> set rows \<Longrightarrow> r_target w = Some h \<Longrightarrow> \<not> r_visible w"
  shows "map_of (shortest_paths rows) h = None"
proof -
  have "btree_wf (foldl keep_shorter [] rows) \<and> map_of (foldl keep_shorter [] rows) h = None"
    using assms
  proof (induction rows rule: rev_induct)
    case Nil
    show ?case by (simp add: btree_wf_def)
  next
    case (snoc w rows)
    then show ?case
      by (auto simp: keep_shorter_def btree_wf_insert map_of_btree_insert split: option.splits)
  qed
  then show ?thesis by (simp add: shortest_paths_def)
qed

lemma push_all_origin:
  "f \<in> set (push_all rule ks root reach) \<Longrightarrow> f_origin f = root \<or> map_of reach (f_origin f) \<noteq> None"
  by (auto simp: push_all_def push_one_def Let_def split: option.splits if_splits)

lemma interface_findings_origin:
  "f \<in> set (interface_findings show_uuid rows root reach) \<Longrightarrow>
   \<exists>w \<in> set rows. r_target w = Some (f_origin f) \<and> e_interface (r_edge w) \<noteq> None"
proof -
  assume "f \<in> set (interface_findings show_uuid rows root reach)"
  then obtain w where w: "w \<in> set rows" and "f \<in> set (interface_finding show_uuid root reach w)"
    by (auto simp: interface_findings_def)
  then have "r_target w = Some (f_origin f) \<and> e_interface (r_edge w) \<noteq> None"
    by (cases "e_expected (r_edge w)"; cases "e_interface (r_edge w)"; cases "r_target w";
        simp add: interface_finding_def split: option.splits if_split_asm)
  with w show ?thesis by blast
qed

text \<open>
  The report says nothing about a contract the caller may not see: when every row that
  names \<open>h\<close> is hidden (and so carries no interface), no direct or inherited finding has \<open>h\<close> as
  its origin, whatever the risk sources return.
\<close>

theorem assess_hides:
  assumes "h \<noteq> root"
    and "\<And>w. w \<in> set (t_rows t) \<Longrightarrow> r_target w = Some h \<Longrightarrow> \<not> r_visible w \<and> e_interface (r_edge w) = None"
    and "f \<in> set (direct_findings (assess show_uuid source published root net t)) \<union>
      set (inherited_findings (assess show_uuid source published root net t))"
  shows "f_origin f \<noteq> h"
proof
  assume h: "f_origin f = h"
  let ?reach = "shortest_paths (t_rows t)"
  let ?fs = "collect_findings source (btree_keys ?reach @ [root]) root ?reach
    @ interface_findings show_uuid (t_rows t) root ?reach"
  have "f \<in> set (dedup_findings ?fs)"
    using assms(3) by (auto simp: assess_def Let_def)
  then have "f \<in> set ?fs"
    using best_of_values(1) [OF best_of_foldl, of ?fs] by (auto simp: dedup_findings_def sort_findings_def)
  then consider "f \<in> set (collect_findings source (btree_keys ?reach @ [root]) root ?reach)"
    | "f \<in> set (interface_findings show_uuid (t_rows t) root ?reach)" by auto
  then show False
  proof cases
    case 1
    then have "map_of ?reach h \<noteq> None"
      using push_all_origin h assms(1) unfolding collect_findings_def set_concat set_map by blast
    moreover have "map_of ?reach h = None" by (rule shortest_paths_visible) (use assms(2) in blast)
    ultimately show False by contradiction
  next
    case 2
    from interface_findings_origin [OF this, unfolded h] obtain w where
      w: "w \<in> set (t_rows t)" "r_target w = Some h" "e_interface (r_edge w) \<noteq> None" by (elim bexE conjE)
    then show False using assms(2) [OF w(1,2)] by simp
  qed
qed

text \<open>A root that depends on a drifted contract \<open>2\<close>, which depends on a hidden contract \<open>4\<close>.\<close>

definition hiding_rows :: "row list" where
  "hiding_rows =
     (let e = (edge_to 1 2)\<lparr>e_expected := Some ''old'', e_interface := Some ''new''\<rparr>
      in [base_row e, extend_row (base_row e) ((edge_to 2 4)\<lparr>e_visible := False\<rparr>)])"

definition hiding_report :: risk_report where
  "hiding_report = assess (\<lambda>_. ''u'') (\<lambda>_ _. []) (\<lambda>_. []) 1 Mainnet (assemble hiding_rows 2 10)"

theorem assess_hides_witness:
  "map f_origin (inherited_findings hiding_report) = [2] \<and>
   list_all (\<lambda>f. f_origin f \<noteq> 4) (inherited_findings hiding_report)"
proof
  show "map f_origin (inherited_findings hiding_report) = [2]"
    by (simp add: hiding_report_def hiding_rows_def assess_def assemble_def truncation_def base_row_def
        extend_row_def edge_to_def dead_end_def on_path_def shortest_paths_def keep_shorter_def
        collect_findings_def push_all_def interface_findings_def interface_finding_def hops_def
        dedup_findings_def sort_findings_def keep_best_def is_direct_def unwrap_or_def Let_def)
  have "f_origin f \<noteq> 4" if f: "f \<in> set (inherited_findings hiding_report)" for f
  proof (rule assess_hides)
    show "f \<in> set (direct_findings (assess (\<lambda>_. ''u'') (\<lambda>_ _. []) (\<lambda>_. []) 1 Mainnet (assemble hiding_rows 2 10))) \<union>
        set (inherited_findings (assess (\<lambda>_. ''u'') (\<lambda>_ _. []) (\<lambda>_. []) 1 Mainnet (assemble hiding_rows 2 10)))"
      using f by (simp add: hiding_report_def)
    show "\<not> r_visible w \<and> e_interface (r_edge w) = None"
      if "w \<in> set (t_rows (assemble hiding_rows 2 10))" "r_target w = Some 4" for w
      using that by (auto simp: assemble_def truncation_def hiding_rows_def base_row_def extend_row_def
          edge_to_def Let_def)
  qed simp
  then show "list_all (\<lambda>f. f_origin f \<noteq> 4) (inherited_findings hiding_report)"
    by (simp add: list_all_iff)
qed

definition drifted :: edge where
  "drifted = (edge_to 3 4)\<lparr>e_expected := Some ''old'', e_interface := Some ''new''\<rparr>"

definition drift_graph :: "edge list" where
  "drift_graph = [edge_to 1 2, edge_to 1 3, edge_to 2 4, drifted]"

lemma drifted_simps [simp]:
  "e_source drifted = 3" "e_target drifted = Some 4" "dead_end drifted = False" "e_visible drifted = True"
  by (simp_all add: edge_to_def drifted_def dead_end_def)

lemma drift_rows: "walk_rows drift_graph 1 2 =
    [\<lparr>r_depth = 1, r_edge = edge_to 1 2, r_path = [1, 2], r_cycle = None, r_terminal = False\<rparr>,
     \<lparr>r_depth = 1, r_edge = edge_to 1 3, r_path = [1, 3], r_cycle = None, r_terminal = False\<rparr>,
     \<lparr>r_depth = 2, r_edge = edge_to 2 4, r_path = [1, 2, 4], r_cycle = None, r_terminal = False\<rparr>,
     \<lparr>r_depth = 2, r_edge = drifted, r_path = [1, 3, 4], r_cycle = None, r_terminal = False\<rparr>]"
proof -
  have base: "walk_base drift_graph 1 =
    [\<lparr>r_depth = 1, r_edge = edge_to 1 2, r_path = [1, 2], r_cycle = None, r_terminal = False\<rparr>,
     \<lparr>r_depth = 1, r_edge = edge_to 1 3, r_path = [1, 3], r_cycle = None, r_terminal = False\<rparr>]"
    by (simp add: walk_base_def drift_graph_def base_row_def)
  have step: "walk_step drift_graph 2 (walk_base drift_graph 1) =
    [\<lparr>r_depth = 2, r_edge = edge_to 2 4, r_path = [1, 2, 4], r_cycle = None, r_terminal = False\<rparr>,
     \<lparr>r_depth = 2, r_edge = drifted, r_path = [1, 3, 4], r_cycle = None, r_terminal = False\<rparr>]"
    unfolding base by (simp add: walk_step_def drift_graph_def extend_row_def on_path_def)
  have last: "walk_step drift_graph 2 (walk_step drift_graph 2 (walk_base drift_graph 1)) = []"
    unfolding step by (simp add: walk_step_def)
  have levels: "walk_levels drift_graph limit 2 ws =
      ws @ walk_step drift_graph limit ws @ walk_step drift_graph limit (walk_step drift_graph limit ws)" for limit ws
    by (simp add: numeral_2_eq_2)
  show ?thesis
    unfolding walk_rows_def levels unfolding last unfolding step unfolding base by simp
qed

lemma drift_paths: "shortest_paths
    [\<lparr>r_depth = 1, r_edge = edge_to 1 2, r_path = [1, 2], r_cycle = None, r_terminal = False\<rparr>,
     \<lparr>r_depth = 1, r_edge = edge_to 1 3, r_path = [1, 3], r_cycle = None, r_terminal = False\<rparr>,
     \<lparr>r_depth = 2, r_edge = edge_to 2 4, r_path = [1, 2, 4], r_cycle = None, r_terminal = False\<rparr>,
     \<lparr>r_depth = 2, r_edge = drifted, r_path = [1, 3, 4], r_cycle = None, r_terminal = False\<rparr>] =
    [(2, [1, 2]), (3, [1, 3]), (4, [1, 2, 4])]"
  by (simp add: shortest_paths_def keep_shorter_def)

text \<open>
  The path of an interface finding need not lead over the edge that it is about: for an
  edge from \<open>3\<close> to \<open>4\<close> whose interface drifted, the reported path is the shortest path to \<open>4\<close>,
  here over \<open>2\<close>, an edge that did not drift. The finding is inherited (two hops from the root)
  with severity high, although the rule does not propagate.
\<close>

theorem interface_finding_other_path:
  "map f_path (interface_findings show_uuid (walk_rows drift_graph 1 2) 1 (shortest_paths (walk_rows drift_graph 1 2))) = [[1, 2, 4]] \<and>
   map f_depth (interface_findings show_uuid (walk_rows drift_graph 1 2) 1 (shortest_paths (walk_rows drift_graph 1 2))) = [2] \<and>
   map f_severity (interface_findings show_uuid (walk_rows drift_graph 1 2) 1 (shortest_paths (walk_rows drift_graph 1 2))) = [High] \<and>
   inherited_severity InterfaceIncompatibility High = None"
  unfolding drift_rows drift_paths
  by (simp add: interface_findings_def interface_finding_def hops_def unwrap_or_def drifted_def)

end
