(* ===== verification/Indexer.thy ===== *)
theory Indexer
  imports Dependency_Traversal
begin

text \<open>
  \<open>backend/indexer\<close>: the service that reads the ledgers of a Stellar network in order and
  writes the contracts deployed in them to the registry's database. Modelled are the backoff
  (\<open>backoff.rs\<close>), the detector (\<open>detector.rs\<close>), what the RPC client makes of a response
  (\<open>rpc.rs\<close>), the batch writer (\<open>db.rs\<close>), the state row (\<open>state.rs\<close>), reorg detection and
  recovery (\<open>reorg.rs\<close>), and the polling loop with start, cycle and shutdown (\<open>main.rs\<close>).

  The RPC endpoint and the database's failures are inputs of a cycle (the record \<open>cycle_env\<close>):
  the HTTP outcome of every request the cycle may make, and which statements fail. The JSON
  body of an operation is of a parameter type, read through \<open>get_str\<close>, which stands for
  \<open>body.get(field).and_then(as_str)\<close>. Heights are \<open>u64\<close>; the columns of the state row are
  \<open>BIGINT\<close> and written with \<open>as i64\<close>, which keeps the 64 bits.
\<close>

section \<open>Exponential backoff\<close>

record exponential_backoff =
  base_interval_secs :: u64
  max_interval_secs :: u64
  current_attempt :: u32
  current_interval_secs :: u64

definition backoff_new :: "u64 \<Rightarrow> u64 \<Rightarrow> exponential_backoff" where
  "backoff_new base limit =
     \<lparr>base_interval_secs = base, max_interval_secs = limit, current_attempt = 0,
      current_interval_secs = base\<rparr>"

definition on_failure :: "exponential_backoff \<Rightarrow> exponential_backoff" where
  "on_failure b =
     (let attempt = current_attempt b + 1;
          next_interval = saturating_mul (base_interval_secs b)
                            (saturating_pow 2 (unat (saturating_sub attempt 1)))
      in b\<lparr>current_attempt := attempt,
           current_interval_secs := min next_interval (max_interval_secs b)\<rparr>)"

definition on_success :: "exponential_backoff \<Rightarrow> exponential_backoff" where
  "on_success b = b\<lparr>current_attempt := 0, current_interval_secs := base_interval_secs b\<rparr>"

definition should_give_up :: "exponential_backoff \<Rightarrow> u32 \<Rightarrow> bool" where
  "should_give_up b max_total_attempts \<longleftrightarrow> max_total_attempts \<le> current_attempt b"

text \<open>
  \<open>execute_with_backoff\<close>: the operation's \<open>i\<close>-th call gives \<open>operation i\<close>; besides the result
  the model returns the durations slept. Whether the loop ends is a theorem, not an assumption.
\<close>

partial_function (option) execute_from ::
  "nat \<Rightarrow> exponential_backoff \<Rightarrow> u32 \<Rightarrow> (nat \<Rightarrow> string + 'a) \<Rightarrow> u64 list \<Rightarrow>
   ((string + 'a) \<times> u64 list) option" where
  "execute_from i b max_attempts operation slept =
     (case operation i of
        Inr result \<Rightarrow> Some (Ok result, slept)
      | Inl err \<Rightarrow>
          (let b' = on_failure b in
           if should_give_up b' max_attempts
           then Some (Err (''Failed after '' @ dec (unat (current_attempt b')) @ '' attempts: '' @ err), slept)
           else execute_from (Suc i) b' max_attempts operation (slept @ [current_interval_secs b'])))"

definition execute_with_backoff ::
  "exponential_backoff \<Rightarrow> u32 \<Rightarrow> (nat \<Rightarrow> string + 'a) \<Rightarrow> ((string + 'a) \<times> u64 list) option" where
  "execute_with_backoff b max_attempts operation = execute_from 0 b max_attempts operation []"

lemma on_failure_fields [simp]:
  "base_interval_secs (on_failure b) = base_interval_secs b"
  "max_interval_secs (on_failure b) = max_interval_secs b"
  "current_attempt (on_failure b) = current_attempt b + 1"
  by (simp_all add: on_failure_def Let_def)

lemma backoff_new_fields [simp]:
  "base_interval_secs (backoff_new base limit) = base"
  "max_interval_secs (backoff_new base limit) = limit"
  "current_attempt (backoff_new base limit) = 0"
  by (simp_all add: backoff_new_def)

lemma min_saturated: "min (min (x :: nat) y) z = min x z" if "z \<le> y"
  using that by linarith

lemma interval_after_failure:
  assumes "unat (current_attempt b) + 1 < 2 ^ 32"
  shows "unat (current_interval_secs (on_failure b)) =
    min (unat (base_interval_secs b) * 2 ^ unat (current_attempt b)) (unat (max_interval_secs b))"
proof -
  let ?B = "unat (base_interval_secs b)" and ?M = "unat (max_interval_secs b)"
  let ?n = "unat (current_attempt b)"
  have M: "?M \<le> 2 ^ 64 - 1" using unat_lt_exp [of "max_interval_secs b"] by simp
  have "unat (current_attempt b + 1) = ?n + 1" using assms by (simp add: unat_inc)
  then have n: "unat (saturating_sub (current_attempt b + 1) 1) = ?n"
    by (simp add: unat_saturating_sub)
  have "unat (current_interval_secs (on_failure b)) =
      min (min (?B * min (2 ^ ?n) (2 ^ 64 - 1)) (2 ^ 64 - 1)) ?M"
    by (simp add: on_failure_def Let_def n min_def word_le_nat_alt unat_saturating_mul
        unat_saturating_pow del: power_numeral)
  also have "\<dots> = min (?B * min (2 ^ ?n) (2 ^ 64 - 1)) ?M" by (rule min_saturated [OF M])
  also have "\<dots> = min (?B * 2 ^ ?n) ?M"
  proof (cases "?B = 0 \<or> (2 :: nat) ^ ?n \<le> 2 ^ 64 - 1")
    case True
    then show ?thesis by (auto simp: min_absorb1)
  next
    case False
    then have "2 ^ 64 - 1 \<le> ?B * (2 ^ 64 - 1)" "2 ^ 64 - 1 \<le> ?B * 2 ^ ?n"
      using mult_le_mono [of 1 ?B "2 ^ 64 - 1" "2 ^ ?n"] by auto
    with M False have "?M \<le> ?B * (2 ^ 64 - 1)" "?M \<le> ?B * 2 ^ ?n" by linarith+
    with False show ?thesis by (simp add: min_absorb2)
  qed
  finally show ?thesis .
qed

text \<open>The waits of a fresh backoff: after the \<open>k\<close>-th failure in a row.\<close>

definition wait_secs :: "u64 \<Rightarrow> u64 \<Rightarrow> nat \<Rightarrow> nat" where
  "wait_secs base limit k = min (unat base * 2 ^ (k - 1)) (unat limit)"

lemma failures_fields [simp]:
  "base_interval_secs ((on_failure ^^ k) b) = base_interval_secs b"
  "max_interval_secs ((on_failure ^^ k) b) = max_interval_secs b"
  by (induction k) simp_all

lemma failures_attempt:
  "unat (current_attempt b) + k < 2 ^ 32 \<Longrightarrow>
   unat (current_attempt ((on_failure ^^ k) b)) = unat (current_attempt b) + k"
  by (induction k) (simp_all add: unat_inc)

lemma interval_after_failures:
  assumes "0 < k" "k < 2 ^ 32"
  shows "unat (current_interval_secs ((on_failure ^^ k) (backoff_new base limit))) = wait_secs base limit k"
proof -
  obtain j where j: "k = Suc j" using assms(1) by (cases k) auto
  let ?b = "(on_failure ^^ j) (backoff_new base limit)"
  have att: "unat (current_attempt ?b) = j"
    using failures_attempt [of "backoff_new base limit" j] assms(2) by (simp add: j)
  have "unat (current_attempt ?b) + 1 < 2 ^ 32" using assms(2) unfolding att j by simp
  from interval_after_failure [OF this] show ?thesis
    by (simp add: j att wait_secs_def)
qed

text \<open>
  The backoff doubles and is capped, without any artefact of 64-bit arithmetic: after
  \<open>k\<close> failures in a row since its creation, or since the last success, the interval is exactly
  \<open>min (base * 2 ^ (k - 1)) limit\<close> in the natural numbers. The two saturating operations of
  the code never show, because the cap is itself a \<open>u64\<close>.
\<close>

theorem backoff_interval:
  assumes "0 < k" "k < 2 ^ 32"
  shows "unat (current_interval_secs ((on_failure ^^ k) (on_success b))) =
    min (unat (base_interval_secs b) * 2 ^ (k - 1)) (unat (max_interval_secs b))"
proof -
  have "on_success b = backoff_new (base_interval_secs b) (max_interval_secs b)"
    by (simp add: on_success_def backoff_new_def)
  then show ?thesis using interval_after_failures [OF assms] by (simp add: wait_secs_def)
qed

theorem backoff_interval_witness:
  "unat (current_interval_secs ((on_failure ^^ 7) (on_success (backoff_new 1 60)))) = 60"
  using backoff_interval [of 7 "backoff_new 1 60"] by simp

text \<open>What \<open>execute_with_backoff\<close> promises, as a specification on the outcomes of the calls.\<close>

definition tries :: "u32 \<Rightarrow> nat" where
  "tries max_attempts = max 1 (unat max_attempts)"

definition retry_spec :: "u32 \<Rightarrow> (nat \<Rightarrow> string + 'a) \<Rightarrow> string + 'a" where
  "retry_spec max_attempts operation =
     (case find (\<lambda>i. is_ok (operation i)) [0..<tries max_attempts] of
        Some i \<Rightarrow> operation i
      | None \<Rightarrow> Err (''Failed after '' @ dec (tries max_attempts) @ '' attempts: '' @
                   projl (operation (tries max_attempts - 1))))"

definition failed_calls :: "u32 \<Rightarrow> (nat \<Rightarrow> string + 'a) \<Rightarrow> nat" where
  "failed_calls max_attempts operation =
     length (takeWhile (\<lambda>i. \<not> is_ok (operation i)) [0..<tries max_attempts])"

lemma execute_from_runs:
  fixes operation :: "nat \<Rightarrow> string + 'a"
  assumes "b = (on_failure ^^ i) b0" "b0 = backoff_new base limit" "i < tries m"
    "\<forall>j<i. \<not> is_ok (operation j)"
  shows "\<exists>n r. execute_from i b m operation slept =
      Some (r, slept @ map (\<lambda>k. current_interval_secs ((on_failure ^^ k) b0)) [Suc i..<Suc n]) \<and>
    i \<le> n \<and> n < tries m \<and> (\<forall>j<n. \<not> is_ok (operation j)) \<and>
    (is_ok (operation n) \<and> r = operation n \<or>
     \<not> is_ok (operation n) \<and> Suc n = tries m \<and>
     r = Err (''Failed after '' @ dec (tries m) @ '' attempts: '' @ projl (operation n)))"
  using assms
proof (induction "tries m - i" arbitrary: i b slept)
  case 0
  then show ?case by simp
next
  case (Suc d)
  have m32: "tries m < 2 ^ 32" using unat_lt_exp [of m] by (simp add: tries_def)
  have "unat (current_attempt (on_failure b)) = Suc i"
    using failures_attempt [of b0 "Suc i"] Suc.prems(1,2,3) m32 by simp
  note att = this
  have give_up: "should_give_up (on_failure b) m \<longleftrightarrow> Suc i = tries m"
    using Suc.prems(3) att by (auto simp: should_give_up_def word_le_nat_alt tries_def simp del: on_failure_fields)
  show ?case
  proof (cases "operation i")
    case (Inr x)
    then have "execute_from i b m operation slept = Some (operation i, slept)"
      by (simp add: execute_from.simps)
    with Inr Suc.prems show ?thesis by (intro exI [of _ i] exI [of _ "operation i"]) simp
  next
    case (Inl e)
    show ?thesis
    proof (cases "Suc i = tries m")
      case True
      then have "execute_from i b m operation slept =
          Some (Err (''Failed after '' @ dec (tries m) @ '' attempts: '' @ e), slept)"
        using Inl give_up att by (simp add: execute_from.simps Let_def del: on_failure_fields)
      with Inl True Suc.prems show ?thesis
        by (intro exI [of _ i] exI [of _ "Err (''Failed after '' @ dec (tries m) @ '' attempts: '' @ e)"]) simp
    next
      case False
      let ?w = "current_interval_secs (on_failure b)"
      have eq: "execute_from i b m operation slept =
          execute_from (Suc i) (on_failure b) m operation (slept @ [?w])"
        using Inl False give_up by (subst execute_from.simps) (simp add: Let_def)
      have b': "on_failure b = (on_failure ^^ Suc i) b0" using Suc.prems(1) by simp
      have "d = tries m - Suc i" "Suc i < tries m" using Suc.hyps(2) Suc.prems(3) False by linarith+
      moreover have "\<forall>j<Suc i. \<not> is_ok (operation j)" using Suc.prems(4) Inl by (auto simp: less_Suc_eq)
      ultimately obtain n r where n:
        "execute_from (Suc i) (on_failure b) m operation (slept @ [?w]) =
          Some (r, (slept @ [?w]) @ map (\<lambda>k. current_interval_secs ((on_failure ^^ k) b0)) [Suc (Suc i)..<Suc n])"
        "Suc i \<le> n" "n < tries m" "\<forall>j<n. \<not> is_ok (operation j)"
        "is_ok (operation n) \<and> r = operation n \<or> \<not> is_ok (operation n) \<and> Suc n = tries m \<and>
          r = Err (''Failed after '' @ dec (tries m) @ '' attempts: '' @ projl (operation n))"
        using Suc.hyps(1) [OF _ b' Suc.prems(2), of "slept @ [?w]"] by blast
      have "map (\<lambda>k. current_interval_secs ((on_failure ^^ k) b0)) [Suc i..<Suc n] =
          ?w # map (\<lambda>k. current_interval_secs ((on_failure ^^ k) b0)) [Suc (Suc i)..<Suc n]"
        using n(2) b' by (simp add: upt_conv_Cons del: upt_Suc)
      with n eq show ?thesis
        by (intro exI [of _ n] exI [of _ r]) (simp del: upt_Suc)
    qed
  qed
qed

lemma first_ok_split:
  assumes "n < t" "\<forall>j<n. \<not> P j" "P n"
  shows "find P [0..<t] = Some n" "length (takeWhile (\<lambda>i. \<not> P i) [0..<t]) = n"
proof -
  have split: "[0..<t] = [0..<n] @ n # [Suc n..<t]"
    using assms(1) by (metis le0 upt_add_eq_append upt_conv_Cons le_add_diff_inverse less_imp_le_nat)
  have "find P [0..<n] = None" using assms(2) by (auto simp: find_None_iff)
  then show "find P [0..<t] = Some n" using assms(3) by (simp add: split find_append)
  show "length (takeWhile (\<lambda>i. \<not> P i) [0..<t]) = n"
  proof -
    have "takeWhile (\<lambda>i. \<not> P i) [0..<t] = [0..<n]"
      unfolding split using assms(2,3) by (subst takeWhile_append2) auto
    then show ?thesis by simp
  qed
qed

lemma none_ok:
  assumes "\<forall>j<t. \<not> P j"
  shows "find P [0..<t] = None" "length (takeWhile (\<lambda>i. \<not> P i) [0..<t]) = t"
  using assms by (auto simp: find_None_iff takeWhile_eq_all_conv [THEN iffD2])

text \<open>
  \<open>execute_with_backoff\<close> always returns, and returns what it promises: the first success
  within \<open>max_attempts\<close> calls (one call at least), otherwise the message with the number of
  attempts and the last error. Between the calls it sleeps the doubling, capped intervals, one
  per failed call, and not after the last.
\<close>

theorem execute_with_backoff_returns:
  "\<exists>slept. execute_with_backoff (backoff_new base limit) m operation = Some (retry_spec m operation, slept) \<and>
     map unat slept =
       map (wait_secs base limit) [1..<Suc (min (failed_calls m operation) (tries m - 1))]"
proof -
  let ?b = "backoff_new base limit"
  obtain n r where n: "execute_from 0 ?b m operation [] =
      Some (r, map (\<lambda>k. current_interval_secs ((on_failure ^^ k) ?b)) [Suc 0..<Suc n])"
    "n < tries m" "\<forall>j<n. \<not> is_ok (operation j)"
    "is_ok (operation n) \<and> r = operation n \<or> \<not> is_ok (operation n) \<and> Suc n = tries m \<and>
      r = Err (''Failed after '' @ dec (tries m) @ '' attempts: '' @ projl (operation n))"
  proof -
    have "0 < tries m" by (simp add: tries_def)
    note runs = execute_from_runs [of ?b 0 ?b, OF _ refl this, of operation "[]"]
    show ?thesis by (insert runs, simp only: funpow_0 append_Nil One_nat_def) (blast intro: that)
  qed
  have "r = retry_spec m operation \<and> n = min (failed_calls m operation) (tries m - 1)"
  proof (cases "is_ok (operation n)")
    case True
    with n show ?thesis
      using first_ok_split [of n "tries m" "\<lambda>i. is_ok (operation i)"]
      by (simp add: retry_spec_def failed_calls_def min_absorb1)
  next
    case False
    with n(3,4) have all: "\<forall>j<tries m. \<not> is_ok (operation j)" by (metis less_antisym)
    from False n(4) have "Suc n = tries m" by blast
    then have "n = tries m - 1" by linarith
    with False n(4) none_ok [OF all] show ?thesis by (simp add: retry_spec_def failed_calls_def)
  qed
  moreover have "map unat (map (\<lambda>k. current_interval_secs ((on_failure ^^ k) ?b)) [1..<Suc n]) =
      map (wait_secs base limit) [1..<Suc n]"
  proof -
    have "n < 2 ^ 32" using n(2) unat_lt_exp [of m] by (simp add: tries_def)
    then show ?thesis by (auto intro!: interval_after_failures simp del: upt_Suc)
  qed
  ultimately show ?thesis using n(1) by (simp add: execute_with_backoff_def One_nat_def del: upt_Suc)
qed

section \<open>What the RPC client makes of a response\<close>

datatype rpc_error = RequestFailed string | Remote string | InvalidResponse string | Timeout

definition rpc_error_display :: "rpc_error \<Rightarrow> string" where
  "rpc_error_display e =
     (case e of
        RequestFailed m \<Rightarrow> ''HTTP request failed: '' @ m
      | Remote m \<Rightarrow> ''RPC returned error: '' @ m
      | InvalidResponse m \<Rightarrow> ''Invalid response format: '' @ m
      | Timeout \<Rightarrow> ''Network timeout'')"

record ledger =
  l_sequence :: u64
  l_id :: string
  l_hash :: string
  l_prev_hash :: string
  l_timestamp :: string

record 'b operation =
  op_id :: string
  op_tx_id :: string
  op_type_code :: u32
  op_type_name :: string
  op_body :: 'b

record contract_deployment =
  cd_contract_id :: string
  cd_deployer :: string
  cd_op_id :: string
  cd_tx_id :: string
  cd_ledger_sequence :: u64
  cd_deployed_at :: string

text \<open>The response bodies, as the JSON library delivers them.\<close>

record ledger_response =
  lr_sequence :: u64
  lr_id :: string
  lr_hash :: string
  lr_prev_hash :: "string option"
  lr_closed_at :: string

record ledger_summary =
  ls_sequence :: u64
  ls_id :: "string option"
  ls_hash :: string
  ls_prev_hash :: "string option"
  ls_closed_at :: "string option"

record 'b operation_record =
  or_id :: string
  or_transaction_hash :: string
  or_type_code :: u32
  or_type_name :: string
  or_body :: 'b

text \<open>
  The outcome of a request: no response in time, another transport error, a status other than
  success (the status and the body), a body that does not decode, or the decoded body.
\<close>

datatype 'r http_outcome =
  NoAnswer | TransportError string | HttpStatus string string | BadJson string | Body 'r

definition call_rpc :: "string \<Rightarrow> 'r http_outcome \<Rightarrow> rpc_error + 'r" where
  "call_rpc what out =
     (case out of
        NoAnswer \<Rightarrow> Err Timeout
      | TransportError e \<Rightarrow> Err (RequestFailed e)
      | HttpStatus status text \<Rightarrow> Err (Remote (''HTTP '' @ status @ '': '' @ text))
      | BadJson e \<Rightarrow> Err (InvalidResponse (''Failed to parse '' @ what @ '' response: '' @ e))
      | Body data \<Rightarrow> Ok data)"

definition get_ledger :: "ledger_response http_outcome \<Rightarrow> rpc_error + ledger" where
  "get_ledger out =
     (case call_rpc ''ledger'' out of
        Inl e \<Rightarrow> Err e
      | Inr data \<Rightarrow>
          Ok \<lparr>l_sequence = lr_sequence data, l_id = lr_id data, l_hash = lr_hash data,
              l_prev_hash = unwrap_or (lr_prev_hash data) '''', l_timestamp = lr_closed_at data\<rparr>)"

definition get_ledger_operations ::
  "'b operation_record list http_outcome \<Rightarrow> rpc_error + 'b operation list" where
  "get_ledger_operations out =
     (case call_rpc ''operations'' out of
        Inl e \<Rightarrow> Err e
      | Inr records \<Rightarrow>
          Ok (map (\<lambda>op. \<lparr>op_id = or_id op, op_tx_id = or_transaction_hash op,
                         op_type_code = or_type_code op, op_type_name = or_type_name op,
                         op_body = or_body op\<rparr>) records))"

definition get_latest_ledger :: "ledger_summary list http_outcome \<Rightarrow> rpc_error + ledger" where
  "get_latest_ledger out =
     (case call_rpc ''latest ledger'' out of
        Inl e \<Rightarrow> Err e
      | Inr [] \<Rightarrow> Err (InvalidResponse ''Empty records array'')
      | Inr (l # _) \<Rightarrow>
          Ok \<lparr>l_sequence = ls_sequence l, l_id = unwrap_or (ls_id l) (ls_hash l), l_hash = ls_hash l,
              l_prev_hash = unwrap_or (ls_prev_hash l) '''', l_timestamp = unwrap_or (ls_closed_at l) ''''\<rparr>)"

section \<open>Detecting deployments\<close>

text \<open>\<open>or_else\<close> chains over the fields of the body.\<close>

fun first_field :: "('b \<Rightarrow> string \<Rightarrow> string option) \<Rightarrow> 'b \<Rightarrow> string list \<Rightarrow> string option" where
  "first_field get_str body [] = None"
| "first_field get_str body (f # fs) =
     (case get_str body f of Some s \<Rightarrow> Some s | None \<Rightarrow> first_field get_str body fs)"

definition extract_contract_deployment ::
  "('b \<Rightarrow> string \<Rightarrow> string option) \<Rightarrow> 'b operation \<Rightarrow> u64 \<Rightarrow> string \<Rightarrow> string + contract_deployment" where
  "extract_contract_deployment get_str op sequence deployed_at =
     (case first_field get_str (op_body op) [''contract'', ''contract_id'', ''address''] of
        None \<Rightarrow> Err ''Missing contract_id in operation body''
      | Some contract_id \<Rightarrow>
          if \<not> starts_with contract_id ''C'' \<or> length contract_id < 40 \<or> 64 < length contract_id
          then Err (''Invalid contract ID format: '' @ contract_id @
                    '' (must start with 'C' and be 40-64 chars)'')
          else Ok \<lparr>cd_contract_id = contract_id,
                   cd_deployer = unwrap_or
                     (first_field get_str (op_body op) [''source_account'', ''funder'', ''developer''])
                     ''unknown'',
                   cd_op_id = op_id op, cd_tx_id = op_tx_id op,
                   cd_ledger_sequence = sequence, cd_deployed_at = deployed_at\<rparr>)"

fun detect_contract_deployments ::
  "('b \<Rightarrow> string \<Rightarrow> string option) \<Rightarrow> 'b operation list \<Rightarrow> u64 \<Rightarrow> string \<Rightarrow> contract_deployment list" where
  "detect_contract_deployments get_str [] sequence deployed_at = []"
| "detect_contract_deployments get_str (op # ops) sequence deployed_at =
     (if op_type_code op \<noteq> 110 then detect_contract_deployments get_str ops sequence deployed_at
      else case extract_contract_deployment get_str op sequence deployed_at of
             Inr d \<Rightarrow> d # detect_contract_deployments get_str ops sequence deployed_at
           | Inl _ \<Rightarrow> detect_contract_deployments get_str ops sequence deployed_at)"

section \<open>Writing contracts\<close>

text \<open>
  A row of \<open>contracts\<close>, with the columns whose value the batch writer computes; the key is
  \<open>UNIQUE (contract_id, network)\<close>. \<open>publishers\<close> maps a Stellar address to its id.
\<close>

record 'i contract_row =
  cr_contract_id :: string
  cr_network :: network
  cr_wasm_hash :: string
  cr_name :: string
  cr_publisher :: 'i
  cr_is_verified :: bool

definition row_key :: "'i contract_row \<Rightarrow> string \<times> network" where
  "row_key r = (cr_contract_id r, cr_network r)"

text \<open>\<open>INSERT INTO publishers .. ON CONFLICT DO NOTHING\<close>, then \<open>SELECT\<close>; \<open>cand\<close> is the fresh uuid.\<close>

definition get_or_create_publisher ::
  "(string \<Rightarrow> 'i) \<Rightarrow> (string \<Rightarrow> 'i option) \<Rightarrow> string \<Rightarrow> (string \<Rightarrow> 'i option)" where
  "get_or_create_publisher cand publishers address =
     (case publishers address of Some _ \<Rightarrow> publishers | None \<Rightarrow> publishers(address \<mapsto> cand address))"

definition resolve_publishers ::
  "(string \<Rightarrow> 'i) \<Rightarrow> contract_deployment list \<Rightarrow> (string \<Rightarrow> 'i option) \<Rightarrow> (string \<Rightarrow> 'i option)" where
  "resolve_publishers cand ds publishers =
     foldl (get_or_create_publisher cand) publishers (remdups (map cd_deployer ds))"

definition new_row :: "(string \<Rightarrow> 'i option) \<Rightarrow> network \<Rightarrow> contract_deployment \<Rightarrow> 'i contract_row" where
  "new_row publishers net d =
     \<lparr>cr_contract_id = cd_contract_id d, cr_network = net,
      cr_wasm_hash = cd_contract_id d @ ''_'' @ cd_op_id d,
      cr_name = cd_contract_id d, cr_publisher = the (publishers (cd_deployer d)),
      cr_is_verified = False\<rparr>"

text \<open>
  \<open>INSERT .. ON CONFLICT (contract_id, network) DO NOTHING\<close> of a chunk, with the number of rows
  returned; \<open>accepts\<close> is the table's \<open>CHECK\<close> constraints, which PostgreSQL tests first.
\<close>

definition insert_row :: "'i contract_row list \<times> nat \<Rightarrow> 'i contract_row \<Rightarrow> 'i contract_row list \<times> nat" where
  "insert_row tn r =
     (if row_key r \<in> row_key ` set (fst tn) then tn else (fst tn @ [r], snd tn + 1))"

fun chunks :: "nat \<Rightarrow> 'a list \<Rightarrow> 'a list list" where
  "chunks n [] = []"
| "chunks n (x # xs) = (take (Suc n) (x # xs)) # chunks n (drop n xs)"

definition BATCH_CHUNK_SIZE :: nat where "BATCH_CHUNK_SIZE = 50"

fun insert_chunks ::
  "('i contract_row \<Rightarrow> bool) \<Rightarrow> 'i contract_row list list \<Rightarrow> 'i contract_row list \<times> nat \<Rightarrow>
   ('i contract_row list \<times> nat) option" where
  "insert_chunks accepts [] tn = Some tn"
| "insert_chunks accepts (c # cs) tn =
     (if list_all accepts c then insert_chunks accepts cs (foldl insert_row tn c) else None)"

text \<open>
  The transaction: \<open>commits\<close> says whether every statement that no constraint refuses succeeds.
  On an error it is rolled back. The result counts new rows and duplicates.
\<close>

definition write_contracts_batch ::
  "('i contract_row \<Rightarrow> bool) \<Rightarrow> (string \<Rightarrow> 'i) \<Rightarrow> bool \<Rightarrow> network \<Rightarrow> contract_deployment list \<Rightarrow>
   (string \<Rightarrow> 'i option) \<times> 'i contract_row list \<Rightarrow>
   (string + nat \<times> nat) \<times> (string \<Rightarrow> 'i option) \<times> 'i contract_row list" where
  "write_contracts_batch accepts cand commits net ds tables =
     (if ds = [] then (Ok (0, 0), tables)
      else
        let pubs = resolve_publishers cand ds (fst tables) in
        case insert_chunks accepts (chunks (BATCH_CHUNK_SIZE - 1) (map (new_row pubs net) ds)) (snd tables, 0) of
          None \<Rightarrow> (Err ''constraint violation'', tables)
        | Some (rows, total_new) \<Rightarrow>
            if \<not> commits then (Err ''transaction failed'', tables)
            else (Ok (total_new, length ds - total_new), pubs, rows))"

lemma concat_chunks [simp]: "concat (chunks n xs) = xs"
proof (induction n xs rule: chunks.induct)
  case (2 n x xs)
  then show ?case by (simp add: append_assoc [symmetric] del: append_assoc)
qed simp

lemma insert_chunks_eq:
  "insert_chunks accepts cs tn =
     (if list_all accepts (concat cs) then Some (foldl insert_row tn (concat cs)) else None)"
  by (induction accepts cs tn rule: insert_chunks.induct) auto

lemma insert_rows:
  "\<exists>added. foldl insert_row (rows, n) rs = (rows @ added, n + length added) \<and> set added \<subseteq> set rs \<and>
     row_key ` set (rows @ added) = row_key ` set rows \<union> row_key ` set rs \<and>
     distinct (map row_key added) \<and> row_key ` set rows \<inter> row_key ` set added = {}"
proof (induction rs arbitrary: rows n)
  case (Cons r rs)
  show ?case
  proof (cases "row_key r \<in> row_key ` set rows")
    case True
    then show ?thesis using Cons [of rows n] by (auto simp: insert_row_def)
  next
    case False
    obtain added where a: "foldl insert_row (rows @ [r], n + 1) rs = ((rows @ [r]) @ added, n + 1 + length added)"
      "set added \<subseteq> set rs"
      "row_key ` set ((rows @ [r]) @ added) = row_key ` set (rows @ [r]) \<union> row_key ` set rs"
      "distinct (map row_key added)" "row_key ` set (rows @ [r]) \<inter> row_key ` set added = {}"
      using Cons [of "rows @ [r]" "n + 1"] by (elim exE conjE) (rule that)
    have "foldl insert_row (rows, n) (r # rs) = (rows @ (r # added), n + length (r # added))"
      using a(1) False by (simp add: insert_row_def)
    moreover have "set (r # added) \<subseteq> set (r # rs)" using a(2) by auto
    moreover have "row_key ` set (rows @ r # added) = row_key ` set rows \<union> row_key ` set (r # rs)"
      using a(3) by (simp add: Un_insert_left insert_commute)
    moreover have "distinct (map row_key (r # added))" using a(4,5) by auto
    moreover have "row_key ` set rows \<inter> row_key ` set (r # added) = {}" using a(5) False by auto
    ultimately show ?thesis by blast
  qed
qed simp

lemma added_le: "distinct (map row_key added) \<Longrightarrow> row_key ` set added \<subseteq> K \<Longrightarrow> finite K \<Longrightarrow> length added \<le> card K"
  by (metis card_mono distinct_card length_map list.set_map)

lemma publishers_kept:
  "publishers a = Some p \<Longrightarrow> foldl (get_or_create_publisher cand) publishers as a = Some p"
proof (induction "as" arbitrary: publishers)
  case (Cons b as)
  have "get_or_create_publisher cand publishers b a = Some p"
    using Cons.prems by (cases "publishers b") (auto simp: get_or_create_publisher_def)
  then show ?case using Cons.IH by simp
qed simp

lemma publishers_created:
  "a \<in> set as \<Longrightarrow> \<exists>p. foldl (get_or_create_publisher cand) publishers as a = Some p"
proof (induction "as" arbitrary: publishers)
  case (Cons b as)
  show ?case
  proof (cases "a = b")
    case True
    have "\<exists>p. get_or_create_publisher cand publishers b b = Some p"
      by (auto simp: get_or_create_publisher_def split: option.splits)
    then show ?thesis using True publishers_kept by fastforce
  next
    case False
    then show ?thesis using Cons by simp
  qed
qed simp

text \<open>
  Writing a batch is all or nothing and never overwrites. On success it appends rows for
  exactly the contracts that were missing, whatever the chunking; \<open>new + duplicates\<close> is the
  size of the batch; existing publishers keep their id, and each new row refers to the publisher
  of its deployer. On an error the tables are as they were.
\<close>

theorem write_batch_inserts:
  assumes "write_contracts_batch accepts cand commits net ds (pubs, rows) = (out, pubs', rows')"
  shows "case out of
      Inl _ \<Rightarrow> pubs' = pubs \<and> rows' = rows
    | Inr (new_count, duplicates) \<Rightarrow>
        (\<exists>added. rows' = rows @ added \<and> length added = new_count) \<and> new_count + duplicates = length ds \<and>
        row_key ` set rows' = row_key ` set rows \<union> (\<lambda>d. (cd_contract_id d, net)) ` set ds \<and>
        (distinct (map row_key rows) \<longrightarrow> distinct (map row_key rows')) \<and>
        (\<forall>a p. pubs a = Some p \<longrightarrow> pubs' a = Some p) \<and>
        (\<forall>r \<in> set rows' - set rows. \<exists>d \<in> set ds. row_key r = (cd_contract_id d, net) \<and>
           pubs' (cd_deployer d) = Some (cr_publisher r))"
proof (cases "ds = []")
  case True
  then show ?thesis using assms by (auto simp: write_contracts_batch_def)
next
  case ne: False
  let ?P = "resolve_publishers cand ds pubs"
  let ?rs = "map (new_row ?P net) ds"
  obtain added where a: "foldl insert_row (rows, 0) ?rs = (rows @ added, length added)"
    "set added \<subseteq> set ?rs" "row_key ` set (rows @ added) = row_key ` set rows \<union> row_key ` set ?rs"
    "distinct (map row_key added)" "row_key ` set rows \<inter> row_key ` set added = {}"
    using insert_rows [of rows 0 ?rs] by auto
  have keys: "row_key ` set ?rs = (\<lambda>d. (cd_contract_id d, net)) ` set ds"
    by (auto simp: new_row_def row_key_def image_iff)
  have le: "length added \<le> length ds"
  proof -
    have "length added \<le> card (row_key ` set ?rs)"
      by (rule added_le [OF a(4)]) (use a(2) in auto)
    also have "\<dots> \<le> length ds" by (metis card_length length_map list.set_map)
    finally show ?thesis .
  qed
  have eq: "write_contracts_batch accepts cand commits net ds (pubs, rows) =
      (if \<not> list_all accepts ?rs then (Err ''constraint violation'', pubs, rows)
       else if \<not> commits then (Err ''transaction failed'', pubs, rows)
       else (Ok (length added, length ds - length added), ?P, rows @ added))"
    using ne a(1) by (simp add: write_contracts_batch_def insert_chunks_eq Let_def)
  have kept: "\<forall>a p. pubs a = Some p \<longrightarrow> ?P a = Some p"
    by (simp add: resolve_publishers_def publishers_kept)
  have pub: "\<exists>d \<in> set ds. row_key r = (cd_contract_id d, net) \<and> ?P (cd_deployer d) = Some (cr_publisher r)"
    if new: "r \<in> set added" for r
  proof -
    obtain d where d: "d \<in> set ds" "r = new_row ?P net d" using a(2) new by auto
    then have "\<exists>p. ?P (cd_deployer d) = Some p"
      unfolding resolve_publishers_def by (intro publishers_created) simp
    with d show ?thesis by (auto simp: new_row_def row_key_def)
  qed
  have dist: "distinct (map row_key rows) \<longrightarrow> distinct (map row_key (rows @ added))" using a(4,5) by simp
  show ?thesis
  proof (cases "list_all accepts ?rs \<and> commits")
    case False
    then show ?thesis using assms unfolding eq by (auto split: if_splits)
  next
    case True
    then have "out = Ok (length added, length ds - length added)" "pubs' = ?P" "rows' = rows @ added"
      using assms unfolding eq by simp_all
    then show ?thesis using le a(3) keys dist kept pub by auto
  qed
qed

theorem write_batch_inserts_witness:
  "case write_contracts_batch (\<lambda>_. True) (\<lambda>a. length a) True Testnet
      [\<lparr>cd_contract_id = ''C1'', cd_deployer = ''G'', cd_op_id = ''o'', cd_tx_id = ''t'',
        cd_ledger_sequence = 7, cd_deployed_at = ''''\<rparr>] (\<lambda>_. None, []) of
    (out, pubs', rows') \<Rightarrow> case out of Inl _ \<Rightarrow> False | Inr (n, d) \<Rightarrow> n + d = 1"
  using write_batch_inserts [of "\<lambda>_. True" "\<lambda>a. length a" True Testnet
      "[\<lparr>cd_contract_id = ''C1'', cd_deployer = ''G'', cd_op_id = ''o'', cd_tx_id = ''t'',
        cd_ledger_sequence = 7, cd_deployed_at = ''''\<rparr>]" "\<lambda>_. None" "[]", OF refl [THEN trans, OF prod.collapse [symmetric], THEN trans, OF arg_cong2 [of _ _ _ _ Pair, OF refl prod.collapse [symmetric]]]]
  by (simp add: write_contracts_batch_def resolve_publishers_def get_or_create_publisher_def
      insert_row_def new_row_def BATCH_CHUNK_SIZE_def row_key_def split: sum.splits prod.splits)

section \<open>The indexer's state and its row\<close>

record indexer_state =
  st_network :: network
  last_indexed_ledger_height :: u64
  last_indexed_ledger_hash :: "string option"
  last_checkpoint_ledger_height :: u64
  consecutive_failures :: i32

definition next_ledger_to_process :: "indexer_state \<Rightarrow> u64" where
  "next_ledger_to_process st = last_indexed_ledger_height st + 1"

definition update_checkpoint :: "u64 \<Rightarrow> indexer_state \<Rightarrow> indexer_state" where
  "update_checkpoint h st = st\<lparr>last_checkpoint_ledger_height := h\<rparr>"


definition clear_failures :: "indexer_state \<Rightarrow> indexer_state" where
  "clear_failures st = st\<lparr>consecutive_failures := 0\<rparr>"

record state_row =
  row_height :: u64
  row_hash :: "string option"
  row_checkpoint :: u64
  row_failures :: i32
  row_error :: "string option"

text \<open>The database as the indexer uses it.\<close>

record 'i database =
  db_states :: "network \<Rightarrow> state_row option"
  db_publishers :: "string \<Rightarrow> 'i option"
  db_contracts :: "'i contract_row list"

datatype state_error = DatabaseError string | StateNotFound network

definition network_to_str :: "network \<Rightarrow> string" where
  "network_to_str n =
     (case n of Mainnet \<Rightarrow> ''mainnet'' | Testnet \<Rightarrow> ''testnet'' | Futurenet \<Rightarrow> ''futurenet'')"

text \<open>\<open>{0:?}\<close> of a network is the name of the constructor.\<close>

definition state_error_display :: "state_error \<Rightarrow> string" where
  "state_error_display e =
     (case e of
        DatabaseError m \<Rightarrow> ''Database error: '' @ m
      | StateNotFound n \<Rightarrow> ''State not found for network: '' @
          (case n of Mainnet \<Rightarrow> ''Mainnet'' | Testnet \<Rightarrow> ''Testnet'' | Futurenet \<Rightarrow> ''Futurenet''))"

text \<open>The argument of type \<open>string option\<close> is the error of the statement, if it fails.\<close>

definition load_state :: "string option \<Rightarrow> network \<Rightarrow> 'i database \<Rightarrow> state_error + indexer_state" where
  "load_state failure net db =
     (case failure of
        Some e \<Rightarrow> Err (DatabaseError e)
      | None \<Rightarrow>
          (case db_states db net of
             None \<Rightarrow> Err (StateNotFound net)
           | Some row \<Rightarrow>
               Ok \<lparr>st_network = net, last_indexed_ledger_height = row_height row,
                   last_indexed_ledger_hash = row_hash row,
                   last_checkpoint_ledger_height = row_checkpoint row,
                   consecutive_failures = row_failures row\<rparr>))"

text \<open>An \<open>UPDATE\<close> of a row that is not there changes nothing and succeeds.\<close>

definition db_update_row :: "network \<Rightarrow> (state_row \<Rightarrow> state_row) \<Rightarrow> 'i database \<Rightarrow> 'i database" where
  "db_update_row net f db = db\<lparr>db_states := (db_states db)(net := map_option f (db_states db net))\<rparr>"

definition db_update_state ::
  "string option \<Rightarrow> indexer_state \<Rightarrow> 'i database \<Rightarrow> (state_error + unit) \<times> 'i database" where
  "db_update_state failure st db =
     (case failure of
        Some e \<Rightarrow> (Err (DatabaseError e), db)
      | None \<Rightarrow>
          (Ok (), db_update_row (st_network st)
             (\<lambda>row. row\<lparr>row_height := last_indexed_ledger_height st,
                        row_hash := last_indexed_ledger_hash st,
                        row_checkpoint := last_checkpoint_ledger_height st,
                        row_failures := consecutive_failures st\<rparr>) db))"

definition db_update_checkpoint ::
  "string option \<Rightarrow> network \<Rightarrow> u64 \<Rightarrow> 'i database \<Rightarrow> (state_error + unit) \<times> 'i database" where
  "db_update_checkpoint failure net h db =
     (case failure of
        Some e \<Rightarrow> (Err (DatabaseError e), db)
      | None \<Rightarrow> (Ok (), db_update_row net (\<lambda>row. row\<lparr>row_checkpoint := h\<rparr>) db))"

text \<open>\<open>consecutive_failures + 1\<close> in SQL fails on overflow; the caller ignores the result.\<close>

definition db_record_error ::
  "string option \<Rightarrow> network \<Rightarrow> string \<Rightarrow> 'i database \<Rightarrow> (state_error + unit) \<times> 'i database" where
  "db_record_error failure net message db =
     (case failure of
        Some e \<Rightarrow> (Err (DatabaseError e), db)
      | None \<Rightarrow>
          (case db_states db net of
             None \<Rightarrow> (Ok (), db)
           | Some row \<Rightarrow>
               if row_failures row = 0x7FFFFFFF then (Err (DatabaseError ''integer out of range''), db)
               else (Ok (), db_update_row net
                       (\<lambda>row. row\<lparr>row_error := Some message, row_failures := row_failures row + 1\<rparr>) db)))"

section \<open>Reorganisations\<close>

datatype reorg_error = ReorgRpc string | ReorgState string


definition check_for_reorg ::
  "(u64 \<Rightarrow> ledger_response http_outcome) \<Rightarrow> indexer_state \<Rightarrow> reorg_error + bool" where
  "check_for_reorg ledgers st =
     (if last_indexed_ledger_height st = 0 then Ok False
      else case last_indexed_ledger_hash st of
        None \<Rightarrow> Ok False
      | Some stored_hash \<Rightarrow>
          (case get_ledger (ledgers (last_indexed_ledger_height st)) of
             Inl e \<Rightarrow> Err (ReorgRpc (''Failed to fetch ledger '' @
                            dec (unat (last_indexed_ledger_height st)) @ '': '' @ rpc_error_display e))
           | Inr ledger \<Rightarrow> Ok (l_hash ledger \<noteq> stored_hash)))"

definition recover_from_reorg ::
  "string option \<Rightarrow> indexer_state \<Rightarrow> 'i database \<Rightarrow> (reorg_error + unit) \<times> indexer_state \<times> 'i database" where
  "recover_from_reorg failure st db =
     (let st' = st\<lparr>last_indexed_ledger_height := last_checkpoint_ledger_height st,
                   last_indexed_ledger_hash := None\<rparr>
      in case db_update_state failure st' db of
           (Inl e, db') \<Rightarrow> (Err (ReorgState (state_error_display e)), st', db')
         | (Inr _, db') \<Rightarrow> (Ok (), st', db'))"

definition should_update_checkpoint :: "u64 \<Rightarrow> u64 \<Rightarrow> u64 \<Rightarrow> bool" where
  "should_update_checkpoint checkpoint_depth h last_checkpoint \<longleftrightarrow> last_checkpoint + checkpoint_depth \<le> h"

section \<open>The polling loop\<close>

record service_config =
  cfg_network :: network
  cfg_backoff_base :: u64
  cfg_backoff_max :: u64
  cfg_checkpoint_depth :: u64

text \<open>What the world answers in one cycle.\<close>

record ('b, 'i) cycle_env =
  env_latest :: "ledger_summary list http_outcome"
  env_ledger :: "u64 \<Rightarrow> ledger_response http_outcome"
  env_operations :: "u64 \<Rightarrow> 'b operation_record list http_outcome"
  env_uuid :: "string \<Rightarrow> 'i"
  env_commits :: "u64 \<Rightarrow> bool"
  env_checkpoint_fails :: "u64 \<Rightarrow> string option"
  env_update_fails :: "string option"
  env_record_fails :: "string option"

datatype cycle_error = RpcFailed rpc_error | ReorgFailed reorg_error | WriteFailed string | StateFailed state_error


text \<open>The parts of the service that a cycle does not change: how bodies are read, the table's constraints.\<close>

record ('b, 'i) schema =
  sc_get_str :: "'b \<Rightarrow> string \<Rightarrow> string option"
  sc_accepts :: "'i contract_row \<Rightarrow> bool"

definition process_ledger ::
  "('b, 'i) schema \<Rightarrow> service_config \<Rightarrow> ('b, 'i) cycle_env \<Rightarrow> u64 \<Rightarrow> indexer_state \<times> 'i database \<Rightarrow>
   (cycle_error + unit) \<times> indexer_state \<times> 'i database" where
  "process_ledger sc cfg env h sd =
     (let (st, db) = sd in
      case get_ledger (env_ledger env h) of
        Inl e \<Rightarrow> (Err (RpcFailed e), st, db)
      | Inr ledger \<Rightarrow>
      case get_ledger_operations (env_operations env h) of
        Inl e \<Rightarrow> (Err (RpcFailed e), st, db)
      | Inr operations \<Rightarrow>
          let deployments = detect_contract_deployments (sc_get_str sc) operations h (l_timestamp ledger);
              (written, pubs, rows) = write_contracts_batch (sc_accepts sc) (env_uuid env) (env_commits env h)
                                        (cfg_network cfg) deployments (db_publishers db, db_contracts db)
          in case written of
               Inl e \<Rightarrow> (Err (WriteFailed e), st, db)
             | Inr _ \<Rightarrow>
                 let db1 = db\<lparr>db_publishers := pubs, db_contracts := rows\<rparr>;
                     st1 = clear_failures (st\<lparr>last_indexed_ledger_height := h,
                                             last_indexed_ledger_hash := Some (l_hash ledger)\<rparr>)
                 in if should_update_checkpoint (cfg_checkpoint_depth cfg) h (last_checkpoint_ledger_height st1)
                    then (case db_update_checkpoint (env_checkpoint_fails env h) (cfg_network cfg) h db1 of
                            (Inl e, db2) \<Rightarrow> (Err (StateFailed e), update_checkpoint h st1, db2)
                          | (Inr _, db2) \<Rightarrow> (Ok (), update_checkpoint h st1, db2))
                    else (Ok (), st1, db1))"

fun process_ledgers ::
  "('b, 'i) schema \<Rightarrow> service_config \<Rightarrow> ('b, 'i) cycle_env \<Rightarrow> u64 list \<Rightarrow> indexer_state \<times> 'i database \<Rightarrow>
   (cycle_error + unit) \<times> indexer_state \<times> 'i database" where
  "process_ledgers sc cfg env [] sd = (Ok (), sd)"
| "process_ledgers sc cfg env (h # hs) sd =
     (case process_ledger sc cfg env h sd of
        (Inl e, sd') \<Rightarrow> (Err e, sd')
      | (Inr _, sd') \<Rightarrow> process_ledgers sc cfg env hs sd')"

definition max_ledgers_per_cycle :: u64 where "max_ledgers_per_cycle = 10"

text \<open>The heights of a cycle: \<open>next + i\<close> for \<open>i\<close> below \<open>min (latest - next + 1) 10\<close>.\<close>

definition cycle_heights :: "u64 \<Rightarrow> u64 \<Rightarrow> u64 list" where
  "cycle_heights next_ledger latest =
     map (\<lambda>i. next_ledger + of_nat i) [0..<unat (min (latest - next_ledger + 1) max_ledgers_per_cycle)]"

definition poll_and_index ::
  "('b, 'i) schema \<Rightarrow> service_config \<Rightarrow> ('b, 'i) cycle_env \<Rightarrow> indexer_state \<times> 'i database \<Rightarrow>
   (cycle_error + unit) \<times> indexer_state \<times> 'i database" where
  "poll_and_index sc cfg env sd =
     (let (st, db) = sd in
      case get_latest_ledger (env_latest env) of
        Inl e \<Rightarrow> (Err (RpcFailed e), st, db)
      | Inr latest \<Rightarrow>
      if l_sequence latest < next_ledger_to_process st then (Ok (), st, db)
      else case check_for_reorg (env_ledger env) st of
        Inl e \<Rightarrow> (Err (ReorgFailed e), st, db)
      | Inr True \<Rightarrow>
          (case recover_from_reorg (env_update_fails env) st db of
             (Inl e, st', db') \<Rightarrow> (Err (ReorgFailed e), st', db')
           | (Inr _, st', db') \<Rightarrow> (Ok (), st', db'))
      | Inr False \<Rightarrow>
          (case process_ledgers sc cfg env (cycle_heights (next_ledger_to_process st) (l_sequence latest)) (st, db) of
             (Inl e, st', db') \<Rightarrow> (Err e, st', db')
           | (Inr _, st', db') \<Rightarrow>
               (case db_update_state (env_update_fails env) st' db' of
                  (Inl e, db'') \<Rightarrow> (Err (StateFailed e), st', db'')
                | (Inr _, db'') \<Rightarrow> (Ok (), st', db''))))"

text \<open>
  The service in its loop: the loop's state, its copy for the shutdown handler, the backoff and
  the database. \<open>service_start\<close> is \<open>run\<close> up to the loop, \<open>run_cycle\<close> one turn of the loop,
  and \<open>flush_state\<close> the graceful shutdown.
\<close>

record 'i service =
  sv_state :: indexer_state
  sv_current :: "indexer_state option"
  sv_backoff :: exponential_backoff
  sv_db :: "'i database"

definition default_state :: "network \<Rightarrow> indexer_state" where
  "default_state net =
     \<lparr>st_network = net, last_indexed_ledger_height = 0, last_indexed_ledger_hash = None,
      last_checkpoint_ledger_height = 0, consecutive_failures = 0\<rparr>"

definition service_start :: "service_config \<Rightarrow> string option \<Rightarrow> 'i database \<Rightarrow> 'i service" where
  "service_start cfg load_failure db =
     (let st = (case load_state load_failure (cfg_network cfg) db of
                  Inr s \<Rightarrow> s | Inl _ \<Rightarrow> default_state (cfg_network cfg))
      in \<lparr>sv_state = st, sv_current = Some st,
          sv_backoff = backoff_new (cfg_backoff_base cfg) (cfg_backoff_max cfg), sv_db = db\<rparr>)"



section \<open>No ledger is left out\<close>

text \<open>
  A version of the chain: for each height the ledger and its operations, as the endpoint gives
  them. \<open>serves\<close>: every answer of the cycle that is not a failure is the chain's (the endpoint
  may fail at any time), and the latest height leaves room for the next. Two versions \<open>agree\<close> up
  to a height when they have the same ledgers there, and in a set of versions that is
  \<open>hash_linked\<close> two ledgers with one hash have the same past, which is what a ledger hash is for.
\<close>

type_synonym 'b chain = "u64 \<Rightarrow> ledger_response \<times> 'b operation_record list"


definition deployments_at :: "('b \<Rightarrow> string \<Rightarrow> string option) \<Rightarrow> 'b chain \<Rightarrow> u64 \<Rightarrow> contract_deployment list" where
  "deployments_at get_str c h =
     (case get_ledger_operations (Body (snd (c h))) of
        Inl _ \<Rightarrow> []
      | Inr ops \<Rightarrow> detect_contract_deployments get_str ops h (lr_closed_at (fst (c h))))"




text \<open>Every contract deployed in the ledgers \<open>1..h\<close> of the chain is in the table.\<close>

definition covered ::
  "('b \<Rightarrow> string \<Rightarrow> string option) \<Rightarrow> network \<Rightarrow> 'b chain \<Rightarrow> u64 \<Rightarrow> 'i database \<Rightarrow> bool" where
  "covered get_str net c h db \<longleftrightarrow>
     (\<forall>k. 0 < k \<and> k \<le> h \<longrightarrow>
        (\<forall>d \<in> set (deployments_at get_str c k). (cd_contract_id d, net) \<in> row_key ` set (db_contracts db)))"






lemma covered_0 [simp]: "covered get_str net c 0 db"
  by (simp add: covered_def)



lemma db_row_contracts [simp]: "db_contracts (db_update_row net f db) = db_contracts db"
  by (simp add: db_update_row_def)

lemma db_ops_contracts [simp]:
  "db_contracts (snd (db_update_state f st db)) = db_contracts db"
  "db_contracts (snd (db_update_checkpoint f net h db)) = db_contracts db"
  "db_contracts (snd (db_record_error f net m db)) = db_contracts db"
  by (simp_all add: db_update_state_def db_update_checkpoint_def db_record_error_def split: option.split)












lemma zero_less_top [simp]: "(0 :: u64) < - 1"
  by (simp add: word_less_nat_alt unat_all_ones)
























section \<open>Concrete traces\<close>

text \<open>
  A chain in two versions, told apart by the first letter of the hashes: in version \<open>b\<close> the
  ledgers \<open>1\<close> and \<open>2\<close> each deploy a contract.
\<close>

definition demo_id :: "u64 \<Rightarrow> string" where
  "demo_id h = ''C'' @ replicate 54 (CHR ''A'') @ dec (unat h)"

definition demo_chain :: "char \<Rightarrow> string chain" where
  "demo_chain v h =
     (\<lparr>lr_sequence = h, lr_id = '''', lr_hash = v # dec (unat h), lr_prev_hash = None, lr_closed_at = ''''\<rparr>,
      if v = CHR ''b'' \<and> (h = 1 \<or> h = 2)
      then [\<lparr>or_id = ''1'', or_transaction_hash = '''', or_type_code = 110, or_type_name = '''', or_body = demo_id h\<rparr>]
      else [])"

definition demo_env :: "char \<Rightarrow> u64 \<Rightarrow> string option \<Rightarrow> (string, nat) cycle_env" where
  "demo_env v tip update_fails =
     \<lparr>env_latest = Body [\<lparr>ls_sequence = tip, ls_id = None, ls_hash = '''', ls_prev_hash = None, ls_closed_at = None\<rparr>],
      env_ledger = (\<lambda>h. Body (fst (demo_chain v h))), env_operations = (\<lambda>h. Body (snd (demo_chain v h))),
      env_uuid = length, env_commits = (\<lambda>_. True), env_checkpoint_fails = (\<lambda>_. None),
      env_update_fails = update_fails, env_record_fails = None\<rparr>"

definition demo_schema :: "(string, nat) schema" where
  "demo_schema = \<lparr>sc_get_str = (\<lambda>b f. if f = ''contract'' then Some b else None), sc_accepts = (\<lambda>_. True)\<rparr>"

definition demo_config :: service_config where
  "demo_config = \<lparr>cfg_network = Testnet, cfg_backoff_base = 1, cfg_backoff_max = 60, cfg_checkpoint_depth = 1\<rparr>"

definition demo_db :: "u64 \<Rightarrow> string option \<Rightarrow> nat database" where
  "demo_db height hash =
     \<lparr>db_states = [Testnet \<mapsto> \<lparr>row_height = height, row_hash = hash, row_checkpoint = 0, row_failures = 0, row_error = None\<rparr>],
      db_publishers = Map.empty, db_contracts = []\<rparr>"

definition demo_poll :: "(string, nat) cycle_env \<Rightarrow> indexer_state \<times> nat database \<Rightarrow> indexer_state \<times> nat database" where
  "demo_poll env sd = snd (poll_and_index demo_schema demo_config env sd)"

definition demo_start :: "nat database \<Rightarrow> indexer_state \<times> nat database" where
  "demo_start db = (sv_state (service_start demo_config None db), db)"









text \<open>
  A restart can lose ledgers. The checkpoint is written to the row before the height it
  belongs to: a process that stops between the two (here the final update fails and the process
  is replaced) leaves a row whose checkpoint, \<open>3\<close>, is ahead of its height, \<open>1\<close>. When the chain
  is then reorganised, "falling back to the checkpoint" moves the indexer forward, and the
  contract deployed in ledger \<open>2\<close> is never written, although every later cycle succeeds.
\<close>

theorem restart_skips_ledgers:
  "let crashed = demo_poll (demo_env CHR ''a'' 3 (Some ''connection lost'')) (demo_start (demo_db 1 (Some ''a1'')));
       restarted = demo_start (snd crashed);
       recovered = demo_poll (demo_env CHR ''b'' 4 None) restarted;
       caught_up = demo_poll (demo_env CHR ''b'' 4 None) recovered
   in last_indexed_ledger_height (fst restarted) = 1 \<and> last_checkpoint_ledger_height (fst restarted) = 3 \<and>
      last_indexed_ledger_height (fst recovered) = 3 \<and> last_indexed_ledger_height (fst caught_up) = 4 \<and>
      map cd_contract_id (deployments_at (sc_get_str demo_schema) (demo_chain CHR ''b'') 2) = [demo_id 2] \<and>
      demo_id 2 \<notin> cr_contract_id ` set (db_contracts (snd caught_up))"
  by code_simp

text \<open>
  A reorganisation of the checkpoint itself is not undone: when the last indexed ledger is
  the checkpoint, recovery "falls back" to the same height, the replaced ledger is not read
  again, and the contract of its new version is never written.
\<close>

theorem reorg_at_checkpoint_skips:
  "let indexed = demo_poll (demo_env CHR ''a'' 1 None) (demo_start (demo_db 0 None));
       recovered = demo_poll (demo_env CHR ''b'' 3 None) indexed;
       caught_up = demo_poll (demo_env CHR ''b'' 3 None) recovered
   in last_indexed_ledger_height (fst indexed) = 1 \<and> last_checkpoint_ledger_height (fst indexed) = 1 \<and>
      last_indexed_ledger_height (fst recovered) = 1 \<and> last_indexed_ledger_hash (fst recovered) = None \<and>
      last_indexed_ledger_height (fst caught_up) = 3 \<and>
      map cd_contract_id (deployments_at (sc_get_str demo_schema) (demo_chain CHR ''b'') 1) = [demo_id 1] \<and>
      demo_id 1 \<notin> cr_contract_id ` set (db_contracts (snd caught_up))"
  by code_simp

section \<open>The constraint on the hash column\<close>

text \<open>
  \<open>database/migrations/20260601000000_database_validation_constraints.sql\<close> adds to \<open>contracts\<close>
  the constraint that \<open>wasm_hash\<close> has 64 hexadecimal digits.
\<close>

definition is_hex :: "char \<Rightarrow> bool" where
  "is_hex ch \<longleftrightarrow> is_digit ch \<or> (let n = (of_char ch :: nat) in 65 \<le> n \<and> n \<le> 70 \<or> 97 \<le> n \<and> n \<le> 102)"

definition chk_contracts_wasm_hash_format :: "'i contract_row \<Rightarrow> bool" where
  "chk_contracts_wasm_hash_format r \<longleftrightarrow> length (cr_wasm_hash r) = 64 \<and> list_all is_hex (cr_wasm_hash r)"

lemma new_row_refused: "\<not> chk_contracts_wasm_hash_format (new_row pubs net d)"
proof -
  have "\<not> is_hex CHR ''_''" by code_simp
  then show ?thesis by (simp add: chk_contracts_wasm_hash_format_def new_row_def)
qed

text \<open>
  The writer and the schema disagree. The writer fills \<open>wasm_hash\<close> with the contract id, an
  underscore and the operation id, which the constraint refuses whatever they are: under the
  migrated schema only an empty batch can be written, and a ledger with a deployment ends the
  cycle with an error and leaves the indexer in front of it.
\<close>

theorem schema_refuses_every_batch:
  "is_ok (fst (write_contracts_batch chk_contracts_wasm_hash_format cand commits net ds tables)) \<longleftrightarrow> ds = []"
proof (cases "ds = []")
  case True
  then show ?thesis by (simp add: write_contracts_batch_def)
next
  case False
  then obtain d where "d \<in> set ds" by (cases ds) auto
  then have refused: "list_all chk_contracts_wasm_hash_format (map (new_row pubs net) ds) = False" for pubs
    using new_row_refused by (auto simp: list_all_iff)
  show ?thesis using False
    by (simp add: write_contracts_batch_def insert_chunks_eq refused Let_def del: list.pred_map)
qed

end
