(* ===== verification/F64.thy ===== *)
theory F64
  imports Complex_Main
begin

text \<open>
  Rust's \<open>f64\<close> (IEEE 754 binary64) where the code computes with it: finite values as the
  rationals that they are, and each operation as the exact one followed by rounding to 53
  significant bits, ties to even. The values that occur are far from the ends of the exponent
  range, so overflow, underflow and the special values are not modelled.
\<close>

section \<open>Rounding\<close>

fun bit_length :: "int \<Rightarrow> nat" where
  "bit_length n = (if n \<le> 0 then 0 else Suc (bit_length (n div 2)))"

declare bit_length.simps [simp del]

definition div_half_even :: "int \<Rightarrow> int \<Rightarrow> int" where
  "div_half_even n d =
     (let q = n div d; r = n mod d in
      if 2 * r < d \<or> (2 * r = d \<and> even q) then q else q + 1)"

text \<open>
  \<open>n / d\<close> for positive \<open>n\<close> and \<open>d\<close>: the exponent \<open>e\<close> that brings \<open>n / (d * 2 ^ e)\<close> between
  \<open>2 ^ 52\<close> and \<open>2 ^ 53\<close>, and the integer next to that quotient.
\<close>

definition exponent :: "int \<Rightarrow> int \<Rightarrow> int" where
  "exponent n d =
     (let e0 = int (bit_length n) - int (bit_length d) - 53
      in if n * 2 ^ nat (- e0) < 2 ^ 53 * (d * 2 ^ nat e0) then e0 else e0 + 1)"

definition round_frac :: "int \<Rightarrow> int \<Rightarrow> rat" where
  "round_frac n d =
     (let e = exponent n d; m = div_half_even (n * 2 ^ nat (- e)) (d * 2 ^ nat e)
      in of_int (m * 2 ^ nat e) / of_int (2 ^ nat (- e)))"

definition round_f64 :: "rat \<Rightarrow> rat" where
  "round_f64 q =
     (let (n, d) = quotient_of q in
      if n = 0 then 0 else if n < 0 then - round_frac (- n) d else round_frac n d)"

definition f64_mul :: "rat \<Rightarrow> rat \<Rightarrow> rat" where "f64_mul a b = round_f64 (a * b)"
definition f64_div :: "rat \<Rightarrow> rat \<Rightarrow> rat" where "f64_div a b = round_f64 (a / b)"

section \<open>The error of rounding\<close>

lemma bit_length_bounds:
  "0 < n \<Longrightarrow> 0 < bit_length n \<and> 2 ^ (bit_length n - 1) \<le> n \<and> n < 2 ^ bit_length n"
proof (induction n rule: bit_length.induct)
  case (1 n)
  show ?case
  proof (cases "n = 1")
    case True
    then show ?thesis by (simp add: bit_length.simps)
  next
    case False
    with 1 have h: "0 < bit_length (n div 2)" "2 ^ (bit_length (n div 2) - 1) \<le> n div 2"
      "n div 2 < 2 ^ bit_length (n div 2)" by auto
    have "2 ^ bit_length (n div 2) = (2 :: int) * 2 ^ (bit_length (n div 2) - 1)"
      using h(1) by (cases "bit_length (n div 2)") simp_all
    with h have "2 ^ bit_length (n div 2) \<le> n" "n < 2 * 2 ^ bit_length (n div 2)" by linarith+
    then show ?thesis using \<open>0 < n\<close> by (simp add: bit_length.simps [of n])
  qed
qed

lemma div_half_even_error:
  "0 < d \<Longrightarrow> \<bar>of_int (div_half_even n d) - of_int n / of_int d\<bar> \<le> (1 / 2 :: rat)"
proof -
  assume d: "0 < d"
  let ?q = "n div d" and ?r = "n mod d"
  have "of_int n = of_int ?q * of_int d + (of_int ?r :: rat)"
    by (metis div_mult_mod_eq of_int_add of_int_mult)
  then have "of_int n / of_int d = (of_int ?q * of_int d + of_int ?r) / (of_int d :: rat)" by (rule arg_cong)
  also have "\<dots> = of_int ?q + of_int ?r / of_int d" using d by (simp add: add_divide_distrib)
  finally have quot: "of_int n / of_int d = of_int ?q + (of_int ?r / of_int d :: rat)" .
  have r: "0 \<le> ?r" "?r < d" using d by simp_all
  show ?thesis
  proof (cases "2 * ?r < d \<or> (2 * ?r = d \<and> even ?q)")
    case True
    then have "2 * ?r \<le> d" by auto
    then have "of_int ?r / of_int d \<le> (1 / 2 :: rat)"
      using d by (simp add: field_simps flip: of_int_mult)
    moreover have "0 \<le> (of_int ?r / of_int d :: rat)" using d r by simp
    ultimately show ?thesis using True by (simp add: div_half_even_def Let_def quot)
  next
    case False
    then have "d \<le> 2 * ?r" by auto
    then have "1 / 2 \<le> (of_int ?r / of_int d :: rat)"
      using d by (simp add: field_simps flip: of_int_mult)
    moreover have "of_int ?r / of_int d < (1 :: rat)" using d r by simp
    moreover have "div_half_even n d = ?q + 1" using False by (auto simp: div_half_even_def Let_def)
    ultimately show ?thesis by (simp add: quot abs_le_iff)
  qed
qed

lemma scaled: "of_int (n * 2 ^ nat (- e)) / of_int (d * 2 ^ nat e) = (of_int n / of_int d / 2 powi e :: rat)"
  by (cases "0 \<le> e") (simp_all add: power_int_def field_simps)

lemma exponent_bounds:
  assumes "0 < n" "0 < d"
  shows "2 ^ 52 \<le> (of_int n / of_int d / 2 powi exponent n d :: rat)"
proof -
  let ?q = "of_int n / of_int d :: rat"
  define e0 where "e0 = int (bit_length n) - int (bit_length d) - 53"
  note bn = bit_length_bounds [OF assms(1)] and bd = bit_length_bounds [OF assms(2)]
  have n: "(2 :: rat) powi (int (bit_length n) - 1) \<le> of_int n"
  proof -
    have "(2 :: rat) powi (int (bit_length n) - 1) = of_int (2 ^ (bit_length n - 1))"
      using bn by (simp add: power_int_def nat_diff_distrib)
    also have "\<dots> \<le> of_int n" using bn by (simp only: of_int_le_iff)
    finally show ?thesis .
  qed
  have d: "of_int d \<le> (2 :: rat) powi (int (bit_length d))"
  proof -
    have "(of_int d :: rat) \<le> of_int (2 ^ bit_length d)" using bd by (simp only: of_int_le_iff less_imp_le)
    then show ?thesis by (simp add: power_int_def)
  qed
  have "(2 :: rat) powi (e0 + 52) = 2 powi (int (bit_length n) - 1) / 2 powi int (bit_length d)"
    unfolding e0_def by (subst power_int_diff [symmetric]) (simp_all add: algebra_simps)
  also have "\<dots> \<le> ?q" using n d assms by (intro frac_le) (auto intro: less_imp_le)
  finally have low: "2 powi (e0 + 52) \<le> ?q" .
  have p: "0 < (2 :: rat) powi e" for e by simp
  show ?thesis
  proof (cases "n * 2 ^ nat (- e0) < 2 ^ 53 * (d * 2 ^ nat e0)")
    case True
    then have e: "exponent n d = e0" by (simp add: exponent_def e0_def Let_def)
    have "2 ^ 52 * 2 powi e0 \<le> ?q" using low by (simp add: power_int_add mult.commute)
    then show ?thesis unfolding e by (simp only: pos_le_divide_eq [OF p])
  next
    case False
    have D: "0 < d * 2 ^ nat e0" using assms(2) by simp
    have "of_int (2 ^ 53 * (d * 2 ^ nat e0)) \<le> (of_int (n * 2 ^ nat (- e0)) :: rat)"
      using False by (simp only: of_int_le_iff not_less)
    then have "2 ^ 53 * (of_int (d * 2 ^ nat e0) :: rat) \<le> of_int (n * 2 ^ nat (- e0))" by simp
    then have "2 ^ 53 \<le> (of_int (n * 2 ^ nat (- e0)) / of_int (d * 2 ^ nat e0) :: rat)"
      using D by (simp add: pos_le_divide_eq del: of_int_mult of_int_power)
    then have "2 ^ 53 \<le> ?q / 2 powi e0" unfolding scaled .
    then have "2 ^ 53 * 2 powi e0 \<le> ?q" by (simp only: pos_le_divide_eq [OF p])
    then have "2 ^ 52 * 2 powi (e0 + 1) \<le> ?q" by (simp add: power_int_add mult.commute)
    moreover have e: "exponent n d = e0 + 1" using False by (simp add: exponent_def e0_def Let_def)
    ultimately show ?thesis unfolding e by (simp only: pos_le_divide_eq [OF p])
  qed
qed

lemma round_frac_error:
  assumes "0 < n" "0 < d"
  shows "\<bar>round_frac n d - of_int n / of_int d\<bar> \<le> of_int n / of_int d / 2 ^ 53"
proof -
  define e where "e = exponent n d"
  define q where "q = (of_int n / of_int d :: rat)"
  define m where "m = div_half_even (n * 2 ^ nat (- e)) (d * 2 ^ nat e)"
  have D: "0 < d * 2 ^ nat e" using assms(2) by simp
  have p: "0 < (2 :: rat) powi e" by simp
  have "round_frac n d = of_int m * 2 powi e"
    by (simp add: round_frac_def e_def [symmetric] m_def [symmetric] power_int_def divide_simps Let_def)
  then have "\<bar>round_frac n d - q\<bar> = \<bar>of_int m - q / 2 powi e\<bar> * 2 powi e"
    using p by (simp add: abs_mult [symmetric] field_simps flip: abs_mult)
  also have "\<dots> \<le> (1 / 2) * 2 powi e"
    using div_half_even_error [OF D, of "n * 2 ^ nat (- e)"] p
    unfolding scaled m_def [symmetric] q_def by (intro mult_right_mono) simp_all
  also have "\<dots> \<le> q / 2 ^ 53"
    using exponent_bounds [OF assms] p unfolding e_def [symmetric] q_def [symmetric]
    by (simp add: field_simps)
  finally show ?thesis unfolding q_def .
qed

lemma round_f64_error: "\<bar>round_f64 q - q\<bar> \<le> \<bar>q\<bar> / 2 ^ 53"
proof -
  obtain n d where nd: "quotient_of q = (n, d)" by fastforce
  have d: "0 < d" using quotient_of_denom_pos [OF nd] .
  have q: "q = of_int n / of_int d" using quotient_of_div [OF nd] .
  consider "n = 0" | "n < 0" | "0 < n" by linarith
  then show ?thesis
  proof cases
    case 1
    then show ?thesis by (simp add: round_f64_def nd q)
  next
    case 2
    then have "\<bar>round_frac (- n) d - of_int (- n) / of_int d\<bar> \<le> of_int (- n) / of_int d / 2 ^ 53"
      using d by (intro round_frac_error) simp_all
    moreover have "\<bar>q\<bar> = of_int (- n) / of_int d" using 2 d by (simp add: q abs_if divide_neg_pos)
    moreover have "round_f64 q = - round_frac (- n) d" using 2 by (simp add: round_f64_def nd)
    moreover have "q = - (of_int (- n) / of_int d)" by (simp add: q)
    ultimately show ?thesis by (simp add: abs_minus_commute)
  next
    case 3
    then have "\<bar>q\<bar> = of_int n / of_int d" using d by (simp add: q)
    moreover have "round_f64 q = round_frac n d" using 3 by (simp add: round_f64_def nd)
    ultimately show ?thesis using round_frac_error [OF 3 d] q by simp
  qed
qed

lemma round_f64_bounds:
  assumes "0 \<le> q"
  shows "0 \<le> round_f64 q" "round_f64 q \<le> q * (1 + 1 / 2 ^ 53)" "q * (1 - 1 / 2 ^ 53) \<le> round_f64 q"
proof -
  have e: "round_f64 q - q \<le> q / 2 ^ 53" "q - round_f64 q \<le> q / 2 ^ 53"
    using round_f64_error [of q] assms by (simp_all only: abs_le_iff abs_of_nonneg minus_diff_eq)
  then show "round_f64 q \<le> q * (1 + 1 / 2 ^ 53)" "q * (1 - 1 / 2 ^ 53) \<le> round_f64 q"
    by (simp_all add: algebra_simps)
  have "q / 2 ^ 53 \<le> q" using assms by (simp add: field_simps)
  with e(2) show "0 \<le> round_f64 q" by linarith
qed

end
