(* ===== verification/Rate_Limit.thy ===== *)
theory Rate_Limit
  imports Prelude F64
begin

text \<open>
  \<open>backend/api/src/rate_limit.rs\<close>: the sliding-window limiter in front of the API, its choice
  of quota and bucket for a request, the bypass for trusted clients and the eviction of idle
  buckets; and the quota endpoint of \<open>quota_handlers.rs\<close>, which reads the buckets.

  An \<open>Instant\<close> is a number of nanoseconds on the monotonic clock and a \<open>Duration\<close> a
  natural number of them; \<open>checked_sub\<close> fails below the earliest instant that the platform
  represents, which is the parameter \<open>earliest\<close>. The map of buckets behind its mutex is a
  function; requests and evictions take the lock one after the other, so a run of the limiter
  is a sequence of events. The text form of an IP address (parsed from a header and printed) is
  the parameter \<open>parse_ip\<close>, \<open>None\<close> for what does not parse.
\<close>

section \<open>Time\<close>

type_synonym instant = int
type_synonym duration = nat

definition secs :: "nat \<Rightarrow> duration" where
  "secs n = n * 1000000000"

definition checked_sub :: "instant \<Rightarrow> instant \<Rightarrow> duration \<Rightarrow> instant option" where
  "checked_sub earliest now d = (if earliest \<le> now - int d then Some (now - int d) else None)"

definition saturating_duration_since :: "instant \<Rightarrow> instant \<Rightarrow> duration" where
  "saturating_duration_since a b = nat (a - b)"

definition ceil_duration_to_seconds :: "duration \<Rightarrow> nat" where
  "ceil_duration_to_seconds d =
     (let s = d div 1000000000 in if 0 < d mod 1000000000 then s + 1 else s)"

section \<open>Configuration\<close>

definition DEFAULT_ANON_LIMIT :: u32 where "DEFAULT_ANON_LIMIT = 1000"
definition DEFAULT_AUTH_LIMIT :: u32 where "DEFAULT_AUTH_LIMIT = 1000"
definition DEFAULT_WRITE_ANON_LIMIT :: u32 where "DEFAULT_WRITE_ANON_LIMIT = 100"
definition DEFAULT_WRITE_AUTH_LIMIT :: u32 where "DEFAULT_WRITE_AUTH_LIMIT = 300"
definition DEFAULT_WINDOW_SECONDS :: nat where "DEFAULT_WINDOW_SECONDS = 60"
definition DEFAULT_CONTRACTS_PAGE_SIZE :: u32 where "DEFAULT_CONTRACTS_PAGE_SIZE = 50"
definition MAX_CONTRACTS_PAGE_SIZE :: u32 where "MAX_CONTRACTS_PAGE_SIZE = 1000"
definition ABI_ENDPOINT_LIMIT_PER_MINUTE :: u32 where "ABI_ENDPOINT_LIMIT_PER_MINUTE = 1000"
definition DEFAULT_PUBLISH_ANON_LIMIT :: u32 where "DEFAULT_PUBLISH_ANON_LIMIT = 5"
definition DEFAULT_PUBLISH_AUTH_LIMIT :: u32 where "DEFAULT_PUBLISH_AUTH_LIMIT = 30"
definition DEFAULT_SEARCH_ANON_LIMIT :: u32 where "DEFAULT_SEARCH_ANON_LIMIT = 100"
definition DEFAULT_SEARCH_AUTH_LIMIT :: u32 where "DEFAULT_SEARCH_AUTH_LIMIT = 500"
definition DEFAULT_RESCAN_ANON_LIMIT :: u32 where "DEFAULT_RESCAN_ANON_LIMIT = 5"
definition DEFAULT_RESCAN_AUTH_LIMIT :: u32 where "DEFAULT_RESCAN_AUTH_LIMIT = 20"
definition FREE_TIER_LIMIT :: u32 where "FREE_TIER_LIMIT = 1000"
definition PRO_TIER_LIMIT :: u32 where "PRO_TIER_LIMIT = 10000"
definition BURST_WINDOW_SECONDS :: nat where "BURST_WINDOW_SECONDS = 60"

datatype api_tier = Free | Pro | Enterprise

definition tier_str :: "api_tier \<Rightarrow> string" where
  "tier_str t = (case t of Free \<Rightarrow> ''free'' | Pro \<Rightarrow> ''pro'' | Enterprise \<Rightarrow> ''enterprise'')"

definition tier_from_header :: "string \<Rightarrow> api_tier" where
  "tier_from_header value =
     (let v = ascii_lower value in
      if v = ''pro'' then Pro else if v = ''enterprise'' then Enterprise else Free)"

record rate_limit_config =
  anonymous_limit :: u32
  auth_limit :: u32
  write_anonymous_limit :: u32
  write_auth_limit :: u32
  window :: duration
  enterprise_limit :: u32
  burst_window :: duration
  per_api_key_limits :: "string \<Rightarrow> u32 option"
  trusted_client_ips :: "string set"
  trusted_api_keys :: "string set"
  publish_anon_limit :: u32
  publish_auth_limit :: u32
  search_anon_limit :: u32
  search_auth_limit :: u32
  rescan_anon_limit :: u32
  rescan_auth_limit :: u32

text \<open>\<open>u32::from_str\<close>, and the reading of the environment: \<open>env\<close> gives a variable's text.\<close>

definition parse_u32 :: "string \<Rightarrow> u32 option" where
  "parse_u32 s =
     (case parse_u64 s of
        None \<Rightarrow> None
      | Some v \<Rightarrow> if unat v < 2 ^ 32 then Some (of_nat (unat v)) else None)"

definition env_u32 :: "(string \<Rightarrow> string option) \<Rightarrow> string \<Rightarrow> u32 \<Rightarrow> u32" where
  "env_u32 env key fallback =
     (case env key of
        Some raw \<Rightarrow> (case parse_u32 raw of Some v \<Rightarrow> if 0 < v then v else fallback | None \<Rightarrow> fallback)
      | None \<Rightarrow> fallback)"

definition env_u32_with_fallback :: "(string \<Rightarrow> string option) \<Rightarrow> string \<Rightarrow> string \<Rightarrow> u32 \<Rightarrow> u32" where
  "env_u32_with_fallback env primary_key fallback_key fallback =
     (case env primary_key of
        Some raw \<Rightarrow> (case parse_u32 raw of Some v \<Rightarrow> if 0 < v then v else fallback | None \<Rightarrow> fallback)
      | None \<Rightarrow> env_u32 env fallback_key fallback)"

definition env_u64 :: "(string \<Rightarrow> string option) \<Rightarrow> string \<Rightarrow> nat \<Rightarrow> nat" where
  "env_u64 env key fallback =
     (case env key of
        Some raw \<Rightarrow> (case parse_u64 raw of Some v \<Rightarrow> if 0 < v then unat v else fallback | None \<Rightarrow> fallback)
      | None \<Rightarrow> fallback)"

definition parse_key_limit_map :: "string \<Rightarrow> (string \<Rightarrow> u32 option)" where
  "parse_key_limit_map raw =
     map_of (rev (concat (map (\<lambda>entry.
       (case split_first CHR ''='' entry of
          (_, None) \<Rightarrow> []
        | (api_key, Some limit) \<Rightarrow>
            (case parse_u32 (trim limit) of
               None \<Rightarrow> []
             | Some l \<Rightarrow> if 0 < l \<and> trim api_key \<noteq> [] then [(trim api_key, l)] else [])))
       (split_on CHR '','' raw))))"

definition parse_csv_set :: "string \<Rightarrow> string set" where
  "parse_csv_set raw = set (filter (\<lambda>v. v \<noteq> []) (map trim (split_on CHR '','' raw)))"

definition config_from_env :: "(string \<Rightarrow> string option) \<Rightarrow> rate_limit_config" where
  "config_from_env env =
     \<lparr>anonymous_limit = env_u32_with_fallback env ''RATE_LIMIT_IP_PER_MINUTE'' ''RATE_LIMIT_ANON_PER_MINUTE'' DEFAULT_ANON_LIMIT,
      auth_limit = env_u32_with_fallback env ''RATE_LIMIT_API_KEY_PER_MINUTE'' ''RATE_LIMIT_AUTH_PER_MINUTE'' DEFAULT_AUTH_LIMIT,
      write_anonymous_limit = env_u32 env ''RATE_LIMIT_WRITE_ANON_PER_HOUR'' DEFAULT_WRITE_ANON_LIMIT,
      write_auth_limit = env_u32 env ''RATE_LIMIT_WRITE_AUTH_PER_HOUR'' DEFAULT_WRITE_AUTH_LIMIT,
      window = secs (max 1 (env_u64 env ''RATE_LIMIT_WINDOW_SECONDS'' DEFAULT_WINDOW_SECONDS)),
      enterprise_limit = env_u32 env ''ENTERPRISE_RATE_LIMIT_PER_WINDOW'' 100000,
      burst_window = secs BURST_WINDOW_SECONDS,
      per_api_key_limits = parse_key_limit_map (unwrap_or (env ''RATE_LIMIT_API_KEY_LIMITS'') ''''),
      trusted_client_ips = parse_csv_set (unwrap_or (env ''RATE_LIMIT_TRUSTED_IPS'') ''''),
      trusted_api_keys = parse_csv_set (unwrap_or (env ''RATE_LIMIT_TRUSTED_API_KEYS'') ''''),
      publish_anon_limit = env_u32 env ''RATE_LIMIT_PUBLISH_ANON_PER_WINDOW'' DEFAULT_PUBLISH_ANON_LIMIT,
      publish_auth_limit = env_u32 env ''RATE_LIMIT_PUBLISH_AUTH_PER_WINDOW'' DEFAULT_PUBLISH_AUTH_LIMIT,
      search_anon_limit = env_u32 env ''RATE_LIMIT_SEARCH_ANON_PER_WINDOW'' DEFAULT_SEARCH_ANON_LIMIT,
      search_auth_limit = env_u32 env ''RATE_LIMIT_SEARCH_AUTH_PER_WINDOW'' DEFAULT_SEARCH_AUTH_LIMIT,
      rescan_anon_limit = env_u32 env ''RATE_LIMIT_RESCAN_ANON_PER_WINDOW'' DEFAULT_RESCAN_ANON_LIMIT,
      rescan_auth_limit = env_u32 env ''RATE_LIMIT_RESCAN_AUTH_PER_WINDOW'' DEFAULT_RESCAN_AUTH_LIMIT\<rparr>"

definition hourly_limit_for_tier :: "rate_limit_config \<Rightarrow> api_tier \<Rightarrow> u32" where
  "hourly_limit_for_tier cfg t =
     (case t of
        Free \<Rightarrow> max (auth_limit cfg) FREE_TIER_LIMIT
      | Pro \<Rightarrow> max (auth_limit cfg) PRO_TIER_LIMIT
      | Enterprise \<Rightarrow> enterprise_limit cfg)"

text \<open>\<open>(hourly as f64 * 1.2 / 60.0).ceil() as u32\<close>, at least 1; the literal \<open>1.2\<close> is the double next to it.\<close>

definition burst_limit_for_limit :: "u32 \<Rightarrow> u32" where
  "burst_limit_for_limit hourly =
     max (of_int (ceiling (f64_div (f64_mul (of_int (uint hourly)) (round_f64 (12 / 10))) 60))) 1"

definition burst_limit_for_tier :: "rate_limit_config \<Rightarrow> api_tier \<Rightarrow> u32" where
  "burst_limit_for_tier cfg t = burst_limit_for_limit (hourly_limit_for_tier cfg t)"

section \<open>Requests\<close>

text \<open>What the limiter reads of a request; header values that are not text read as absent.\<close>

record request =
  rq_method :: string
  rq_path :: string
  rq_query :: "string option"
  x_forwarded_for :: "string option"
  x_real_ip :: "string option"
  connect_ip :: "string option"
  x_api_plan :: "string option"
  x_api_key :: "string option"
  authorization :: "string option"

definition ends_with :: "'a list \<Rightarrow> 'a list \<Rightarrow> bool" where
  "ends_with s t = starts_with (rev s) (rev t)"

definition is_exempt_path :: "string \<Rightarrow> bool" where
  "is_exempt_path path \<longleftrightarrow>
     starts_with path ''/health'' \<or> path = ''/metrics'' \<or> starts_with path ''/api/admin/''"

definition is_write_method :: "string \<Rightarrow> bool" where
  "is_write_method m \<longleftrightarrow> m \<in> set [''POST'', ''PUT'', ''PATCH'', ''DELETE'']"

fun find_map :: "('a \<Rightarrow> 'b option) \<Rightarrow> 'a list \<Rightarrow> 'b option" where
  "find_map f [] = None"
| "find_map f (x # xs) = (case f x of Some y \<Rightarrow> Some y | None \<Rightarrow> find_map f xs)"

definition parse_x_forwarded_for :: "(string \<Rightarrow> string option) \<Rightarrow> string \<Rightarrow> string option" where
  "parse_x_forwarded_for parse_ip raw = find_map parse_ip (map trim (split_on CHR '','' raw))"

definition and_then :: "'a option \<Rightarrow> ('a \<Rightarrow> 'b option) \<Rightarrow> 'b option" where
  "and_then x f = (case x of None \<Rightarrow> None | Some a \<Rightarrow> f a)"

definition extract_client_ip :: "(string \<Rightarrow> string option) \<Rightarrow> request \<Rightarrow> string" where
  "extract_client_ip parse_ip r =
     (case and_then (x_forwarded_for r) (parse_x_forwarded_for parse_ip) of
        Some ip \<Rightarrow> ip
      | None \<Rightarrow>
          (case and_then (x_real_ip r) parse_ip of
             Some ip \<Rightarrow> ip
           | None \<Rightarrow> unwrap_or (connect_ip r) ''unknown''))"

definition extract_api_tier :: "request \<Rightarrow> api_tier" where
  "extract_api_tier r = (case x_api_plan r of None \<Rightarrow> Free | Some v \<Rightarrow> tier_from_header v)"

definition non_blank :: "string option \<Rightarrow> string option" where
  "non_blank v = and_then v (\<lambda>s. if trim s = [] then None else Some (trim s))"

definition extract_auth_token :: "request \<Rightarrow> string option" where
  "extract_auth_token r =
     (case non_blank (x_api_key r) of Some k \<Rightarrow> Some k | None \<Rightarrow> non_blank (authorization r))"

definition is_contract_abi_endpoint :: "string \<Rightarrow> string \<Rightarrow> bool" where
  "is_contract_abi_endpoint m path \<longleftrightarrow>
     m = ''GET'' \<and> starts_with path ''/api/v1/contracts/'' \<and> ends_with path ''/abi''"

definition is_publish_endpoint :: "string \<Rightarrow> string \<Rightarrow> bool" where
  "is_publish_endpoint m path \<longleftrightarrow> m = ''POST'' \<and> path = ''/api/contracts''"

definition is_search_endpoint :: "string \<Rightarrow> string \<Rightarrow> bool" where
  "is_search_endpoint m path \<longleftrightarrow>
     m = ''GET'' \<and>
     (path = ''/api/contracts'' \<or> path = ''/api/v1/contracts/search'' \<or>
      path = ''/api/contracts/suggestions'' \<or> path = ''/api/v1/contracts/trending'' \<or>
      path = ''/contracts'')"

definition is_dependency_scan_endpoint :: "string \<Rightarrow> string \<Rightarrow> bool" where
  "is_dependency_scan_endpoint m path \<longleftrightarrow>
     m = ''POST'' \<and> starts_with path ''/api/contracts/'' \<and> ends_with path ''/dependency-scan''"

fun page_size_of :: "string list \<Rightarrow> u32 option" where
  "page_size_of [] = None"
| "page_size_of (pair # pairs) =
     (let (key, rest) = split_first CHR ''='' pair; value = unwrap_or rest '''' in
      if key = ''limit'' \<or> key = ''page_size''
      then (case parse_u32 value of
              Some parsed \<Rightarrow> Some (clamp parsed 1 MAX_CONTRACTS_PAGE_SIZE)
            | None \<Rightarrow> page_size_of pairs)
      else page_size_of pairs)"

definition extract_page_size :: "string option \<Rightarrow> u32 option" where
  "extract_page_size query = and_then query (\<lambda>q. page_size_of (split_on CHR ''&'' q))"

definition contracts_page_size_rate_limit :: "string \<Rightarrow> string \<Rightarrow> string option \<Rightarrow> u32 option" where
  "contracts_page_size_rate_limit m path query =
     (if m \<noteq> ''GET'' \<or> path \<noteq> ''/api/contracts'' then None
      else Some (unwrap_or (extract_page_size query) DEFAULT_CONTRACTS_PAGE_SIZE))"

definition div_ceil :: "u32 \<Rightarrow> u32 \<Rightarrow> u32" where
  "div_ceil a b = (if a mod b = 0 then a div b else a div b + 1)"

definition scale_limit_by_page_size :: "u32 \<Rightarrow> u32 \<Rightarrow> u32" where
  "scale_limit_by_page_size base_limit page_size =
     max (base_limit div max (div_ceil page_size DEFAULT_CONTRACTS_PAGE_SIZE) 1) 1"

text \<open>The token without its scheme, as the trusted keys and the limits per key are looked up.\<close>

definition strip_prefix :: "string \<Rightarrow> string \<Rightarrow> string option" where
  "strip_prefix p s = (if starts_with s p then Some (drop (length p) s) else None)"

definition normalize_token :: "string \<Rightarrow> string" where
  "normalize_token token =
     trim (case strip_prefix ''Bearer '' token of
             Some t \<Rightarrow> t | None \<Rightarrow> unwrap_or (strip_prefix ''ApiKey '' token) token)"

definition per_api_key_limit :: "rate_limit_config \<Rightarrow> string \<Rightarrow> u32 option" where
  "per_api_key_limit cfg token = per_api_key_limits cfg (normalize_token token)"

definition is_whitelisted :: "(string \<Rightarrow> string option) \<Rightarrow> rate_limit_config \<Rightarrow> request \<Rightarrow> bool" where
  "is_whitelisted parse_ip cfg r \<longleftrightarrow>
     extract_client_ip parse_ip r \<in> trusted_client_ips cfg \<or>
     (case extract_auth_token r of
        None \<Rightarrow> False | Some token \<Rightarrow> normalize_token token \<in> trusted_api_keys cfg)"

text \<open>The first four bytes; the keys that reach it are visible ASCII, where bytes are characters.\<close>

definition mask_token :: "string \<Rightarrow> string" where
  "mask_token token = take (min 4 (length token)) token @ ''***''"

definition bypass_identity ::
  "(string \<Rightarrow> string option) \<Rightarrow> rate_limit_config \<Rightarrow> request \<Rightarrow> (string \<times> string) option" where
  "bypass_identity parse_ip cfg r =
     (let client_ip = extract_client_ip parse_ip r in
      if client_ip \<in> trusted_client_ips cfg then Some (''trusted_ip'', client_ip)
      else
        and_then (extract_auth_token r) (\<lambda>token.
          if normalize_token token \<in> trusted_api_keys cfg
          then Some (''trusted_api_key'', mask_token (normalize_token token)) else None))"

text \<open>The quota of a request: the limit, the burst limit, the key of its bucket.\<close>

record quota =
  q_limit :: u32
  q_burst :: u32
  q_key :: string

definition quota_of :: "u32 \<Rightarrow> string \<Rightarrow> quota" where
  "quota_of limit key = \<lparr>q_limit = limit, q_burst = burst_limit_for_limit limit, q_key = key\<rparr>"

definition select_limit_and_key ::
  "(string \<Rightarrow> string option) \<Rightarrow> rate_limit_config \<Rightarrow> request \<Rightarrow> quota" where
  "select_limit_and_key parse_ip cfg r =
     (let path = rq_path r; m = rq_method r;
          is_write = is_write_method m;
          suffix = (if is_write then ''write'' else ''read'');
          ip = extract_client_ip parse_ip r
      in
      if is_contract_abi_endpoint m path
      then \<lparr>q_limit = ABI_ENDPOINT_LIMIT_PER_MINUTE * 60, q_burst = ABI_ENDPOINT_LIMIT_PER_MINUTE,
            q_key = ''abi:'' @ path @ '':'' @ ip\<rparr>
      else if is_publish_endpoint m path
      then (case extract_auth_token r of
              Some token \<Rightarrow> quota_of (publish_auth_limit cfg) (''publish:auth:'' @ token)
            | None \<Rightarrow> quota_of (publish_anon_limit cfg) (''publish:anon:'' @ ip))
      else if is_dependency_scan_endpoint m path
      then (case extract_auth_token r of
              Some token \<Rightarrow> quota_of (rescan_auth_limit cfg) (''rescan:auth:'' @ token)
            | None \<Rightarrow> quota_of (rescan_anon_limit cfg) (''rescan:anon:'' @ ip))
      else if is_search_endpoint m path
      then (case extract_auth_token r of
              Some token \<Rightarrow> quota_of (search_auth_limit cfg) (''search:auth:'' @ token)
            | None \<Rightarrow>
                quota_of (case contracts_page_size_rate_limit m path (rq_query r) of
                            Some page_size \<Rightarrow> scale_limit_by_page_size (search_anon_limit cfg) page_size
                          | None \<Rightarrow> search_anon_limit cfg)
                  (''search:anon:'' @ ip))
      else
        (case extract_auth_token r of
           Some token \<Rightarrow>
             (let hourly = unwrap_or (per_api_key_limit cfg token)
                             (hourly_limit_for_tier cfg (extract_api_tier r));
                  auth_hourly = (if is_write then min (write_auth_limit cfg) hourly else hourly)
              in quota_of auth_hourly (''auth:'' @ suffix @ '':'' @ token))
         | None \<Rightarrow>
             if is_write then quota_of (write_anonymous_limit cfg) (''anon:write:'' @ ip)
             else quota_of (case contracts_page_size_rate_limit m path (rq_query r) of
                              Some page_size \<Rightarrow> scale_limit_by_page_size (anonymous_limit cfg) page_size
                            | None \<Rightarrow> anonymous_limit cfg)
                    (''anon:read:'' @ ip)))"

section \<open>Buckets\<close>

record bucket =
  timestamps :: "instant list"
  burst_timestamps :: "instant list"

record decision =
  d_allowed :: bool
  d_limit :: u32
  d_remaining :: u32
  d_reset_seconds :: nat

text \<open>\<open>while front <= cutoff \{ pop_front \}\<close>.\<close>

fun trim_front :: "instant \<Rightarrow> instant list \<Rightarrow> instant list" where
  "trim_front cutoff [] = []"
| "trim_front cutoff (t # ts) = (if t \<le> cutoff then trim_front cutoff ts else t # ts)"

definition check_bucket ::
  "instant \<Rightarrow> rate_limit_config \<Rightarrow> instant \<Rightarrow> u32 \<Rightarrow> u32 \<Rightarrow> bucket \<Rightarrow> decision \<times> bucket" where
  "check_bucket earliest cfg now hourly_limit burst_limit b =
     (let ts = trim_front (unwrap_or (checked_sub earliest now (window cfg)) now) (timestamps b);
          bs = trim_front (unwrap_or (checked_sub earliest now (burst_window cfg)) now) (burst_timestamps b);
          reset = (case ts of
                     oldest # _ \<Rightarrow>
                       max (ceil_duration_to_seconds (saturating_duration_since (oldest + int (window cfg)) now)) 1
                   | [] \<Rightarrow> max (ceil_duration_to_seconds (window cfg)) 1);
          trimmed = \<lparr>timestamps = ts, burst_timestamps = bs\<rparr>
      in
      if hourly_limit \<le> of_nat (length ts)
      then (\<lparr>d_allowed = False, d_limit = hourly_limit, d_remaining = 0, d_reset_seconds = reset\<rparr>, trimmed)
      else if burst_limit \<le> of_nat (length bs)
      then (\<lparr>d_allowed = False, d_limit = hourly_limit,
             d_remaining = saturating_sub hourly_limit (of_nat (length ts)),
             d_reset_seconds = max (ceil_duration_to_seconds (burst_window cfg)) 1\<rparr>, trimmed)
      else (\<lparr>d_allowed = True, d_limit = hourly_limit,
             d_remaining = saturating_sub hourly_limit (of_nat (length (ts @ [now]))),
             d_reset_seconds = reset\<rparr>,
            \<lparr>timestamps = ts @ [now], burst_timestamps = bs @ [now]\<rparr>))"

type_synonym buckets = "string \<Rightarrow> bucket option"

definition empty_bucket :: bucket where
  "empty_bucket = \<lparr>timestamps = [], burst_timestamps = []\<rparr>"

definition check_request ::
  "instant \<Rightarrow> rate_limit_config \<Rightarrow> instant \<Rightarrow> quota \<Rightarrow> buckets \<Rightarrow> decision \<times> buckets" where
  "check_request earliest cfg now q m =
     (let (d, b) = check_bucket earliest cfg now (q_limit q) (q_burst q) (unwrap_or (m (q_key q)) empty_bucket)
      in (d, m(q_key q \<mapsto> b)))"

text \<open>One sweep of the background task.\<close>

definition seen_recently :: "rate_limit_config \<Rightarrow> instant \<Rightarrow> instant list \<Rightarrow> bool" where
  "seen_recently cfg now ts \<longleftrightarrow>
     (if ts = [] then False else saturating_duration_since now (last ts) < window cfg * 2)"

definition evict :: "rate_limit_config \<Rightarrow> instant \<Rightarrow> buckets \<Rightarrow> buckets" where
  "evict cfg now m =
     (\<lambda>k. case m k of
        None \<Rightarrow> None
      | Some b \<Rightarrow>
          if seen_recently cfg now (timestamps b) \<or> seen_recently cfg now (burst_timestamps b)
          then Some b else None)"

text \<open>The middleware up to the decision: \<open>None\<close> when a trusted client passes without one.\<close>

definition rate_limit_middleware ::
  "instant \<Rightarrow> (string \<Rightarrow> string option) \<Rightarrow> rate_limit_config \<Rightarrow> instant \<Rightarrow> request \<Rightarrow> buckets \<Rightarrow>
   decision option \<times> buckets" where
  "rate_limit_middleware earliest parse_ip cfg now r m =
     (if is_whitelisted parse_ip cfg r then (None, m)
      else let (d, m') = check_request earliest cfg now (select_limit_and_key parse_ip cfg r) m in (Some d, m'))"

section \<open>Runs of the limiter and the window specification\<close>

datatype limiter_event = Request instant quota | Sweep instant

fun event_time :: "limiter_event \<Rightarrow> instant" where
  "event_time (Request now q) = now"
| "event_time (Sweep now) = now"

text \<open>The answers that a sequence of requests gets, with sweeps of the eviction task in between.\<close>

fun limiter_run :: "instant \<Rightarrow> rate_limit_config \<Rightarrow> limiter_event list \<Rightarrow> buckets \<Rightarrow> bool list" where
  "limiter_run earliest cfg [] m = []"
| "limiter_run earliest cfg (Request now q # evs) m =
     (let (d, m') = check_request earliest cfg now q m in d_allowed d # limiter_run earliest cfg evs m')"
| "limiter_run earliest cfg (Sweep now # evs) m = limiter_run earliest cfg evs (evict cfg now m)"

text \<open>
  The specification keeps the whole history of admissions of every key and knows no buckets and
  no sweeps: a request is admitted when the admissions of the last \<open>window\<close> are fewer than its
  limit and those of the last \<open>burst_window\<close> fewer than its burst limit.
\<close>

definition in_window :: "duration \<Rightarrow> instant \<Rightarrow> instant list \<Rightarrow> nat" where
  "in_window w now hist = length (filter (\<lambda>t. now - int w < t) hist)"

definition window_allows :: "rate_limit_config \<Rightarrow> instant \<Rightarrow> quota \<Rightarrow> instant list \<Rightarrow> bool" where
  "window_allows cfg now q hist \<longleftrightarrow>
     in_window (window cfg) now hist < unat (q_limit q) \<and> in_window (burst_window cfg) now hist < unat (q_burst q)"

fun spec_run :: "rate_limit_config \<Rightarrow> limiter_event list \<Rightarrow> (string \<Rightarrow> instant list) \<Rightarrow> bool list" where
  "spec_run cfg [] hist = []"
| "spec_run cfg (Request now q # evs) hist =
     (let ok = window_allows cfg now q (hist (q_key q))
      in ok # spec_run cfg evs (if ok then hist(q_key q := hist (q_key q) @ [now]) else hist))"
| "spec_run cfg (Sweep now # evs) hist = spec_run cfg evs hist"

lemma trim_front_filter: "sorted ts \<Longrightarrow> trim_front c ts = filter (\<lambda>t. c < t) ts"
proof (induction ts)
  case (Cons t ts)
  show ?case
  proof (cases "t \<le> c")
    case True
    then show ?thesis using Cons by simp
  next
    case False
    then have "filter (\<lambda>t. c < t) ts = ts" using Cons.prems by (auto simp: filter_id_conv)
    with False show ?thesis by simp
  qed
qed simp

lemma trim_front_shorter: "length (trim_front c ts) \<le> length ts"
  by (induction ts) auto

lemma trim_front_later:
  "sorted hist \<Longrightarrow> c \<le> c' \<Longrightarrow> trim_front c' (filter (\<lambda>t. c < t) hist) = filter (\<lambda>t. c' < t) hist"
proof -
  assume a: "sorted hist" "c \<le> c'"
  then have "trim_front c' (filter (\<lambda>t. c < t) hist) = filter (\<lambda>t. c' < t) (filter (\<lambda>t. c < t) hist)"
    by (simp add: trim_front_filter sorted_filter [of "\<lambda>t. t", simplified] del: filter_filter)
  also have "\<dots> = filter (\<lambda>t. c' < t) hist"
    unfolding filter_filter using a(2) by (intro filter_cong) auto
  finally show ?thesis .
qed

text \<open>A bucket holds the end of its key's history: nothing is missing that is still in a window.\<close>

definition tracks :: "rate_limit_config \<Rightarrow> instant \<Rightarrow> bucket \<Rightarrow> instant list \<Rightarrow> bool" where
  "tracks cfg T b hist \<longleftrightarrow>
     (\<exists>c \<le> T - int (window cfg). timestamps b = filter (\<lambda>t. c < t) hist) \<and>
     (\<exists>c \<le> T - int (burst_window cfg). burst_timestamps b = filter (\<lambda>t. c < t) hist) \<and>
     length (timestamps b) < 2 ^ 32 \<and> length (burst_timestamps b) < 2 ^ 32"

definition expired :: "rate_limit_config \<Rightarrow> instant \<Rightarrow> instant list \<Rightarrow> bool" where
  "expired cfg T hist \<longleftrightarrow> list_all (\<lambda>t. t \<le> T - int (window cfg) \<and> t \<le> T - int (burst_window cfg)) hist"

definition simulates :: "rate_limit_config \<Rightarrow> instant \<Rightarrow> buckets \<Rightarrow> (string \<Rightarrow> instant list) \<Rightarrow> bool" where
  "simulates cfg T m hist \<longleftrightarrow>
     (\<forall>k. sorted (hist k) \<and> list_all (\<lambda>t. t \<le> T) (hist k) \<and>
        (case m k of None \<Rightarrow> expired cfg T (hist k) | Some b \<Rightarrow> tracks cfg T b (hist k)))"

lemma tracks_later: "tracks cfg T b hist \<Longrightarrow> T \<le> T' \<Longrightarrow> tracks cfg T' b hist"
proof -
  assume a: "tracks cfg T b hist" "T \<le> T'"
  then have "c \<le> T - int w \<Longrightarrow> c \<le> T' - int w" for c w by simp
  with a(1) show ?thesis unfolding tracks_def by blast
qed

lemma expired_later: "expired cfg T hist \<Longrightarrow> T \<le> T' \<Longrightarrow> expired cfg T' hist"
  by (auto simp: expired_def list_all_iff)

lemma simulates_later:
  assumes "simulates cfg T m hist" "T \<le> T'"
  shows "simulates cfg T' m hist"
  unfolding simulates_def
proof
  fix k
  have k: "sorted (hist k)" "list_all (\<lambda>t. t \<le> T) (hist k)"
    "case m k of None \<Rightarrow> expired cfg T (hist k) | Some b \<Rightarrow> tracks cfg T b (hist k)"
    using assms(1) by (simp_all add: simulates_def)
  have "list_all (\<lambda>t. t \<le> T') (hist k)" using k(2) assms(2) by (auto simp: list_all_iff)
  then show "sorted (hist k) \<and> list_all (\<lambda>t. t \<le> T') (hist k) \<and>
      (case m k of None \<Rightarrow> expired cfg T' (hist k) | Some b \<Rightarrow> tracks cfg T' b (hist k))"
    using k expired_later tracks_later assms(2) by (cases "m k") auto
qed

lemma tracks_empty:
  assumes "expired cfg T hist"
  shows "tracks cfg T empty_bucket hist"
proof -
  have "filter (\<lambda>t. T - int (window cfg) < t) hist = []" "filter (\<lambda>t. T - int (burst_window cfg) < t) hist = []"
    using assms by (auto simp: expired_def list_all_iff filter_empty_conv)
  then show ?thesis unfolding tracks_def empty_bucket_def by (intro conjI exI) auto
qed

lemma limit_reached: "n < 2 ^ 32 \<Longrightarrow> (limit :: u32) \<le> of_nat n \<longleftrightarrow> \<not> n < unat limit"
  by (simp add: word_le_nat_alt unat_of_nat not_less)

text \<open>One request: the answer is the specification's, and the bucket keeps track.\<close>

lemma check_bucket_spec:
  assumes tr: "tracks cfg now b hist" and hist: "sorted hist"
    and early: "earliest + int (window cfg) \<le> now" "earliest + int (burst_window cfg) \<le> now"
    and r: "check_bucket earliest cfg now hl bl b = (d, b')"
  shows "d_allowed d \<longleftrightarrow> in_window (window cfg) now hist < unat hl \<and> in_window (burst_window cfg) now hist < unat bl"
    "timestamps b' = filter (\<lambda>t. now - int (window cfg) < t) hist @ (if d_allowed d then [now] else [])"
    "burst_timestamps b' = filter (\<lambda>t. now - int (burst_window cfg) < t) hist @ (if d_allowed d then [now] else [])"
    "length (timestamps b') < 2 ^ 32" "length (burst_timestamps b') < 2 ^ 32"
proof -
  let ?ts = "filter (\<lambda>t. now - int (window cfg) < t) hist"
  let ?bs = "filter (\<lambda>t. now - int (burst_window cfg) < t) hist"
  obtain c c' where c: "c \<le> now - int (window cfg)" "timestamps b = filter (\<lambda>t. c < t) hist"
    "c' \<le> now - int (burst_window cfg)" "burst_timestamps b = filter (\<lambda>t. c' < t) hist"
    and len: "length (timestamps b) < 2 ^ 32" "length (burst_timestamps b) < 2 ^ 32"
    using tr unfolding tracks_def by blast
  have cut: "unwrap_or (checked_sub earliest now (window cfg)) now = now - int (window cfg)"
    "unwrap_or (checked_sub earliest now (burst_window cfg)) now = now - int (burst_window cfg)"
    using early by (simp_all add: checked_sub_def unwrap_or_def)
  have ts: "trim_front (now - int (window cfg)) (timestamps b) = ?ts"
    unfolding c(2) by (rule trim_front_later [OF hist c(1)])
  have bs: "trim_front (now - int (burst_window cfg)) (burst_timestamps b) = ?bs"
    unfolding c(4) by (rule trim_front_later [OF hist c(3)])
  have "length ?ts \<le> length (timestamps b)" "length ?bs \<le> length (burst_timestamps b)"
    unfolding ts [symmetric] bs [symmetric] by (rule trim_front_shorter)+
  with len have small: "length ?ts < 2 ^ 32" "length ?bs < 2 ^ 32" by linarith+
  note iff = limit_reached [OF small(1), of hl] limit_reached [OF small(2), of bl]
  have fields: "d_allowed d \<longleftrightarrow> length ?ts < unat hl \<and> length ?bs < unat bl"
    "timestamps b' = ?ts @ (if d_allowed d then [now] else [])"
    "burst_timestamps b' = ?bs @ (if d_allowed d then [now] else [])"
    using r unfolding check_bucket_def cut ts bs Let_def iff by (auto split: if_splits)
  show "d_allowed d \<longleftrightarrow> in_window (window cfg) now hist < unat hl \<and> in_window (burst_window cfg) now hist < unat bl"
    "timestamps b' = ?ts @ (if d_allowed d then [now] else [])"
    "burst_timestamps b' = ?bs @ (if d_allowed d then [now] else [])"
    using fields by (simp_all add: in_window_def)
  show "length (timestamps b') < 2 ^ 32" "length (burst_timestamps b') < 2 ^ 32"
    using fields small unat_lt_exp [of hl] unat_lt_exp [of bl] by (auto split: if_splits)
qed

lemma request_step:
  assumes sim: "simulates cfg now m hist"
    and early: "earliest + int (window cfg) \<le> now" "earliest + int (burst_window cfg) \<le> now"
    and pos: "0 < window cfg" "0 < burst_window cfg"
    and r: "check_request earliest cfg now q m = (d, m')"
  shows "d_allowed d \<longleftrightarrow> window_allows cfg now q (hist (q_key q))"
    "simulates cfg now m' (if d_allowed d then hist(q_key q := hist (q_key q) @ [now]) else hist)"
proof -
  let ?k = "q_key q" and ?b = "unwrap_or (m (q_key q)) empty_bucket"
  have k: "sorted (hist ?k)" "list_all (\<lambda>t. t \<le> now) (hist ?k)"
    "case m ?k of None \<Rightarrow> expired cfg now (hist ?k) | Some b \<Rightarrow> tracks cfg now b (hist ?k)"
    using sim by (simp_all add: simulates_def)
  have tr: "tracks cfg now ?b (hist ?k)"
    using k(3) by (cases "m ?k") (simp_all add: unwrap_or_def tracks_empty)
  obtain b' where b: "check_bucket earliest cfg now (q_limit q) (q_burst q) ?b = (d, b')" "m' = m(?k \<mapsto> b')"
    using r by (auto simp: check_request_def split: prod.splits)
  note step = check_bucket_spec [OF tr k(1) early b(1)]
  show ok: "d_allowed d \<longleftrightarrow> window_allows cfg now q (hist ?k)"
    using step(1) by (simp add: window_allows_def)
  let ?h = "if d_allowed d then hist(?k := hist ?k @ [now]) else hist"
  show "simulates cfg now m' ?h"
    unfolding simulates_def
  proof
    fix k'
    show "sorted (?h k') \<and> list_all (\<lambda>t. t \<le> now) (?h k') \<and>
      (case m' k' of None \<Rightarrow> expired cfg now (?h k') | Some b \<Rightarrow> tracks cfg now b (?h k'))"
    proof (cases "k' = ?k")
      case False
      then have same: "?h k' = hist k'" "m' k' = m k'" using b(2) by auto
      show ?thesis unfolding same using sim unfolding simulates_def by (rule spec)
    next
      case True
      have "sorted (?h ?k)" "list_all (\<lambda>t. t \<le> now) (?h ?k)"
        using k(1,2) by (auto simp: sorted_append list_all_iff)
      moreover have "tracks cfg now b' (?h ?k)"
      proof (cases "d_allowed d")
        case False
        then show ?thesis using step(2-5) unfolding tracks_def by auto
      next
        case True
        then show ?thesis using step(2-5) pos unfolding tracks_def by (intro conjI exI) auto
      qed
      ultimately show ?thesis using True b(2) by simp
    qed
  qed
qed

text \<open>A sweep forgets only buckets without admissions in a window.\<close>

lemma sorted_le_last: "sorted ts \<Longrightarrow> t \<in> set ts \<Longrightarrow> t \<le> last (ts :: instant list)"
  by (induction ts) auto

lemma not_seen_recently:
  assumes "\<not> seen_recently cfg now (filter (\<lambda>t. c < t) hist)" "sorted hist"
    "c \<le> now - int w" "w \<le> window cfg * 2" "t \<in> set hist" "t \<le> now"
  shows "t \<le> now - int w"
proof (cases "filter (\<lambda>t. c < t) hist = []")
  case True
  then show ?thesis using assms(3,5) by (force simp: filter_empty_conv)
next
  case False
  let ?l = "last (filter (\<lambda>t. c < t) hist)"
  have l: "window cfg * 2 \<le> nat (now - ?l)"
    using assms(1) False by (simp add: seen_recently_def saturating_duration_since_def)
  show ?thesis
  proof (cases "c < t")
    case True
    have "sorted (filter (\<lambda>t. c < t) hist)" using assms(2) by (simp add: sorted_filter [of "\<lambda>t. t", simplified])
    moreover have "t \<in> set (filter (\<lambda>t. c < t) hist)" using True assms(5) by simp
    ultimately have "t \<le> ?l" by (rule sorted_le_last)
    then show ?thesis using l assms(4,6) by (cases "w = 0") linarith+
  next
    case False
    then show ?thesis using assms(3) by simp
  qed
qed

lemma sweep_step:
  assumes sim: "simulates cfg now m hist" and bw: "burst_window cfg \<le> window cfg * 2"
  shows "simulates cfg now (evict cfg now m) hist"
  unfolding simulates_def
proof
  fix k
  have k: "sorted (hist k)" "list_all (\<lambda>t. t \<le> now) (hist k)"
    "case m k of None \<Rightarrow> expired cfg now (hist k) | Some b \<Rightarrow> tracks cfg now b (hist k)"
    using sim by (simp_all add: simulates_def)
  have "case evict cfg now m k of None \<Rightarrow> expired cfg now (hist k) | Some b \<Rightarrow> tracks cfg now b (hist k)"
  proof (cases "m k")
    case None
    then show ?thesis using k(3) by (simp add: evict_def)
  next
    case (Some b)
    show ?thesis
    proof (cases "seen_recently cfg now (timestamps b) \<or> seen_recently cfg now (burst_timestamps b)")
      case True
      then show ?thesis using Some k(3) by (simp add: evict_def)
    next
      case False
      obtain c c' where c: "c \<le> now - int (window cfg)" "timestamps b = filter (\<lambda>t. c < t) (hist k)"
        "c' \<le> now - int (burst_window cfg)" "burst_timestamps b = filter (\<lambda>t. c' < t) (hist k)"
        using k(3) Some unfolding tracks_def by auto
      have "t \<le> now - int (window cfg) \<and> t \<le> now - int (burst_window cfg)" if t: "t \<in> set (hist k)" for t
      proof -
        have "t \<le> now" using k(2) t by (auto simp: list_all_iff)
        moreover have "\<not> seen_recently cfg now (filter (\<lambda>t. c < t) (hist k))"
          "\<not> seen_recently cfg now (filter (\<lambda>t. c' < t) (hist k))"
          using False unfolding c(2,4) by blast+
        ultimately show ?thesis
          using not_seen_recently [OF _ k(1) c(1) _ t] not_seen_recently [OF _ k(1) c(3) bw t] by simp
      qed
      then show ?thesis using Some False by (simp add: evict_def expired_def list_all_iff)
    qed
  qed
  with k(1,2) show "sorted (hist k) \<and> list_all (\<lambda>t. t \<le> now) (hist k) \<and>
      (case evict cfg now m k of None \<Rightarrow> expired cfg now (hist k) | Some b \<Rightarrow> tracks cfg now b (hist k))"
    by blast
qed

text \<open>Events in the order of the clock, which has run for at least a window.\<close>

definition well_timed :: "instant \<Rightarrow> rate_limit_config \<Rightarrow> limiter_event list \<Rightarrow> bool" where
  "well_timed earliest cfg evs \<longleftrightarrow>
     sorted (map event_time evs) \<and>
     list_all (\<lambda>ev. earliest + int (max (window cfg) (burst_window cfg)) \<le> event_time ev) evs"

definition sane_windows :: "rate_limit_config \<Rightarrow> bool" where
  "sane_windows cfg \<longleftrightarrow> 0 < window cfg \<and> 0 < burst_window cfg \<and> burst_window cfg \<le> window cfg * 2"

lemma limiter_run_spec:
  assumes "well_timed earliest cfg evs" "sane_windows cfg" "simulates cfg T m hist"
    "list_all (\<lambda>ev. T \<le> event_time ev) evs"
  shows "limiter_run earliest cfg evs m = spec_run cfg evs hist"
  using assms(1,3,4)
proof (induction evs arbitrary: T m hist)
  case Nil
  then show ?case by simp
next
  case (Cons ev evs)
  have w: "0 < window cfg" "0 < burst_window cfg" "burst_window cfg \<le> window cfg * 2"
    using assms(2) by (simp_all add: sane_windows_def)
  have timed: "well_timed earliest cfg evs" "list_all (\<lambda>e. event_time ev \<le> event_time e) evs"
    and early: "earliest + int (window cfg) \<le> event_time ev" "earliest + int (burst_window cfg) \<le> event_time ev"
    using Cons.prems(1) by (auto simp: well_timed_def list_all_iff)
  have sim: "simulates cfg (event_time ev) m hist"
    using simulates_later [OF Cons.prems(2)] Cons.prems(3) by simp
  show ?case
  proof (cases ev)
    case (Request now q)
    obtain d m' where r: "check_request earliest cfg now q m = (d, m')" by (cases "check_request earliest cfg now q m")
    note step = request_step [OF _ _ _ w(1,2) r, of hist]
    have "d_allowed d \<longleftrightarrow> window_allows cfg now q (hist (q_key q))"
      "simulates cfg now m' (if d_allowed d then hist(q_key q := hist (q_key q) @ [now]) else hist)"
      using step sim early Request by simp_all
    then show ?thesis using Cons.IH [OF timed(1)] timed(2) r Request by (simp add: Let_def)
  next
    case (Sweep now)
    then have "simulates cfg now (evict cfg now m) hist" using sweep_step [OF _ w(3)] sim by simp
    then show ?thesis using Cons.IH [OF timed(1)] timed(2) Sweep by simp
  qed
qed

lemma simulates_initial: "simulates cfg T (\<lambda>_. None) (\<lambda>_. [])"
  by (simp add: simulates_def expired_def)

lemma limiter_from_start:
  assumes "well_timed earliest cfg evs" "sane_windows cfg"
  shows "limiter_run earliest cfg evs (\<lambda>_. None) = spec_run cfg evs (\<lambda>_. [])"
proof (cases evs)
  case (Cons ev evs')
  have "list_all (\<lambda>e. event_time ev \<le> event_time e) evs"
    using assms(1) by (auto simp: well_timed_def list_all_iff Cons)
  then show ?thesis by (rule limiter_run_spec [OF assms simulates_initial])
qed simp


definition demo_limits :: rate_limit_config where
  "demo_limits = config_from_env (\<lambda>_. None)"

lemma demo_sane [simp]: "sane_windows demo_limits"
  by (simp add: sane_windows_def demo_limits_def config_from_env_def secs_def env_u64_def
      DEFAULT_WINDOW_SECONDS_def BURST_WINDOW_SECONDS_def)

lemma demo_windows: "window demo_limits = secs 60" "burst_window demo_limits = secs 60"
  by (simp_all add: demo_limits_def config_from_env_def env_u64_def DEFAULT_WINDOW_SECONDS_def BURST_WINDOW_SECONDS_def)

definition at_secs :: "nat \<Rightarrow> instant" where
  "at_secs n = int (secs n)"

definition demo_events :: "limiter_event list" where
  "demo_events = (let q = \<lparr>q_limit = 2, q_burst = 5, q_key = ''k''\<rparr> in
     [Request (at_secs 100) q, Request (at_secs 110) q, Request (at_secs 120) q, Sweep (at_secs 150),
      Request (at_secs 165) q])"

lemma demo_timed: "well_timed 0 demo_limits demo_events"
  by (simp add: well_timed_def demo_events_def demo_windows at_secs_def secs_def Let_def)


section \<open>How many requests a window admits\<close>

fun admitted :: "string \<Rightarrow> limiter_event list \<Rightarrow> bool list \<Rightarrow> instant list" where
  "admitted k (Request now q # evs) (a # as) = (if a \<and> q_key q = k then [now] else []) @ admitted k evs as"
| "admitted k (Sweep now # evs) as = admitted k evs as"
| "admitted k _ _ = []"

text \<open>The number of instants of \<open>ts\<close> in the window of length \<open>w\<close> that ends at \<open>t\<close>.\<close>

definition count_in :: "duration \<Rightarrow> instant \<Rightarrow> instant list \<Rightarrow> nat" where
  "count_in w t ts = length (filter (\<lambda>x. t - int w < x \<and> x \<le> t) ts)"

lemma count_in_snoc:
  assumes "\<And>t. count_in w t hist \<le> n" "in_window w now hist < n" "list_all (\<lambda>t. t \<le> now) hist"
  shows "count_in w t (hist @ [now]) \<le> n"
proof (cases "t - int w < now \<and> now \<le> t")
  case False
  then show ?thesis using assms(1) [of t] by (auto simp: count_in_def)
next
  case True
  have "count_in w t hist \<le> in_window w now hist"
  proof -
    have "filter (\<lambda>x. t - int w < x \<and> x \<le> t) hist =
        filter (\<lambda>x. t - int w < x \<and> x \<le> t) (filter (\<lambda>x. now - int w < x) hist)"
      unfolding filter_filter using True by (intro filter_cong) auto
    then have "count_in w t hist = length (filter (\<lambda>x. t - int w < x \<and> x \<le> t) (filter (\<lambda>x. now - int w < x) hist))"
      by (simp only: count_in_def)
    also have "\<dots> \<le> in_window w now hist" unfolding in_window_def by (rule length_filter_le)
    finally show ?thesis .
  qed
  with assms(2) True show ?thesis by (simp add: count_in_def)
qed

lemma spec_run_bounded:
  assumes "sorted (map event_time evs)" "list_all (\<lambda>t. list_all (\<lambda>ev. t \<le> event_time ev) evs) (hist k)"
    "\<And>t. count_in w t (hist k) \<le> n"
    "\<And>now q h. Request now q \<in> set evs \<Longrightarrow> q_key q = k \<Longrightarrow> window_allows cfg now q h \<Longrightarrow> in_window w now h < n"
  shows "count_in w t (hist k @ admitted k evs (spec_run cfg evs hist)) \<le> n"
  using assms
proof (induction evs arbitrary: hist)
  case Nil
  then show ?case by simp
next
  case (Cons ev evs)
  show ?case
  proof (cases ev)
    case (Sweep now)
    have "count_in w t (hist k @ admitted k evs (spec_run cfg evs hist)) \<le> n"
    proof (rule Cons.IH)
      show "sorted (map event_time evs)" using Cons.prems(1) by simp
      show "list_all (\<lambda>t. list_all (\<lambda>ev. t \<le> event_time ev) evs) (hist k)"
        using Cons.prems(2) by (auto simp: list_all_iff)
      show "count_in w t (hist k) \<le> n" for t by (rule Cons.prems(3))
      show "in_window w now' h < n" if "Request now' q' \<in> set evs" "q_key q' = k" "window_allows cfg now' q' h"
        for now' q' h
        using Cons.prems(4) [of now' q' h] that by simp
    qed
    then show ?thesis by (simp add: Sweep)
  next
    case (Request now q)
    let ?ok = "window_allows cfg now q (hist (q_key q))"
    let ?h = "if ?ok then hist(q_key q := hist (q_key q) @ [now]) else hist"
    have later: "list_all (\<lambda>ev. now \<le> event_time ev) evs"
      using Cons.prems(1) Request by (auto simp: list_all_iff)
    have before: "list_all (\<lambda>t. t \<le> now) (hist k)" "list_all (\<lambda>t. list_all (\<lambda>ev. t \<le> event_time ev) evs) (hist k)"
      using Cons.prems(2) Request by (auto simp: list_all_iff)
    have hk: "?h k = hist k @ (if ?ok \<and> q_key q = k then [now] else [])" by auto
    have bound: "count_in w t (?h k) \<le> n" for t
    proof (cases "?ok \<and> q_key q = k")
      case True
      then have "in_window w now (hist k) < n" using Cons.prems(4) [of now q "hist k"] Request by auto
      moreover have "?h k = hist k @ [now]" using True by auto
      ultimately show ?thesis using count_in_snoc [OF Cons.prems(3) _ before(1)] by simp
    next
      case False
      then show ?thesis unfolding hk using Cons.prems(3) by auto
    qed
    have "count_in w t (?h k @ admitted k evs (spec_run cfg evs ?h)) \<le> n"
    proof (rule Cons.IH)
      show "sorted (map event_time evs)" using Cons.prems(1) by simp
      show "list_all (\<lambda>t. list_all (\<lambda>ev. t \<le> event_time ev) evs) (?h k)"
        unfolding hk using before(2) later by auto
      show "count_in w t (?h k) \<le> n" for t by (rule bound)
      show "in_window w now' h < n" if "Request now' q' \<in> set evs" "q_key q' = k" "window_allows cfg now' q' h"
        for now' q' h
        using Cons.prems(4) [of now' q' h] that by simp
    qed
    then show ?thesis unfolding hk by (simp add: Request Let_def)
  qed
qed

lemma admitted_bounded:
  assumes "well_timed earliest cfg evs" "sane_windows cfg"
    and "\<And>now q h. Request now q \<in> set evs \<Longrightarrow> q_key q = k \<Longrightarrow> window_allows cfg now q h \<Longrightarrow> in_window w now h < n"
  shows "count_in w t (admitted k evs (limiter_run earliest cfg evs (\<lambda>_. None))) \<le> n"
proof -
  have s: "sorted (map event_time evs)" using assms(1) by (simp add: well_timed_def)
  show ?thesis
    using spec_run_bounded [OF s, of "\<lambda>_. []" k w n cfg t] assms(3)
    unfolding limiter_from_start [OF assms(1,2)] by (simp add: count_in_def)
qed

text \<open>
  No key gets more than its quota. When every request of a key has a limit of at most
  \<open>limit\<close> and a burst limit of at most \<open>burst\<close>, every interval of the length of the window
  holds at most \<open>limit\<close> admitted requests of the key, and every interval of the length of the
  burst window at most \<open>burst\<close>, wherever the interval lies and whatever the other keys do.
\<close>

theorem quota_respected:
  assumes "well_timed earliest cfg evs" "sane_windows cfg"
    and "\<And>now q. Request now q \<in> set evs \<Longrightarrow> q_key q = k \<Longrightarrow> q_limit q \<le> limit \<and> q_burst q \<le> burst"
  shows "count_in (window cfg) t (admitted k evs (limiter_run earliest cfg evs (\<lambda>_. None))) \<le> unat limit \<and>
    count_in (burst_window cfg) t (admitted k evs (limiter_run earliest cfg evs (\<lambda>_. None))) \<le> unat burst"
proof -
  have "in_window (window cfg) now h < unat limit \<and> in_window (burst_window cfg) now h < unat burst"
    if "Request now q \<in> set evs" "q_key q = k" "window_allows cfg now q h" for now q h
    using assms(3) [OF that(1,2)] that(3) by (auto simp: window_allows_def word_le_nat_alt)
  then show ?thesis using admitted_bounded [OF assms(1,2)] by simp
qed

theorem quota_respected_witness:
  "count_in (secs 60) (at_secs 120) (admitted ''k'' demo_events (limiter_run 0 demo_limits demo_events (\<lambda>_. None))) \<le> 2"
proof -
  have "q_limit q \<le> 2 \<and> q_burst q \<le> 5" if "Request now q \<in> set demo_events" for now q
    using that by (auto simp: demo_events_def Let_def)
  then show ?thesis
    using quota_respected [OF demo_timed demo_sane, of "''k''" 2 5 "at_secs 120"] by (simp add: demo_windows)
qed

section \<open>The burst limit\<close>

lemma burst_quotient:
  fixes h :: rat
  assumes "0 \<le> h" "h < 2 ^ 32"
  shows "0 \<le> f64_div (f64_mul h (round_f64 (12 / 10))) 60"
    "f64_div (f64_mul h (round_f64 (12 / 10))) 60 \<le> h / 50 + 1"
proof -
  have c: "round_f64 (12 / 10) = 5404319552844595 / 4503599627370496" by code_simp
  let ?c = "5404319552844595 / 4503599627370496 :: rat"
  let ?m = "f64_mul h ?c" and ?e = "1 + 1 / 2 ^ 53 :: rat"
  have "0 \<le> h * ?c" using assms(1) by simp
  note m = round_f64_bounds [OF this, folded f64_mul_def]
  have "0 \<le> ?m / 60" using m(1) by simp
  note q = round_f64_bounds [OF this, folded f64_div_def]
  show "0 \<le> f64_div (f64_mul h (round_f64 (12 / 10))) 60" unfolding c by (rule q(1))
  note q(2)
  also have "?m / 60 * ?e \<le> (h * ?c * ?e) / 60 * ?e"
    using m(2) by (intro mult_right_mono divide_right_mono) simp_all
  also have "\<dots> \<le> h / 50 + 1" using assms by (simp add: field_simps)
  finally show "f64_div (f64_mul h (round_f64 (12 / 10))) 60 \<le> h / 50 + 1" unfolding c .
qed

lemma burst_limit_le: "unat (burst_limit_for_limit l) \<le> unat l div 50 + 2"
proof -
  let ?h = "of_int (uint l) :: rat" and ?x = "f64_div (f64_mul (of_int (uint l)) (round_f64 (12 / 10))) 60 :: rat"
  have hn: "?h = of_nat (unat l)" by (simp only: uint_nat of_int_of_nat_eq)
  have h: "0 \<le> ?h" "?h < 2 ^ 32"
  proof -
    have "unat l < 2 ^ 32" using unat_lt_exp [of l] by simp
    then have "(of_nat (unat l) :: rat) < of_nat (2 ^ 32)" by (simp only: of_nat_less_iff)
    then show "?h < 2 ^ 32" unfolding hn by simp
    show "0 \<le> ?h" unfolding hn by (rule of_nat_0_le_iff)
  qed
  have "?x \<le> ?h / 50 + 1" by (rule burst_quotient(2) [OF h])
  moreover have "?h / 50 \<le> of_nat (unat l div 50 + 1)"
  proof -
    have "unat l \<le> 50 * (unat l div 50 + 1)" by presburger
    then have "(of_nat (unat l) :: rat) \<le> of_nat (50 * (unat l div 50 + 1))" by (simp only: of_nat_le_iff)
    then show ?thesis unfolding hn by simp
  qed
  ultimately have "?x \<le> of_int (int (unat l div 50 + 2))" by simp
  then have "ceiling ?x \<le> int (unat l div 50 + 2)" by (simp only: ceiling_le_iff)
  then have le: "nat (ceiling ?x) \<le> unat l div 50 + 2" by (simp only: nat_le_iff)
  have pos: "0 \<le> ceiling ?x" using burst_quotient(1) [OF h] by linarith
  have "unat (of_int n :: u32) \<le> nat n" if "0 \<le> n" for n
  proof -
    have "uint (of_int n :: u32) \<le> n" using that by (simp add: uint_word_of_int zmod_le_nonneg_dividend)
    from nat_mono [OF this] show ?thesis by (simp only: unat_eq_nat_uint)
  qed
  from order_trans [OF this [OF pos] le]
  have "unat (of_int (ceiling ?x) :: u32) \<le> unat l div 50 + 2" .
  then show ?thesis by (simp add: burst_limit_for_limit_def max_def)
qed

lemma count_in_mono: "w \<le> w' \<Longrightarrow> count_in w t ts \<le> count_in w' t ts"
proof -
  assume w: "w \<le> w'"
  have "filter (\<lambda>x. t - int w < x \<and> x \<le> t) ts =
      filter (\<lambda>x. t - int w < x \<and> x \<le> t) (filter (\<lambda>x. t - int w' < x \<and> x \<le> t) ts)"
    unfolding filter_filter using w by (intro filter_cong) auto
  then have "count_in w t ts = length (filter (\<lambda>x. t - int w < x \<and> x \<le> t) (filter (\<lambda>x. t - int w' < x \<and> x \<le> t) ts))"
    by (simp only: count_in_def)
  also have "\<dots> \<le> count_in w' t ts" unfolding count_in_def by (rule length_filter_le)
  finally show ?thesis .
qed

text \<open>
  The configured limit cannot be used. The burst limit is computed as if the limit were
  per hour (a sixtieth of it, and a fifth more) and applies to a window of one minute; the limit
  itself is for a window that is one minute by default. So with a window no longer than the
  burst window, a key whose limit is \<open>limit\<close> gets at most \<open>limit div 50 + 2\<close> requests through in
  any window, not \<open>limit\<close>.
\<close>

theorem burst_limit_caps_quota:
  assumes "well_timed earliest cfg evs" "sane_windows cfg" "window cfg \<le> burst_window cfg"
    and "\<And>now q. Request now q \<in> set evs \<Longrightarrow> q_key q = k \<Longrightarrow>
      q_limit q \<le> limit \<and> q_burst q = burst_limit_for_limit (q_limit q)"
  shows "count_in (window cfg) t (admitted k evs (limiter_run earliest cfg evs (\<lambda>_. None))) \<le> unat limit div 50 + 2"
proof -
  have "in_window (burst_window cfg) now h < unat limit div 50 + 2"
    if "Request now q \<in> set evs" "q_key q = k" "window_allows cfg now q h" for now q h
  proof -
    have "in_window (burst_window cfg) now h < unat (burst_limit_for_limit (q_limit q))"
      using assms(4) [OF that(1,2)] that(3) by (simp add: window_allows_def)
    also have "\<dots> \<le> unat (q_limit q) div 50 + 2" by (rule burst_limit_le)
    also have "\<dots> \<le> unat limit div 50 + 2"
      using assms(4) [OF that(1,2)] by (simp add: word_le_nat_alt div_le_mono)
    finally show ?thesis .
  qed
  then have "count_in (burst_window cfg) t (admitted k evs (limiter_run earliest cfg evs (\<lambda>_. None))) \<le> unat limit div 50 + 2"
    by (rule admitted_bounded [OF assms(1,2)])
  with count_in_mono [OF assms(3)] show ?thesis by (rule order_trans)
qed

text \<open>The default quotas and what is left of them: anonymous reads, writes, searches and publishing.\<close>

lemma default_bursts:
  "map burst_limit_for_limit
     [DEFAULT_ANON_LIMIT, DEFAULT_WRITE_ANON_LIMIT, DEFAULT_SEARCH_ANON_LIMIT, DEFAULT_PUBLISH_ANON_LIMIT] =
   [20, 2, 2, 1]"
  by code_simp

definition publish_twice :: "limiter_event list" where
  "publish_twice = map (\<lambda>n. Request (at_secs n) (quota_of DEFAULT_PUBLISH_ANON_LIMIT ''publish:anon:1.2.3.4'')) [100, 110]"

theorem burst_limit_caps_quota_witness:
  "count_in (secs 60) (at_secs 110) (admitted ''publish:anon:1.2.3.4'' publish_twice
     (limiter_run 0 demo_limits publish_twice (\<lambda>_. None))) \<le> 2"
proof -
  have "well_timed 0 demo_limits publish_twice"
    by (simp add: well_timed_def publish_twice_def demo_windows at_secs_def secs_def)
  moreover have "q_limit q \<le> 5 \<and> q_burst q = burst_limit_for_limit (q_limit q)"
    if "Request now q \<in> set publish_twice" for now q
    using that by (auto simp: publish_twice_def quota_of_def DEFAULT_PUBLISH_ANON_LIMIT_def)
  ultimately show ?thesis
    using burst_limit_caps_quota [of 0 demo_limits publish_twice "''publish:anon:1.2.3.4''" 5 "at_secs 110"]
    by (simp add: demo_windows)
qed

section \<open>Keys\<close>

text \<open>The prefixes of the keys of requests with a token; no two of them can give the same key.\<close>

definition token_prefix :: "string \<Rightarrow> string \<Rightarrow> string" where
  "token_prefix m path =
     (if is_publish_endpoint m path then ''publish:auth:''
      else if is_dependency_scan_endpoint m path then ''rescan:auth:''
      else if is_search_endpoint m path then ''search:auth:''
      else if is_write_method m then ''auth:write:'' else ''auth:read:'')"

lemma select_with_token:
  assumes "extract_auth_token r = Some token" "\<not> is_contract_abi_endpoint (rq_method r) (rq_path r)"
  shows "q_key (select_limit_and_key parse_ip cfg r) = token_prefix (rq_method r) (rq_path r) @ token"
    "q_burst (select_limit_and_key parse_ip cfg r) = burst_limit_for_limit (q_limit (select_limit_and_key parse_ip cfg r))"
  using assms by (simp_all add: select_limit_and_key_def token_prefix_def quota_of_def Let_def)

lemma token_key_inj: "token_prefix m p @ t = token_prefix m' p' @ t' \<Longrightarrow> t = t'"
  by (auto simp: token_prefix_def split: if_splits)

lemma burst_limit_pos: "0 < burst_limit_for_limit l"
proof -
  have "1 \<le> burst_limit_for_limit l" by (simp add: burst_limit_for_limit_def)
  moreover have "(0 :: u32) < 1" by simp
  ultimately show ?thesis by (rule less_le_trans [rotated])
qed

text \<open>The answers of the middleware to requests at given times; \<open>None\<close> is a pass without a check.\<close>

fun middleware_run ::
  "instant \<Rightarrow> (string \<Rightarrow> string option) \<Rightarrow> rate_limit_config \<Rightarrow> (instant \<times> request) list \<Rightarrow> buckets \<Rightarrow> bool list" where
  "middleware_run earliest parse_ip cfg [] m = []"
| "middleware_run earliest parse_ip cfg ((now, r) # rs) m =
     (let (d, m') = rate_limit_middleware earliest parse_ip cfg now r m
      in (case d of None \<Rightarrow> True | Some d \<Rightarrow> d_allowed d) # middleware_run earliest parse_ip cfg rs m')"

lemma fresh_key_allowed:
  assumes "m (q_key q) = None" "0 < q_limit q" "0 < q_burst q"
  shows "d_allowed (fst (check_request earliest cfg now q m))"
  using assms
  by (simp add: check_request_def check_bucket_def empty_bucket_def unwrap_or_def Let_def word_less_nat_alt
      word_le_nat_alt split: prod.split)

lemma middleware_keys:
  assumes "rate_limit_middleware earliest parse_ip cfg now r m = (d, m')" "k \<noteq> q_key (select_limit_and_key parse_ip cfg r)"
  shows "m' k = m k"
  using assms by (auto simp: rate_limit_middleware_def check_request_def Let_def split: if_splits prod.splits)

text \<open>
  The quota is no protection against a client that makes up tokens. The limiter takes the
  text of the \<open>X-Api-Key\<close> or \<open>Authorization\<close> header as the identity, without asking whether it
  is a valid credential: a client that sends another token with each request is never limited,
  on the publish endpoint too, however many requests it sends and from whatever address.
\<close>

theorem fresh_tokens_never_limited:
  assumes "distinct (map (extract_auth_token \<circ> snd) rs)"
    and "list_all (\<lambda>(now, r). extract_auth_token r \<noteq> None \<and> \<not> is_contract_abi_endpoint (rq_method r) (rq_path r) \<and>
      0 < q_limit (select_limit_and_key parse_ip cfg r)) rs"
  shows "middleware_run earliest parse_ip cfg rs (\<lambda>_. None) = replicate (length rs) True"
proof -
  have "middleware_run earliest parse_ip cfg rs m = replicate (length rs) True"
    if "list_all (\<lambda>(now, r). m (q_key (select_limit_and_key parse_ip cfg r)) = None) rs" for m
    using that assms
  proof (induction rs arbitrary: m)
    case Nil
    then show ?case by simp
  next
    case (Cons nr rs)
    obtain now r where nr: "nr = (now, r)" by (cases nr)
    let ?q = "select_limit_and_key parse_ip cfg r"
    obtain token where token: "extract_auth_token r = Some token" using Cons.prems(3) nr by auto
    have abi: "\<not> is_contract_abi_endpoint (rq_method r) (rq_path r)" using Cons.prems(3) nr by simp
    note key = select_with_token [OF token abi, of parse_ip cfg]
    obtain d m' where step: "rate_limit_middleware earliest parse_ip cfg now r m = (d, m')"
      by (cases "rate_limit_middleware earliest parse_ip cfg now r m")
    have "d_allowed (fst (check_request earliest cfg now ?q m))"
      using Cons.prems(1,3) nr key(2) burst_limit_pos by (intro fresh_key_allowed) auto
    then have pass: "case d of None \<Rightarrow> True | Some d \<Rightarrow> d_allowed d"
      using step by (auto simp: rate_limit_middleware_def split: if_splits prod.splits)
    have "list_all (\<lambda>(now, r). m' (q_key (select_limit_and_key parse_ip cfg r)) = None) rs"
      unfolding list_all_iff
    proof (rule ballI, clarify)
      fix now' r'
      assume in_rs: "(now', r') \<in> set rs"
      obtain token' where token': "extract_auth_token r' = Some token'"
        "\<not> is_contract_abi_endpoint (rq_method r') (rq_path r')"
        using Cons.prems(3) in_rs by (auto simp: list_all_iff)
      have "(extract_auth_token \<circ> snd) (now', r') \<in> set (map (extract_auth_token \<circ> snd) rs)"
        using in_rs by (simp only: set_map) (rule imageI)
      then have "token' \<noteq> token" using Cons.prems(2) nr token token'(1) by auto
      then have "q_key (select_limit_and_key parse_ip cfg r') \<noteq> q_key ?q"
        using key(1) select_with_token(1) [OF token', of parse_ip cfg] token_key_inj by metis
      moreover have "m (q_key (select_limit_and_key parse_ip cfg r')) = None"
        using Cons.prems(1) in_rs by (auto simp: list_all_iff)
      ultimately show "m' (q_key (select_limit_and_key parse_ip cfg r')) = None"
        using middleware_keys [OF step] by metis
    qed
    from Cons.IH [OF this] Cons.prems(2,3)
    have "middleware_run earliest parse_ip cfg rs m' = replicate (length rs) True" by simp
    with pass show ?case by (simp add: nr step)
  qed
  then show ?thesis by (simp add: list_all_iff split_beta)
qed

definition demo_request :: "string \<Rightarrow> string \<Rightarrow> request" where
  "demo_request m path =
     \<lparr>rq_method = m, rq_path = path, rq_query = None, x_forwarded_for = None, x_real_ip = None,
      connect_ip = Some ''1.2.3.4'', x_api_plan = None, x_api_key = None, authorization = None\<rparr>"

definition made_up :: "nat \<Rightarrow> instant \<times> request" where
  "made_up n = (at_secs 100, (demo_request ''POST'' ''/api/contracts'')\<lparr>x_api_key := Some (dec n)\<rparr>)"

theorem fresh_tokens_never_limited_witness:
  "middleware_run 0 Some demo_limits (map made_up [1, 2, 3]) (\<lambda>_. None) = [True, True, True]"
proof -
  let ?r = "\<lambda>n. (demo_request ''POST'' ''/api/contracts'')\<lparr>x_api_key := Some (dec n)\<rparr>"
  have "extract_auth_token (?r 1) = Some ''1''" "extract_auth_token (?r 2) = Some ''2''"
    "extract_auth_token (?r 3) = Some ''3''" by code_simp+
  then have tok: "map (extract_auth_token \<circ> snd) (map made_up [1, 2, 3]) = [Some ''1'', Some ''2'', Some ''3'']"
    by (simp add: made_up_def)
  have "\<not> is_contract_abi_endpoint (rq_method r) (rq_path r) \<and> 0 < q_limit (select_limit_and_key Some demo_limits r)"
    if "r = snd (made_up n)" for r n
    by (simp add: that made_up_def demo_request_def is_contract_abi_endpoint_def select_limit_and_key_def
        is_publish_endpoint_def quota_of_def demo_limits_def config_from_env_def env_u32_def
        DEFAULT_PUBLISH_AUTH_LIMIT_def DEFAULT_PUBLISH_ANON_LIMIT_def Let_def split: option.split)
  with tok have "list_all (\<lambda>(now, r). extract_auth_token r \<noteq> None \<and> \<not> is_contract_abi_endpoint (rq_method r) (rq_path r) \<and>
      0 < q_limit (select_limit_and_key Some demo_limits r)) (map made_up [1, 2, 3])"
    by (simp add: split_beta)
  from fresh_tokens_never_limited [OF _ this, of 0] tok show ?thesis
    by (simp add: numeral_3_eq_3)
qed

lemma scale_limit_bounds:
  "1 \<le> scale_limit_by_page_size base page_size \<and> scale_limit_by_page_size base page_size \<le> max base 1"
  by (auto simp: scale_limit_by_page_size_def word_le_nat_alt max_def unat_div div_le_dividend
      intro: order_trans [OF div_le_dividend])

lemma whitelisted_iff_identity:
  "is_whitelisted parse_ip cfg r \<longleftrightarrow> bypass_identity parse_ip cfg r \<noteq> None"
  by (auto simp: is_whitelisted_def bypass_identity_def and_then_def Let_def split: option.splits)

section \<open>The quota endpoint\<close>

record quota_snapshot_record =
  qs_tier :: string
  hourly_limit :: u32
  hourly_used :: nat
  hourly_remaining :: nat
  burst_limit :: u32
  burst_used :: nat
  burst_remaining :: nat

definition quota_snapshot ::
  "instant \<Rightarrow> rate_limit_config \<Rightarrow> instant \<Rightarrow> string \<Rightarrow> api_tier \<Rightarrow> buckets \<Rightarrow> quota_snapshot_record" where
  "quota_snapshot earliest cfg now client_key tier m =
     (let limit = hourly_limit_for_tier cfg tier; burst = burst_limit_for_tier cfg tier in
      case m client_key of
        Some b \<Rightarrow>
          (let cut = unwrap_or (checked_sub earliest now (window cfg)) now;
               bcut = unwrap_or (checked_sub earliest now (burst_window cfg)) now;
               used = length (filter (\<lambda>t. cut < t) (timestamps b));
               bused = length (filter (\<lambda>t. bcut < t) (burst_timestamps b))
           in \<lparr>qs_tier = tier_str tier, hourly_limit = limit, hourly_used = used,
               hourly_remaining = unat limit - used, burst_limit = burst, burst_used = bused,
               burst_remaining = unat burst - bused\<rparr>)
      | None \<Rightarrow>
          \<lparr>qs_tier = tier_str tier, hourly_limit = limit, hourly_used = 0, hourly_remaining = unat limit,
           burst_limit = burst, burst_used = 0, burst_remaining = unat burst\<rparr>)"

text \<open>The key that \<open>get_quota\<close> looks up; its own parser of addresses is \<open>parse_bare\<close>.\<close>

definition quota_ip :: "(string \<Rightarrow> string option) \<Rightarrow> request \<Rightarrow> string" where
  "quota_ip parse_bare r =
     (case and_then (x_forwarded_for r) (\<lambda>raw. find_map parse_bare (map trim (split_on CHR '','' raw))) of
        Some ip \<Rightarrow> ip
      | None \<Rightarrow>
          (case and_then (x_real_ip r) parse_bare of
             Some ip \<Rightarrow> ip
           | None \<Rightarrow> unwrap_or (connect_ip r) ''unknown''))"

definition quota_client_key :: "(string \<Rightarrow> string option) \<Rightarrow> request \<Rightarrow> string" where
  "quota_client_key parse_bare r =
     (case authorization r of
        Some auth \<Rightarrow> if auth \<noteq> [] then ''auth:'' @ auth else ''anon:'' @ quota_ip parse_bare r
      | None \<Rightarrow> ''anon:'' @ quota_ip parse_bare r)"

definition get_quota ::
  "instant \<Rightarrow> (string \<Rightarrow> string option) \<Rightarrow> rate_limit_config \<Rightarrow> instant \<Rightarrow> request \<Rightarrow> buckets \<Rightarrow> quota_snapshot_record" where
  "get_quota earliest parse_bare cfg now r m =
     quota_snapshot earliest cfg now (quota_client_key parse_bare r) (extract_api_tier r) m"

fun buckets_after ::
  "instant \<Rightarrow> (string \<Rightarrow> string option) \<Rightarrow> rate_limit_config \<Rightarrow> (instant \<times> request) list \<Rightarrow> buckets \<Rightarrow> buckets" where
  "buckets_after earliest parse_ip cfg [] m = m"
| "buckets_after earliest parse_ip cfg ((now, r) # rs) m =
     buckets_after earliest parse_ip cfg rs (snd (rate_limit_middleware earliest parse_ip cfg now r m))"

text \<open>The text of an IP address begins with neither of the letters of \<open>read\<close> and \<open>write\<close>.\<close>

definition address_like :: "string \<Rightarrow> bool" where
  "address_like s \<longleftrightarrow> \<not> starts_with s ''read:'' \<and> \<not> starts_with s ''write:''"

lemma starts_with_append [simp]: "starts_with (p @ s) p"
  by (induction p) simp_all

lemma find_map_SomeD: "find_map f xs = Some y \<Longrightarrow> \<exists>x. f x = Some y"
  by (induction xs) (auto split: option.splits)

lemma quota_ip_address_like:
  assumes "\<And>s t. parse_bare s = Some t \<Longrightarrow> address_like t" "\<And>t. connect_ip r = Some t \<Longrightarrow> address_like t"
  shows "address_like (quota_ip parse_bare r)"
proof (cases "\<exists>x. parse_bare x = Some (quota_ip parse_bare r)")
  case True
  then show ?thesis using assms(1) by blast
next
  case False
  then have "and_then (x_forwarded_for r) (\<lambda>raw. find_map parse_bare (map trim (split_on CHR '','' raw))) = None"
    "and_then (x_real_ip r) parse_bare = None"
    by (auto simp: quota_ip_def and_then_def split: option.splits dest: find_map_SomeD)
  then have "quota_ip parse_bare r = unwrap_or (connect_ip r) ''unknown''"
    by (simp add: quota_ip_def)
  then show ?thesis
    using assms(2) by (cases "connect_ip r") (simp_all add: unwrap_or_def address_like_def)
qed

text \<open>The bucket keys that a request can have.\<close>

definition limiter_key :: "string \<Rightarrow> bool" where
  "limiter_key k \<longleftrightarrow>
     (\<exists>p \<in> {''abi:'', ''publish:'', ''rescan:'', ''search:'', ''auth:read:'', ''auth:write:'', ''anon:read:'', ''anon:write:''}.
        \<exists>s. k = p @ s)"

lemma select_key: "limiter_key (q_key (select_limit_and_key parse_ip cfg r))"
  by (auto simp: limiter_key_def select_limit_and_key_def quota_of_def Let_def split: option.split)

lemma quota_key_not_limiter_key:
  assumes "address_like (quota_ip parse_bare r)" "\<And>a. authorization r = Some a \<Longrightarrow> address_like a"
  shows "\<not> limiter_key (quota_client_key parse_bare r)"
proof -
  have "\<exists>p s. quota_client_key parse_bare r = p @ s \<and> (p = ''auth:'' \<or> p = ''anon:'') \<and> address_like s"
  proof (cases "\<exists>a. authorization r = Some a \<and> a \<noteq> []")
    case True
    then obtain a where a: "authorization r = Some a" "a \<noteq> []" by blast
    then have "quota_client_key parse_bare r = ''auth:'' @ a" by (simp add: quota_client_key_def)
    then show ?thesis using assms(2) [OF a(1)] by blast
  next
    case False
    then have "quota_client_key parse_bare r = ''anon:'' @ quota_ip parse_bare r"
      by (auto simp: quota_client_key_def split: option.splits)
    then show ?thesis using assms(1) by blast
  qed
  then obtain p s where k: "quota_client_key parse_bare r = p @ s" "p = ''auth:'' \<or> p = ''anon:''" "address_like s"
    by blast
  have "s \<noteq> ''read:'' @ t \<and> s \<noteq> ''write:'' @ t" for t
    using k(3) starts_with_append unfolding address_like_def by metis
  then show ?thesis using k(2) unfolding limiter_key_def k(1) by auto
qed

lemma buckets_after_keys:
  "\<not> limiter_key k \<Longrightarrow> buckets_after earliest parse_ip cfg rs m k = m k"
proof (induction rs arbitrary: m)
  case (Cons nr rs)
  obtain now r where nr: "nr = (now, r)" by (cases nr)
  obtain d m' where step: "rate_limit_middleware earliest parse_ip cfg now r m = (d, m')"
    by (cases "rate_limit_middleware earliest parse_ip cfg now r m")
  have "k \<noteq> q_key (select_limit_and_key parse_ip cfg r)" using Cons.prems select_key by metis
  from middleware_keys [OF step this] show ?case using Cons by (simp add: nr step)
qed simp

text \<open>
  \<open>GET /api/quota\<close> never sees a request. It claims to look up the key that the middleware
  uses, but leaves out the part that tells reads from writes, so whatever requests were made, by
  this client or others, it reports a usage of zero. (The two conditions say that the client's
  address and header do not themselves spell that part.)
\<close>

theorem quota_endpoint_reports_zero:
  assumes "\<And>s t. parse_bare s = Some t \<Longrightarrow> address_like t" "\<And>t. connect_ip r = Some t \<Longrightarrow> address_like t"
    and "\<And>a. authorization r = Some a \<Longrightarrow> address_like a"
  shows "hourly_used (get_quota earliest parse_bare cfg now r (buckets_after earliest parse_ip cfg rs (\<lambda>_. None))) = 0 \<and>
    burst_used (get_quota earliest parse_bare cfg now r (buckets_after earliest parse_ip cfg rs (\<lambda>_. None))) = 0"
  using buckets_after_keys [OF quota_key_not_limiter_key [OF quota_ip_address_like [OF assms(1,2)] assms(3)]]
  by (simp add: get_quota_def quota_snapshot_def Let_def)

theorem quota_endpoint_reports_zero_witness:
  "hourly_used (get_quota 0 (\<lambda>_. None) demo_limits (at_secs 101) (demo_request ''GET'' ''/api/quota'')
     (buckets_after 0 (\<lambda>_. None) demo_limits [(at_secs 100, demo_request ''GET'' ''/api/stats'')] (\<lambda>_. None))) = 0"
  by (rule conjunct1 [OF quota_endpoint_reports_zero]) (auto simp: demo_request_def address_like_def)


section \<open>The paths that should be exempt\<close>

lemma starts_with_split: "starts_with s p \<Longrightarrow> \<exists>t. s = p @ t"
  by (induction s p rule: starts_with.induct) auto

text \<open>A path of the exempt kinds is none of the endpoints with a quota of their own.\<close>

definition ordinary_path :: "string \<Rightarrow> bool" where
  "ordinary_path path \<longleftrightarrow>
     \<not> starts_with path ''/api/v1/contracts/'' \<and> \<not> starts_with path ''/api/contracts/'' \<and>
     path \<noteq> ''/api/contracts'' \<and> path \<noteq> ''/contracts''"

lemma exempt_path_ordinary: "is_exempt_path path \<Longrightarrow> ordinary_path path"
proof -
  assume "is_exempt_path path"
  then consider t where "path = ''/health'' @ t" | "path = ''/metrics''" | t where "path = ''/api/admin/'' @ t"
    using starts_with_split unfolding is_exempt_path_def by blast
  then show ?thesis by cases (simp_all add: ordinary_path_def)
qed

lemma ordinary_path_no_endpoint:
  assumes "ordinary_path path"
  shows "is_contract_abi_endpoint m path = False" "is_publish_endpoint m path = False"
    "is_dependency_scan_endpoint m path = False" "is_search_endpoint m path = False"
    "contracts_page_size_rate_limit m path q = None"
proof -
  have no: "\<not> starts_with path ''/api/v1/contracts/''" "\<not> starts_with path ''/api/contracts/''"
    "path \<noteq> ''/api/contracts''" "path \<noteq> ''/contracts''"
    by (rule assms [unfolded ordinary_path_def, THEN conjunct1]
        assms [unfolded ordinary_path_def, THEN conjunct2, THEN conjunct1]
        assms [unfolded ordinary_path_def, THEN conjunct2, THEN conjunct2, THEN conjunct1]
        assms [unfolded ordinary_path_def, THEN conjunct2, THEN conjunct2, THEN conjunct2])+
  have lit: "starts_with ''/api/v1/contracts/search'' ''/api/v1/contracts/''"
    "starts_with ''/api/contracts/suggestions'' ''/api/contracts/''"
    "starts_with ''/api/v1/contracts/trending'' ''/api/v1/contracts/''" by simp_all
  have "path \<noteq> ''/api/v1/contracts/search''" "path \<noteq> ''/api/contracts/suggestions''"
    "path \<noteq> ''/api/v1/contracts/trending''"
    using no(1,2) lit by (rule_tac notI, simp only: simp_thms)+
  note no = this no
  show "is_contract_abi_endpoint m path = False" by (simp only: is_contract_abi_endpoint_def no simp_thms if_True)
  show "is_publish_endpoint m path = False" by (simp only: is_publish_endpoint_def no simp_thms if_True)
  show "is_dependency_scan_endpoint m path = False" by (simp only: is_dependency_scan_endpoint_def no simp_thms if_True)
  show "is_search_endpoint m path = False" by (simp only: is_search_endpoint_def no simp_thms if_True)
  show "contracts_page_size_rate_limit m path q = None" by (simp only: contracts_page_size_rate_limit_def no simp_thms if_True)
qed

lemma header_fields_rq_path [simp]:
  "extract_client_ip parse_ip (r\<lparr>rq_path := p\<rparr>) = extract_client_ip parse_ip r"
  "extract_auth_token (r\<lparr>rq_path := p\<rparr>) = extract_auth_token r"
  "extract_api_tier (r\<lparr>rq_path := p\<rparr>) = extract_api_tier r"
  by (simp_all add: extract_client_ip_def extract_auth_token_def extract_api_tier_def split: option.split)

lemma ordinary_path_same_quota:
  "ordinary_path (rq_path r) \<Longrightarrow> ordinary_path p \<Longrightarrow>
   select_limit_and_key parse_ip cfg (r\<lparr>rq_path := p\<rparr>) = select_limit_and_key parse_ip cfg r"
  by (simp add: select_limit_and_key_def Let_def ordinary_path_no_endpoint split: option.split)

text \<open>
  No path is exempt from the limiter. The module promises that the health probes, the metrics
  scrape and the admin paths bypass it, and has the predicate for them, but the middleware does
  not consult it: a request for such a path is charged to the bucket and limited by the quota
  of any other path that is no special endpoint.
\<close>

theorem exempt_paths_limited:
  assumes "is_exempt_path (rq_path r)"
  shows "rate_limit_middleware earliest parse_ip cfg now r m =
    rate_limit_middleware earliest parse_ip cfg now (r\<lparr>rq_path := ''/api/stats''\<rparr>) m"
proof -
  have "ordinary_path ''/api/stats''" by (simp add: ordinary_path_def)
  from ordinary_path_same_quota [OF exempt_path_ordinary [OF assms] this] show ?thesis
    by (simp add: rate_limit_middleware_def is_whitelisted_def)
qed

text \<open>The probes of a second client of one address are refused when the quota is spent on another path.\<close>

theorem exempt_paths_limited_witness:
  "rate_limit_middleware 0 Some (demo_limits\<lparr>anonymous_limit := 1\<rparr>) (at_secs 101) (demo_request ''GET'' ''/health'')
     (\<lambda>_. Some \<lparr>timestamps = [at_secs 100], burst_timestamps = [at_secs 100]\<rparr>) =
   rate_limit_middleware 0 Some (demo_limits\<lparr>anonymous_limit := 1\<rparr>) (at_secs 101) (demo_request ''GET'' ''/api/stats'')
     (\<lambda>_. Some \<lparr>timestamps = [at_secs 100], burst_timestamps = [at_secs 100]\<rparr>) \<and>
   \<not> d_allowed (fst (check_bucket 0 demo_limits (at_secs 101) 1 5
       \<lparr>timestamps = [at_secs 100], burst_timestamps = [at_secs 100]\<rparr>))"
proof -
  have "is_exempt_path (rq_path (demo_request ''GET'' ''/health''))"
    by (simp add: demo_request_def is_exempt_path_def)
  from exempt_paths_limited [OF this, of 0 Some "demo_limits\<lparr>anonymous_limit := 1\<rparr>" "at_secs 101"
      "\<lambda>_. Some \<lparr>timestamps = [at_secs 100], burst_timestamps = [at_secs 100]\<rparr>"]
  have "rate_limit_middleware 0 Some (demo_limits\<lparr>anonymous_limit := 1\<rparr>) (at_secs 101) (demo_request ''GET'' ''/health'')
     (\<lambda>_. Some \<lparr>timestamps = [at_secs 100], burst_timestamps = [at_secs 100]\<rparr>) =
   rate_limit_middleware 0 Some (demo_limits\<lparr>anonymous_limit := 1\<rparr>) (at_secs 101) (demo_request ''GET'' ''/api/stats'')
     (\<lambda>_. Some \<lparr>timestamps = [at_secs 100], burst_timestamps = [at_secs 100]\<rparr>)"
    by (simp add: demo_request_def)
  then show ?thesis
    by (simp add: check_bucket_def checked_sub_def demo_windows at_secs_def secs_def unwrap_or_def Let_def)
qed

end
