(* ===== verification/Bypass_Spike.thy ===== *)
theory Bypass_Spike
  imports Prelude
begin

text \<open>
  The spike detector of \<open>backend/api/src/rate_limit.rs\<close>: \<open>record_bypass_and_check_spike\<close>, which
  every request of a trusted client runs. It keeps two atomic integers and no lock, so the model
  has its atomic accesses as steps of a thread, and a schedule says which thread moves next and
  what the clock reads then. All accesses are to single variables, and the schedule interleaves
  them one at a time.
\<close>

definition BYPASS_SPIKE_WINDOW_MS :: u64 where "BYPASS_SPIKE_WINDOW_MS = 60 * 1000"
definition DEFAULT_BYPASS_SPIKE_THRESHOLD :: u64 where "DEFAULT_BYPASS_SPIKE_THRESHOLD = 100"

record spike =
  bypass_window_start :: u64
  bypass_window_count :: u64

text \<open>
  Where a thread is: at the entry, with the clock and the loaded start, after its exchange, before
  the \<open>fetch_add\<close>, and returned, having warned or not.
\<close>

datatype bypass_thread = Entered | Loaded u64 u64 | Swapped | Counting | Returned bool

fun thread_step :: "u64 \<Rightarrow> u64 \<Rightarrow> spike \<Rightarrow> bypass_thread \<Rightarrow> spike \<times> bypass_thread" where
  "thread_step threshold now s Entered = (s, Loaded now (bypass_window_start s))"
| "thread_step threshold now s (Loaded now_ms start) =
     (if BYPASS_SPIKE_WINDOW_MS \<le> saturating_sub now_ms start
      then if bypass_window_start s = start then (s\<lparr>bypass_window_start := now_ms\<rparr>, Swapped)
           else (s, Counting)
      else (s, Counting))"
| "thread_step threshold now s Swapped = (s\<lparr>bypass_window_count := 1\<rparr>, Returned False)"
| "thread_step threshold now s Counting =
     (let count = bypass_window_count s + 1
      in (s\<lparr>bypass_window_count := count\<rparr>, Returned (threshold \<le> count)))"
| "thread_step threshold now s (Returned w) = (s, Returned w)"

text \<open>A call that no other thread interrupts.\<close>

definition record_bypass_and_check_spike :: "u64 \<Rightarrow> u64 \<Rightarrow> spike \<Rightarrow> spike \<times> bool" where
  "record_bypass_and_check_spike threshold now s =
     (let (s1, t1) = thread_step threshold now s Entered;
          (s2, t2) = thread_step threshold now s1 t1;
          (s3, t3) = thread_step threshold now s2 t2
      in (s3, t3 = Returned True))"

text \<open>Several threads, of which the schedule moves one at a time.\<close>

type_synonym spike_state = "spike \<times> (nat \<Rightarrow> bypass_thread)"

fun schedule_run :: "u64 \<Rightarrow> (nat \<times> u64) list \<Rightarrow> spike_state \<Rightarrow> spike_state" where
  "schedule_run threshold [] st = st"
| "schedule_run threshold ((i, now) # sched) (s, threads) =
     (let (s', t') = thread_step threshold now s (threads i)
      in schedule_run threshold sched (s', threads(i := t')))"

section \<open>Calls one after another\<close>

lemma record_bypass_cases:
  "record_bypass_and_check_spike threshold now s =
     (if BYPASS_SPIKE_WINDOW_MS \<le> saturating_sub now (bypass_window_start s)
      then (\<lparr>bypass_window_start = now, bypass_window_count = 1\<rparr>, False)
      else (s\<lparr>bypass_window_count := bypass_window_count s + 1\<rparr>, threshold \<le> bypass_window_count s + 1))"
  by (simp add: record_bypass_and_check_spike_def Let_def)

fun bypass_calls :: "u64 \<Rightarrow> u64 list \<Rightarrow> spike \<Rightarrow> bool list" where
  "bypass_calls threshold [] s = []"
| "bypass_calls threshold (now # nows) s =
     (let (s', w) = record_bypass_and_check_spike threshold now s in w # bypass_calls threshold nows s')"

text \<open>
  What the calls should answer: the instants of the calls of the current window are counted, and a
  call whose instant is a minute after the start of the window begins the next one.
\<close>

fun spike_spec :: "nat \<Rightarrow> u64 list \<Rightarrow> u64 \<Rightarrow> nat \<Rightarrow> bool list" where
  "spike_spec threshold [] start n = []"
| "spike_spec threshold (now # nows) start n =
     (if unat start + 60000 \<le> unat now then False # spike_spec threshold nows now 1
      else (threshold \<le> n + 1) # spike_spec threshold nows start (n + 1))"

lemma window_over: "BYPASS_SPIKE_WINDOW_MS \<le> saturating_sub now start \<longleftrightarrow> unat start + 60000 \<le> unat now"
  by (auto simp: BYPASS_SPIKE_WINDOW_MS_def word_le_nat_alt unat_saturating_sub)

lemma sequential_calls_spec:
  assumes "unat (bypass_window_count s) + length nows < 2 ^ 64"
  shows "bypass_calls threshold nows s =
    spike_spec (unat threshold) nows (bypass_window_start s) (unat (bypass_window_count s))"
  using assms
proof (induction nows arbitrary: s)
  case (Cons now nows)
  have inc: "unat (bypass_window_count s + 1) = unat (bypass_window_count s) + 1"
    using Cons.prems by (subst unat_inc) auto
  show ?case
    using Cons.IH [of "\<lparr>bypass_window_start = now, bypass_window_count = 1\<rparr>"]
      Cons.IH [of "s\<lparr>bypass_window_count := bypass_window_count s + 1\<rparr>"] Cons.prems
    by (simp add: record_bypass_cases window_over word_le_nat_alt [of threshold] inc)
qed simp

section \<open>Interleaved calls\<close>

text \<open>
  The detector is not safe between two threads, although it says that the threads which do
  not reset the window \<open>simply proceed with the counter already at 0\<close>. When a minute has passed and
  one thread has exchanged the start of the window but not yet stored the count, a second
  call of the new window adds to the count of the old one: it warns of a spike when the old
  window was one short of the threshold, and the store that follows forgets the call, so the new
  window has counted one of its two calls.
\<close>

theorem bypass_reset_race:
  assumes "unat start + 60000 \<le> unat now" "threshold \<le> seen + 1" "i \<noteq> j"
    and "threads i = Entered" "threads j = Entered"
  shows "schedule_run threshold [(i, now), (i, now), (j, now), (j, now), (j, now), (i, now)]
      (\<lparr>bypass_window_start = start, bypass_window_count = seen\<rparr>, threads) =
    (\<lparr>bypass_window_start = now, bypass_window_count = 1\<rparr>, threads(i := Returned False, j := Returned True))"
proof -
  have "\<not> BYPASS_SPIKE_WINDOW_MS \<le> saturating_sub now now" by (simp add: window_over)
  with assms window_over [of now start] show ?thesis by (auto simp: Let_def)
qed

theorem bypass_reset_race_witness:
  "schedule_run 100 [(0, 60000), (0, 60000), (1, 60000), (1, 60000), (1, 60000), (0, 60000)]
      (\<lparr>bypass_window_start = 0, bypass_window_count = 99\<rparr>, \<lambda>_. Entered) =
    (\<lparr>bypass_window_start = 60000, bypass_window_count = 1\<rparr>, (\<lambda>_. Entered)(0 := Returned False, 1 := Returned True))"
  by (rule bypass_reset_race) simp_all

end
