(* ===== verification/Tables.thy ===== *)
theory Tables
  imports Prelude
begin

text \<open>
  The tables of the database as the handlers see them. A table is the list of its rows; a statement
  selects the first row of a key or updates the rows that satisfy a condition. Every handler of the API
  answers with a value or with an error that has a status and a reason.
\<close>

section \<open>Statements\<close>

text \<open>Identifiers are UUIDs, times are microseconds since the epoch.\<close>

type_synonym uuid = nat
type_synonym time = int

text \<open>\<open>SELECT ... WHERE key = k\<close> and \<open>UPDATE ... WHERE p\<close>.\<close>

definition row_get :: "('r \<Rightarrow> 'k) \<Rightarrow> 'r list \<Rightarrow> 'k \<Rightarrow> 'r option" where
  "row_get key rows k = find (\<lambda>r. key r = k) rows"

definition update_where :: "('r \<Rightarrow> bool) \<Rightarrow> ('r \<Rightarrow> 'r) \<Rightarrow> 'r list \<Rightarrow> 'r list" where
  "update_where p f rows = map (\<lambda>r. if p r then f r else r) rows"

definition row_upd :: "('r \<Rightarrow> 'k) \<Rightarrow> 'r list \<Rightarrow> 'k \<Rightarrow> ('r \<Rightarrow> 'r) \<Rightarrow> 'r list" where
  "row_upd key rows k f = update_where (\<lambda>r. key r = k) f rows"

definition coalesce :: "'a option \<Rightarrow> 'a \<Rightarrow> 'a" where
  "coalesce x y = unwrap_or x y"

text \<open>The status and the reason of an error response; a database error is a 500.\<close>

datatype api_error = Api_error (err_status: nat) (err_reason: string)

abbreviation database_error :: api_error where
  "database_error \<equiv> Api_error 500 ''DATABASE_ERROR''"

text \<open>The operator \<open>?\<close>, \<open>Option::ok_or\<close>, and an early return unless a condition holds.\<close>

definition and_then :: "'e + 'a \<Rightarrow> ('a \<Rightarrow> 'e + 'b) \<Rightarrow> 'e + 'b" where
  "and_then r f = (case r of Inl e \<Rightarrow> Inl e | Inr x \<Rightarrow> f x)"

definition ok_or :: "'e \<Rightarrow> 'a option \<Rightarrow> 'e + 'a" where
  "ok_or e v = (case v of None \<Rightarrow> Inl e | Some x \<Rightarrow> Inr x)"

definition unless :: "bool \<Rightarrow> 'e \<Rightarrow> 'e + unit" where
  "unless b e = (if b then Inl e else Inr ())"

lemma and_then_simps [simp]: "and_then (Inl e) f = Inl e" "and_then (Inr x) f = f x"
  by (simp_all add: and_then_def)

lemma and_then_Ok [simp]: "and_then r f = Inr y \<longleftrightarrow> (\<exists>x. r = Inr x \<and> f x = Inr y)"
  by (cases r) auto

lemma ok_or_Ok [simp]: "ok_or e v = Inr x \<longleftrightarrow> v = Some x"
  by (auto simp: ok_or_def split: option.split)

lemma unless_Ok [simp]: "unless b e = Inr u \<longleftrightarrow> \<not> b"
  by (auto simp: unless_def)

lemma ok_or_unless_simps [simp]: "ok_or e (Some x) = Inr x" "ok_or e None = Inl e" "unless False e = Inr ()" "unless True e = Inl e"
  by (simp_all add: ok_or_def unless_def)

section \<open>What the statements keep\<close>

lemma row_get_update_where:
  assumes "\<And>r. key (f r) = key r"
  shows "row_get key (update_where p f rows) k = map_option (\<lambda>r. if p r then f r else r) (row_get key rows k)"
proof (induction rows)
  case (Cons x rows)
  have "key (if p x then f x else x) = key x" using assms by simp
  with Cons show ?case by (simp add: row_get_def update_where_def del: if_split)
qed (simp add: row_get_def update_where_def)

lemma row_get_append:
  "row_get key (rows @ [x]) k =
     (case row_get key rows k of Some r \<Rightarrow> Some r | None \<Rightarrow> if key x = k then Some x else None)"
  unfolding row_get_def find_append find.simps by (cases "find (\<lambda>r. key r = k) rows") (simp_all only: option.case)

lemma row_get_key: "row_get key rows k = Some r \<Longrightarrow> key r = k \<and> r \<in> set rows"
  by (auto simp: row_get_def find_Some_iff)

lemma row_get_None: "row_get key rows k = None \<longleftrightarrow> k \<notin> key ` set rows"
  by (auto simp: row_get_def find_None_iff)

lemma row_get_distinct: "distinct (map key rows) \<Longrightarrow> r \<in> set rows \<Longrightarrow> row_get key rows (key r) = Some r"
  by (induction rows) (auto simp: row_get_def rev_image_eqI)

lemma map_key_update_where:
  assumes "\<And>r. key (f r) = key r"
  shows "map key (update_where p f rows) = map key rows"
  unfolding update_where_def list.map_comp by (rule list.map_cong0) (simp add: assms)

lemma set_update_where: "set (update_where p f rows) = (\<lambda>r. if p r then f r else r) ` set rows"
  by (simp add: update_where_def)

text \<open>A table with its two statements meets the contract of a keyed store.\<close>

lemma table_keyed_store: "keyed_store (row_get key) (row_upd key) key"
proof unfold_locales
  fix rows k and r :: 'a
  show "row_get key rows k = Some r \<Longrightarrow> key r = k" by (rule row_get_key [THEN conjunct1])
next
  fix rows k f and r :: 'a
  assume "row_get key rows k = Some r" "key (f r) = k"
  then show "row_get key (row_upd key rows k f) k = Some (f r)"
    by (induction rows) (auto simp: row_get_def row_upd_def update_where_def split: if_splits)
next
  fix f :: "'a \<Rightarrow> 'a" and k' k :: 'b and rows
  assume f: "\<And>r. key (f r) = key r" and k: "k' \<noteq> k"
  show "row_get key (row_upd key rows k f) k' = row_get key rows k'"
    unfolding row_upd_def row_get_update_where [where key = key and f = f, OF f]
    using k by (cases "row_get key rows k'") (auto dest: row_get_key)
qed

end
