(* ===== verification/Marketplace.thy ===== *)
theory Marketplace
  imports Tables
begin

text \<open>
  The marketplace of \<open>backend/api/src/marketplace\<close>: pricing plans (\<open>pricing_handlers.rs\<close>), the
  issuing of licenses (\<open>issuance.rs\<close>), their signed tokens (\<open>license.rs\<close>), validation and
  revocation (\<open>license_handlers.rs\<close>) and the metering of usage (\<open>metering.rs\<close>).

  The database is a record of tables, a table the list of its rows. Every statement of a handler
  commits on its own, since the handlers run them on the pool and open no transaction; the
  predicate \<open>ok\<close> says which statements reach the database and succeed, so a handler can stop
  after any of them, its earlier statements done. Random identifiers and the clock
  (microseconds since the epoch) are inputs. Base64, JSON and Ed25519 are the fields of a \<open>codec\<close>.
\<close>

section \<open>Rows\<close>

record plan =
  plan_id :: uuid
  plan_contract :: uuid
  plan_name :: string
  description :: "string option"
  price_cents :: int
  currency :: string
  billing_period :: string
  call_quota :: "int option"
  features :: string
  is_active :: bool

type_synonym metadata = "(string \<times> string) list"

record license =
  lic_id :: uuid
  lic_jti :: uuid
  lic_contract :: uuid
  lic_plan :: uuid
  lic_owner :: uuid
  issued_at :: time
  expires_at :: "time option"
  revoked_at :: "time option"
  lic_status :: string
  lic_metadata :: metadata

record usage_event =
  ue_license :: uuid
  ue_contract :: uuid
  ue_ts :: time
  ue_calls :: int

record usdc_payment =
  up_id :: uuid
  up_contract :: uuid
  up_plan :: uuid
  up_payer :: uuid
  up_cents :: int
  up_memo :: string
  up_tx_hash :: "string option"
  up_confirmed :: "int option"
  up_license :: "uuid option"
  up_status :: string
  up_expires :: time

record stripe_payment =
  sp_id :: uuid
  sp_contract :: uuid
  sp_plan :: uuid
  sp_payer :: uuid
  sp_session :: string
  sp_cents :: int
  sp_currency :: string
  sp_status :: string
  sp_license :: "uuid option"

record webhook_row =
  wr_event :: string
  wr_type :: string
  wr_payment :: "uuid option"

record market =
  contract_owner :: "uuid \<Rightarrow> uuid option"
  plans :: "plan list"
  licenses :: "license list"
  usage_events :: "usage_event list"
  usdc_payments :: "usdc_payment list"
  stripe_payments :: "stripe_payment list"
  webhook_events :: "webhook_row list"

text \<open>The statements, named so that a run can say which of them fail.\<close>

datatype stmt =
    Select_owner | Insert_plan | Update_plan | Select_plan | Insert_license | Select_license
  | Update_license | Insert_usage | Select_usage | Select_quota
  | Insert_intent | Select_intent | Expire_intent | Claim_intent | Settle_intent
  | Insert_stripe_payment | Insert_event | Select_stripe_payment | Complete_payment | Link_event

section \<open>Pricing plans\<close>

definition ALLOWED_BILLING_PERIODS :: "string list" where
  "ALLOWED_BILLING_PERIODS = [''monthly'', ''one_time'']"

definition assert_contract_owner :: "(stmt \<Rightarrow> bool) \<Rightarrow> market \<Rightarrow> uuid \<Rightarrow> uuid \<Rightarrow> api_error + unit" where
  "assert_contract_owner ok db user contract =
     (if \<not> ok Select_owner then Err database_error
      else case contract_owner db contract of
        Some pid \<Rightarrow> if pid = user then Ok () else Err (Api_error 403 ''FORBIDDEN'')
      | None \<Rightarrow> Err (Api_error 404 ''contract_not_found''))"

record create_plan_request =
  cp_name :: string
  cp_description :: "string option"
  cp_price :: int
  cp_currency :: string
  cp_period :: string
  cp_quota :: "int option"
  cp_features :: "string option"

text \<open>
  The insert checks what the table declares: the quota not negative (the price and the period were
  checked by the handler), the currency of three characters, the name of at most 100, and unique
  within the contract.
\<close>

definition create_plan ::
  "(stmt \<Rightarrow> bool) \<Rightarrow> uuid \<Rightarrow> uuid \<Rightarrow> uuid \<Rightarrow> create_plan_request \<Rightarrow> market \<Rightarrow> (api_error + plan) \<times> market" where
  "create_plan ok new_id user contract req db =
     (case assert_contract_owner ok db user contract of
        Inl e \<Rightarrow> (Err e, db)
      | Inr _ \<Rightarrow>
          if trim (cp_name req) = [] then (Err (Api_error 400 ''BAD_REQUEST''), db)
          else if cp_price req < 0 then (Err (Api_error 400 ''BAD_REQUEST''), db)
          else if cp_period req \<notin> set ALLOWED_BILLING_PERIODS then (Err (Api_error 400 ''BAD_REQUEST''), db)
          else
            let row = \<lparr>plan_id = new_id, plan_contract = contract, plan_name = cp_name req,
                       description = cp_description req, price_cents = cp_price req,
                       currency = cp_currency req, billing_period = cp_period req,
                       call_quota = cp_quota req, features = unwrap_or (cp_features req) ''[]'',
                       is_active = True\<rparr>
            in if \<not> ok Insert_plan \<or> row_get plan_id (plans db) new_id \<noteq> None \<or>
                  length (cp_name req) > 100 \<or> length (cp_currency req) > 3 \<or>
                  (case cp_quota req of Some q \<Rightarrow> q < 0 | None \<Rightarrow> False)
               then (Err database_error, db)
               else if list_ex (\<lambda>p. plan_contract p = contract \<and> plan_name p = cp_name req) (plans db)
               then (Err (Api_error 409 ''duplicate_plan''), db)
               else (Ok row, db\<lparr>plans := plans db @ [row]\<rparr>))"

definition plan_cmp :: "plan \<Rightarrow> plan \<Rightarrow> ordering" where
  "plan_cmp p q =
     then_cmp (cmp_lin (price_cents p) (price_cents q))
       (cmp_lin (map (of_char :: char \<Rightarrow> nat) (plan_name p)) (map of_char (plan_name q)))"

definition list_plans :: "(stmt \<Rightarrow> bool) \<Rightarrow> uuid \<Rightarrow> market \<Rightarrow> api_error + plan list" where
  "list_plans ok contract db =
     (if \<not> ok Select_plan then Err database_error
      else Ok (sort_by plan_cmp (filter (\<lambda>p. plan_contract p = contract \<and> is_active p) (plans db))))"

record update_plan_request =
  pu_description :: "string option"
  pu_price :: "int option"
  pu_features :: "string option"
  pu_active :: "bool option"

definition patch_plan :: "update_plan_request \<Rightarrow> plan \<Rightarrow> plan" where
  "patch_plan req p =
     p\<lparr>description := (case pu_description req of Some d \<Rightarrow> Some d | None \<Rightarrow> description p),
       price_cents := coalesce (pu_price req) (price_cents p),
       features := coalesce (pu_features req) (features p),
       is_active := coalesce (pu_active req) (is_active p)\<rparr>"

text \<open>A price below zero violates the check of the table, when the update meets a row.\<close>

definition update_plan ::
  "(stmt \<Rightarrow> bool) \<Rightarrow> uuid \<Rightarrow> uuid \<Rightarrow> uuid \<Rightarrow> update_plan_request \<Rightarrow> market \<Rightarrow> (api_error + plan) \<times> market" where
  "update_plan ok user contract pid req db =
     (case assert_contract_owner ok db user contract of
        Inl e \<Rightarrow> (Err e, db)
      | Inr _ \<Rightarrow>
          if \<not> ok Update_plan then (Err database_error, db)
          else
            case find (\<lambda>p. plan_id p = pid \<and> plan_contract p = contract) (plans db) of
              None \<Rightarrow> (Err (Api_error 404 ''plan_not_found''), db)
            | Some p \<Rightarrow>
                if price_cents (patch_plan req p) < 0 then (Err database_error, db)
                else (Ok (patch_plan req p),
                      db\<lparr>plans := update_where (\<lambda>p. plan_id p = pid \<and> plan_contract p = contract)
                            (patch_plan req) (plans db)\<rparr>))"


section \<open>License tokens\<close>

record claims =
  c_jti :: uuid
  c_sub :: uuid
  c_aud :: uuid
  c_plan :: uuid
  c_plan_name :: string
  c_iat :: int
  c_exp :: "int option"
  c_quota :: "int option"

datatype license_error =
    Malformed_token | Unsupported_algorithm string | Bad_signature | Token_expired

text \<open>
  The external parts: base64 without padding, the JSON text of the header and of the claims,
  the algorithm that a header names (\<open>None\<close> when it is no JSON, \<open>Some None\<close> when it names none),
  Ed25519 with the configured key; bytes are strings here.
\<close>

record codec =
  b64 :: "string \<Rightarrow> string"
  unb64 :: "string \<Rightarrow> string option"
  header_text :: string
  header_alg :: "string \<Rightarrow> string option option"
  claims_text :: "claims \<Rightarrow> string option"
  claims_of :: "string \<Rightarrow> claims option"
  ed_sign :: "string \<Rightarrow> string"
  ed_verify :: "string \<Rightarrow> string \<Rightarrow> bool"

definition license_sign :: "codec \<Rightarrow> claims \<Rightarrow> license_error + string" where
  "license_sign cd c =
     (case claims_text cd c of
        None \<Rightarrow> Err Malformed_token
      | Some text \<Rightarrow>
          let signing_input = b64 cd (header_text cd) @ ''.'' @ b64 cd text
          in Ok (signing_input @ ''.'' @ b64 cd (ed_sign cd signing_input)))"

definition check_alg :: "codec \<Rightarrow> string \<Rightarrow> license_error option" where
  "check_alg cd header_b64 =
     (case unb64 cd header_b64 of
        None \<Rightarrow> Some Malformed_token
      | Some bytes \<Rightarrow>
          (case header_alg cd bytes of
             None \<Rightarrow> Some Malformed_token
           | Some None \<Rightarrow> Some Malformed_token
           | Some (Some alg) \<Rightarrow> if alg = ''EdDSA'' then None else Some (Unsupported_algorithm alg)))"

definition check_claims :: "codec \<Rightarrow> time \<Rightarrow> string \<Rightarrow> license_error + claims" where
  "check_claims cd now claims_b64 =
     (case unb64 cd claims_b64 of
        None \<Rightarrow> Err Malformed_token
      | Some bytes \<Rightarrow>
          (case claims_of cd bytes of
             None \<Rightarrow> Err Malformed_token
           | Some c \<Rightarrow>
               (case c_exp c of
                  Some e \<Rightarrow> if e \<le> now div 1000000 then Err Token_expired else Ok c
                | None \<Rightarrow> Ok c)))"

text \<open>\<open>Signature::from_slice\<close> wants 64 bytes.\<close>

definition license_verify :: "codec \<Rightarrow> time \<Rightarrow> string \<Rightarrow> license_error + claims" where
  "license_verify cd now token =
     (case split_on CHR ''.'' token of
        [header_b64, claims_b64, sig_b64] \<Rightarrow>
          (case check_alg cd header_b64 of
             Some e \<Rightarrow> Err e
           | None \<Rightarrow>
               (case unb64 cd sig_b64 of
                  None \<Rightarrow> Err Malformed_token
                | Some sig \<Rightarrow>
                    if length sig \<noteq> 64 \<or> \<not> ed_verify cd (header_b64 @ ''.'' @ claims_b64) sig
                    then Err Bad_signature
                    else check_claims cd now claims_b64))
      | _ \<Rightarrow> Err Malformed_token)"

section \<open>Issuing\<close>

definition DAYS :: int where "DAYS = 24 * 60 * 60 * 1000000"

definition plan_expiry :: "time \<Rightarrow> plan \<Rightarrow> time option" where
  "plan_expiry now p = (if billing_period p = ''monthly'' then Some (now + 30 * DAYS) else None)"

definition claims_for :: "time \<Rightarrow> plan \<Rightarrow> license \<Rightarrow> claims" where
  "claims_for now p l =
     \<lparr>c_jti = lic_jti l, c_sub = lic_owner l, c_aud = lic_contract l, c_plan = lic_plan l,
      c_plan_name = plan_name p, c_iat = now div 1000000,
      c_exp = map_option (\<lambda>t. t div 1000000) (plan_expiry now p), c_quota = call_quota p\<rparr>"

definition find_active_plan :: "market \<Rightarrow> uuid \<Rightarrow> uuid \<Rightarrow> plan option" where
  "find_active_plan db pid contract =
     find (\<lambda>p. plan_id p = pid \<and> plan_contract p = contract \<and> is_active p) (plans db)"

definition issue_for_owner ::
  "(stmt \<Rightarrow> bool) \<Rightarrow> codec \<Rightarrow> time \<Rightarrow> uuid \<times> uuid \<Rightarrow> uuid \<Rightarrow> uuid \<Rightarrow> uuid \<Rightarrow> metadata \<Rightarrow> market \<Rightarrow>
   (api_error + license \<times> string) \<times> market" where
  "issue_for_owner ok cd now ids contract pid owner meta db =
     (if \<not> ok Select_plan then (Err database_error, db)
      else case find_active_plan db pid contract of
        None \<Rightarrow> (Err (Api_error 404 ''plan_not_found''), db)
      | Some p \<Rightarrow>
          let l = \<lparr>lic_id = fst ids, lic_jti = snd ids, lic_contract = contract, lic_plan = plan_id p,
                   lic_owner = owner, issued_at = now, expires_at = plan_expiry now p,
                   revoked_at = None, lic_status = ''active'', lic_metadata = meta\<rparr>
          in if \<not> ok Insert_license \<or> row_get lic_id (licenses db) (fst ids) \<noteq> None \<or>
                row_get lic_jti (licenses db) (snd ids) \<noteq> None
             then (Err database_error, db)
             else
               let db' = db\<lparr>licenses := licenses db @ [l]\<rparr>
               in case license_sign cd (claims_for now p l) of
                    Inl _ \<Rightarrow> (Err (Api_error 500 ''license_sign_failed''), db')
                  | Inr token \<Rightarrow> (Ok (l, token), db'))"

text \<open>The signer of \<open>load_signer\<close>; \<open>None\<close> when the key is not configured.\<close>

definition load_signer :: "codec option \<Rightarrow> api_error + codec" where
  "load_signer sg =
     (case sg of None \<Rightarrow> Err (Api_error 503 ''license_signing_unavailable'') | Some cd \<Rightarrow> Ok cd)"

definition issue_license ::
  "(stmt \<Rightarrow> bool) \<Rightarrow> codec option \<Rightarrow> time \<Rightarrow> uuid \<times> uuid \<Rightarrow> uuid \<Rightarrow> uuid \<Rightarrow> uuid \<Rightarrow> metadata option \<Rightarrow> market \<Rightarrow>
   (api_error + license \<times> string) \<times> market" where
  "issue_license ok sg now ids user contract pid meta db =
     (case load_signer sg of
        Inl e \<Rightarrow> (Err e, db)
      | Inr cd \<Rightarrow>
          issue_for_owner ok cd now ids contract pid user
            (unwrap_or meta [(''source'', ''self_serve'')]) db)"

section \<open>Validation and revocation\<close>

record validation =
  v_valid :: bool
  v_reason :: "string option"
  v_claims :: "claims option"
  v_status :: "string option"
  v_revoked_at :: "time option"
  v_expires_at :: "time option"

definition invalid :: "string \<Rightarrow> claims option \<Rightarrow> validation" where
  "invalid reason c =
     \<lparr>v_valid = False, v_reason = Some reason, v_claims = c, v_status = None, v_revoked_at = None,
      v_expires_at = None\<rparr>"

definition invalid_reason :: "license_error \<Rightarrow> string" where
  "invalid_reason e =
     (case e of
        Malformed_token \<Rightarrow> ''malformed token''
      | Unsupported_algorithm a \<Rightarrow> ''unsupported algorithm: '' @ a
      | Bad_signature \<Rightarrow> ''signature verification failed''
      | Token_expired \<Rightarrow> ''expired'')"

definition validate_license ::
  "(stmt \<Rightarrow> bool) \<Rightarrow> codec option \<Rightarrow> time \<Rightarrow> string \<Rightarrow> market \<Rightarrow> api_error + validation" where
  "validate_license ok sg now token db =
     (case load_signer sg of
        Inl e \<Rightarrow> Err e
      | Inr cd \<Rightarrow>
          (case license_verify cd now token of
             Inl e \<Rightarrow> Ok (invalid (invalid_reason e) None)
           | Inr c \<Rightarrow>
               if \<not> ok Select_license then Err database_error
               else
                 case row_get lic_jti (licenses db) (c_jti c) of
                   None \<Rightarrow> Ok (invalid ''not_found'' (Some c))
                 | Some l \<Rightarrow>
                     Ok \<lparr>v_valid = (lic_status l = ''active''),
                         v_reason = (if lic_status l = ''active'' then None else Some (lic_status l)),
                         v_claims = Some c, v_status = Some (lic_status l),
                         v_revoked_at = revoked_at l, v_expires_at = expires_at l\<rparr>))"

definition owns_contract :: "market \<Rightarrow> uuid \<Rightarrow> uuid \<Rightarrow> bool" where
  "owns_contract db user contract \<longleftrightarrow> contract_owner db contract = Some user"

definition mark_revoked :: "time \<Rightarrow> license \<Rightarrow> license" where
  "mark_revoked now l = l\<lparr>lic_status := ''revoked'', revoked_at := Some now\<rparr>"

definition revoke_license ::
  "(stmt \<Rightarrow> bool) \<Rightarrow> time \<Rightarrow> uuid \<Rightarrow> uuid \<Rightarrow> market \<Rightarrow> (api_error + license) \<times> market" where
  "revoke_license ok now user jti db =
     (if \<not> ok Select_license then (Err database_error, db)
      else case row_get lic_jti (licenses db) jti of
        None \<Rightarrow> (Err (Api_error 404 ''license_not_found''), db)
      | Some l \<Rightarrow>
          if lic_owner l \<noteq> user \<and> \<not> ok Select_owner then (Err database_error, db)
          else if lic_owner l \<noteq> user \<and> \<not> owns_contract db user (lic_contract l)
          then (Err (Api_error 403 ''FORBIDDEN''), db)
          else if lic_status l = ''revoked'' then (Ok l, db)
          else if \<not> ok Update_license then (Err database_error, db)
          else (Ok (mark_revoked now l),
                db\<lparr>licenses := row_upd lic_jti (licenses db) jti (mark_revoked now)\<rparr>))"

definition list_my_licenses :: "(stmt \<Rightarrow> bool) \<Rightarrow> uuid \<Rightarrow> market \<Rightarrow> api_error + license list" where
  "list_my_licenses ok user db =
     (if \<not> ok Select_license then Err database_error
      else Ok (sort_by (\<lambda>a b. cmp_lin (issued_at b) (issued_at a)) (filter (\<lambda>l. lic_owner l = user) (licenses db))))"

section \<open>Metering\<close>

record usage_summary =
  us_license :: uuid
  us_start :: time
  us_end :: time
  total_calls :: int
  event_count :: nat
  us_quota :: "int option"
  quota_exceeded :: bool

definition calls_since :: "market \<Rightarrow> license \<Rightarrow> time \<Rightarrow> usage_event list" where
  "calls_since db l start = filter (\<lambda>e. ue_license e = lic_id l \<and> start \<le> ue_ts e) (usage_events db)"

definition summarize ::
  "(stmt \<Rightarrow> bool) \<Rightarrow> time \<Rightarrow> license \<Rightarrow> time option \<Rightarrow> market \<Rightarrow> api_error + usage_summary" where
  "summarize ok now l since db =
     (let start = (case since of Some s \<Rightarrow> s | None \<Rightarrow> now - 30 * DAYS);
          es = calls_since db l start;
          calls = sum_list (map ue_calls es)
      in if \<not> ok Select_usage \<or> \<not> ok Select_quota then Err database_error
         else
           let quota = (case row_get plan_id (plans db) (lic_plan l) of Some p \<Rightarrow> call_quota p | None \<Rightarrow> None)
           in Ok \<lparr>us_license = lic_id l, us_start = start, us_end = now, total_calls = calls,
                  event_count = length es, us_quota = quota,
                  quota_exceeded = (case quota of Some q \<Rightarrow> q < calls | None \<Rightarrow> False)\<rparr>)"

definition record_usage ::
  "(stmt \<Rightarrow> bool) \<Rightarrow> codec option \<Rightarrow> time \<Rightarrow> uuid \<Rightarrow> string \<Rightarrow> int \<Rightarrow> market \<Rightarrow> (api_error + usage_summary) \<times> market" where
  "record_usage ok sg now jti token calls db =
     (case load_signer sg of
        Inl e \<Rightarrow> (Err e, db)
      | Inr cd \<Rightarrow>
          (case license_verify cd now token of
             Inl _ \<Rightarrow> (Err (Api_error 401 ''UNAUTHORIZED''), db)
           | Inr c \<Rightarrow>
               if c_jti c \<noteq> jti then (Err (Api_error 401 ''UNAUTHORIZED''), db)
               else if \<not> ok Select_license then (Err database_error, db)
               else
                 case row_get lic_jti (licenses db) jti of
                   None \<Rightarrow> (Err (Api_error 404 ''license_not_found''), db)
                 | Some l \<Rightarrow>
                     if lic_status l \<noteq> ''active'' then (Err (Api_error 403 ''FORBIDDEN''), db)
                     else if (case expires_at l of Some e \<Rightarrow> e \<le> now | None \<Rightarrow> False)
                     then (Err (Api_error 403 ''FORBIDDEN''), db)
                     else if calls \<le> 0 then (Err (Api_error 400 ''BAD_REQUEST''), db)
                     else if \<not> ok Insert_usage then (Err database_error, db)
                     else
                       let e = \<lparr>ue_license = lic_id l, ue_contract = lic_contract l, ue_ts = now, ue_calls = calls\<rparr>;
                           db' = db\<lparr>usage_events := usage_events db @ [e]\<rparr>
                       in (summarize ok now l None db', db')))"

definition get_usage ::
  "(stmt \<Rightarrow> bool) \<Rightarrow> time \<Rightarrow> uuid \<Rightarrow> uuid \<Rightarrow> time option \<Rightarrow> market \<Rightarrow> api_error + usage_summary" where
  "get_usage ok now user jti since db =
     (if \<not> ok Select_license then Err database_error
      else case row_get lic_jti (licenses db) jti of
        None \<Rightarrow> Err (Api_error 404 ''license_not_found'')
      | Some l \<Rightarrow>
          if lic_owner l \<noteq> user \<and> \<not> ok Select_owner then Err database_error
          else if lic_owner l \<noteq> user \<and> \<not> owns_contract db user (lic_contract l)
          then Err (Api_error 403 ''FORBIDDEN'')
          else summarize ok now l since db)"


section \<open>Tables\<close>

interpretation license_table: keyed_store "row_get lic_jti" "row_upd lic_jti" lic_jti
  by (rule table_keyed_store)

section \<open>What a token and a license promise\<close>

text \<open>
  What signing relies on: base64 decodes what it encodes and has no dot, the header names the
  algorithm, the JSON of these claims reads back, signatures have 64 bytes and verify.
\<close>

definition codec_ok :: "codec \<Rightarrow> claims \<Rightarrow> bool" where
  "codec_ok cd c \<longleftrightarrow>
     (\<forall>x. unb64 cd (b64 cd x) = Some x \<and> CHR ''.'' \<notin> set (b64 cd x)) \<and>
     header_alg cd (header_text cd) = Some (Some ''EdDSA'') \<and>
     (case claims_text cd c of Some t \<Rightarrow> claims_of cd t = Some c | None \<Rightarrow> True) \<and>
     (\<forall>m. length (ed_sign cd m) = 64 \<and> ed_verify cd m (ed_sign cd m))"

text \<open>
  A token that was signed verifies. Signing claims and verifying the token gives the claims back
  until the second of their expiry, and reports expiry from then on.
\<close>

theorem license_sign_verify:
  assumes "codec_ok cd c" "license_sign cd c = Ok token"
  shows "license_verify cd now token =
    (case c_exp c of Some e \<Rightarrow> if e \<le> now div 1000000 then Err Token_expired else Ok c | None \<Rightarrow> Ok c)"
proof -
  obtain js where js: "claims_text cd c = Some js" using assms(2) by (auto simp: license_sign_def split: option.splits)
  let ?h = "b64 cd (header_text cd)" and ?c = "b64 cd js"
  let ?s = "b64 cd (ed_sign cd (?h @ ''.'' @ ?c))"
  have token: "token = ?h @ CHR ''.'' # ?c @ CHR ''.'' # ?s"
    using assms(2) js by (simp add: license_sign_def Let_def)
  have nodot: "CHR ''.'' \<notin> set (b64 cd x)" and dec: "unb64 cd (b64 cd x) = Some x" for x
    using assms(1) by (simp_all add: codec_ok_def)
  have "split_on CHR ''.'' token = [?h, ?c, ?s]"
    unfolding token by (simp only: split_on_append split_on_no_sep nodot not_False_eq_True)
  moreover have "check_alg cd ?h = None" using assms(1) by (simp add: check_alg_def dec codec_ok_def)
  moreover have "claims_of cd js = Some c" using assms(1) js by (simp add: codec_ok_def)
  ultimately show ?thesis
    using assms(1) unfolding license_verify_def
    by (simp add: dec check_claims_def codec_ok_def split: option.split)
qed

text \<open>A codec that escapes the dot, with one set of claims.\<close>

fun escape :: "string \<Rightarrow> string" where
  "escape [] = []"
| "escape (c # cs) = (if c = CHR ''.'' then ''~d'' else if c = CHR ''~'' then ''~~'' else [c]) @ escape cs"

fun unescape :: "string \<Rightarrow> string option" where
  "unescape [] = Some []"
| "unescape [c] = Some [c]"
| "unescape (c # d # cs) =
     (if c = CHR ''~'' then map_option (Cons (if d = CHR ''d'' then CHR ''.'' else CHR ''~'')) (unescape cs)
      else map_option (Cons c) (unescape (d # cs)))"

lemma unescape_escape: "unescape (escape s) = Some s"
proof (induction s)
  case (Cons c cs)
  have "x \<noteq> CHR ''~'' \<Longrightarrow> unescape (x # t) = map_option (Cons x) (unescape t)" for x t by (cases t) auto
  with Cons show ?case by auto
qed simp

lemma no_dot_escape: "CHR ''.'' \<notin> set (escape s)"
  by (induction s) auto

definition demo_claims :: claims where
  "demo_claims = \<lparr>c_jti = 1, c_sub = 2, c_aud = 3, c_plan = 4, c_plan_name = ''Pro'', c_iat = 0, c_exp = Some 100, c_quota = None\<rparr>"

definition escaping_codec :: codec where
  "escaping_codec =
     \<lparr>b64 = escape, unb64 = unescape, header_text = ''h'', header_alg = (\<lambda>_. Some (Some ''EdDSA'')),
      claims_text = (\<lambda>_. Some ''1.5''), claims_of = (\<lambda>_. Some demo_claims),
      ed_sign = (\<lambda>_. replicate 64 CHR ''s''), ed_verify = (\<lambda>_ s. s = replicate 64 CHR ''s'')\<rparr>"

theorem license_sign_verify_witness:
  "\<exists>token. license_sign escaping_codec demo_claims = Ok token \<and>
    license_verify escaping_codec 99000000 token = Ok demo_claims \<and>
    license_verify escaping_codec 100000000 token = Err Token_expired"
proof -
  have ok: "codec_ok escaping_codec demo_claims"
    by (simp add: codec_ok_def escaping_codec_def unescape_escape no_dot_escape)
  obtain token where token: "license_sign escaping_codec demo_claims = Ok token"
    by (simp add: license_sign_def escaping_codec_def Let_def)
  have "license_verify escaping_codec now token =
      (if 100 \<le> now div 1000000 then Err Token_expired else Ok demo_claims)" for now
    using license_sign_verify [OF ok token, of now] by (simp add: demo_claims_def)
  with token show ?thesis by simp
qed

text \<open>
  A paid plan costs nothing. \<open>POST /contracts/:id/licenses\<close> gives any authenticated publisher an active
  license, with its signed token, for any active plan of any contract, whatever its price: neither
  the endpoint nor \<open>issue_for_owner\<close> looks at the price or at a payment, although the
  checkout refers to the endpoint for free plans only. The metadata that says where a license came from
  is the caller's too.
\<close>

theorem paid_plan_for_free:
  assumes "find_active_plan db pid contract = Some p" "\<And>s. ok s"
    and "row_get lic_id (licenses db) i = None" "row_get lic_jti (licenses db) j = None" "\<And>c. is_ok (license_sign cd c)"
  shows "\<exists>l token. fst (issue_license ok (Some cd) now (i, j) user contract pid meta db) = Ok (l, token) \<and>
    licenses (snd (issue_license ok (Some cd) now (i, j) user contract pid meta db)) = licenses db @ [l] \<and>
    lic_owner l = user \<and> lic_plan l = plan_id p \<and> lic_status l = ''active'' \<and>
    lic_metadata l = unwrap_or meta [(''source'', ''self_serve'')]"
proof -
  let ?l = "\<lparr>lic_id = i, lic_jti = j, lic_contract = contract, lic_plan = plan_id p,
    lic_owner = user, issued_at = now, expires_at = plan_expiry now p, revoked_at = None,
    lic_status = ''active'', lic_metadata = unwrap_or meta [(''source'', ''self_serve'')]\<rparr>"
  obtain token where "license_sign cd (claims_for now p ?l) = Ok token"
    using assms(5) [of "claims_for now p ?l"] by (cases "license_sign cd (claims_for now p ?l)") auto
  then show ?thesis
    using assms(1-4) by (simp add: issue_license_def load_signer_def issue_for_owner_def Let_def)
qed

theorem paid_plan_for_free_witness:
  "\<exists>l token. fst (issue_license (\<lambda>_. True) (Some escaping_codec) 0 (1, 2) 9 7 1 (Some [(''source'', ''stripe'')])
      \<lparr>contract_owner = (\<lambda>_. None), plans = [\<lparr>plan_id = 1, plan_contract = 7, plan_name = ''Pro'', description = None,
         price_cents = 299900, currency = ''USD'', billing_period = ''one_time'', call_quota = None, features = ''[]'',
         is_active = True\<rparr>], licenses = [], usage_events = [], usdc_payments = [], stripe_payments = [], webhook_events = []\<rparr>) =
    Ok (l, token) \<and> lic_owner l = 9 \<and> lic_metadata l = [(''source'', ''stripe'')]"
  (is "\<exists>l token. fst (issue_license _ _ _ _ _ _ _ _ ?db) = _ \<and> _")
proof -
  have "find_active_plan ?db 1 7 = Some (hd (plans ?db))" by (simp add: find_active_plan_def)
  moreover have "row_get lic_id (licenses ?db) 1 = None" "row_get lic_jti (licenses ?db) 2 = None"
    by (simp_all add: row_get_def)
  moreover have "is_ok (license_sign escaping_codec c)" for c
    by (simp add: license_sign_def escaping_codec_def is_ok_def Let_def)
  ultimately obtain l token where
    "fst (issue_license (\<lambda>_. True) (Some escaping_codec) 0 (1, 2) 9 7 1 (Some [(''source'', ''stripe'')]) ?db) = Ok (l, token)"
    "lic_owner l = 9" "lic_metadata l = unwrap_or (Some [(''source'', ''stripe'')]) [(''source'', ''self_serve'')]"
    using paid_plan_for_free [of ?db 1 7 "hd (plans ?db)" "\<lambda>_. True" 1 2 escaping_codec 0 9 "Some [(''source'', ''stripe'')]"]
    by blast
  then show ?thesis by (simp add: unwrap_or_def)
qed

end
