(* ===== verification/Usdc_Payments.thy ===== *)
theory Usdc_Payments
  imports Marketplace
begin

text \<open>
  Payments in USDC: \<open>marketplace/usdc.rs\<close> and \<open>marketplace/usdc_handlers.rs\<close>. A buyer creates an
  intent and is given a memo; the scanner of the indexer (\<open>Usdc_Scanner\<close>) finds the payment
  with that memo and confirms it, which issues the license. The confirmation is a thread of four
  statements that commit one by one, so confirmations can interleave.
\<close>

section \<open>Amounts and memos\<close>

definition I64_MAX :: int where "I64_MAX = 2 ^ 63 - 1"
definition I64_MIN :: int where "I64_MIN = - (2 ^ 63)"

definition i64_ok :: "int \<Rightarrow> bool" where
  "i64_ok n \<longleftrightarrow> I64_MIN \<le> n \<and> n \<le> I64_MAX"

definition saturate :: "int \<Rightarrow> int" where
  "saturate n = max I64_MIN (min I64_MAX n)"

definition cents_to_usdc_stroops :: "int \<Rightarrow> int" where
  "cents_to_usdc_stroops cents = saturate (cents * 100000)"

definition MEMO_RANDOM_LEN :: nat where "MEMO_RANDOM_LEN = 24"
definition ALPHABET :: string where "ALPHABET = ''ABCDEFGHJKLMNPQRSTUVWXYZ23456789''"

text \<open>The random indices are an input.\<close>

definition generate_memo :: "nat list \<Rightarrow> string" where
  "generate_memo idxs = ''mp-'' @ map (\<lambda>i. ALPHABET ! (i mod length ALPHABET)) (take MEMO_RANDOM_LEN idxs)"

definition looks_like_stellar_address :: "string \<Rightarrow> bool" where
  "looks_like_stellar_address s \<longleftrightarrow>
     length s = 56 \<and> starts_with s ''G'' \<and>
     list_all (\<lambda>c. let n = of_char c :: nat in
       (48 \<le> n \<and> n \<le> 57) \<or> (65 \<le> n \<and> n \<le> 90) \<or> (97 \<le> n \<and> n \<le> 122)) s"

datatype usdc_error =
    Receiving_address_missing | Asset_issuer_missing | Bad_network string | Bad_receiving_address

record usdc_config =
  receiving_address :: string
  asset_issuer :: string
  usdc_network :: string

definition usdc_config_from_env :: "(string \<Rightarrow> string option) \<Rightarrow> usdc_error + usdc_config" where
  "usdc_config_from_env env =
     (case env ''MARKETPLACE_USDC_RECEIVING_ADDRESS'' of
        None \<Rightarrow> Err Receiving_address_missing
      | Some addr \<Rightarrow>
          if \<not> looks_like_stellar_address addr then Err Bad_receiving_address
          else case env ''MARKETPLACE_USDC_ASSET_ISSUER'' of
            None \<Rightarrow> Err Asset_issuer_missing
          | Some issuer \<Rightarrow>
              let network = unwrap_or (env ''MARKETPLACE_USDC_NETWORK'') ''testnet''
              in if network \<noteq> ''testnet'' \<and> network \<noteq> ''public'' then Err (Bad_network network)
                 else Ok \<lparr>receiving_address = addr, asset_issuer = issuer, usdc_network = network\<rparr>)"

definition load_usdc_config :: "(string \<Rightarrow> string option) \<Rightarrow> api_error + usdc_config" where
  "load_usdc_config env =
     (case usdc_config_from_env env of
        Inl _ \<Rightarrow> Err (Api_error 503 ''usdc_unconfigured'') | Inr c \<Rightarrow> Ok c)"

section \<open>Creating an intent\<close>

definition INTENT_TTL_SECONDS :: int where "INTENT_TTL_SECONDS = 3600"
definition MAX_MEMO_RETRIES :: nat where "MAX_MEMO_RETRIES = 3"

record intent_response =
  ir_payment :: uuid
  ir_network :: string
  ir_address :: string
  ir_issuer :: string
  ir_memo :: string
  ir_cents :: int
  ir_stroops :: int
  ir_expires :: time

text \<open>
  The loop over fresh memos: a memo in use violates the unique constraint and is tried again
  with the next one, up to three in all. Any other failure of the insert is an error at once; the
  check of the table wants a positive amount.
\<close>

fun insert_intent :: "(stmt \<Rightarrow> bool) \<Rightarrow> usdc_payment \<Rightarrow> nat list list \<Rightarrow> market \<Rightarrow> (api_error + string) \<times> market" where
  "insert_intent ok row [] db = (Err database_error, db)"
| "insert_intent ok row (r # rs) db =
     (let row' = row\<lparr>up_memo := generate_memo r\<rparr> in
      if \<not> ok Insert_intent \<or> up_cents row' \<le> 0 then (Err database_error, db)
      else if row_get up_memo (usdc_payments db) (up_memo row') \<noteq> None \<or>
              row_get up_id (usdc_payments db) (up_id row') \<noteq> None
      then insert_intent ok row rs db
      else (Ok (up_memo row'), db\<lparr>usdc_payments := usdc_payments db @ [row']\<rparr>))"

definition create_intent ::
  "(stmt \<Rightarrow> bool) \<Rightarrow> (string \<Rightarrow> string option) \<Rightarrow> time \<Rightarrow> uuid \<Rightarrow> nat list list \<Rightarrow> uuid \<Rightarrow> uuid \<Rightarrow> uuid \<Rightarrow> market \<Rightarrow>
   (api_error + intent_response) \<times> market" where
  "create_intent ok env now new_id memos user contract pid db =
     (case load_usdc_config env of
        Inl e \<Rightarrow> (Err e, db)
      | Inr config \<Rightarrow>
          if \<not> ok Select_plan then (Err database_error, db)
          else case find_active_plan db pid contract of
            None \<Rightarrow> (Err (Api_error 404 ''plan_not_found''), db)
          | Some p \<Rightarrow>
              if price_cents p = 0 then (Err (Api_error 400 ''BAD_REQUEST''), db)
              else
                let expires = now + INTENT_TTL_SECONDS * 1000000;
                    row = \<lparr>up_id = new_id, up_contract = contract, up_plan = plan_id p, up_payer = user,
                           up_cents = price_cents p, up_memo = '''', up_tx_hash = None, up_confirmed = None,
                           up_license = None, up_status = ''pending'', up_expires = expires\<rparr>
                in case insert_intent ok row (take MAX_MEMO_RETRIES memos) db of
                     (Inl e, db') \<Rightarrow> (Err e, db')
                   | (Inr memo, db') \<Rightarrow>
                       (Ok \<lparr>ir_payment = new_id, ir_network = usdc_network config,
                            ir_address = receiving_address config, ir_issuer = asset_issuer config,
                            ir_memo = memo, ir_cents = price_cents p,
                            ir_stroops = cents_to_usdc_stroops (price_cents p), ir_expires = expires\<rparr>, db'))"

definition get_intent :: "(stmt \<Rightarrow> bool) \<Rightarrow> uuid \<Rightarrow> uuid \<Rightarrow> market \<Rightarrow> api_error + usdc_payment" where
  "get_intent ok user pid db =
     (if \<not> ok Select_intent then Err database_error
      else case row_get up_id (usdc_payments db) pid of
        None \<Rightarrow> Err (Api_error 404 ''intent_not_found'')
      | Some row \<Rightarrow> if up_payer row \<noteq> user then Err (Api_error 403 ''FORBIDDEN'') else Ok row)"

section \<open>Confirming\<close>

record confirm_request =
  cq_memo :: string
  cq_tx_hash :: string
  cq_stroops :: int

definition is_hex :: "char \<Rightarrow> bool" where
  "is_hex c \<longleftrightarrow> (let n = of_char c :: nat in
     (48 \<le> n \<and> n \<le> 57) \<or> (65 \<le> n \<and> n \<le> 70) \<or> (97 \<le> n \<and> n \<le> 102))"

text \<open>
  Where a confirmation is: before the snapshot, after the snapshot and its checks, after the
  claim, after the license was issued, and answered.
\<close>

datatype confirm_pc =
    Arrived | Checked | Claimed usdc_payment | Issued uuid "license \<times> string"
  | Answered "api_error + license \<times> string"

definition claimable :: "time \<Rightarrow> string \<Rightarrow> usdc_payment \<Rightarrow> bool" where
  "claimable now memo r \<longleftrightarrow>
     up_memo r = memo \<and> up_tx_hash r = None \<and> up_status r = ''pending'' \<and> now < up_expires r"

definition claim :: "string \<Rightarrow> int \<Rightarrow> usdc_payment \<Rightarrow> usdc_payment" where
  "claim tx stroops r = r\<lparr>up_tx_hash := Some tx, up_confirmed := Some (stroops div 100000)\<rparr>"

definition settle :: "uuid \<Rightarrow> usdc_payment \<Rightarrow> usdc_payment" where
  "settle lic r = r\<lparr>up_status := ''confirmed'', up_license := Some lic\<rparr>"

definition mark_expired :: "usdc_payment \<Rightarrow> usdc_payment" where
  "mark_expired r = r\<lparr>up_status := ''expired''\<rparr>"

text \<open>
  One statement of a confirmation and the code up to the next one. The claim writes the transaction
  hash, which is unique in the table, so a hash that another row has is a database error. \<open>user\<close>
  is the authenticated publisher who confirms.
\<close>

definition confirm_check :: "(stmt \<Rightarrow> bool) \<Rightarrow> time \<Rightarrow> confirm_request \<Rightarrow> market \<Rightarrow> market \<times> confirm_pc" where
  "confirm_check ok now req db =
     (if length (cq_tx_hash req) \<noteq> 64 \<or> \<not> list_all is_hex (cq_tx_hash req)
      then (db, Answered (Err (Api_error 400 ''BAD_REQUEST'')))
      else if cq_stroops req \<le> 0 then (db, Answered (Err (Api_error 400 ''BAD_REQUEST'')))
      else if \<not> ok Select_intent then (db, Answered (Err database_error))
      else case row_get up_memo (usdc_payments db) (cq_memo req) of
        None \<Rightarrow> (db, Answered (Err (Api_error 404 ''intent_not_found'')))
      | Some row \<Rightarrow>
          if up_status row = ''confirmed'' \<or> up_license row \<noteq> None
          then (db, Answered (Err (Api_error 409 ''already_confirmed'')))
          else if up_status row = ''expired'' \<or> up_expires row < now
          then ((if ok Expire_intent
                 then db\<lparr>usdc_payments := update_where (\<lambda>r. up_id r = up_id row \<and> up_status r = ''pending'')
                            mark_expired (usdc_payments db)\<rparr>
                 else db), Answered (Err (Api_error 409 ''intent_expired'')))
          else if cq_stroops req < cents_to_usdc_stroops (up_cents row)
          then (db, Answered (Err (Api_error 400 ''underpayment'')))
          else (db, Checked))"

definition confirm_claim :: "(stmt \<Rightarrow> bool) \<Rightarrow> time \<Rightarrow> confirm_request \<Rightarrow> market \<Rightarrow> market \<times> confirm_pc" where
  "confirm_claim ok now req db =
     (if \<not> ok Claim_intent then (db, Answered (Err database_error))
      else case find (claimable now (cq_memo req)) (usdc_payments db) of
        None \<Rightarrow> (db, Answered (Err (Api_error 409 ''already_confirmed'')))
      | Some row \<Rightarrow>
          if list_ex (\<lambda>r. up_tx_hash r = Some (cq_tx_hash req)) (usdc_payments db)
          then (db, Answered (Err database_error))
          else (db\<lparr>usdc_payments := update_where (claimable now (cq_memo req))
                     (claim (cq_tx_hash req) (cq_stroops req)) (usdc_payments db)\<rparr>,
                Claimed (claim (cq_tx_hash req) (cq_stroops req) row)))"

definition confirm_issue ::
  "(stmt \<Rightarrow> bool) \<Rightarrow> codec option \<Rightarrow> time \<Rightarrow> uuid \<times> uuid \<Rightarrow> string \<Rightarrow> confirm_request \<Rightarrow> usdc_payment \<Rightarrow> market \<Rightarrow>
   market \<times> confirm_pc" where
  "confirm_issue ok sg now ids user req row db =
     (case load_signer sg of
        Inl e \<Rightarrow> (db, Answered (Err e))
      | Inr cd \<Rightarrow>
          (case issue_for_owner ok cd now ids (up_contract row) (up_plan row) (up_payer row)
                  [(''source'', ''usdc''), (''tx_hash'', cq_tx_hash req), (''memo'', cq_memo req),
                   (''confirmed_by'', user)] db of
             (Inl e, db') \<Rightarrow> (db', Answered (Err e))
           | (Inr (l, token), db') \<Rightarrow> (db', Issued (up_id row) (l, token))))"

definition confirm_settle ::
  "(stmt \<Rightarrow> bool) \<Rightarrow> uuid \<Rightarrow> license \<times> string \<Rightarrow> market \<Rightarrow> market \<times> confirm_pc" where
  "confirm_settle ok pid issued db =
     (if \<not> ok Settle_intent then (db, Answered (Err database_error))
      else (db\<lparr>usdc_payments := row_upd up_id (usdc_payments db) pid (settle (lic_id (fst issued)))\<rparr>,
            Answered (Ok issued)))"

fun confirm_step ::
  "(stmt \<Rightarrow> bool) \<Rightarrow> codec option \<Rightarrow> time \<Rightarrow> uuid \<times> uuid \<Rightarrow> string \<Rightarrow> confirm_request \<Rightarrow> market \<Rightarrow> confirm_pc \<Rightarrow>
   market \<times> confirm_pc" where
  "confirm_step ok sg now ids user req db Arrived = confirm_check ok now req db"
| "confirm_step ok sg now ids user req db Checked = confirm_claim ok now req db"
| "confirm_step ok sg now ids user req db (Claimed row) = confirm_issue ok sg now ids user req row db"
| "confirm_step ok sg now ids user req db (Issued pid issued) = confirm_settle ok pid issued db"
| "confirm_step ok sg now ids user req db (Answered r) = (db, Answered r)"

text \<open>A confirmation that runs without interruption; four steps answer it.\<close>

definition confirm_intent ::
  "(stmt \<Rightarrow> bool) \<Rightarrow> codec option \<Rightarrow> time \<Rightarrow> uuid \<times> uuid \<Rightarrow> string \<Rightarrow> confirm_request \<Rightarrow> market \<Rightarrow>
   (api_error + license \<times> string) \<times> market" where
  "confirm_intent ok sg now ids user req db =
     (let step = (\<lambda>(db, pc). confirm_step ok sg now ids user req db pc);
          (db', pc) = step (step (step (step (db, Arrived))))
      in (case pc of Answered r \<Rightarrow> r | _ \<Rightarrow> Err database_error, db'))"


section \<open>Confirmations side by side\<close>

text \<open>
  Any number of confirmations, the \<open>i\<close>-th for the request \<open>reqs i\<close>, each at its own statement, with
  other operations of the marketplace (the relation \<open>env\<close>) in between. Every statement may fail.
\<close>

inductive confirm_run ::
  "(market \<Rightarrow> market \<Rightarrow> bool) \<Rightarrow> (nat \<Rightarrow> confirm_request) \<Rightarrow> market \<Rightarrow> market \<Rightarrow> (nat \<Rightarrow> confirm_pc) \<Rightarrow> bool"
  for env reqs db0 where
  start: "confirm_run env reqs db0 db0 (\<lambda>_. Arrived)"
| move: "confirm_run env reqs db0 db pcs \<Longrightarrow>
    confirm_step ok sg now ids user (reqs i) db (pcs i) = (db', pc') \<Longrightarrow>
    confirm_run env reqs db0 db' (pcs(i := pc'))"
| other: "confirm_run env reqs db0 db pcs \<Longrightarrow> env db db' \<Longrightarrow> confirm_run env reqs db0 db' pcs"

definition intent_of :: "market \<Rightarrow> string \<Rightarrow> usdc_payment option" where
  "intent_of db memo = row_get up_memo (usdc_payments db) memo"

definition memos_unique :: "market \<Rightarrow> bool" where
  "memos_unique db \<longleftrightarrow> distinct (map up_memo (usdc_payments db))"

text \<open>What the other operations leave of the payments: the rows, their amounts and their claims.\<close>

definition keeps_intents :: "market \<Rightarrow> market \<Rightarrow> bool" where
  "keeps_intents db db' \<longleftrightarrow>
     (memos_unique db \<longrightarrow> memos_unique db') \<and>
     (\<forall>memo r. intent_of db memo = Some r \<longrightarrow>
        (\<exists>r'. intent_of db' memo = Some r' \<and> up_tx_hash r' = up_tx_hash r \<and> up_cents r' = up_cents r))"

lemma keeps_intents_same: "usdc_payments db' = usdc_payments db \<Longrightarrow> keeps_intents db db'"
  by (simp add: keeps_intents_def memos_unique_def intent_of_def)

lemma keeps_intents_update:
  assumes "\<And>r. up_memo (f r) = up_memo r" "\<And>r. up_tx_hash (f r) = up_tx_hash r" "\<And>r. up_cents (f r) = up_cents r"
    and "usdc_payments db' = update_where p f (usdc_payments db)"
  shows "keeps_intents db db'"
proof -
  have "map up_memo (usdc_payments db') = map up_memo (usdc_payments db)"
    unfolding assms(4) by (rule map_key_update_where) (rule assms(1))
  moreover have "intent_of db' memo = map_option (\<lambda>r. if p r then f r else r) (intent_of db memo)" for memo
    unfolding intent_of_def assms(4) by (rule row_get_update_where) (rule assms(1))
  ultimately show ?thesis by (simp add: keeps_intents_def memos_unique_def assms(2,3))
qed

lemma keeps_intents_insert:
  assumes "usdc_payments db' = usdc_payments db @ [row]" "intent_of db (up_memo row) = None"
  shows "keeps_intents db db'"
  using assms
  by (auto simp: keeps_intents_def memos_unique_def intent_of_def row_get_append row_get_None)

lemma issue_keeps_payments [simp]:
  "usdc_payments (snd (issue_for_owner ok cd now ids contract pid owner meta db)) = usdc_payments db"
  by (simp add: issue_for_owner_def Let_def split: option.split sum.split)

text \<open>A confirmation that has claimed its intent.\<close>

fun has_claimed :: "confirm_pc \<Rightarrow> bool" where
  "has_claimed (Claimed r) = True"
| "has_claimed (Issued pid l) = True"
| "has_claimed (Answered r) = is_ok r"
| "has_claimed pc = False"

definition paid_enough :: "market \<Rightarrow> confirm_request \<Rightarrow> bool" where
  "paid_enough db req \<longleftrightarrow>
     (\<exists>r. intent_of db (cq_memo req) = Some r \<and> cents_to_usdc_stroops (up_cents r) \<le> cq_stroops req)"

definition claimed_by :: "market \<Rightarrow> confirm_request \<Rightarrow> bool" where
  "claimed_by db req \<longleftrightarrow> (\<exists>r. intent_of db (cq_memo req) = Some r \<and> up_tx_hash r = Some (cq_tx_hash req))"

lemma keeps_paid: "keeps_intents db db' \<Longrightarrow> paid_enough db req \<Longrightarrow> paid_enough db' req"
  unfolding keeps_intents_def paid_enough_def by metis

lemma keeps_claimed: "keeps_intents db db' \<Longrightarrow> claimed_by db req \<Longrightarrow> claimed_by db' req"
  unfolding keeps_intents_def claimed_by_def by metis

definition confirm_inv :: "(nat \<Rightarrow> confirm_request) \<Rightarrow> market \<Rightarrow> (nat \<Rightarrow> confirm_pc) \<Rightarrow> bool" where
  "confirm_inv reqs db pcs \<longleftrightarrow>
     memos_unique db \<and>
     (\<forall>i. pcs i = Checked \<or> has_claimed (pcs i) \<longrightarrow> paid_enough db (reqs i)) \<and>
     (\<forall>i. has_claimed (pcs i) \<longrightarrow> claimed_by db (reqs i)) \<and>
     (\<forall>i j. has_claimed (pcs i) \<longrightarrow> has_claimed (pcs j) \<longrightarrow>
        cq_memo (reqs i) = cq_memo (reqs j) \<or> cq_tx_hash (reqs i) = cq_tx_hash (reqs j) \<longrightarrow> i = j)"

lemma confirm_inv_kept:
  assumes "confirm_inv reqs db pcs" "keeps_intents db db'"
    and "has_claimed pc' \<longrightarrow> has_claimed (pcs i)" "pc' = Checked \<longrightarrow> paid_enough db' (reqs i)"
  shows "confirm_inv reqs db' (pcs(i := pc'))"
proof -
  have "memos_unique db'" using assms(1,2) by (simp add: confirm_inv_def keeps_intents_def)
  moreover have "paid_enough db' (reqs j)" if "(pcs(i := pc')) j = Checked \<or> has_claimed ((pcs(i := pc')) j)" for j
    using that assms keeps_paid [OF assms(2), of "reqs j"]
    by (cases "j = i") (auto simp: confirm_inv_def)
  moreover have "claimed_by db' (reqs j)" if "has_claimed ((pcs(i := pc')) j)" for j
    using that assms(1,3) keeps_claimed [OF assms(2), of "reqs j"]
    by (cases "j = i") (auto simp: confirm_inv_def)
  moreover have "has_claimed ((pcs(i := pc')) j) \<Longrightarrow> has_claimed (pcs j)" for j
    using assms(3) by (cases "j = i") auto
  ultimately show ?thesis using assms(1) unfolding confirm_inv_def by blast
qed


lemma confirm_check_cases:
  assumes "confirm_check ok now req db = (db', pc')"
  obtains e where "pc' = Answered (Err e)" "keeps_intents db db'"
  | "pc' = Checked" "db' = db" "paid_enough db req"
proof -
  have exp: "keeps_intents db (db\<lparr>usdc_payments := update_where p mark_expired (usdc_payments db)\<rparr>)" for p
    by (rule keeps_intents_update [where f = mark_expired]) (simp_all add: mark_expired_def)
  have refl: "keeps_intents db db" by (rule keeps_intents_same) simp
  have "(\<exists>e. pc' = Answered (Err e)) \<and> keeps_intents db db' \<or> pc' = Checked \<and> db' = db \<and> paid_enough db req"
    using assms exp refl unfolding confirm_check_def paid_enough_def intent_of_def
    by (auto split: if_splits option.splits)
  then show thesis using that by blast
qed

lemma confirm_claim_cases:
  assumes "confirm_claim ok now req db = (db', pc')" "memos_unique db"
  obtains e where "pc' = Answered (Err e)" "db' = db"
  | row r where "pc' = Claimed row" "intent_of db (cq_memo req) = Some r" "up_tx_hash r = None"
      "\<And>r'. r' \<in> set (usdc_payments db) \<Longrightarrow> up_tx_hash r' \<noteq> Some (cq_tx_hash req)"
      "db' = db\<lparr>usdc_payments := update_where (claimable now (cq_memo req))
                  (claim (cq_tx_hash req) (cq_stroops req)) (usdc_payments db)\<rparr>"
      "claimable now (cq_memo req) r"
proof (cases "find (claimable now (cq_memo req)) (usdc_payments db)")
  case None
  then show thesis using assms(1) that(1) by (auto simp: confirm_claim_def split: if_splits)
next
  case (Some r)
  then have r: "claimable now (cq_memo req) r" "r \<in> set (usdc_payments db)"
    by (auto simp: find_Some_iff)
  then have get: "intent_of db (cq_memo req) = Some r"
    using row_get_distinct [OF assms(2) [unfolded memos_unique_def] r(2)]
    by (simp add: intent_of_def claimable_def)
  show thesis
  proof (cases "list_ex (\<lambda>r. up_tx_hash r = Some (cq_tx_hash req)) (usdc_payments db) \<or> \<not> ok Claim_intent")
    case True
    then have "pc' = Answered (Err (Api_error 500 ''DATABASE_ERROR'')) \<and> db' = db"
      using assms(1) unfolding confirm_claim_def Some option.case by (auto split: if_splits)
    then show thesis using that(1) by blast
  next
    case False
    then have "pc' = Claimed (claim (cq_tx_hash req) (cq_stroops req) r)"
      "db' = db\<lparr>usdc_payments := update_where (claimable now (cq_memo req))
                  (claim (cq_tx_hash req) (cq_stroops req)) (usdc_payments db)\<rparr>"
      using assms(1) Some by (simp_all add: confirm_claim_def)
    moreover have "up_tx_hash r' \<noteq> Some (cq_tx_hash req)" if "r' \<in> set (usdc_payments db)" for r'
      using False that by (auto simp: list_ex_iff)
    ultimately show thesis using that(2) get r(1) by (simp add: claimable_def)
  qed
qed

lemma confirm_claim_inv:
  assumes inv: "confirm_inv reqs db pcs" and pc: "pcs i = Checked"
    and step: "confirm_claim ok now (reqs i) db = (db', pc')"
  shows "confirm_inv reqs db' (pcs(i := pc'))"
proof (rule confirm_claim_cases [OF step])
  show "memos_unique db" using inv by (simp add: confirm_inv_def)
next
  fix e
  assume "pc' = Answered (Err e)" "db' = db"
  then show ?thesis using confirm_inv_kept [OF inv keeps_intents_same, of db' pc' i] by simp
next
  fix row r
  let ?f = "claim (cq_tx_hash (reqs i)) (cq_stroops (reqs i))" and ?p = "claimable now (cq_memo (reqs i))"
  assume pc': "pc' = Claimed row" and get: "intent_of db (cq_memo (reqs i)) = Some r" and free: "up_tx_hash r = None"
    and fresh: "\<And>r'. r' \<in> set (usdc_payments db) \<Longrightarrow> up_tx_hash r' \<noteq> Some (cq_tx_hash (reqs i))"
    and db': "db' = db\<lparr>usdc_payments := update_where ?p ?f (usdc_payments db)\<rparr>" and can: "?p r"
  have memos: "map up_memo (usdc_payments db') = map up_memo (usdc_payments db)"
    unfolding db' by (simp add: map_key_update_where claim_def)
  have after: "intent_of db' memo = map_option (\<lambda>r. if ?p r then ?f r else r) (intent_of db memo)" for memo
    unfolding intent_of_def db' by (simp add: row_get_update_where claim_def)
  have paid: "paid_enough db' req" if p: "paid_enough db req" for req
  proof -
    obtain r where "intent_of db (cq_memo req) = Some r" "cents_to_usdc_stroops (up_cents r) \<le> cq_stroops req"
      using p unfolding paid_enough_def by blast
    then show ?thesis
      unfolding paid_enough_def after by (intro exI [of _ "if ?p r then ?f r else r"]) (simp add: claim_def)
  qed
  have other: "cq_memo (reqs j) \<noteq> cq_memo (reqs i) \<and> cq_tx_hash (reqs j) \<noteq> cq_tx_hash (reqs i)"
    if j: "has_claimed (pcs j)" for j
  proof -
    obtain r' where r': "intent_of db (cq_memo (reqs j)) = Some r'" "up_tx_hash r' = Some (cq_tx_hash (reqs j))"
      using inv j unfolding confirm_inv_def claimed_by_def by blast
    moreover have "r' \<in> set (usdc_payments db)" using row_get_key r'(1) by (force simp: intent_of_def)
    ultimately show ?thesis using get free fresh [of r'] by auto
  qed
  have claimed: "claimed_by db' (reqs j)" if j: "has_claimed (pcs j)" for j
  proof -
    obtain r' where r': "intent_of db (cq_memo (reqs j)) = Some r'" "up_tx_hash r' = Some (cq_tx_hash (reqs j))"
      using inv j unfolding confirm_inv_def claimed_by_def by blast
    then have "\<not> ?p r'" by (simp add: claimable_def)
    then show ?thesis using r' by (simp add: claimed_by_def after)
  qed
  have own: "claimed_by db' (reqs i)" using get can by (simp add: claimed_by_def after claim_def)
  show ?thesis
    unfolding confirm_inv_def
  proof (intro conjI allI impI)
    show "memos_unique db'" using inv memos by (simp add: confirm_inv_def memos_unique_def)
    show "paid_enough db' (reqs j)" if "(pcs(i := pc')) j = Checked \<or> has_claimed ((pcs(i := pc')) j)" for j
      using that inv pc paid by (cases "j = i") (auto simp: confirm_inv_def)
    show "claimed_by db' (reqs j)" if "has_claimed ((pcs(i := pc')) j)" for j
      using that own claimed by (cases "j = i") auto
    show "j = k" if "has_claimed ((pcs(i := pc')) j)" "has_claimed ((pcs(i := pc')) k)"
      "cq_memo (reqs j) = cq_memo (reqs k) \<or> cq_tx_hash (reqs j) = cq_tx_hash (reqs k)" for j k
    proof (cases "j = i \<or> k = i")
      case True
      then show ?thesis using that other [of j] other [of k] by (cases "j = i"; cases "k = i") auto
    next
      case False
      then show ?thesis using that inv unfolding confirm_inv_def by (metis fun_upd_other)
    qed
  qed
qed

lemma confirm_issue_cases:
  assumes "confirm_issue ok sg now ids user req row db = (db', pc')"
  shows "usdc_payments db' = usdc_payments db \<and> pc' \<noteq> Checked"
proof (cases "load_signer sg")
  case (Inr cd)
  let ?r = "issue_for_owner ok cd now ids (up_contract row) (up_plan row) (up_payer row)
    [(''source'', ''usdc''), (''tx_hash'', cq_tx_hash req), (''memo'', cq_memo req), (''confirmed_by'', user)] db"
  obtain e db1 where r: "?r = (e, db1)" by (cases ?r)
  have "usdc_payments db1 = usdc_payments db" using issue_keeps_payments r by (metis snd_conv)
  then show ?thesis using assms unfolding confirm_issue_def Inr sum.case r by (auto split: sum.splits)
qed (use assms in \<open>auto simp: confirm_issue_def\<close>)

lemma confirm_settle_cases:
  assumes "confirm_settle ok pid issued db = (db', pc')"
  shows "keeps_intents db db' \<and> pc' \<noteq> Checked"
proof -
  have "keeps_intents db (db\<lparr>usdc_payments := row_upd up_id (usdc_payments db) pid (settle (lic_id (fst issued)))\<rparr>)"
    by (rule keeps_intents_update [where f = "settle (lic_id (fst issued))"]) (simp_all add: settle_def row_upd_def)
  then show ?thesis using assms by (auto simp: confirm_settle_def keeps_intents_same split: if_splits)
qed

lemma confirm_step_inv:
  assumes inv: "confirm_inv reqs db pcs"
    and step: "confirm_step ok sg now ids user (reqs i) db (pcs i) = (db', pc')"
  shows "confirm_inv reqs db' (pcs(i := pc'))"
proof (cases "pcs i")
  case Arrived
  then have "confirm_check ok now (reqs i) db = (db', pc')" using step by simp
  then have "keeps_intents db db' \<and> \<not> has_claimed pc' \<and> (pc' = Checked \<longrightarrow> paid_enough db' (reqs i))"
    by (rule confirm_check_cases) (simp_all add: keeps_intents_same)
  then show ?thesis by (intro confirm_inv_kept [OF inv]) auto
next
  case Checked
  then have "confirm_claim ok now (reqs i) db = (db', pc')" using step by simp
  then show ?thesis by (rule confirm_claim_inv [OF inv Checked])
next
  case (Claimed row)
  then have "confirm_issue ok sg now ids user (reqs i) row db = (db', pc')" using step by simp
  from confirm_issue_cases [OF this] show ?thesis
    by (intro confirm_inv_kept [OF inv keeps_intents_same]) (simp_all add: Claimed)
next
  case (Issued pid l)
  then have "confirm_settle ok pid l db = (db', pc')" using step by simp
  from confirm_settle_cases [OF this] show ?thesis
    by (intro confirm_inv_kept [OF inv]) (simp_all add: Issued)
next
  case (Answered r)
  then have "db' = db" "pcs(i := pc') = pcs" using step by (auto simp: fun_upd_idem)
  then show ?thesis using inv by simp
qed

text \<open>
  What a confirmation relies on of the rest of the marketplace: it keeps the rows of the payments,
  their amounts and their claims.
\<close>

locale confirm_env =
  fixes env :: "market \<Rightarrow> market \<Rightarrow> bool"
  assumes env_keeps: "env db db' \<Longrightarrow> keeps_intents db db'"
begin

lemma run_inv:
  assumes "confirm_run env reqs db0 db pcs" "memos_unique db0"
  shows "confirm_inv reqs db pcs"
  using assms
proof (induction rule: confirm_run.induct)
  case start
  then show ?case by (simp add: confirm_inv_def)
next
  case (move db pcs ok sg now ids user i db' pc')
  then show ?case by (intro confirm_step_inv) simp_all
next
  case (other db pcs db')
  then have "confirm_inv reqs db' (pcs(0 := pcs 0))"
    by (intro confirm_inv_kept [OF _ env_keeps]) (auto simp: confirm_inv_def intro: keeps_paid [OF env_keeps])
  then show ?case by simp
qed

lemma one_license_per_intent:
  assumes "confirm_run env reqs db0 db pcs" "memos_unique db0"
    and "has_claimed (pcs i)" "has_claimed (pcs j)"
    and "cq_memo (reqs i) = cq_memo (reqs j) \<or> cq_tx_hash (reqs i) = cq_tx_hash (reqs j)"
  shows "i = j"
  using run_inv [OF assms(1,2)] assms(3-5) unfolding confirm_inv_def by blast

lemma license_was_paid:
  assumes "confirm_run env reqs db0 db pcs" "memos_unique db0" "has_claimed (pcs i)"
  shows "paid_enough db (reqs i)" "claimed_by db (reqs i)"
  using run_inv [OF assms(1,2)] assms(3) unfolding confirm_inv_def by blast+

end

section \<open>One confirmation from start to end\<close>

text \<open>A request that the checks let pass for the pending intent \<open>r\<close>.\<close>

definition confirmable :: "market \<Rightarrow> time \<Rightarrow> confirm_request \<Rightarrow> usdc_payment \<Rightarrow> bool" where
  "confirmable db now req r \<longleftrightarrow>
     length (cq_tx_hash req) = 64 \<and> list_all is_hex (cq_tx_hash req) \<and> 0 < cq_stroops req \<and>
     intent_of db (cq_memo req) = Some r \<and> claimable now (cq_memo req) r \<and> up_license r = None \<and>
     cents_to_usdc_stroops (up_cents r) \<le> cq_stroops req \<and>
     \<not> list_ex (\<lambda>r. up_tx_hash r = Some (cq_tx_hash req)) (usdc_payments db)"

definition claimed_db :: "time \<Rightarrow> confirm_request \<Rightarrow> market \<Rightarrow> market" where
  "claimed_db now req db =
     db\<lparr>usdc_payments := update_where (claimable now (cq_memo req))
          (claim (cq_tx_hash req) (cq_stroops req)) (usdc_payments db)\<rparr>"

definition usdc_metadata :: "string \<Rightarrow> confirm_request \<Rightarrow> metadata" where
  "usdc_metadata user req =
     [(''source'', ''usdc''), (''tx_hash'', cq_tx_hash req), (''memo'', cq_memo req), (''confirmed_by'', user)]"

lemma check_passes:
  "confirmable db now req r \<Longrightarrow> ok Select_intent \<Longrightarrow> confirm_check ok now req db = (db, Checked)"
  by (simp add: confirmable_def confirm_check_def intent_of_def claimable_def)

lemma claim_passes:
  assumes "confirmable db now req r" "memos_unique db" "ok Claim_intent"
  shows "confirm_claim ok now req db = (claimed_db now req db, Claimed (claim (cq_tx_hash req) (cq_stroops req) r))"
proof -
  from assms(1) have r: "row_get up_memo (usdc_payments db) (cq_memo req) = Some r" "claimable now (cq_memo req) r"
    by (simp_all add: confirmable_def intent_of_def)
  have "find (claimable now (cq_memo req)) (usdc_payments db) = Some r"
  proof (cases "find (claimable now (cq_memo req)) (usdc_payments db)")
    case None
    then show ?thesis using r row_get_key by (fastforce simp: find_None_iff)
  next
    case (Some r')
    then have "r' \<in> set (usdc_payments db)" "up_memo r' = cq_memo req"
      by (auto simp: find_Some_iff claimable_def)
    from row_get_distinct [OF assms(2) [unfolded memos_unique_def] this(1)] this(2) r(1) Some show ?thesis by simp
  qed
  with assms(1,3) show ?thesis by (simp add: confirm_claim_def claimed_db_def confirmable_def)
qed

text \<open>What remains after the claim.\<close>

definition after_claim ::
  "(stmt \<Rightarrow> bool) \<Rightarrow> codec option \<Rightarrow> time \<Rightarrow> uuid \<times> uuid \<Rightarrow> string \<Rightarrow> confirm_request \<Rightarrow> usdc_payment \<Rightarrow> market \<Rightarrow>
   (api_error + license \<times> string) \<times> market" where
  "after_claim ok sg now ids user req row db =
     (case confirm_issue ok sg now ids user req row db of
        (db', Issued pid issued) \<Rightarrow>
          (if ok Settle_intent
           then (Ok issued, db'\<lparr>usdc_payments := row_upd up_id (usdc_payments db') pid (settle (lic_id (fst issued)))\<rparr>)
           else (Err database_error, db'))
      | (db', Answered r) \<Rightarrow> (r, db')
      | (db', _) \<Rightarrow> (Err database_error, db'))"

lemma confirm_intent_from_check:
  assumes "confirm_check ok now req db = (db', Answered e)"
  shows "confirm_intent ok sg now ids user req db = (e, db')"
  using assms by (simp add: confirm_intent_def Let_def)

lemma confirm_intent_from_claim:
  assumes "confirm_check ok now req db = (db, Checked)" "confirm_claim ok now req db = (db', Answered e)"
  shows "confirm_intent ok sg now ids user req db = (e, db')"
  using assms by (simp add: confirm_intent_def Let_def)

lemma confirm_intent_claimed:
  assumes "confirm_check ok now req db = (db, Checked)" "confirm_claim ok now req db = (db', Claimed row)"
  shows "confirm_intent ok sg now ids user req db = after_claim ok sg now ids user req row db'"
proof (cases "confirm_issue ok sg now ids user req row db'")
  case (Pair db1 pc)
  have "pc \<noteq> Arrived \<and> pc \<noteq> Checked \<and> (\<forall>r. pc \<noteq> Claimed r)"
    using Pair by (auto simp: confirm_issue_def split: sum.splits prod.splits)
  with assms Pair show ?thesis
    by (cases pc) (simp_all add: confirm_intent_def after_claim_def confirm_settle_def Let_def)
qed

lemma confirm_intent_confirmable:
  assumes "confirmable db now req r" "memos_unique db" "ok Select_intent" "ok Claim_intent"
  shows "confirm_intent ok sg now ids user req db =
    after_claim ok sg now ids user req (claim (cq_tx_hash req) (cq_stroops req) r) (claimed_db now req db)"
  by (rule confirm_intent_claimed) (rule check_passes [where ok = ok, OF assms(1,3)], rule claim_passes [where ok = ok, OF assms(1,2,4)])

lemma claim_fields [simp]:
  "up_id (claim tx n r) = up_id r" "up_contract (claim tx n r) = up_contract r" "up_plan (claim tx n r) = up_plan r"
  "up_payer (claim tx n r) = up_payer r" "up_memo (claim tx n r) = up_memo r" "up_cents (claim tx n r) = up_cents r"
  "up_tx_hash (claim tx n r) = Some tx" "up_status (claim tx n r) = up_status r" "up_license (claim tx n r) = up_license r"
  by (simp_all add: claim_def)

lemma claimed_db_fields [simp]:
  "plans (claimed_db now req db) = plans db" "licenses (claimed_db now req db) = licenses db"
  by (simp_all add: claimed_db_def)

lemma claimed_db_intent:
  "intent_of (claimed_db now req db) memo =
     map_option (\<lambda>r. if claimable now (cq_memo req) r then claim (cq_tx_hash req) (cq_stroops req) r else r)
       (intent_of db memo)"
  by (simp add: intent_of_def claimed_db_def row_get_update_where)

definition usdc_license :: "time \<Rightarrow> uuid \<times> uuid \<Rightarrow> string \<Rightarrow> confirm_request \<Rightarrow> usdc_payment \<Rightarrow> plan \<Rightarrow> license" where
  "usdc_license now ids user req r p =
     \<lparr>lic_id = fst ids, lic_jti = snd ids, lic_contract = up_contract r, lic_plan = plan_id p, lic_owner = up_payer r,
      issued_at = now, expires_at = plan_expiry now p, revoked_at = None, lic_status = ''active'',
      lic_metadata = usdc_metadata user req\<rparr>"

lemma find_active_claimed [simp]: "find_active_plan (claimed_db now req db) = find_active_plan db"
  by (intro ext) (simp add: find_active_plan_def)

text \<open>A market with one plan, one pending intent, and a codec that names things as they are.\<close>

definition demo_codec :: codec where
  "demo_codec =
     \<lparr>b64 = id, unb64 = Some, header_text = ''EdDSA'', header_alg = (\<lambda>h. Some (Some h)),
      claims_text = (\<lambda>c. Some (dec (c_jti c))), claims_of = (\<lambda>_. None),
      ed_sign = (\<lambda>_. replicate 64 CHR ''s''), ed_verify = (\<lambda>_ s. s = replicate 64 CHR ''s'')\<rparr>"

definition demo_plan :: plan where
  "demo_plan =
     \<lparr>plan_id = 1, plan_contract = 7, plan_name = ''Pro'', description = None, price_cents = 2999,
      currency = ''USD'', billing_period = ''monthly'', call_quota = Some 1000, features = ''[]'', is_active = True\<rparr>"

definition demo_intent :: usdc_payment where
  "demo_intent =
     \<lparr>up_id = 5, up_contract = 7, up_plan = 1, up_payer = 3, up_cents = 2999, up_memo = ''mp-A'',
      up_tx_hash = None, up_confirmed = None, up_license = None, up_status = ''pending'', up_expires = 3600000000\<rparr>"

definition demo_market :: market where
  "demo_market =
     \<lparr>contract_owner = (\<lambda>c. if c = 7 then Some 2 else None), plans = [demo_plan], licenses = [],
      usage_events = [], usdc_payments = [demo_intent], stripe_payments = [], webhook_events = []\<rparr>"

definition demo_confirm :: confirm_request where
  "demo_confirm = \<lparr>cq_memo = ''mp-A'', cq_tx_hash = replicate 64 CHR ''a'', cq_stroops = 299900000\<rparr>"

lemma demo_confirmable: "confirmable demo_market 1000 demo_confirm demo_intent"
  by (simp add: confirmable_def demo_market_def demo_confirm_def demo_intent_def intent_of_def row_get_def
      claimable_def cents_to_usdc_stroops_def saturate_def I64_MAX_def I64_MIN_def is_hex_def list_all_iff)

lemma demo_unique: "memos_unique demo_market"
  by (simp add: memos_unique_def demo_market_def)

text \<open>
  A confirmation issues the license. When the intent of the memo is pending and not expired,
  the amount covers its price and no payment has the transaction hash yet, an undisturbed
  confirmation adds exactly one license, for the payer and the plan of the intent, answers with
  its token, and leaves the intent confirmed and linked to it. Nothing in the hypotheses says
  who confirms or that the transaction exists: any authenticated publisher with the memo and any
  64 hexadecimal digits will do.
\<close>

theorem confirm_intent_issues:
  assumes "confirmable db now req r" "memos_unique db" "\<And>s. ok s"
    and "find_active_plan db (up_plan r) (up_contract r) = Some p"
    and "row_get lic_id (licenses db) (fst ids) = None" "row_get lic_jti (licenses db) (snd ids) = None"
    and "license_sign cd (claims_for now p (usdc_license now ids user req r p)) = Ok token"
  shows "fst (confirm_intent ok (Some cd) now ids user req db) = Ok (usdc_license now ids user req r p, token) \<and>
    licenses (snd (confirm_intent ok (Some cd) now ids user req db)) = licenses db @ [usdc_license now ids user req r p] \<and>
    (\<exists>r'. intent_of (snd (confirm_intent ok (Some cd) now ids user req db)) (cq_memo req) = Some r' \<and>
       up_status r' = ''confirmed'' \<and> up_license r' = Some (fst ids) \<and> up_tx_hash r' = Some (cq_tx_hash req))"
proof -
  let ?row = "claim (cq_tx_hash req) (cq_stroops req) r" and ?l = "usdc_license now ids user req r p"
  let ?db = "(claimed_db now req db)\<lparr>licenses := licenses db @ [?l]\<rparr>"
  have issue: "confirm_issue ok (Some cd) now ids user req ?row (claimed_db now req db) = (?db, Issued (up_id r) (?l, token))"
    using assms(3-7)
    by (simp add: confirm_issue_def load_signer_def issue_for_owner_def usdc_license_def usdc_metadata_def Let_def)
  have run: "confirm_intent ok (Some cd) now ids user req db =
      (Ok (?l, token), ?db\<lparr>usdc_payments := row_upd up_id (usdc_payments ?db) (up_id r) (settle (fst ids))\<rparr>)"
    unfolding confirm_intent_confirmable [where ok = ok, OF assms(1,2,3,3)] after_claim_def issue
    using assms(3) by (simp add: usdc_license_def)
  have "intent_of (claimed_db now req db) (cq_memo req) = Some ?row"
    using assms(1) by (simp add: claimed_db_intent confirmable_def)
  then have "row_get up_memo (usdc_payments (claimed_db now req db)) (cq_memo req) = Some ?row"
    by (simp add: intent_of_def)
  then show ?thesis
    unfolding run by (simp add: intent_of_def row_upd_def row_get_update_where settle_def)
qed

theorem confirm_intent_issues_witness:
  "length (licenses (snd (confirm_intent (\<lambda>_. True) (Some demo_codec) 1000 (20, 21) ''9'' demo_confirm demo_market))) = 1"
proof -
  have "find_active_plan demo_market (up_plan demo_intent) (up_contract demo_intent) = Some demo_plan"
    by (simp add: find_active_plan_def demo_market_def demo_intent_def demo_plan_def)
  moreover have "row_get lic_id (licenses demo_market) (fst (20, 21)) = None"
    "row_get lic_jti (licenses demo_market) (snd (20, 21)) = None"
    by (simp_all add: demo_market_def row_get_def)
  moreover obtain token where "license_sign demo_codec (claims_for 1000 demo_plan
      (usdc_license 1000 (20, 21) ''9'' demo_confirm demo_intent demo_plan)) = Ok token"
    by (simp add: license_sign_def demo_codec_def Let_def)
  ultimately show ?thesis
    using confirm_intent_issues [of demo_market 1000 demo_confirm demo_intent "\<lambda>_. True" demo_plan "(20, 21)" demo_codec "''9''" token]
      demo_confirmable demo_unique
    by (simp add: demo_market_def)
qed

section \<open>A claim whose license was not issued\<close>

text \<open>
  An intent that is claimed, has no license and is not confirmed is lost: no confirmation can
  claim it again.
\<close>

definition intent_lost :: "market \<Rightarrow> string \<Rightarrow> bool" where
  "intent_lost db memo \<longleftrightarrow>
     memos_unique db \<and> (\<exists>r. intent_of db memo = Some r \<and> up_tx_hash r \<noteq> None)"

lemma lost_kept: "keeps_intents db db' \<Longrightarrow> intent_lost db memo \<Longrightarrow> intent_lost db' memo"
  unfolding keeps_intents_def intent_lost_def by metis

lemma lost_confirm:
  assumes lost: "intent_lost db (cq_memo req)"
  shows "\<not> is_ok (fst (confirm_intent ok sg now ids user req db)) \<and>
    licenses (snd (confirm_intent ok sg now ids user req db)) = licenses db \<and>
    intent_lost (snd (confirm_intent ok sg now ids user req db)) (cq_memo req)"
proof -
  obtain db1 pc where check: "confirm_check ok now req db = (db1, pc)"
    by (cases "confirm_check ok now req db")
  have lic: "licenses db1 = licenses db"
    using check by (auto simp: confirm_check_def split: if_splits option.splits)
  show ?thesis
  proof (rule confirm_check_cases [OF check])
    fix e
    assume pc: "pc = Answered (Err e)" and keeps: "keeps_intents db db1"
    then show ?thesis
      using confirm_intent_from_check [OF check [unfolded pc]] lic lost_kept [OF keeps lost] by simp
  next
    assume pc: "pc = Checked" and db1: "db1 = db"
    obtain db2 pc2 where claim: "confirm_claim ok now req db = (db2, pc2)"
      by (cases "confirm_claim ok now req db")
    have uniq: "memos_unique db" using lost by (simp add: intent_lost_def)
    show ?thesis
    proof (rule confirm_claim_cases [OF claim uniq])
      fix e
      assume pc2: "pc2 = Answered (Err e)" and db2: "db2 = db"
      have "confirm_intent ok sg now ids user req db = (Err e, db)"
        using confirm_intent_from_claim check claim pc db1 pc2 db2 by simp
      then show ?thesis using lost by simp
    next
      fix row r
      assume "intent_of db (cq_memo req) = Some r" "up_tx_hash r = None"
      then show ?thesis using lost by (simp add: intent_lost_def)
    qed
  qed
qed

text \<open>Confirmations of one memo, one after the other, each with its own faults, clock, caller and request.\<close>

record confirm_call =
  cc_ok :: "stmt \<Rightarrow> bool"
  cc_signer :: "codec option"
  cc_now :: time
  cc_ids :: "uuid \<times> uuid"
  cc_user :: string
  cc_request :: confirm_request

fun confirm_all :: "confirm_call list \<Rightarrow> market \<Rightarrow> (api_error + license \<times> string) list \<times> market" where
  "confirm_all [] db = ([], db)"
| "confirm_all (c # cs) db =
     (let (a, db1) = confirm_intent (cc_ok c) (cc_signer c) (cc_now c) (cc_ids c) (cc_user c) (cc_request c) db;
          (answers, db2) = confirm_all cs db1
      in (a # answers, db2))"

lemma lost_for_ever:
  assumes "intent_lost db memo" "\<forall>c \<in> set cs. cq_memo (cc_request c) = memo"
  shows "list_all (\<lambda>a. \<not> is_ok a) (fst (confirm_all cs db)) \<and> licenses (snd (confirm_all cs db)) = licenses db"
  using assms
proof (induction cs arbitrary: db)
  case (Cons c cs)
  obtain a db1 where step: "confirm_intent (cc_ok c) (cc_signer c) (cc_now c) (cc_ids c) (cc_user c) (cc_request c) db = (a, db1)"
    by fastforce
  have memo: "cq_memo (cc_request c) = memo" using Cons.prems(2) by simp
  have "\<not> is_ok a \<and> licenses db1 = licenses db \<and> intent_lost db1 memo"
    using lost_confirm [of db "cc_request c" "cc_ok c" "cc_signer c" "cc_now c" "cc_ids c" "cc_user c"] Cons.prems(1)
    unfolding memo step by simp
  moreover have "list_all (\<lambda>a. \<not> is_ok a) (fst (confirm_all cs db1)) \<and> licenses (snd (confirm_all cs db1)) = licenses db1"
    using Cons.IH [of db1] Cons.prems(2) calculation by simp
  ultimately show ?case by (simp add: step split_beta)
qed simp

text \<open>
  A payment can be taken without a license. When the confirmation has claimed the intent and the
  next statement fails, it answers with a server error; the claim stays. Every later confirmation of
  the memo, by whoever, whenever and with a database that works, is refused and issues nothing:
  the first was the only chance, and the retry that the scanner makes after a server error
  cannot help.
\<close>

theorem paid_intent_lost:
  assumes "confirmable db now req r" "memos_unique db" "ok Select_intent" "ok Claim_intent" "\<not> ok Select_plan"
    and "\<forall>c \<in> set cs. cq_memo (cc_request c) = cq_memo req"
  shows "fst (confirm_intent ok (Some cd) now ids user req db) = Err database_error \<and>
    (let db' = snd (confirm_intent ok (Some cd) now ids user req db) in
     list_all (\<lambda>a. \<not> is_ok a) (fst (confirm_all cs db')) \<and> licenses (snd (confirm_all cs db')) = licenses db)"
proof -
  have run: "confirm_intent ok (Some cd) now ids user req db = (Err database_error, claimed_db now req db)"
    unfolding confirm_intent_confirmable [where ok = ok, OF assms(1-4)] after_claim_def
    using assms(5) by (simp add: confirm_issue_def load_signer_def issue_for_owner_def)
  have "memos_unique (claimed_db now req db)"
    using assms(2) by (simp add: memos_unique_def claimed_db_def map_key_update_where)
  moreover have "intent_of (claimed_db now req db) (cq_memo req) = Some (claim (cq_tx_hash req) (cq_stroops req) r)"
    using assms(1) by (simp add: claimed_db_intent confirmable_def)
  ultimately have "intent_lost (claimed_db now req db) (cq_memo req)" by (simp add: intent_lost_def)
  from lost_for_ever [OF this assms(6)] show ?thesis unfolding run by (simp add: Let_def)
qed

theorem paid_intent_lost_witness:
  "fst (confirm_intent (\<lambda>s. s \<noteq> Select_plan) (Some demo_codec) 1000 (20, 21) ''9'' demo_confirm demo_market) =
     Err database_error \<and>
   licenses (snd (confirm_all
      [\<lparr>cc_ok = \<lambda>_. True, cc_signer = Some demo_codec, cc_now = 2000, cc_ids = (20, 21), cc_user = ''9'',
        cc_request = demo_confirm\<rparr>]
      (snd (confirm_intent (\<lambda>s. s \<noteq> Select_plan) (Some demo_codec) 1000 (20, 21) ''9'' demo_confirm demo_market)))) = []"
  using paid_intent_lost [OF demo_confirmable demo_unique, of "\<lambda>s. s \<noteq> Select_plan"
      "[\<lparr>cc_ok = \<lambda>_. True, cc_signer = Some demo_codec, cc_now = 2000, cc_ids = (20, 21), cc_user = ''9'',
         cc_request = demo_confirm\<rparr>]" demo_codec "(20, 21)" "''9''"]
  by (simp add: Let_def demo_market_def)

end
