(* ===== verification/Stripe_Payments.thy ===== *)
theory Stripe_Payments
  imports Marketplace
begin

text \<open>
  Payments by card: \<open>marketplace/stripe.rs\<close> and \<open>marketplace/stripe_handlers.rs\<close>. A checkout
  opens a session with Stripe and records it; Stripe then delivers signed events to the webhook,
  each at least once and again after every answer that is not a success. HMAC-SHA256, the JSON of
  the events and the answers of Stripe are inputs. The webhook is a thread of statements that commit
  one by one; \<open>FOR UPDATE\<close> locks nothing beyond its own statement, since there is no transaction.
  The columns that nothing reads (Stripe's payment intent and customer, the times of completion) are left out.
\<close>

section \<open>Webhook signatures\<close>

definition WEBHOOK_TIMESTAMP_TOLERANCE :: int where "WEBHOOK_TIMESTAMP_TOLERANCE = 300"

datatype stripe_error =
    Bad_signature_header | Signature_mismatch | Timestamp_skew

text \<open>The value of one hexadecimal digit, as \<open>u8::from_str_radix\<close> reads it.\<close>

definition hex_value :: "char \<Rightarrow> nat option" where
  "hex_value c =
     (let n = of_char c :: nat in
      if 48 \<le> n \<and> n \<le> 57 then Some (n - 48)
      else if 65 \<le> n \<and> n \<le> 70 then Some (n - 55)
      else if 97 \<le> n \<and> n \<le> 102 then Some (n - 87) else None)"

text \<open>Two characters as a byte; a leading plus sign is allowed, as Rust's parser does.\<close>

definition hex_byte :: "char \<Rightarrow> char \<Rightarrow> char option" where
  "hex_byte a b =
     (case (hex_value a, hex_value b) of
        (Some x, Some y) \<Rightarrow> Some (char_of (16 * x + y))
      | (None, Some y) \<Rightarrow> if a = CHR ''+'' then Some (char_of y) else None
      | _ \<Rightarrow> None)"

fun hex_decode :: "string \<Rightarrow> string option" where
  "hex_decode [] = Some []"
| "hex_decode [c] = None"
| "hex_decode (a # b # cs) =
     (case hex_byte a b of None \<Rightarrow> None | Some x \<Rightarrow> map_option (Cons x) (hex_decode cs))"

text \<open>The header \<open>t=...,v1=...,v1=...\<close>: the last \<open>t\<close> counts, and every \<open>v1\<close>.\<close>

fun read_parts :: "string list \<Rightarrow> int option \<Rightarrow> string list \<Rightarrow> int option \<times> string list" where
  "read_parts [] ts sigs = (ts, rev sigs)"
| "read_parts (p # ps) ts sigs =
     (let part = trim p in
      if starts_with part ''t='' then read_parts ps (parse_i64 (drop 2 part)) sigs
      else if starts_with part ''v1='' then read_parts ps ts (drop 3 part # sigs)
      else read_parts ps ts sigs)"

text \<open>
  The difference and its absolute value wrap at 64 bits, as in a release build. The comparison in
  constant time is equality.
\<close>

definition wrap_i64 :: "int \<Rightarrow> int" where
  "wrap_i64 n = (n + 2 ^ 63) mod 2 ^ 64 - 2 ^ 63"

definition constant_time_eq :: "string \<Rightarrow> string \<Rightarrow> bool" where
  "constant_time_eq a b \<longleftrightarrow>
     length a = length b \<and> fold (\<lambda>(x, y) diff. diff \<or> x \<noteq> y) (zip a b) False = False"

definition verify_webhook_signature ::
  "(string \<Rightarrow> string \<Rightarrow> string) \<Rightarrow> string \<Rightarrow> string \<Rightarrow> string \<Rightarrow> time \<Rightarrow> stripe_error + unit" where
  "verify_webhook_signature hmac payload header webhook_secret now =
     (case read_parts (split_on CHR '','' header) None [] of
        (None, _) \<Rightarrow> Err Bad_signature_header
      | (Some ts, sigs) \<Rightarrow>
          if sigs = [] then Err Bad_signature_header
          else if WEBHOOK_TIMESTAMP_TOLERANCE < wrap_i64 (abs (wrap_i64 (now div 1000000 - ts)))
          then Err Timestamp_skew
          else
            let expected = hmac webhook_secret (show_i64 ts @ ''.'' @ payload)
            in if list_ex (\<lambda>sig. case hex_decode sig of
                             None \<Rightarrow> False
                           | Some bytes \<Rightarrow> length bytes = length expected \<and> constant_time_eq bytes expected) sigs
               then Ok () else Err Signature_mismatch)"

section \<open>Checkout\<close>

record checkout_session =
  cs_id :: string
  cs_url :: "string option"

text \<open>The answer of Stripe: a failure is \<open>None\<close> for the HTTP error and the others that map to 500.\<close>

datatype stripe_answer = Session checkout_session | Api_failure nat | Http_failure

definition map_stripe_error :: "stripe_answer \<Rightarrow> api_error" where
  "map_stripe_error a =
     (case a of
        Api_failure st \<Rightarrow>
          if 400 \<le> st \<and> st < 500 then Api_error 400 ''stripe_rejected'' else Api_error 500 ''stripe_error''
      | _ \<Rightarrow> Api_error 500 ''stripe_error'')"

definition checkout_mode :: "string \<Rightarrow> string" where
  "checkout_mode period = (if period = ''monthly'' then ''subscription'' else ''payment'')"

record session_params =
  se_payment :: string
  se_contract :: string
  se_plan :: string
  se_payer :: string
  se_cents :: int
  se_currency :: string
  se_period :: string
  se_product :: string
  se_success :: string
  se_cancel :: string
  se_email :: "string option"

text \<open>The form that Stripe is sent, with the metadata that comes back in the events of the session.\<close>

definition session_form :: "session_params \<Rightarrow> (string \<times> string) list" where
  "session_form p =
     (let mode = checkout_mode (se_period p) in
      [(''mode'', mode), (''success_url'', se_success p), (''cancel_url'', se_cancel p),
       (''line_items[0][quantity]'', ''1''),
       (''line_items[0][price_data][currency]'', ascii_lower (se_currency p)),
       (''line_items[0][price_data][unit_amount]'', show_i64 (se_cents p)),
       (''line_items[0][price_data][product_data][name]'', se_product p)] @
      (if mode = ''subscription'' then [(''line_items[0][price_data][recurring][interval]'', ''month'')] else []) @
      (case se_email p of Some email \<Rightarrow> [(''customer_email'', email)] | None \<Rightarrow> []) @
      [(''metadata[payment_id]'', se_payment p), (''metadata[contract_id]'', se_contract p),
       (''metadata[plan_id]'', se_plan p), (''metadata[payer_id]'', se_payer p)])"

record checkout_request =
  kq_plan :: uuid
  kq_success :: string
  kq_cancel :: string
  kq_email :: "string option"

text \<open>\<open>show_uuid\<close> is the text of an identifier and \<open>stripe\<close> what Stripe answers to a form.\<close>

definition create_checkout ::
  "(stmt \<Rightarrow> bool) \<Rightarrow> bool \<Rightarrow> ((string \<times> string) list \<Rightarrow> stripe_answer) \<Rightarrow> (uuid \<Rightarrow> string) \<Rightarrow> uuid \<Rightarrow> uuid \<Rightarrow> uuid \<Rightarrow>
   checkout_request \<Rightarrow> market \<Rightarrow> (api_error + string) \<times> market" where
  "create_checkout ok configured stripe show_uuid new_id user contract req db =
     (if \<not> ok Select_plan then (Err database_error, db)
      else case find_active_plan db (kq_plan req) contract of
        None \<Rightarrow> (Err (Api_error 404 ''plan_not_found''), db)
      | Some p \<Rightarrow>
          if price_cents p = 0 then (Err (Api_error 400 ''BAD_REQUEST''), db)
          else if \<not> configured then (Err (Api_error 503 ''stripe_unconfigured''), db)
          else
            let params = \<lparr>se_payment = show_uuid new_id, se_contract = show_uuid contract,
                          se_plan = show_uuid (plan_id p), se_payer = show_uuid user,
                          se_cents = price_cents p, se_currency = currency p, se_period = billing_period p,
                          se_product = plan_name p @ '' access'', se_success = kq_success req,
                          se_cancel = kq_cancel req, se_email = kq_email req\<rparr>
            in case stripe (session_form params) of
                 Session s \<Rightarrow>
                   (case cs_url s of
                      None \<Rightarrow> (Err (Api_error 500 ''stripe_no_url''), db)
                    | Some url \<Rightarrow>
                        if \<not> ok Insert_stripe_payment \<or> row_get sp_id (stripe_payments db) new_id \<noteq> None \<or>
                           row_get sp_session (stripe_payments db) (cs_id s) \<noteq> None
                        then (Err database_error, db)
                        else (Ok url,
                              db\<lparr>stripe_payments := stripe_payments db @
                                  [\<lparr>sp_id = new_id, sp_contract = contract, sp_plan = plan_id p, sp_payer = user,
                                    sp_session = cs_id s, sp_cents = price_cents p, sp_currency = currency p,
                                    sp_status = ''pending'', sp_license = None\<rparr>]\<rparr>))
               | e \<Rightarrow> (Err (map_stripe_error e), db))"

section \<open>The webhook\<close>

text \<open>
  An event: its object decodes to a session or not (\<open>None\<close>); of the session the handler reads the
  payment identifier in the metadata, as text that may be missing or no UUID.
\<close>

record session_payload =
  ss_id :: string
  ss_payment :: "string option"

record webhook_event =
  ev_id :: string
  ev_type :: string
  ev_object :: "session_payload option"

datatype webhook_pc =
    W_start webhook_event
  | W_recorded webhook_event
  | W_found webhook_event session_payload stripe_payment
  | W_issued webhook_event stripe_payment license
  | W_completed webhook_event stripe_payment
  | W_answered "api_error + unit"

definition read_payment_id :: "(string \<Rightarrow> uuid option) \<Rightarrow> webhook_event \<Rightarrow> api_error + session_payload \<times> uuid" where
  "read_payment_id parse_uuid ev =
     (case ev_object ev of
        None \<Rightarrow> Err (Api_error 400 ''malformed_session'')
      | Some s \<Rightarrow>
          (case ss_payment s of
             None \<Rightarrow> Err (Api_error 400 ''missing_metadata'')
           | Some text \<Rightarrow>
               (case parse_uuid text of
                  None \<Rightarrow> Err (Api_error 400 ''bad_metadata'')
                | Some pid \<Rightarrow> Ok (s, pid))))"

definition complete :: "uuid \<Rightarrow> stripe_payment \<Rightarrow> stripe_payment" where
  "complete lic r = r\<lparr>sp_status := ''completed'', sp_license := Some lic\<rparr>"

definition link :: "uuid \<Rightarrow> webhook_row \<Rightarrow> webhook_row" where
  "link pid r = r\<lparr>wr_payment := Some pid\<rparr>"

fun webhook_step ::
  "(stmt \<Rightarrow> bool) \<Rightarrow> codec option \<Rightarrow> (string \<Rightarrow> uuid option) \<Rightarrow> time \<Rightarrow> uuid \<times> uuid \<Rightarrow> market \<Rightarrow> webhook_pc \<Rightarrow>
   market \<times> webhook_pc" where
  "webhook_step ok sg parse_uuid now ids db (W_start ev) =
     (if \<not> ok Insert_event then (db, W_answered (Err database_error))
      else if row_get wr_event (webhook_events db) (ev_id ev) \<noteq> None then (db, W_answered (Ok ()))
      else
        let db' = db\<lparr>webhook_events := webhook_events db @
                       [\<lparr>wr_event = ev_id ev, wr_type = ev_type ev, wr_payment = None\<rparr>]\<rparr>
        in if ev_type ev = ''checkout.session.completed'' then (db', W_recorded ev)
           else (db', W_answered (Ok ())))"
| "webhook_step ok sg parse_uuid now ids db (W_recorded ev) =
     (case read_payment_id parse_uuid ev of
        Inl e \<Rightarrow> (db, W_answered (Err e))
      | Inr (s, pid) \<Rightarrow>
          if \<not> ok Select_stripe_payment then (db, W_answered (Err database_error))
          else (case row_get sp_id (stripe_payments db) pid of
                  None \<Rightarrow> (db, W_answered (Err (Api_error 404 ''payment_not_found'')))
                | Some p \<Rightarrow> if sp_license p \<noteq> None then (db, W_answered (Ok ())) else (db, W_found ev s p)))"
| "webhook_step ok sg parse_uuid now ids db (W_found ev s p) =
     (case load_signer sg of
        Inl e \<Rightarrow> (db, W_answered (Err e))
      | Inr cd \<Rightarrow>
          (case issue_for_owner ok cd now ids (sp_contract p) (sp_plan p) (sp_payer p)
                  [(''source'', ''stripe''), (''stripe_session_id'', ss_id s), (''stripe_event_id'', ev_id ev)] db of
             (Inl e, db') \<Rightarrow> (db', W_answered (Err e))
           | (Inr (l, _), db') \<Rightarrow> (db', W_issued ev p l)))"
| "webhook_step ok sg parse_uuid now ids db (W_issued ev p l) =
     (if \<not> ok Complete_payment then (db, W_answered (Err database_error))
      else (db\<lparr>stripe_payments := row_upd sp_id (stripe_payments db) (sp_id p) (complete (lic_id l))\<rparr>, W_completed ev p))"
| "webhook_step ok sg parse_uuid now ids db (W_completed ev p) =
     (if \<not> ok Link_event then (db, W_answered (Err database_error))
      else (db\<lparr>webhook_events := row_upd wr_event (webhook_events db) (ev_id ev) (link (sp_id p))\<rparr>, W_answered (Ok ())))"
| "webhook_step ok sg parse_uuid now ids db (W_answered r) = (db, W_answered r)"

text \<open>A delivery that runs without interruption: five steps answer it.\<close>

definition run_webhook ::
  "(stmt \<Rightarrow> bool) \<Rightarrow> codec option \<Rightarrow> (string \<Rightarrow> uuid option) \<Rightarrow> time \<Rightarrow> uuid \<times> uuid \<Rightarrow> webhook_event \<Rightarrow> market \<Rightarrow>
   (api_error + unit) \<times> market" where
  "run_webhook ok sg parse_uuid now ids ev db =
     (let step = (\<lambda>(db, pc). webhook_step ok sg parse_uuid now ids db pc);
          (db', pc) = (step ^^ 5) (db, W_start ev)
      in (case pc of W_answered r \<Rightarrow> r | _ \<Rightarrow> Err database_error, db'))"

text \<open>The handler: the secret, the header and the signature first, then the event.\<close>

definition webhook ::
  "(stmt \<Rightarrow> bool) \<Rightarrow> codec option \<Rightarrow> (string \<Rightarrow> uuid option) \<Rightarrow> (string \<Rightarrow> string \<Rightarrow> string) \<Rightarrow>
   (string \<Rightarrow> webhook_event option) \<Rightarrow> time \<Rightarrow> uuid \<times> uuid \<Rightarrow> string option \<Rightarrow> string option \<Rightarrow> string \<Rightarrow> market \<Rightarrow>
   (api_error + unit) \<times> market" where
  "webhook ok sg parse_uuid hmac parse_event now ids secret header body db =
     (case secret of
        None \<Rightarrow> (Err (Api_error 503 ''stripe_webhook_unconfigured''), db)
      | Some key \<Rightarrow>
          (case header of
             None \<Rightarrow> (Err (Api_error 400 ''missing_signature''), db)
           | Some h \<Rightarrow>
               (case verify_webhook_signature hmac body h key now of
                  Inl _ \<Rightarrow> (Err (Api_error 400 ''invalid_signature''), db)
                | Inr _ \<Rightarrow>
                    (case parse_event body of
                       None \<Rightarrow> (Err (Api_error 400 ''malformed_event''), db)
                     | Some ev \<Rightarrow> run_webhook ok sg parse_uuid now ids ev db))))"

section \<open>Signatures\<close>

lemma fold_differs: "fold (\<lambda>(x, y) diff. diff \<or> x \<noteq> y) xys d \<longleftrightarrow> d \<or> (\<exists>(x, y) \<in> set xys. x \<noteq> y)"
  by (induction xys arbitrary: d) auto

lemma constant_time_eq_iff: "constant_time_eq a b \<longleftrightarrow> a = b"
proof
  assume "constant_time_eq a b"
  then have "length a = length b" "\<forall>(x, y) \<in> set (zip a b). x = y"
    unfolding constant_time_eq_def fold_differs by auto
  then show "a = b" by (induction rule: list_induct2) auto
qed (auto simp: constant_time_eq_def fold_differs set_zip)

lemma wrap_i64_small:
  assumes "- (2 ^ 63) \<le> n" "n < 2 ^ 63"
  shows "wrap_i64 n = n"
  using assms by (simp add: wrap_i64_def)

text \<open>The difference of two instants, of which the clock is not before the epoch, wraps at most once.\<close>

lemma drift_bound:
  fixes s ts :: int
  assumes "0 \<le> s" "s < 2 ^ 62" "- (2 ^ 63) \<le> ts" "ts < 2 ^ 63" "wrap_i64 (abs (wrap_i64 (s - ts))) \<le> 300"
  shows "\<bar>s - ts\<bar> \<le> 300 \<or> s - ts = 2 ^ 63 \<or> 2 ^ 64 - 300 \<le> s - ts"
proof (cases "s - ts < 2 ^ 63")
  case True
  then have "wrap_i64 (s - ts) = s - ts" using assms by (intro wrap_i64_small) auto
  moreover have "wrap_i64 \<bar>s - ts\<bar> = \<bar>s - ts\<bar>" using assms True by (intro wrap_i64_small) auto
  ultimately show ?thesis using assms(5) by simp
next
  case False
  then have "(s - ts + 2 ^ 63) mod 2 ^ 64 = s - ts + 2 ^ 63 - 2 ^ 64"
    using assms by (subst mod_pos_geq) (auto simp: mod_pos_pos_trivial)
  then have w: "wrap_i64 (s - ts) = s - ts - 2 ^ 64" by (simp add: wrap_i64_def)
  show ?thesis
  proof (cases "s - ts = 2 ^ 63")
    case False
    then have "wrap_i64 \<bar>s - ts - 2 ^ 64\<bar> = 2 ^ 64 - (s - ts)"
      using assms \<open>\<not> s - ts < 2 ^ 63\<close> by (subst wrap_i64_small) auto
    then show ?thesis using assms(5) w by auto
  qed simp
qed

lemma read_parts_ts:
  assumes "read_parts ps t0 sigs = (Some ts, sigs')" "\<And>t. t0 = Some t \<Longrightarrow> - (2 ^ 63) \<le> t \<and> t < 2 ^ 63"
  shows "- (2 ^ 63) \<le> ts \<and> ts < 2 ^ 63"
  using assms
proof (induction ps t0 sigs rule: read_parts.induct)
  case (1 t0 sigs)
  then show ?case by simp
next
  case (2 p ps t0 sigs)
  have parsed: "parse_i64 s = Some t \<Longrightarrow> - (2 ^ 63) \<le> t \<and> t < 2 ^ 63" for s t
    by (auto simp: parse_i64_def Let_def split: list.splits if_splits)
  show ?case
  proof (cases "starts_with (trim p) ''t=''")
    case True
    have "read_parts ps (parse_i64 (drop 2 (trim p))) sigs = (Some ts, sigs')"
      using 2(4) True by (simp add: Let_def)
    from 2(1) [OF refl True this parsed] show ?thesis .
  next
    case t: False
    show ?thesis
    proof (cases "starts_with (trim p) ''v1=''")
      case True
      then have "read_parts ps t0 (drop 3 (trim p) # sigs) = (Some ts, sigs')" using 2(4) t by (simp add: Let_def)
      from 2(2) [OF refl t True this 2(5)] show ?thesis .
    next
      case False
      then have "read_parts ps t0 sigs = (Some ts, sigs')" using 2(4) t by (simp add: Let_def)
      from 2(3) [OF refl t False this 2(5)] show ?thesis .
    qed
  qed
qed

text \<open>
  An accepted webhook was signed. The header then names an instant \<open>ts\<close> and a digest that is the
  HMAC, under the webhook secret, of \<open>ts\<close>, a dot and exactly the payload received, and \<open>ts\<close> is
  within five minutes of the clock, unless it lies so far in the past (\<open>2 ^ 63\<close> seconds) that the
  difference wraps around.
\<close>

theorem accepted_webhook_signed:
  assumes "verify_webhook_signature hmac payload header webhook_secret now = Ok ()"
    and "0 \<le> now" "now < 2 ^ 62"
  shows "\<exists>ts sigs sig. read_parts (split_on CHR '','' header) None [] = (Some ts, sigs) \<and> sig \<in> set sigs \<and>
    hex_decode sig = Some (hmac webhook_secret (show_i64 ts @ ''.'' @ payload)) \<and>
    (\<bar>now div 1000000 - ts\<bar> \<le> 300 \<or> 2 ^ 63 \<le> now div 1000000 - ts)"
proof -
  let ?s = "now div 1000000"
  obtain ts sigs where read: "read_parts (split_on CHR '','' header) None [] = (Some ts, sigs)"
    using assms(1) by (auto simp: verify_webhook_signature_def split: prod.splits option.splits)
  have ok: "wrap_i64 (abs (wrap_i64 (?s - ts))) \<le> 300"
    and some: "\<exists>sig \<in> set sigs. hex_decode sig = Some (hmac webhook_secret (show_i64 ts @ ''.'' @ payload))"
    using assms(1) read
    by (auto simp: verify_webhook_signature_def WEBHOOK_TIMESTAMP_TOLERANCE_def constant_time_eq_iff list_ex_iff Let_def
        split: if_splits option.splits)
  have "?s \<le> now" using zdiv_mono2 [OF assms(2), of 1 1000000] by simp
  moreover have "0 \<le> ?s" using assms(2) by (simp add: pos_imp_zdiv_nonneg_iff)
  ultimately have "0 \<le> ?s" "?s < 2 ^ 62" using assms(3) by linarith+
  from drift_bound [OF this _ _ ok] read_parts_ts [OF read] have "\<bar>?s - ts\<bar> \<le> 300 \<or> 2 ^ 63 \<le> ?s - ts"
    by fastforce
  with read some show ?thesis by blast
qed

theorem accepted_webhook_signed_witness:
  "\<exists>ts sigs sig. read_parts (split_on CHR '','' ''t=5,v1=4142'') None [] = (Some ts, sigs) \<and> sig \<in> set sigs \<and>
    hex_decode sig = Some ''AB'' \<and> (\<bar>100 - ts\<bar> \<le> 300 \<or> 2 ^ 63 \<le> 100 - ts)"
proof -
  have "verify_webhook_signature (\<lambda>_ _. ''AB'') ''{}'' ''t=5,v1=4142'' ''whsec'' 100000000 = Ok ()" by code_simp
  from accepted_webhook_signed [OF this] show ?thesis by simp
qed

section \<open>Deliveries\<close>

lemma run_webhook_unfold:
  "run_webhook ok sg parse_uuid now ids ev db =
     (let step = (\<lambda>(db, pc). webhook_step ok sg parse_uuid now ids db pc);
          (db', pc) = step (step (step (step (step (db, W_start ev)))))
      in (case pc of W_answered r \<Rightarrow> r | _ \<Rightarrow> Err database_error, db'))"
  by (simp add: run_webhook_def eval_nat_numeral)

text \<open>An event that is in the table is answered at once, whatever became of its first delivery.\<close>

lemma recorded_event:
  "row_get wr_event (webhook_events db) (ev_id ev) \<noteq> None \<Longrightarrow>
   run_webhook ok sg parse_uuid now ids ev db = (if ok Insert_event then Ok () else Err database_error, db)"
  by (simp add: run_webhook_unfold)

lemma issue_keeps_events [simp]:
  "webhook_events (snd (issue_for_owner ok cd now ids contract pid owner meta db)) = webhook_events db"
  by (simp add: issue_for_owner_def Let_def split: option.split sum.split)

definition event_recorded :: "market \<Rightarrow> webhook_event \<Rightarrow> bool" where
  "event_recorded db ev \<longleftrightarrow> row_get wr_event (webhook_events db) (ev_id ev) \<noteq> None"

fun event_of :: "webhook_pc \<Rightarrow> webhook_event option" where
  "event_of (W_start ev) = None"
| "event_of (W_recorded ev) = Some ev"
| "event_of (W_found ev s p) = Some ev"
| "event_of (W_issued ev p l) = Some ev"
| "event_of (W_completed ev p) = Some ev"
| "event_of (W_answered r) = None"

lemma webhook_step_keeps_events:
  assumes "webhook_step ok sg parse_uuid now ids db pc = (db', pc')" "event_recorded db ev"
  shows "event_recorded db' ev"
proof (cases pc)
  case (W_found ev' s p)
  show ?thesis
  proof (cases "load_signer sg")
    case (Inr cd)
    let ?r = "issue_for_owner ok cd now ids (sp_contract p) (sp_plan p) (sp_payer p)
      [(''source'', ''stripe''), (''stripe_session_id'', ss_id s), (''stripe_event_id'', ev_id ev')] db"
    obtain e db1 where r: "?r = (e, db1)" by (cases ?r)
    then have "webhook_events db1 = webhook_events db" using issue_keeps_events by (metis snd_conv)
    moreover have "db' = db1" using assms(1) unfolding W_found webhook_step.simps Inr sum.case r
      by (auto split: sum.splits)
    ultimately show ?thesis using assms(2) by (simp add: event_recorded_def)
  qed (use assms W_found in auto)
next
  case (W_completed ev' p)
  then show ?thesis
    using assms by (auto simp: event_recorded_def row_upd_def row_get_update_where link_def split: if_splits)
qed (use assms in \<open>auto simp: event_recorded_def row_get_append Let_def split: if_splits sum.splits option.splits\<close>)

lemma first_step_records:
  assumes "webhook_step ok sg parse_uuid now ids db (W_start ev) = (db', pc')" "ok Insert_event"
  shows "event_recorded db' ev"
  using assms by (auto simp: event_recorded_def row_get_append Let_def split: if_splits option.splits)

text \<open>
  C33. Deliveries are processed once. When a delivery reached the table of events, every later
  delivery of the event, with whatever faults of its own, changes nothing: in particular it
  issues no second license.
\<close>

theorem webhook_processed_once:
  assumes "ok Insert_event"
  shows "snd (run_webhook ok2 sg2 parse_uuid now2 ids2 ev (snd (run_webhook ok sg parse_uuid now ids ev db))) =
    snd (run_webhook ok sg parse_uuid now ids ev db)"
proof -
  let ?step = "webhook_step ok sg parse_uuid now ids"
  obtain db1 pc1 where 1: "?step db (W_start ev) = (db1, pc1)" by fastforce
  obtain db2 pc2 where 2: "?step db1 pc1 = (db2, pc2)" by fastforce
  obtain db3 pc3 where 3: "?step db2 pc2 = (db3, pc3)" by fastforce
  obtain db4 pc4 where 4: "?step db3 pc3 = (db4, pc4)" by fastforce
  obtain db5 pc5 where 5: "?step db4 pc4 = (db5, pc5)" by fastforce
  have "snd (run_webhook ok sg parse_uuid now ids ev db) = db5"
    unfolding run_webhook_unfold Let_def split_beta using 1 2 3 4 5 by (simp del: webhook_step.simps)
  moreover have "event_recorded db5 ev"
    using webhook_step_keeps_events [OF 5 webhook_step_keeps_events [OF 4 webhook_step_keeps_events [OF 3
      webhook_step_keeps_events [OF 2 first_step_records [OF 1 assms]]]]] .
  ultimately show ?thesis using recorded_event by (simp add: event_recorded_def)
qed

text \<open>
  A payment by card can be taken without a license. The event is recorded before it is handled.
  When a later statement of the handler fails, here the look-up of the plan, the webhook
  answers with a server error and Stripe delivers the event again; every such delivery is answered
  with success and does nothing, so the license of the completed checkout is never issued.
\<close>

theorem failed_webhook_not_retried:
  assumes "row_get wr_event (webhook_events db) (ev_id ev) = None" "ev_type ev = ''checkout.session.completed''"
    and "read_payment_id parse_uuid ev = Ok (s, pid)" "row_get sp_id (stripe_payments db) pid = Some p" "sp_license p = None"
    and "ok Insert_event" "ok Select_stripe_payment" "\<not> ok Select_plan" "ok2 Insert_event"
  shows "fst (run_webhook ok (Some cd) parse_uuid now ids ev db) = Err database_error \<and>
    (let db' = snd (run_webhook ok (Some cd) parse_uuid now ids ev db) in
     licenses db' = licenses db \<and> run_webhook ok2 sg2 parse_uuid now2 ids2 ev db' = (Ok (), db'))"
proof -
  let ?db = "db\<lparr>webhook_events := webhook_events db @ [\<lparr>wr_event = ev_id ev, wr_type = ev_type ev, wr_payment = None\<rparr>]\<rparr>"
  have run: "run_webhook ok (Some cd) parse_uuid now ids ev db = (Err database_error, ?db)"
    using assms by (simp add: run_webhook_unfold load_signer_def issue_for_owner_def)
  have "row_get wr_event (webhook_events ?db) (ev_id ev) \<noteq> None"
    by (simp add: row_get_append split: option.split)
  from recorded_event [OF this, of ok2 sg2 parse_uuid now2 ids2] assms(9) show ?thesis
    unfolding run by (simp add: Let_def)
qed

section \<open>Two deliveries at once\<close>

text \<open>Several deliveries, of which the schedule moves one at a time, each by a statement.\<close>

fun webhook_schedule ::
  "codec option \<Rightarrow> (string \<Rightarrow> uuid option) \<Rightarrow> time \<Rightarrow> (nat \<times> uuid \<times> uuid) list \<Rightarrow> market \<times> (nat \<Rightarrow> webhook_pc) \<Rightarrow>
   market \<times> (nat \<Rightarrow> webhook_pc)" where
  "webhook_schedule sg parse_uuid now [] st = st"
| "webhook_schedule sg parse_uuid now ((i, ids) # sched) (db, pcs) =
     (let (db', pc') = webhook_step (\<lambda>_. True) sg parse_uuid now ids db (pcs i)
      in webhook_schedule sg parse_uuid now sched (db', pcs(i := pc')))"

text \<open>The statements of two deliveries that take turns; the last component of a step is its identifiers.\<close>

definition taking_turns :: "uuid \<times> uuid \<Rightarrow> uuid \<times> uuid \<Rightarrow> (nat \<times> uuid \<times> uuid) list" where
  "taking_turns a b = [(0, a), (1, b), (0, a), (1, b), (0, a), (1, b)]"

definition stripe_license :: "time \<Rightarrow> uuid \<times> uuid \<Rightarrow> webhook_event \<Rightarrow> session_payload \<Rightarrow> stripe_payment \<Rightarrow> plan \<Rightarrow> license" where
  "stripe_license now ids ev s p pl =
     \<lparr>lic_id = fst ids, lic_jti = snd ids, lic_contract = sp_contract p, lic_plan = plan_id pl, lic_owner = sp_payer p,
      issued_at = now, expires_at = plan_expiry now pl, revoked_at = None, lic_status = ''active'',
      lic_metadata = [(''source'', ''stripe''), (''stripe_session_id'', ss_id s), (''stripe_event_id'', ev_id ev)]\<rparr>"

text \<open>
  Two events of one checkout issue two licenses. The row of the payment is read \<open>FOR UPDATE\<close>, but
  outside a transaction, so the lock is gone when the statement is; two deliveries that read the
  row before either writes it both find no license and both issue one. The second look that the
  handler calls defence in depth does not see the other delivery.
\<close>

theorem two_events_two_licenses:
  assumes "ev_id e1 \<noteq> ev_id e2"
    and "row_get wr_event (webhook_events db) (ev_id e1) = None" "row_get wr_event (webhook_events db) (ev_id e2) = None"
    and "ev_type e1 = ''checkout.session.completed''" "ev_type e2 = ''checkout.session.completed''"
    and "read_payment_id parse_uuid e1 = Ok (s1, pid)" "read_payment_id parse_uuid e2 = Ok (s2, pid)"
    and "row_get sp_id (stripe_payments db) pid = Some p" "sp_license p = None"
    and "find_active_plan db (sp_plan p) (sp_contract p) = Some pl"
    and "row_get lic_id (licenses db) i = None" "row_get lic_jti (licenses db) j = None"
    and "row_get lic_id (licenses db) i' = None" "row_get lic_jti (licenses db) j' = None" "i \<noteq> i'" "j \<noteq> j'"
    and "\<And>c. is_ok (license_sign cd c)"
  shows "licenses (fst (webhook_schedule (Some cd) parse_uuid now (taking_turns (i, j) (i', j'))
      (db, (\<lambda>_. W_start e2)(0 := W_start e1)))) =
    licenses db @ [stripe_license now (i, j) e1 s1 p pl, stripe_license now (i', j') e2 s2 p pl]"
proof -
  let ?row = "\<lambda>e. \<lparr>wr_event = ev_id e, wr_type = ev_type e, wr_payment = None\<rparr>"
  let ?db1 = "db\<lparr>webhook_events := webhook_events db @ [?row e1]\<rparr>"
  let ?db2 = "db\<lparr>webhook_events := webhook_events db @ [?row e1, ?row e2]\<rparr>"
  let ?l1 = "stripe_license now (i, j) e1 s1 p pl" and ?l2 = "stripe_license now (i', j') e2 s2 p pl"
  have a: "webhook_step (\<lambda>_. True) (Some cd) parse_uuid now (i, j) db (W_start e1) = (?db1, W_recorded e1)"
    using assms(2,4) by simp
  have b: "webhook_step (\<lambda>_. True) (Some cd) parse_uuid now (i', j') ?db1 (W_start e2) = (?db2, W_recorded e2)"
    using assms(1,3,5) by (simp add: row_get_append)
  have c: "webhook_step (\<lambda>_. True) (Some cd) parse_uuid now ids ?db2 (W_recorded e1) = (?db2, W_found e1 s1 p)"
    "webhook_step (\<lambda>_. True) (Some cd) parse_uuid now ids ?db2 (W_recorded e2) = (?db2, W_found e2 s2 p)" for ids
    using assms(6-9) by simp_all
  have plan: "find_active_plan (db\<lparr>webhook_events := es, licenses := ls\<rparr>) = find_active_plan db" for es ls
    by (intro ext) (simp add: find_active_plan_def)
  have plan': "find_active_plan ?db2 = find_active_plan db" by (intro ext) (simp add: find_active_plan_def)
  have d: "webhook_step (\<lambda>_. True) (Some cd) parse_uuid now (i, j) ?db2 (W_found e1 s1 p) =
      (?db2\<lparr>licenses := licenses db @ [?l1]\<rparr>, W_issued e1 p ?l1)"
    using assms(10-12) assms(17) [of "claims_for now pl ?l1"]
    by (cases "license_sign cd (claims_for now pl ?l1)")
      (simp_all add: plan' load_signer_def issue_for_owner_def stripe_license_def Let_def)
  have e: "\<exists>db' pc'. webhook_step (\<lambda>_. True) (Some cd) parse_uuid now (i', j') (?db2\<lparr>licenses := licenses db @ [?l1]\<rparr>)
      (W_found e2 s2 p) = (db', pc') \<and> licenses db' = licenses db @ [?l1, ?l2]"
    using assms(10,13-16) assms(17) [of "claims_for now pl ?l2"]
    by (cases "license_sign cd (claims_for now pl ?l2)")
      (simp_all add: plan load_signer_def issue_for_owner_def stripe_license_def row_get_append Let_def)
  then show ?thesis
    unfolding taking_turns_def
    by (auto simp only: webhook_schedule.simps Let_def a b c d split_conv fun_upd_apply simp_thms if_True if_False
        one_neq_zero zero_neq_one fst_conv)
qed

text \<open>A market with a pending checkout, and two events of it.\<close>

definition demo_stripe :: stripe_payment where
  "demo_stripe = \<lparr>sp_id = 5, sp_contract = 7, sp_plan = 1, sp_payer = 3, sp_session = ''cs'', sp_cents = 2999,
     sp_currency = ''USD'', sp_status = ''pending'', sp_license = None\<rparr>"

definition demo_checkout_market :: market where
  "demo_checkout_market =
     \<lparr>contract_owner = (\<lambda>c. if c = 7 then Some 2 else None),
      plans = [\<lparr>plan_id = 1, plan_contract = 7, plan_name = ''Pro'', description = None, price_cents = 2999,
                currency = ''USD'', billing_period = ''one_time'', call_quota = None, features = ''[]'', is_active = True\<rparr>],
      licenses = [], usage_events = [], usdc_payments = [], stripe_payments = [demo_stripe], webhook_events = []\<rparr>"

definition demo_signer :: codec where
  "demo_signer =
     \<lparr>b64 = id, unb64 = Some, header_text = ''h'', header_alg = (\<lambda>_. Some (Some ''EdDSA'')),
      claims_text = (\<lambda>_. Some ''c''), claims_of = (\<lambda>_. None), ed_sign = (\<lambda>_. ''s''), ed_verify = (\<lambda>_ _. True)\<rparr>"

definition demo_event :: "string \<Rightarrow> webhook_event" where
  "demo_event i = \<lparr>ev_id = i, ev_type = ''checkout.session.completed'', ev_object = Some \<lparr>ss_id = ''cs'', ss_payment = Some ''p5''\<rparr>\<rparr>"

definition demo_uuid :: "string \<Rightarrow> uuid option" where
  "demo_uuid s = (if s = ''p5'' then Some 5 else None)"

theorem webhook_processed_once_witness:
  "licenses (snd (run_webhook (\<lambda>_. True) (Some demo_signer) demo_uuid 2 (22, 23) (demo_event ''e1'')
     (snd (run_webhook (\<lambda>_. True) (Some demo_signer) demo_uuid 1 (20, 21) (demo_event ''e1'') demo_checkout_market)))) =
   licenses (snd (run_webhook (\<lambda>_. True) (Some demo_signer) demo_uuid 1 (20, 21) (demo_event ''e1'') demo_checkout_market))"
  by (subst webhook_processed_once) simp_all

theorem failed_webhook_not_retried_witness:
  "fst (run_webhook (\<lambda>s. s \<noteq> Select_plan) (Some demo_signer) demo_uuid 1 (20, 21) (demo_event ''e1'') demo_checkout_market) =
     Err database_error \<and>
   fst (run_webhook (\<lambda>_. True) (Some demo_signer) demo_uuid 2 (22, 23) (demo_event ''e1'')
     (snd (run_webhook (\<lambda>s. s \<noteq> Select_plan) (Some demo_signer) demo_uuid 1 (20, 21) (demo_event ''e1'') demo_checkout_market))) =
     Ok ()"
proof -
  have "row_get wr_event (webhook_events demo_checkout_market) (ev_id (demo_event ''e1'')) = None"
    "ev_type (demo_event ''e1'') = ''checkout.session.completed''"
    "read_payment_id demo_uuid (demo_event ''e1'') = Ok (\<lparr>ss_id = ''cs'', ss_payment = Some ''p5''\<rparr>, 5)"
    "row_get sp_id (stripe_payments demo_checkout_market) 5 = Some demo_stripe" "sp_license demo_stripe = None"
    by (simp_all add: row_get_def demo_checkout_market_def demo_event_def read_payment_id_def demo_uuid_def demo_stripe_def)
  from failed_webhook_not_retried [OF this, of "\<lambda>s. s \<noteq> Select_plan" "\<lambda>_. True" demo_signer 1 "(20, 21)" "Some demo_signer" 2 "(22, 23)"]
  show ?thesis by (simp add: Let_def)
qed

theorem two_events_two_licenses_witness:
  "length (licenses (fst (webhook_schedule (Some demo_signer) demo_uuid 1 (taking_turns (20, 21) (22, 23))
      (demo_checkout_market, (\<lambda>_. W_start (demo_event ''e2''))(0 := W_start (demo_event ''e1'')))))) = 2"
proof -
  have facts: "ev_id (demo_event ''e1'') \<noteq> ev_id (demo_event ''e2'')"
    "row_get wr_event (webhook_events demo_checkout_market) (ev_id (demo_event ''e1'')) = None"
    "row_get wr_event (webhook_events demo_checkout_market) (ev_id (demo_event ''e2'')) = None"
    "ev_type (demo_event ''e1'') = ''checkout.session.completed''" "ev_type (demo_event ''e2'') = ''checkout.session.completed''"
    "read_payment_id demo_uuid (demo_event ''e1'') = Ok (\<lparr>ss_id = ''cs'', ss_payment = Some ''p5''\<rparr>, 5)"
    "read_payment_id demo_uuid (demo_event ''e2'') = Ok (\<lparr>ss_id = ''cs'', ss_payment = Some ''p5''\<rparr>, 5)"
    "row_get sp_id (stripe_payments demo_checkout_market) 5 = Some demo_stripe" "sp_license demo_stripe = None"
    "find_active_plan demo_checkout_market (sp_plan demo_stripe) (sp_contract demo_stripe) = Some (hd (plans demo_checkout_market))"
    "row_get lic_id (licenses demo_checkout_market) 20 = None" "row_get lic_jti (licenses demo_checkout_market) 21 = None"
    "row_get lic_id (licenses demo_checkout_market) 22 = None" "row_get lic_jti (licenses demo_checkout_market) 23 = None"
    "(20 :: nat) \<noteq> 22" "(21 :: nat) \<noteq> 23"
    by (simp_all add: row_get_def demo_checkout_market_def demo_event_def read_payment_id_def demo_uuid_def demo_stripe_def
        find_active_plan_def)
  have "is_ok (license_sign demo_signer c)" for c
    by (simp add: license_sign_def demo_signer_def is_ok_def Let_def)
  from two_events_two_licenses [OF facts this, of 1] show ?thesis by (simp add: demo_checkout_market_def)
qed

end
