(* ===== verification/Market_Runs.thy ===== *)
theory Market_Runs
  imports Usdc_Payments Stripe_Payments
begin

text \<open>
  The marketplace as a whole: its operations as one step relation, what the tables satisfy in every
  state that the operations reach, and what the parts promise each other. A step of a
  confirmation or of a webhook is one statement of it, so the runs contain every interleaving.
\<close>

section \<open>Steps\<close>

text \<open>Everything but the confirmations of USDC payments.\<close>

inductive market_op :: "market \<Rightarrow> market \<Rightarrow> bool" where
  op_create_plan: "create_plan ok new_id user contract req db = (res, db') \<Longrightarrow> market_op db db'"
| op_update_plan: "update_plan ok user contract pid patch db = (res, db') \<Longrightarrow> market_op db db'"
| op_issue_license: "issue_license ok sg now ids user contract pid meta db = (res, db') \<Longrightarrow> market_op db db'"
| op_revoke_license: "revoke_license ok now user jti db = (res, db') \<Longrightarrow> market_op db db'"
| op_record_usage: "record_usage ok sg now jti token calls db = (res, db') \<Longrightarrow> market_op db db'"
| op_create_intent: "create_intent ok env now new_id memos user contract pid db = (res, db') \<Longrightarrow> market_op db db'"
| op_create_checkout: "create_checkout ok configured stripe show_uuid new_id user contract req db = (res, db') \<Longrightarrow> market_op db db'"
| op_webhook: "webhook_step ok sg parse_uuid now ids db pc = (db', pc') \<Longrightarrow> market_op db db'"

inductive market_step :: "market \<Rightarrow> market \<Rightarrow> bool" where
  step_op: "market_op db db' \<Longrightarrow> market_step db db'"
| step_confirm: "confirm_step ok sg now ids user req db pc = (db', pc') \<Longrightarrow> market_step db db'"

section \<open>What each operation changes\<close>

lemma issue_for_owner_effect:
  assumes "issue_for_owner ok cd now ids contract pid owner meta db = (res, db')"
  shows "db' = db \<or>
    (\<exists>l. db' = db\<lparr>licenses := licenses db @ [l]\<rparr> \<and> lic_status l = ''active'' \<and> revoked_at l = None \<and>
       row_get lic_id (licenses db) (lic_id l) = None \<and> row_get lic_jti (licenses db) (lic_jti l) = None)"
proof (cases "ok Select_plan \<and> find_active_plan db pid contract \<noteq> None \<and> ok Insert_license \<and>
    row_get lic_id (licenses db) (fst ids) = None \<and> row_get lic_jti (licenses db) (snd ids) = None")
  case False
  then have "db' = db" using assms by (auto simp: issue_for_owner_def Let_def split: if_splits option.splits)
  then show ?thesis by simp
next
  case True
  then obtain p where p: "find_active_plan db pid contract = Some p" by blast
  let ?l = "\<lparr>lic_id = fst ids, lic_jti = snd ids, lic_contract = contract, lic_plan = plan_id p,
    lic_owner = owner, issued_at = now, expires_at = plan_expiry now p, revoked_at = None,
    lic_status = ''active'', lic_metadata = meta\<rparr>"
  have "db' = db\<lparr>licenses := licenses db @ [?l]\<rparr>"
    using assms True p by (auto simp: issue_for_owner_def Let_def split: sum.splits)
  then show ?thesis using True by (intro disjI2 exI [of _ ?l]) simp
qed

text \<open>The tables of a market, each with what its operations keep.\<close>

definition plans_ok :: "plan list \<Rightarrow> bool" where
  "plans_ok ps \<longleftrightarrow>
     distinct (map plan_id ps) \<and>
     (\<forall>p \<in> set ps. 0 \<le> price_cents p \<and> billing_period p \<in> set ALLOWED_BILLING_PERIODS \<and>
        (case call_quota p of Some q \<Rightarrow> 0 \<le> q | None \<Rightarrow> True))"

definition licenses_ok :: "license list \<Rightarrow> bool" where
  "licenses_ok ls \<longleftrightarrow>
     distinct (map lic_id ls) \<and> distinct (map lic_jti ls) \<and>
     (\<forall>l \<in> set ls. lic_status l = ''active'' \<and> revoked_at l = None \<or> lic_status l = ''revoked'' \<and> revoked_at l \<noteq> None)"

definition usage_ok :: "license list \<Rightarrow> usage_event list \<Rightarrow> bool" where
  "usage_ok ls es \<longleftrightarrow> (\<forall>e \<in> set es. 0 < ue_calls e \<and> ue_license e \<in> lic_id ` set ls)"

definition intents_ok :: "usdc_payment list \<Rightarrow> bool" where
  "intents_ok rs \<longleftrightarrow>
     distinct (map up_memo rs) \<and> distinct (map up_id rs) \<and>
     (\<forall>r \<in> set rs. 0 < up_cents r \<and> up_status r \<in> {''pending'', ''confirmed'', ''expired''})"

definition checkouts_ok :: "stripe_payment list \<Rightarrow> bool" where
  "checkouts_ok rs \<longleftrightarrow>
     distinct (map sp_id rs) \<and> distinct (map sp_session rs) \<and>
     (\<forall>r \<in> set rs. sp_status r \<in> {''pending'', ''completed''})"

definition events_ok :: "webhook_row list \<Rightarrow> bool" where
  "events_ok rs \<longleftrightarrow> distinct (map wr_event rs)"

definition market_ok :: "market \<Rightarrow> bool" where
  "market_ok db \<longleftrightarrow>
     plans_ok (plans db) \<and> licenses_ok (licenses db) \<and> usage_ok (licenses db) (usage_events db) \<and>
     intents_ok (usdc_payments db) \<and> checkouts_ok (stripe_payments db) \<and> events_ok (webhook_events db)"

lemma licenses_ok_insert:
  "licenses_ok ls \<Longrightarrow> lic_status l = ''active'' \<Longrightarrow> revoked_at l = None \<Longrightarrow>
   row_get lic_id ls (lic_id l) = None \<Longrightarrow> row_get lic_jti ls (lic_jti l) = None \<Longrightarrow> licenses_ok (ls @ [l])"
  by (auto simp: licenses_ok_def row_get_None)

lemma usage_ok_more: "usage_ok ls es \<Longrightarrow> usage_ok (ls @ [l]) es"
  by (auto simp: usage_ok_def)

lemma issue_for_owner_ok:
  assumes "issue_for_owner ok cd now ids contract pid owner meta db = (res, db')" "market_ok db"
  shows "market_ok db'"
  using issue_for_owner_effect [OF assms(1)] assms(2)
  by (elim disjE exE conjE) (simp_all add: market_ok_def licenses_ok_insert usage_ok_more)

lemma create_plan_ok:
  assumes "create_plan ok new_id user contract req db = (res, db')" "market_ok db"
  shows "market_ok db'"
proof -
  have "db' = db \<or> (\<exists>p. db' = db\<lparr>plans := plans db @ [p]\<rparr> \<and> plan_id p = new_id \<and>
      row_get plan_id (plans db) new_id = None \<and> 0 \<le> price_cents p \<and>
      billing_period p \<in> set ALLOWED_BILLING_PERIODS \<and> (case call_quota p of Some q \<Rightarrow> 0 \<le> q | None \<Rightarrow> True))"
    using assms(1) by (auto simp: create_plan_def Let_def split: if_splits sum.splits option.splits)
  then show ?thesis
    using assms(2) by (elim disjE exE conjE) (auto simp: market_ok_def plans_ok_def row_get_None)
qed

lemma patch_plan_fields [simp]:
  "plan_id (patch_plan req p) = plan_id p" "billing_period (patch_plan req p) = billing_period p"
  "call_quota (patch_plan req p) = call_quota p"
  by (simp_all add: patch_plan_def)

lemma update_plan_ok:
  assumes "update_plan ok user contract pid req db = (res, db')" "market_ok db"
  shows "market_ok db'"
proof -
  let ?P = "\<lambda>p. plan_id p = pid \<and> plan_contract p = contract"
  have "db' = db \<or> (\<exists>p. db' = db\<lparr>plans := update_where ?P (patch_plan req) (plans db)\<rparr> \<and>
      find ?P (plans db) = Some p \<and> 0 \<le> price_cents (patch_plan req p))"
    using assms(1) by (auto simp: update_plan_def split: if_splits sum.splits option.splits)
  then show ?thesis
  proof (elim disjE exE conjE)
    fix p
    assume db': "db' = db\<lparr>plans := update_where ?P (patch_plan req) (plans db)\<rparr>"
      and found: "find ?P (plans db) = Some p" and price: "0 \<le> price_cents (patch_plan req p)"
    have ok: "plans_ok (plans db)" using assms(2) by (simp add: market_ok_def)
    have p: "p \<in> set (plans db)" "plan_id p = pid" using found by (auto simp: find_Some_iff)
    have only: "q = p" if "q \<in> set (plans db)" "?P q" for q
      using ok that p by (auto simp: plans_ok_def distinct_map inj_on_def)
    have "map plan_id (update_where ?P (patch_plan req) (plans db)) = map plan_id (plans db)"
      by (rule map_key_update_where) simp
    then have "plans_ok (update_where ?P (patch_plan req) (plans db))"
      using ok only price unfolding plans_ok_def set_update_where by auto
    then show ?thesis using assms(2) by (simp add: market_ok_def db')
  qed (simp add: assms(2))
qed

lemma revoke_license_effect:
  assumes "revoke_license ok now user jti db = (res, db')"
  shows "db' = db \<or> db' = db\<lparr>licenses := row_upd lic_jti (licenses db) jti (mark_revoked now)\<rparr>"
  using assms by (auto simp: revoke_license_def split: if_splits option.splits)

lemma mark_revoked_fields [simp]:
  "lic_id (mark_revoked now l) = lic_id l" "lic_jti (mark_revoked now l) = lic_jti l"
  "lic_status (mark_revoked now l) = ''revoked''" "revoked_at (mark_revoked now l) = Some now"
  by (simp_all add: mark_revoked_def)

lemma revoke_license_ok:
  assumes "revoke_license ok now user jti db = (res, db')" "market_ok db"
  shows "market_ok db'"
  using revoke_license_effect [OF assms(1)]
proof (elim disjE)
  let ?ls = "row_upd lic_jti (licenses db) jti (mark_revoked now)"
  assume db': "db' = db\<lparr>licenses := ?ls\<rparr>"
  have maps: "map lic_id ?ls = map lic_id (licenses db)" "map lic_jti ?ls = map lic_jti (licenses db)"
    unfolding row_upd_def by (rule map_key_update_where, simp)+
  have "licenses_ok ?ls"
    using assms(2) unfolding market_ok_def licenses_ok_def maps
    by (auto simp: row_upd_def set_update_where)
  moreover have "usage_ok ?ls (usage_events db)"
    using assms(2) arg_cong [OF maps(1), of set] by (auto simp: market_ok_def usage_ok_def)
  ultimately show ?thesis using assms(2) by (simp add: market_ok_def db')
qed (simp add: assms(2))

lemma record_usage_effect:
  assumes "record_usage ok sg now jti token calls db = (res, db')"
  shows "db' = db \<or> (\<exists>l. row_get lic_jti (licenses db) jti = Some l \<and> lic_status l = ''active'' \<and> 0 < calls \<and>
    db' = db\<lparr>usage_events := usage_events db @
      [\<lparr>ue_license = lic_id l, ue_contract = lic_contract l, ue_ts = now, ue_calls = calls\<rparr>]\<rparr>)"
proof (cases "load_signer sg")
  case (Inr cd)
  then show ?thesis
    using assms by (auto simp: record_usage_def Let_def split: if_splits sum.splits option.splits)
qed (use assms in \<open>auto simp: record_usage_def\<close>)

lemma record_usage_ok:
  assumes "record_usage ok sg now jti token calls db = (res, db')" "market_ok db"
  shows "market_ok db'"
  using record_usage_effect [OF assms(1)] assms(2)
  by (elim disjE exE conjE) (auto simp: market_ok_def usage_ok_def dest!: row_get_key)

lemma insert_intent_effect:
  "insert_intent ok row rs db = (res, db') \<Longrightarrow>
   db' = db \<or> (\<exists>memo. db' = db\<lparr>usdc_payments := usdc_payments db @ [row\<lparr>up_memo := memo\<rparr>]\<rparr> \<and> 0 < up_cents row \<and>
     row_get up_memo (usdc_payments db) memo = None \<and> row_get up_id (usdc_payments db) (up_id row) = None)"
  by (induction ok row rs db rule: insert_intent.induct) (auto simp: Let_def split: if_splits)

lemma create_intent_effect:
  assumes "create_intent ok env now new_id memos user contract pid db = (res, db')"
  shows "db' = db \<or> (\<exists>row. db' = db\<lparr>usdc_payments := usdc_payments db @ [row]\<rparr> \<and> 0 < up_cents row \<and>
    up_status row = ''pending'' \<and> up_tx_hash row = None \<and>
    row_get up_memo (usdc_payments db) (up_memo row) = None \<and> row_get up_id (usdc_payments db) (up_id row) = None)"
proof (cases "load_usdc_config env")
  case (Inr config)
  show ?thesis
  proof (cases "ok Select_plan \<and> (\<exists>p. find_active_plan db pid contract = Some p \<and> price_cents p \<noteq> 0)")
    case False
    then show ?thesis using assms Inr by (auto simp: create_intent_def split: if_splits option.splits)
  next
    case True
    then obtain p where p: "find_active_plan db pid contract = Some p" "price_cents p \<noteq> 0" by blast
    let ?row = "\<lparr>up_id = new_id, up_contract = contract, up_plan = plan_id p, up_payer = user,
      up_cents = price_cents p, up_memo = '''', up_tx_hash = None, up_confirmed = None,
      up_license = None, up_status = ''pending'', up_expires = now + INTENT_TTL_SECONDS * 1000000\<rparr>"
    obtain r db1 where ins: "insert_intent ok ?row (take MAX_MEMO_RETRIES memos) db = (r, db1)" by fastforce
    have "db' = db1"
      using assms Inr True p ins by (simp add: create_intent_def Let_def split: sum.splits)
    with insert_intent_effect [OF ins] show ?thesis
    proof (elim disjE exE conjE)
      fix memo
      assume "db1 = db\<lparr>usdc_payments := usdc_payments db @ [?row\<lparr>up_memo := memo\<rparr>]\<rparr>" "0 < up_cents ?row"
        "row_get up_memo (usdc_payments db) memo = None" "row_get up_id (usdc_payments db) (up_id ?row) = None"
      then show ?thesis using \<open>db' = db1\<close> by (intro disjI2 exI [of _ "?row\<lparr>up_memo := memo\<rparr>"]) simp
    qed simp
  qed
qed (use assms in \<open>auto simp: create_intent_def\<close>)

lemma create_intent_ok:
  assumes "create_intent ok env now new_id memos user contract pid db = (res, db')" "market_ok db"
  shows "market_ok db'"
  using create_intent_effect [OF assms(1)] assms(2)
  by (elim disjE exE conjE) (auto simp: market_ok_def intents_ok_def row_get_None)

lemma create_checkout_ok:
  assumes "create_checkout ok configured stripe show_uuid new_id user contract req db = (res, db')" "market_ok db"
  shows "market_ok db'"
proof -
  have "db' = db \<or> (\<exists>row. db' = db\<lparr>stripe_payments := stripe_payments db @ [row]\<rparr> \<and> sp_status row = ''pending'' \<and>
      row_get sp_id (stripe_payments db) (sp_id row) = None \<and>
      row_get sp_session (stripe_payments db) (sp_session row) = None)"
    using assms(1)
    by (auto simp: create_checkout_def Let_def split: if_splits option.splits stripe_answer.splits)
  then show ?thesis
    using assms(2) by (elim disjE exE conjE) (auto simp: market_ok_def checkouts_ok_def row_get_None)
qed

lemma checkouts_ok_complete: "checkouts_ok rs \<Longrightarrow> checkouts_ok (row_upd sp_id rs k (complete lic))"
proof -
  assume ok: "checkouts_ok rs"
  have "map sp_id (row_upd sp_id rs k (complete lic)) = map sp_id rs"
    "map sp_session (row_upd sp_id rs k (complete lic)) = map sp_session rs"
    unfolding row_upd_def by (rule map_key_update_where, simp add: complete_def)+
  then show ?thesis using ok by (auto simp: checkouts_ok_def row_upd_def set_update_where complete_def)
qed

lemma events_ok_link: "events_ok rs \<Longrightarrow> events_ok (row_upd wr_event rs k (link pid))"
  unfolding events_ok_def row_upd_def by (subst map_key_update_where) (simp_all add: link_def)

lemma webhook_step_ok:
  assumes "webhook_step ok sg parse_uuid now ids db pc = (db', pc')" "market_ok db"
  shows "market_ok db'"
proof (cases pc)
  case (W_start ev)
  then show ?thesis
    using assms by (auto simp: market_ok_def events_ok_def row_get_None Let_def split: if_splits)
next
  case (W_recorded ev)
  then show ?thesis using assms by (auto split: if_splits sum.splits option.splits)
next
  case (W_found ev s p)
  show ?thesis
  proof (cases "load_signer sg")
    case (Inr cd)
    let ?r = "issue_for_owner ok cd now ids (sp_contract p) (sp_plan p) (sp_payer p)
      [(''source'', ''stripe''), (''stripe_session_id'', ss_id s), (''stripe_event_id'', ev_id ev)] db"
    obtain e db1 where r: "?r = (e, db1)" by (cases ?r)
    have "db' = db1" using assms(1) unfolding W_found webhook_step.simps Inr sum.case r
      by (auto split: sum.splits)
    then show ?thesis using issue_for_owner_ok [OF r assms(2)] by simp
  qed (use assms W_found in auto)
next
  case (W_issued ev p l)
  then show ?thesis using assms by (auto simp: market_ok_def checkouts_ok_complete split: if_splits)
next
  case (W_completed ev p)
  then show ?thesis using assms by (auto simp: market_ok_def events_ok_link split: if_splits)
next
  case (W_answered r)
  then show ?thesis using assms by simp
qed

lemma intents_ok_update:
  assumes "intents_ok rs" "\<And>r. up_memo (f r) = up_memo r" "\<And>r. up_id (f r) = up_id r" "\<And>r. up_cents (f r) = up_cents r"
    and "\<And>r. up_status (f r) = up_status r \<or> up_status (f r) \<in> {''confirmed'', ''expired''}"
  shows "intents_ok (update_where p f rs)"
proof -
  have "map up_memo (update_where p f rs) = map up_memo rs" "map up_id (update_where p f rs) = map up_id rs"
    by (rule map_key_update_where, rule assms)+
  moreover have "0 < up_cents r' \<and> up_status r' \<in> {''pending'', ''confirmed'', ''expired''}"
    if "r' \<in> set (update_where p f rs)" for r'
  proof -
    obtain r where r: "r \<in> set rs" "r' = (if p r then f r else r)" using \<open>r' \<in> _\<close> by (auto simp: set_update_where)
    then show ?thesis using assms(1,4) assms(5) [of r] by (auto simp: intents_ok_def)
  qed
  ultimately show ?thesis using assms(1) unfolding intents_ok_def by auto
qed

lemma confirm_step_ok:
  assumes "confirm_step ok sg now ids user req db pc = (db', pc')" "market_ok db"
  shows "market_ok db'"
proof -
  have upd: "market_ok (db\<lparr>usdc_payments := update_where p f (usdc_payments db)\<rparr>)"
    if "\<And>r. up_memo (f r) = up_memo r" "\<And>r. up_id (f r) = up_id r" "\<And>r. up_cents (f r) = up_cents r"
      "\<And>r. up_status (f r) = up_status r \<or> up_status (f r) \<in> {''confirmed'', ''expired''}" for p f
    using assms(2) intents_ok_update [OF _ that] by (simp add: market_ok_def)
  show ?thesis
  proof (cases pc)
    case Arrived
    have "market_ok (db\<lparr>usdc_payments := update_where p mark_expired (usdc_payments db)\<rparr>)" for p
      by (rule upd) (simp_all add: mark_expired_def)
    then show ?thesis
      using assms unfolding Arrived confirm_step.simps confirm_check_def
      by (auto split: if_splits option.splits)
  next
    case Checked
    have "market_ok (db\<lparr>usdc_payments := update_where p (claim tx n) (usdc_payments db)\<rparr>)" for p tx n
      by (rule upd) simp_all
    then show ?thesis
      using assms unfolding Checked confirm_step.simps confirm_claim_def
      by (auto split: if_splits option.splits)
  next
    case (Claimed row)
    show ?thesis
    proof (cases "load_signer sg")
      case (Inr cd)
      let ?r = "issue_for_owner ok cd now ids (up_contract row) (up_plan row) (up_payer row)
        [(''source'', ''usdc''), (''tx_hash'', cq_tx_hash req), (''memo'', cq_memo req), (''confirmed_by'', user)] db"
      obtain e db1 where r: "?r = (e, db1)" by (cases ?r)
      have "db' = db1" using assms(1) unfolding Claimed confirm_step.simps confirm_issue_def Inr sum.case r
        by (auto split: sum.splits)
      then show ?thesis using issue_for_owner_ok [OF r assms(2)] by simp
    next
      case (Inl e)
      then show ?thesis using assms Claimed by (auto simp: confirm_issue_def)
    qed
  next
    case (Issued pid l)
    have "market_ok (db\<lparr>usdc_payments := update_where p (settle i) (usdc_payments db)\<rparr>)" for p i
      by (rule upd) (simp_all add: settle_def)
    then show ?thesis
      using assms unfolding Issued confirm_step.simps confirm_settle_def row_upd_def
      by (auto split: if_splits)
  next
    case (Answered r)
    then show ?thesis using assms by simp
  qed
qed

lemma issue_license_issues:
  assumes "issue_license ok sg now ids user contract pid meta db = (res, db')"
  obtains "db' = db"
  | cd res' where "issue_for_owner ok cd now ids contract pid user (unwrap_or meta [(''source'', ''self_serve'')]) db = (res', db')"
  using assms by (cases "load_signer sg") (auto simp: issue_license_def)

lemma market_op_ok: "market_op db db' \<Longrightarrow> market_ok db \<Longrightarrow> market_ok db'"
proof (induction rule: market_op.induct)
  case (op_issue_license ok sg now ids user contract pid meta db res db')
  from this(1) show ?case
    by (rule issue_license_issues) (use op_issue_license(2) issue_for_owner_ok in blast)+
qed (rule create_plan_ok update_plan_ok revoke_license_ok record_usage_ok create_intent_ok create_checkout_ok webhook_step_ok,
  assumption+)+

section \<open>Every reachable market is well formed\<close>

definition empty_market :: "(uuid \<Rightarrow> uuid option) \<Rightarrow> market" where
  "empty_market owner =
     \<lparr>contract_owner = owner, plans = [], licenses = [], usage_events = [], usdc_payments = [],
      stripe_payments = [], webhook_events = []\<rparr>"

lemma market_step_ok: "market_step db db' \<Longrightarrow> market_ok db \<Longrightarrow> market_ok db'"
  by (induction rule: market_step.induct) (use market_op_ok confirm_step_ok in blast)+

lemma market_steps_ok: "market_step\<^sup>*\<^sup>* db db' \<Longrightarrow> market_ok db \<Longrightarrow> market_ok db'"
  by (induction rule: rtranclp_induct) (use market_step_ok in blast)+

lemma empty_market_ok: "market_ok (empty_market owner)"
  by (simp add: market_ok_def empty_market_def plans_ok_def licenses_ok_def usage_ok_def intents_ok_def
      checkouts_ok_def events_ok_def)

text \<open>
  C24. Every market that the operations reach, interleaved and failing as they may, is well formed:
  identifiers, memos, sessions and event identifiers are unique, prices are not negative and intents
  positive, a license is either active or revoked with its date, usage is positive and of an
  existing license, and every status is one that the tables allow.
\<close>

theorem reachable_market_ok:
  assumes "market_step\<^sup>*\<^sup>* (empty_market owner) db"
  shows "market_ok db"
  by (rule market_steps_ok [OF assms empty_market_ok])

text \<open>A plan offered, a license taken and revoked again: three steps from the empty market.\<close>

definition demo_plan_request :: create_plan_request where
  "demo_plan_request = \<lparr>cp_name = ''Pro'', cp_description = None, cp_price = 2999, cp_currency = ''USD'',
     cp_period = ''monthly'', cp_quota = Some 100, cp_features = None\<rparr>"

theorem reachable_market_ok_witness:
  "market_ok (snd (revoke_license (\<lambda>_. True) 60 5 21
      (snd (issue_license (\<lambda>_. True) (Some demo_codec) 50 (20, 21) 5 7 1 None
        (snd (create_plan (\<lambda>_. True) 1 3 7 demo_plan_request (empty_market (\<lambda>_. Some 3))))))))"
proof -
  let ?db1 = "snd (create_plan (\<lambda>_. True) 1 3 7 demo_plan_request (empty_market (\<lambda>_. Some 3)))"
  let ?db2 = "snd (issue_license (\<lambda>_. True) (Some demo_codec) 50 (20, 21) 5 7 1 None ?db1)"
  have 1: "market_step (empty_market (\<lambda>_. Some 3)) ?db1"
    by (rule step_op, rule op_create_plan) (rule prod.collapse [symmetric])
  have 2: "market_step ?db1 ?db2"
    by (rule step_op, rule op_issue_license) (rule prod.collapse [symmetric])
  have 3: "market_step ?db2 (snd (revoke_license (\<lambda>_. True) 60 5 21 ?db2))"
    by (rule step_op, rule op_revoke_license) (rule prod.collapse [symmetric])
  have "market_step\<^sup>*\<^sup>* (empty_market (\<lambda>_. Some 3)) (snd (revoke_license (\<lambda>_. True) 60 5 21 ?db2))"
    using 1 2 3 by (meson r_into_rtranclp rtranclp_trans)
  then show ?thesis by (rule reachable_market_ok)
qed

section \<open>The other operations as the environment of confirmations\<close>

lemma market_op_keeps_intents: "market_op db db' \<Longrightarrow> keeps_intents db db'"
proof (induction rule: market_op.induct)
  case (op_create_plan ok new_id user contract req db res db')
  then have "usdc_payments db' = usdc_payments db"
    by (auto simp: create_plan_def Let_def split: if_splits sum.splits option.splits)
  then show ?case by (rule keeps_intents_same)
next
  case (op_update_plan ok user contract pid patch db res db')
  then have "usdc_payments db' = usdc_payments db"
    by (auto simp: update_plan_def split: if_splits sum.splits option.splits)
  then show ?case by (rule keeps_intents_same)
next
  case (op_issue_license ok sg now ids user contract pid meta db res db')
  then show ?case
    by (elim issue_license_issues) (auto intro!: keeps_intents_same dest: issue_for_owner_effect)
next
  case (op_revoke_license ok now user jti db res db')
  from revoke_license_effect [OF this] show ?case by (auto intro!: keeps_intents_same)
next
  case (op_record_usage ok sg now jti token calls db res db')
  from record_usage_effect [OF this] show ?case by (auto intro!: keeps_intents_same)
next
  case (op_create_intent ok env now new_id memos user contract pid db res db')
  from create_intent_effect [OF this] show ?case
    by (elim disjE exE conjE) (simp add: keeps_intents_same, rule keeps_intents_insert, simp_all add: intent_of_def)
next
  case (op_create_checkout ok configured stripe show_uuid new_id user contract req db res db')
  then have "usdc_payments db' = usdc_payments db"
    by (auto simp: create_checkout_def Let_def split: if_splits option.splits stripe_answer.splits)
  then show ?case by (rule keeps_intents_same)
next
  case (op_webhook ok sg parse_uuid now ids db pc db' pc')
  have "usdc_payments db' = usdc_payments db"
  proof (cases pc)
    case (W_found ev s p)
    show ?thesis
    proof (cases "load_signer sg")
      case (Inr cd)
      let ?r = "issue_for_owner ok cd now ids (sp_contract p) (sp_plan p) (sp_payer p)
        [(''source'', ''stripe''), (''stripe_session_id'', ss_id s), (''stripe_event_id'', ev_id ev)] db"
      obtain e db1 where r: "?r = (e, db1)" by (cases ?r)
      have "db' = db1" using op_webhook unfolding W_found webhook_step.simps Inr sum.case r
        by (auto split: sum.splits)
      then show ?thesis using issue_for_owner_effect [OF r] by auto
    qed (use op_webhook W_found in auto)
  qed (use op_webhook in \<open>auto simp: Let_def split: if_splits sum.splits option.splits\<close>)
  then show ?case by (rule keeps_intents_same)
qed

interpretation marketplace: confirm_env market_op
  by unfold_locales (rule market_op_keeps_intents)

text \<open>
  C4. One payment, one license. However confirmations interleave with each other and with the other
  operations, and whatever statements fail, two confirmations that were answered with a license
  are for different memos and different transactions; and the amount reported to a successful
  one covered the price of its intent.
\<close>

theorem one_license_per_payment:
  assumes "confirm_run market_op reqs db0 db pcs" "memos_unique db0"
    and "pcs i = Answered (Ok a)" "pcs j = Answered (Ok b)"
  shows "(cq_memo (reqs i) = cq_memo (reqs j) \<or> cq_tx_hash (reqs i) = cq_tx_hash (reqs j) \<longrightarrow> i = j) \<and>
    paid_enough db (reqs i)"
  using marketplace.one_license_per_intent [OF assms(1,2), of i j] marketplace.license_was_paid [OF assms(1,2), of i] assms(3,4)
  by simp

text \<open>A run of one confirmation of the market with one intent.\<close>

theorem one_license_per_payment_witness:
  "\<exists>db pcs a. confirm_run market_op (\<lambda>_. demo_confirm) demo_market db pcs \<and> pcs 0 = Answered (Ok a) \<and>
    paid_enough db demo_confirm"
proof -
  let ?step = "confirm_step (\<lambda>_. True) (Some demo_codec) 1000 (20, 21) ''9'' demo_confirm"
  obtain db1 p1 where 1: "?step demo_market Arrived = (db1, p1)" by fastforce
  obtain db2 p2 where 2: "?step db1 p1 = (db2, p2)" by fastforce
  obtain db3 p3 where 3: "?step db2 p2 = (db3, p3)" by fastforce
  obtain db4 p4 where 4: "?step db3 p3 = (db4, p4)" by fastforce
  have "length (licenses (snd (confirm_intent (\<lambda>_. True) (Some demo_codec) 1000 (20, 21) ''9'' demo_confirm demo_market))) = 1 \<and>
      is_ok (fst (confirm_intent (\<lambda>_. True) (Some demo_codec) 1000 (20, 21) ''9'' demo_confirm demo_market))"
    unfolding confirm_intent_confirmable [where ok = "\<lambda>_. True", OF demo_confirmable demo_unique TrueI TrueI]
    by (simp add: after_claim_def confirm_issue_def load_signer_def issue_for_owner_def license_sign_def demo_codec_def
        find_active_plan_def demo_market_def demo_intent_def demo_plan_def claimed_db_def row_get_def Let_def)
  then have "\<exists>a. p4 = Answered (Ok a)"
    using 1 2 3 4 by (auto simp: confirm_intent_def Let_def is_ok_def simp del: confirm_step.simps split: confirm_pc.splits sum.splits)
  then obtain a where a: "p4 = Answered (Ok a)" by blast
  have "confirm_run market_op (\<lambda>_. demo_confirm) demo_market db1 ((\<lambda>_. Arrived)(0 := p1))"
    by (rule confirm_run.move [OF confirm_run.start]) (rule 1)
  then have "confirm_run market_op (\<lambda>_. demo_confirm) demo_market db2 ((\<lambda>_. Arrived)(0 := p1, 0 := p2))"
    by (rule confirm_run.move) (simp only: fun_upd_same, rule 2)
  then have "confirm_run market_op (\<lambda>_. demo_confirm) demo_market db3 ((\<lambda>_. Arrived)(0 := p1, 0 := p2, 0 := p3))"
    by (rule confirm_run.move) (simp only: fun_upd_same, rule 3)
  then have run: "confirm_run market_op (\<lambda>_. demo_confirm) demo_market db4 ((\<lambda>_. Arrived)(0 := p1, 0 := p2, 0 := p3, 0 := p4))"
    by (rule confirm_run.move) (simp only: fun_upd_same, rule 4)
  have "paid_enough db4 demo_confirm"
    using one_license_per_payment [OF run demo_unique, of 0 a 0 a] a by simp
  with run a show ?thesis by (intro exI conjI) (assumption, simp, assumption)
qed

section \<open>Revocation\<close>

definition revoked :: "market \<Rightarrow> uuid \<Rightarrow> bool" where
  "revoked db jti \<longleftrightarrow> (\<exists>l. row_get lic_jti (licenses db) jti = Some l \<and> lic_status l = ''revoked'')"

text \<open>An operation leaves the licenses alone, adds one, or revokes one.\<close>

definition licenses_kept :: "license list \<Rightarrow> license list \<Rightarrow> bool" where
  "licenses_kept ls ls' \<longleftrightarrow>
     ls' = ls \<or> (\<exists>l. ls' = ls @ [l]) \<or> (\<exists>jti now. ls' = row_upd lic_jti ls jti (mark_revoked now))"

lemma revoked_kept: "licenses_kept (licenses db) (licenses db') \<Longrightarrow> revoked db jti \<Longrightarrow> revoked db' jti"
  by (auto simp: licenses_kept_def revoked_def row_get_append row_upd_def row_get_update_where)

lemma licenses_kept_insert: "licenses_kept ls (ls @ [l])"
  unfolding licenses_kept_def by blast

lemma licenses_kept_revoke: "licenses_kept ls (row_upd lic_jti ls jti (mark_revoked now))"
  unfolding licenses_kept_def by blast

lemma licenses_kept_same: "licenses db' = licenses db \<Longrightarrow> licenses_kept (licenses db) (licenses db')"
  by (simp add: licenses_kept_def)

lemma issue_for_owner_kept:
  assumes "issue_for_owner ok cd now ids contract pid owner meta db = (res, db')"
  shows "licenses_kept (licenses db) (licenses db')"
  using issue_for_owner_effect [OF assms]
  by (elim disjE exE conjE) (simp_all add: licenses_kept_same licenses_kept_insert)

lemma webhook_step_kept:
  assumes "webhook_step ok sg parse_uuid now ids db pc = (db', pc')"
  shows "licenses_kept (licenses db) (licenses db')"
proof (cases pc)
  case (W_found ev s p)
  show ?thesis
  proof (cases "load_signer sg")
    case (Inr cd)
    let ?r = "issue_for_owner ok cd now ids (sp_contract p) (sp_plan p) (sp_payer p)
      [(''source'', ''stripe''), (''stripe_session_id'', ss_id s), (''stripe_event_id'', ev_id ev)] db"
    obtain e db1 where r: "?r = (e, db1)" by (cases ?r)
    have "db' = db1" using assms unfolding W_found webhook_step.simps Inr sum.case r by (auto split: sum.splits)
    then show ?thesis using issue_for_owner_kept [OF r] by simp
  qed (use assms W_found licenses_kept_same in auto)
qed (use assms in \<open>auto simp: licenses_kept_def Let_def split: if_splits sum.splits option.splits\<close>)

lemma confirm_step_kept:
  assumes "confirm_step ok sg now ids user req db pc = (db', pc')"
  shows "licenses_kept (licenses db) (licenses db')"
proof (cases pc)
  case (Claimed row)
  show ?thesis
  proof (cases "load_signer sg")
    case (Inr cd)
    let ?r = "issue_for_owner ok cd now ids (up_contract row) (up_plan row) (up_payer row)
      [(''source'', ''usdc''), (''tx_hash'', cq_tx_hash req), (''memo'', cq_memo req), (''confirmed_by'', user)] db"
    obtain e db1 where r: "?r = (e, db1)" by (cases ?r)
    have "db' = db1" using assms unfolding Claimed confirm_step.simps confirm_issue_def Inr sum.case r
      by (auto split: sum.splits)
    then show ?thesis using issue_for_owner_kept [OF r] by simp
  next
    case (Inl e)
    then show ?thesis using assms Claimed by (auto simp: confirm_issue_def licenses_kept_def)
  qed
qed (use assms in \<open>auto simp: licenses_kept_def confirm_check_def confirm_claim_def confirm_settle_def
  split: if_splits option.splits\<close>)

lemma market_op_kept: "market_op db db' \<Longrightarrow> licenses_kept (licenses db) (licenses db')"
proof (induction rule: market_op.induct)
  case (op_create_plan ok new_id user contract req db res db')
  then show ?case
    by (intro licenses_kept_same) (auto simp: create_plan_def Let_def split: if_splits sum.splits option.splits)
next
  case (op_update_plan ok user contract pid patch db res db')
  then show ?case
    by (intro licenses_kept_same) (auto simp: update_plan_def split: if_splits sum.splits option.splits)
next
  case (op_issue_license ok sg now ids user contract pid meta db res db')
  then show ?case by (elim issue_license_issues) (simp_all add: licenses_kept_same issue_for_owner_kept)
next
  case (op_revoke_license ok now user jti db res db')
  from revoke_license_effect [OF this] show ?case
    by (elim disjE) (simp_all add: licenses_kept_same licenses_kept_revoke)
next
  case (op_record_usage ok sg now jti token calls db res db')
  from record_usage_effect [OF this] show ?case by (auto intro!: licenses_kept_same)
next
  case (op_create_intent ok env now new_id memos user contract pid db res db')
  from create_intent_effect [OF this] show ?case by (auto intro!: licenses_kept_same)
next
  case (op_create_checkout ok configured stripe show_uuid new_id user contract req db res db')
  then show ?case
    by (intro licenses_kept_same)
      (auto simp: create_checkout_def Let_def split: if_splits option.splits stripe_answer.splits)
next
  case (op_webhook ok sg parse_uuid now ids db pc db' pc')
  then show ?case by (rule webhook_step_kept)
qed

lemma revoked_stays: "market_step\<^sup>*\<^sup>* db db' \<Longrightarrow> revoked db jti \<Longrightarrow> revoked db' jti"
proof (induction rule: rtranclp_induct)
  case (step db1 db2)
  from step(2) have "licenses_kept (licenses db1) (licenses db2)"
    by cases (auto dest: market_op_kept confirm_step_kept)
  with step show ?case by (auto intro: revoked_kept)
qed

text \<open>
  C18. A revocation is final. Once the license with an identifier is revoked, then in every market that
  any operations lead to, no token of that identifier validates and no usage is recorded on it.
\<close>

theorem revocation_is_final:
  assumes "market_step\<^sup>*\<^sup>* db db'" "revoked db jti"
  shows "\<not> is_ok (fst (record_usage ok sg now jti token calls db')) \<and> snd (record_usage ok sg now jti token calls db') = db' \<and>
    \<not> (\<exists>v c. validate_license ok sg now token db' = Ok v \<and> v_valid v \<and> v_claims v = Some c \<and> c_jti c = jti)"
proof -
  obtain l where l: "row_get lic_jti (licenses db') jti = Some l" "lic_status l = ''revoked''"
    using revoked_stays [OF assms] by (auto simp: revoked_def)
  have "\<not> is_ok (fst (record_usage ok sg now jti token calls db')) \<and> snd (record_usage ok sg now jti token calls db') = db'"
    using l by (simp add: record_usage_def split: sum.split)
  moreover have "\<not> (v_valid v \<and> v_claims v = Some c \<and> c_jti c = jti)"
    if "validate_license ok sg now token db' = Ok v" for v c
    using that l by (auto simp: validate_license_def invalid_def split: sum.splits if_splits option.splits)
  ultimately show ?thesis by blast
qed

definition demo_license :: license where
  "demo_license = \<lparr>lic_id = 20, lic_jti = 21, lic_contract = 7, lic_plan = 1, lic_owner = 3, issued_at = 0, expires_at = None,
     revoked_at = None, lic_status = ''active'', lic_metadata = []\<rparr>"

theorem revocation_is_final_witness:
  "\<not> is_ok (fst (record_usage (\<lambda>_. True) (Some demo_codec) 100 21 ''token'' 1
      (snd (revoke_license (\<lambda>_. True) 50 3 21 (demo_market\<lparr>licenses := [demo_license]\<rparr>)))))"
proof -
  let ?db = "snd (revoke_license (\<lambda>_. True) 50 3 21 (demo_market\<lparr>licenses := [demo_license]\<rparr>))"
  have "revoked ?db 21"
    by (simp add: revoked_def revoke_license_def row_get_def row_upd_def update_where_def demo_license_def)
  from revocation_is_final [OF rtranclp.rtrancl_refl this, of "\<lambda>_. True" "Some demo_codec" 100 "''token''" 1]
  show ?thesis by blast
qed

end
