(* ===== verification/Usdc_Scanner.thy ===== *)
theory Usdc_Scanner
  imports Usdc_Payments
begin

text \<open>
  The payment scanner of the indexer, \<open>backend/indexer/src/usdc_scanner.rs\<close>: it reads the payments
  to the receiving address page by page behind a cursor in the database, and has the registry
  confirm those that carry a memo of the marketplace. Horizon and the registry are inputs: what a
  page, a transaction and a confirmation answer, and the state \<open>'w\<close> of the world that a
  confirmation changes. In the last sections the world is the marketplace itself.
\<close>

section \<open>Configuration and amounts\<close>

definition HORIZON_PAGE_LIMIT :: nat where "HORIZON_PAGE_LIMIT = 50"
definition USDC_STROOP_DECIMALS :: nat where "USDC_STROOP_DECIMALS = 7"

record scanner_config =
  sc_network :: string
  sc_horizon_url :: string
  sc_address :: string
  sc_issuer :: string
  sc_base_url :: string
  sc_token :: string

datatype scanner_error = Config_error string | Horizon_error | Registry_error | Scanner_database_error

definition scanner_config_from_env :: "(string \<Rightarrow> string option) \<Rightarrow> scanner_error + scanner_config option" where
  "scanner_config_from_env env =
     (case env ''MARKETPLACE_USDC_RECEIVING_ADDRESS'' of
        None \<Rightarrow> Ok None
      | Some addr \<Rightarrow>
          if addr = '''' then Ok None
          else case env ''MARKETPLACE_USDC_ASSET_ISSUER'' of
            None \<Rightarrow> Err (Config_error ''MARKETPLACE_USDC_ASSET_ISSUER not set'')
          | Some issuer \<Rightarrow>
              let network = unwrap_or (env ''MARKETPLACE_USDC_NETWORK'') ''testnet'';
                  url = unwrap_or (env ''MARKETPLACE_HORIZON_URL'')
                          (if network = ''public'' then ''https://horizon.stellar.org''
                           else ''https://horizon-testnet.stellar.org'')
              in (case env ''MARKETPLACE_REGISTRY_BASE_URL'' of
                    None \<Rightarrow> Err (Config_error ''MARKETPLACE_REGISTRY_BASE_URL not set'')
                  | Some base \<Rightarrow>
                      (case env ''MARKETPLACE_INDEXER_API_TOKEN'' of
                         None \<Rightarrow> Err (Config_error ''MARKETPLACE_INDEXER_API_TOKEN not set'')
                       | Some token \<Rightarrow>
                           Ok (Some \<lparr>sc_network = network, sc_horizon_url = url, sc_address = addr,
                                     sc_issuer = issuer, sc_base_url = base, sc_token = token\<rparr>))))"

text \<open>Padding with zeros on the right to a width of seven; a longer fraction was refused.\<close>

definition pad_right :: "nat \<Rightarrow> string \<Rightarrow> string" where
  "pad_right w s = s @ replicate (w - length s) CHR ''0''"

datatype amount_error = Too_precise | Bad_integer | Bad_fraction | Amount_overflow

definition parse_amount_to_stroops :: "string \<Rightarrow> amount_error + int" where
  "parse_amount_to_stroops amount =
     (let (int_part, rest) = split_first CHR ''.'' amount; frac_part = unwrap_or rest '''' in
      if length frac_part > USDC_STROOP_DECIMALS then Err Too_precise
      else case parse_i64 int_part of
        None \<Rightarrow> Err Bad_integer
      | Some n \<Rightarrow>
          (case (if frac_part = '''' then Some 0 else parse_i64 (pad_right 7 frac_part)) of
             None \<Rightarrow> Err Bad_fraction
           | Some frac \<Rightarrow>
               if i64_ok (n * 10000000) \<and> i64_ok (n * 10000000 + frac)
               then Ok (n * 10000000 + frac) else Err Amount_overflow))"

section \<open>One payment\<close>

record horizon_payment =
  hp_token :: string
  hp_type :: string
  hp_tx :: "string option"
  hp_to :: "string option"
  hp_amount :: "string option"
  hp_code :: "string option"
  hp_asset_issuer :: "string option"

definition is_payment_like :: "horizon_payment \<Rightarrow> bool" where
  "is_payment_like p \<longleftrightarrow>
     hp_type p \<in> set [''payment'', ''path_payment_strict_receive'', ''path_payment_strict_send'']"

definition is_relevant :: "scanner_config \<Rightarrow> horizon_payment \<Rightarrow> bool" where
  "is_relevant cfg p \<longleftrightarrow>
     is_payment_like p \<and> hp_to p = Some (sc_address cfg) \<and> hp_code p = Some ''USDC'' \<and>
     hp_asset_issuer p = Some (sc_issuer cfg)"

record horizon_transaction =
  ht_memo :: "string option"
  ht_memo_type :: "string option"

text \<open>\<open>None\<close> when Horizon does not answer with a transaction.\<close>

definition fetch_memo :: "(string \<Rightarrow> horizon_transaction option) \<Rightarrow> string \<Rightarrow> string option option" where
  "fetch_memo horizon tx =
     map_option (\<lambda>t. if ht_memo_type t = Some ''text'' then ht_memo t else None) (horizon tx)"

datatype confirm_outcome = Handled | Transient

text \<open>The status of the registry's answer, \<open>None\<close> for a network error.\<close>

definition confirm_outcome_of :: "nat option \<Rightarrow> confirm_outcome" where
  "confirm_outcome_of answer =
     (case answer of
        None \<Rightarrow> Transient
      | Some st \<Rightarrow>
          if 200 \<le> st \<and> st < 300 then Handled
          else if st = 404 then Handled
          else if st = 409 then Handled
          else if 400 \<le> st \<and> st < 500 then Handled
          else Transient)"

text \<open>
  What the loop does with a payment: pass it by, pass it by having confirmed it, or stop. The
  registry answers a confirmation and changes the world.
\<close>

datatype verdict = Skip | Confirmed string | Halt

type_synonym 'w registry = "string \<Rightarrow> string \<Rightarrow> int \<Rightarrow> 'w \<Rightarrow> nat option \<times> 'w"

definition handle_payment ::
  "scanner_config \<Rightarrow> (string \<Rightarrow> horizon_transaction option) \<Rightarrow> 'w registry \<Rightarrow> horizon_payment \<Rightarrow> 'w \<Rightarrow> verdict \<times> 'w" where
  "handle_payment cfg horizon confirm p w =
     (if \<not> is_relevant cfg p then (Skip, w)
      else case parse_amount_to_stroops (unwrap_or (hp_amount p) ''0'') of
        Inl _ \<Rightarrow> (Skip, w)
      | Inr stroops \<Rightarrow>
          (case hp_tx p of
             None \<Rightarrow> (Skip, w)
           | Some tx \<Rightarrow>
               (case fetch_memo horizon tx of
                  None \<Rightarrow> (Halt, w)
                | Some None \<Rightarrow> (Skip, w)
                | Some (Some memo) \<Rightarrow>
                    if \<not> starts_with memo ''mp-'' then (Skip, w)
                    else
                      let (answer, w') = confirm memo tx stroops w
                      in case confirm_outcome_of answer of
                           Handled \<Rightarrow> (Confirmed tx, w')
                         | Transient \<Rightarrow> (Halt, w'))))"

section \<open>One cycle\<close>

text \<open>The loop over a page: the token and the transaction to save, and the count of confirmations.\<close>

fun scan_page ::
  "scanner_config \<Rightarrow> (string \<Rightarrow> horizon_transaction option) \<Rightarrow> 'w registry \<Rightarrow> horizon_payment list \<Rightarrow>
   string option \<times> string option \<times> nat \<Rightarrow> 'w \<Rightarrow> (string option \<times> string option \<times> nat) \<times> 'w" where
  "scan_page cfg horizon confirm [] acc w = (acc, w)"
| "scan_page cfg horizon confirm (p # ps) (token, last_tx, n) w =
     (case handle_payment cfg horizon confirm p w of
        (Skip, w') \<Rightarrow> scan_page cfg horizon confirm ps (Some (hp_token p), last_tx, n) w'
      | (Confirmed tx, w') \<Rightarrow> scan_page cfg horizon confirm ps (Some (hp_token p), Some tx, n + 1) w'
      | (Halt, w') \<Rightarrow> ((token, last_tx, n), w'))"

text \<open>
  The row of the scanner. \<open>UPDATE\<close> of a missing row changes nothing, which the \<open>option\<close> keeps.
\<close>

record scanner_row =
  sr_cursor :: "string option"
  sr_last_tx :: "string option"

definition ensure_state_row :: "bool \<Rightarrow> scanner_row option \<Rightarrow> scanner_row option" where
  "ensure_state_row db_ok row =
     (if db_ok \<and> row = None then Some \<lparr>sr_cursor = None, sr_last_tx = None\<rparr> else row)"

definition load_cursor :: "scanner_row option \<Rightarrow> string option" where
  "load_cursor row = (case row of Some r \<Rightarrow> sr_cursor r | None \<Rightarrow> None)"

definition save_cursor :: "string \<Rightarrow> string option \<Rightarrow> scanner_row option \<Rightarrow> scanner_row option" where
  "save_cursor token last_tx row =
     map_option (\<lambda>r. r\<lparr>sr_cursor := Some token,
       sr_last_tx := (case last_tx of Some t \<Rightarrow> Some t | None \<Rightarrow> sr_last_tx r)\<rparr>) row"

text \<open>
  The page behind a cursor is \<open>payments\<close>, \<open>None\<close> when Horizon does not answer; \<open>load_ok\<close> and
  \<open>save_ok\<close> say whether the two statements succeed.
\<close>

definition poll_once ::
  "scanner_config \<Rightarrow> (string option \<Rightarrow> horizon_payment list option) \<Rightarrow> (string \<Rightarrow> horizon_transaction option) \<Rightarrow>
   'w registry \<Rightarrow> bool \<Rightarrow> bool \<Rightarrow> scanner_row option \<times> 'w \<Rightarrow> (scanner_error + nat) \<times> scanner_row option \<times> 'w" where
  "poll_once cfg payments horizon confirm load_ok save_ok st =
     (let (row, w) = st in
      if \<not> load_ok then (Err Scanner_database_error, row, w)
      else case payments (load_cursor row) of
        None \<Rightarrow> (Err Horizon_error, row, w)
      | Some page \<Rightarrow>
          let ((token, last_tx, n), w') = scan_page cfg horizon confirm page (None, None, 0) w
          in (case token of
                None \<Rightarrow> (Ok n, row, w')
              | Some t \<Rightarrow>
                  if \<not> save_ok then (Err Scanner_database_error, row, w')
                  else (Ok n, save_cursor t last_tx row, w')))"


section \<open>A page: what is settled, and where the loop stops\<close>

text \<open>
  A transaction of the ledger does not change, so Horizon answers with what is in the ledger or not at
  all. The request that a payment calls for, if any: a relevant payment with a readable amount
  whose transaction carries a memo of the marketplace.
\<close>

definition horizon_of :: "(string \<Rightarrow> horizon_transaction) \<Rightarrow> (string \<Rightarrow> bool) \<Rightarrow> string \<Rightarrow> horizon_transaction option" where
  "horizon_of ledger up tx = (if up tx then Some (ledger tx) else None)"

definition request_of ::
  "scanner_config \<Rightarrow> (string \<Rightarrow> horizon_transaction) \<Rightarrow> horizon_payment \<Rightarrow> (string \<times> string \<times> int) option" where
  "request_of cfg ledger p =
     (if \<not> is_relevant cfg p then None
      else case (parse_amount_to_stroops (unwrap_or (hp_amount p) ''0''), hp_tx p) of
        (Inr stroops, Some tx) \<Rightarrow>
          (case (ht_memo_type (ledger tx), ht_memo (ledger tx)) of
             (Some ty, Some memo) \<Rightarrow>
               if ty = ''text'' \<and> starts_with memo ''mp-'' then Some (memo, tx, stroops) else None
           | _ \<Rightarrow> None)
      | _ \<Rightarrow> None)"

text \<open>A status that settles a confirmation: success, or an error of the client.\<close>

definition final_status :: "nat \<Rightarrow> bool" where
  "final_status st \<longleftrightarrow> (200 \<le> st \<and> st < 300) \<or> (400 \<le> st \<and> st < 500)"

lemma confirm_outcome_final: "confirm_outcome_of a = Handled \<longleftrightarrow> (\<exists>st. a = Some st \<and> final_status st)"
  by (auto simp: confirm_outcome_of_def final_status_def split: option.split)

text \<open>The payments that the loop passes by, each with the answer to its confirmation, if it had one.\<close>

fun page_log ::
  "scanner_config \<Rightarrow> (string \<Rightarrow> horizon_transaction option) \<Rightarrow> 'w registry \<Rightarrow> horizon_payment list \<Rightarrow> 'w \<Rightarrow>
   (horizon_payment \<times> nat option) list" where
  "page_log cfg horizon confirm [] w = []"
| "page_log cfg horizon confirm (p # ps) w =
     (case handle_payment cfg horizon confirm p w of
        (Halt, w') \<Rightarrow> []
      | (Skip, w') \<Rightarrow> (p, None) # page_log cfg horizon confirm ps w'
      | (Confirmed tx, w') \<Rightarrow>
          (p, case fetch_memo horizon tx of
                Some (Some memo) \<Rightarrow>
                  (case parse_amount_to_stroops (unwrap_or (hp_amount p) ''0'') of
                     Inr n \<Rightarrow> fst (confirm memo tx n w) | Inl _ \<Rightarrow> None)
              | _ \<Rightarrow> None) # page_log cfg horizon confirm ps w')"

definition settled ::
  "scanner_config \<Rightarrow> (string \<Rightarrow> horizon_transaction) \<Rightarrow> horizon_payment \<times> nat option \<Rightarrow> bool" where
  "settled cfg ledger e \<longleftrightarrow>
     (case request_of cfg ledger (fst e) of
        None \<Rightarrow> snd e = None
      | Some _ \<Rightarrow> (case snd e of Some st \<Rightarrow> final_status st | None \<Rightarrow> False))"

lemma handle_cases:
  assumes "handle_payment cfg (horizon_of ledger up) confirm p w = (v, w')"
  obtains "v = Skip" "request_of cfg ledger p = None" "w' = w"
  | memo tx n st where "v = Confirmed tx" "request_of cfg ledger p = Some (memo, tx, n)"
      "confirm memo tx n w = (Some st, w')" "final_status st"
      "parse_amount_to_stroops (unwrap_or (hp_amount p) ''0'') = Ok n" "fetch_memo (horizon_of ledger up) tx = Some (Some memo)"
  | "v = Halt"
proof (cases "is_relevant cfg p")
  case False
  then show thesis using assms that(1) by (simp add: handle_payment_def request_of_def)
next
  case rel: True
  show thesis
  proof (cases "parse_amount_to_stroops (unwrap_or (hp_amount p) ''0'')")
    case (Inl e)
    then show thesis using assms that(1) rel by (simp add: handle_payment_def request_of_def)
  next
    case n: (Inr n)
    show thesis
    proof (cases "hp_tx p")
      case None
      then show thesis using assms that(1) rel n by (simp add: handle_payment_def request_of_def)
    next
      case tx: (Some tx)
      note facts = rel n tx
      have req: "request_of cfg ledger p =
          (case (ht_memo_type (ledger tx), ht_memo (ledger tx)) of
             (Some ty, Some memo) \<Rightarrow>
               if ty = ''text'' \<and> starts_with memo ''mp-'' then Some (memo, tx, n) else None
           | _ \<Rightarrow> None)"
        using facts by (simp add: request_of_def)
      show thesis
      proof (cases "fetch_memo (horizon_of ledger up) tx")
        case None
        then show thesis using assms facts that(3) by (simp add: handle_payment_def)
      next
        case (Some m)
        then have up: "up tx" and m: "m = (if ht_memo_type (ledger tx) = Some ''text'' then ht_memo (ledger tx) else None)"
          by (auto simp: fetch_memo_def horizon_of_def split: if_splits)
        show thesis
        proof (cases "\<exists>memo. m = Some memo \<and> starts_with memo ''mp-''")
          case False
          then have "handle_payment cfg (horizon_of ledger up) confirm p w = (Skip, w)"
            using facts Some by (auto simp: handle_payment_def split: option.split)
          moreover have "request_of cfg ledger p = None"
            unfolding req using False m by (auto split: option.splits if_splits)
          ultimately show thesis using assms that(1) by simp
        next
          case True
          then obtain memo where memo: "m = Some memo" "starts_with memo ''mp-''" by blast
          have r: "request_of cfg ledger p = Some (memo, tx, n)"
            unfolding req using memo m by (auto split: option.splits if_splits)
          obtain a w1 where c: "confirm memo tx n w = (a, w1)" by (cases "confirm memo tx n w")
          have h: "handle_payment cfg (horizon_of ledger up) confirm p w =
              (case confirm_outcome_of a of Handled \<Rightarrow> (Confirmed tx, w1) | Transient \<Rightarrow> (Halt, w1))"
            using facts Some memo c by (simp add: handle_payment_def)
          show thesis
          proof (cases "confirm_outcome_of a")
            case Handled
            then obtain st where "a = Some st" "final_status st" using confirm_outcome_final by blast
            then show thesis using that(2) [OF _ r] h Handled assms c n Some memo by simp
          next
            case Transient
            then show thesis using that(3) h assms by simp
          qed
        qed
      qed
    qed
  qed
qed

lemma page_log_settled:
  "e \<in> set (page_log cfg (horizon_of ledger up) confirm ps w) \<Longrightarrow> settled cfg ledger e"
proof (induction ps arbitrary: w)
  case (Cons p ps)
  obtain v w' where h: "handle_payment cfg (horizon_of ledger up) confirm p w = (v, w')"
    by (cases "handle_payment cfg (horizon_of ledger up) confirm p w")
  show ?case
  proof (rule handle_cases [OF h])
    assume "v = Skip" "request_of cfg ledger p = None" "w' = w"
    then show ?thesis using Cons h by (auto simp: settled_def)
  next
    fix memo tx n st
    assume "v = Confirmed tx" "request_of cfg ledger p = Some (memo, tx, n)" "confirm memo tx n w = (Some st, w')"
      "final_status st" "parse_amount_to_stroops (unwrap_or (hp_amount p) ''0'') = Ok n"
      "fetch_memo (horizon_of ledger up) tx = Some (Some memo)"
    then show ?thesis using Cons h by (auto simp: settled_def)
  next
    assume "v = Halt"
    then show ?thesis using Cons h by simp
  qed
qed simp

lemma page_log_prefix: "\<exists>rest. ps = map fst (page_log cfg horizon confirm ps w) @ rest"
  by (induction ps arbitrary: w) (auto split: prod.split verdict.split)

lemma scan_page_token:
  "fst (fst (scan_page cfg horizon confirm ps (token, last_tx, n) w)) =
     (if page_log cfg horizon confirm ps w = [] then token
      else Some (hp_token (fst (last (page_log cfg horizon confirm ps w)))))"
  by (induction ps arbitrary: token last_tx n w) (auto split: prod.split verdict.split)

section \<open>Cycles\<close>

text \<open>
  The payments of the address in ledger order, and Horizon's page behind a cursor. The page ends
  after the limit of the request.
\<close>

fun after_token :: "string \<Rightarrow> horizon_payment list \<Rightarrow> horizon_payment list" where
  "after_token t [] = []"
| "after_token t (p # ps) = (if hp_token p = t then ps else after_token t ps)"

definition page_behind :: "horizon_payment list \<Rightarrow> string option \<Rightarrow> horizon_payment list" where
  "page_behind L c = take HORIZON_PAGE_LIMIT (case c of None \<Rightarrow> L | Some t \<Rightarrow> after_token t L)"

text \<open>
  The runs of the scanner: the ledger grows, cycles run with whatever of Horizon, the registry and the
  database answers, and the world changes otherwise. The last component lists the payments that the
  saved cursor has passed.
\<close>

inductive scanner_run ::
  "scanner_config \<Rightarrow> (string \<Rightarrow> horizon_transaction) \<Rightarrow> horizon_payment list \<Rightarrow> scanner_row option \<Rightarrow> 'w \<Rightarrow>
   (horizon_payment \<times> nat option) list \<Rightarrow> bool"
  for cfg ledger where
  start: "scanner_run cfg ledger [] (ensure_state_row db_ok None) w []"
| grow: "scanner_run cfg ledger L row w log \<Longrightarrow> hp_token p \<notin> hp_token ` set L \<Longrightarrow>
    scanner_run cfg ledger (L @ [p]) row w log"
| cycle: "scanner_run cfg ledger L row w log \<Longrightarrow>
    poll_once cfg (\<lambda>c. if page_ok then Some (page_behind L c) else None) (horizon_of ledger up) confirm load_ok save_ok
      (row, w) = (res, row', w') \<Longrightarrow>
    log' = log @ (if row \<noteq> None \<and> load_ok \<and> page_ok \<and> save_ok
                  then page_log cfg (horizon_of ledger up) confirm (page_behind L (load_cursor row)) w else []) \<Longrightarrow>
    scanner_run cfg ledger L row' w' log'"
| elsewhere: "scanner_run cfg ledger L row w log \<Longrightarrow> scanner_run cfg ledger L row w' log"

text \<open>The cursor of a row that has passed the payments of \<open>log\<close>.\<close>

definition cursor_at :: "(horizon_payment \<times> nat option) list \<Rightarrow> string option" where
  "cursor_at log = (if log = [] then None else Some (hp_token (fst (last log))))"

definition scanner_inv ::
  "scanner_config \<Rightarrow> (string \<Rightarrow> horizon_transaction) \<Rightarrow> horizon_payment list \<Rightarrow> scanner_row option \<Rightarrow>
   (horizon_payment \<times> nat option) list \<Rightarrow> bool" where
  "scanner_inv cfg ledger L row log \<longleftrightarrow>
     distinct (map hp_token L) \<and> (\<exists>rest. L = map fst log @ rest) \<and> list_all (settled cfg ledger) log \<and>
     load_cursor row = cursor_at log \<and> (row = None \<longrightarrow> log = [])"

lemma after_token_split:
  "distinct (map hp_token (xs @ [p] @ ys)) \<Longrightarrow> after_token (hp_token p) (xs @ [p] @ ys) = ys"
  by (induction xs) auto

lemma behind_cursor:
  assumes "distinct (map hp_token L)" "L = map fst log @ rest"
  shows "page_behind L (cursor_at log) = take HORIZON_PAGE_LIMIT rest"
proof (cases log rule: rev_cases)
  case Nil
  then show ?thesis using assms(2) by (simp add: page_behind_def cursor_at_def)
next
  case (snoc xs e)
  then have "L = map fst xs @ [fst e] @ rest" using assms(2) by simp
  with after_token_split [of "map fst xs" "fst e" rest] assms(1) snoc show ?thesis
    by (simp add: page_behind_def cursor_at_def)
qed

lemma poll_once_row:
  assumes "poll_once cfg payments horizon confirm load_ok save_ok (row, w) = (res, row', w')"
    and "payments (load_cursor row) = (if page_ok then Some page else None)"
  shows "row' =
    (if load_ok \<and> page_ok \<and> save_ok \<and> page_log cfg horizon confirm page w \<noteq> []
     then map_option (\<lambda>r. \<lparr>sr_cursor = cursor_at (page_log cfg horizon confirm page w),
            sr_last_tx = (case fst (snd (fst (scan_page cfg horizon confirm page (None, None, 0) w))) of
                            Some t \<Rightarrow> Some t | None \<Rightarrow> sr_last_tx r)\<rparr>) row
     else row)"
proof (cases "load_ok \<and> page_ok")
  case False
  then show ?thesis using assms by (auto simp: poll_once_def split: if_splits)
next
  case True
  obtain token last_tx n w1 where scan: "scan_page cfg horizon confirm page (None, None, 0) w = ((token, last_tx, n), w1)"
    by (metis prod_cases3 surj_pair)
  have token: "token = cursor_at (page_log cfg horizon confirm page w)"
    using scan_page_token [of cfg horizon confirm page None None 0 w] scan by (simp add: cursor_at_def)
  show ?thesis
    using assms True scan token
    by (cases row; cases "page_log cfg horizon confirm page w = []")
      (auto simp: poll_once_def save_cursor_def cursor_at_def split: if_splits)
qed

lemma cursor_at_append: "cursor_at (xs @ ys) = (if ys = [] then cursor_at xs else cursor_at ys)"
  by (simp add: cursor_at_def)

lemma scanner_run_inv: "scanner_run cfg ledger L row w log \<Longrightarrow> scanner_inv cfg ledger L row log"
proof (induction rule: scanner_run.induct)
  case (start db_ok w)
  then show ?case by (simp add: scanner_inv_def ensure_state_row_def load_cursor_def cursor_at_def)
next
  case (grow L row w log p)
  then show ?case by (auto simp: scanner_inv_def)
next
  case (cycle L row w log page_ok up confirm load_ok save_ok res row' w' log')
  let ?page = "page_behind L (load_cursor row)"
  let ?new = "page_log cfg (horizon_of ledger up) confirm ?page w"
  have inv: "scanner_inv cfg ledger L row log" by (rule cycle.IH)
  obtain rest where L: "L = map fst log @ rest" using inv by (auto simp: scanner_inv_def)
  have page: "?page = take HORIZON_PAGE_LIMIT rest"
    using inv L behind_cursor [of L log rest] by (simp add: scanner_inv_def)
  obtain later where later: "?page = map fst ?new @ later" 
    using page_log_prefix [of ?page cfg "horizon_of ledger up" confirm w] by blast
  have row': "row' = (if load_ok \<and> page_ok \<and> save_ok \<and> ?new \<noteq> []
      then map_option (\<lambda>r. \<lparr>sr_cursor = cursor_at ?new,
            sr_last_tx = (case fst (snd (fst (scan_page cfg (horizon_of ledger up) confirm ?page (None, None, 0) w))) of
                            Some t \<Rightarrow> Some t | None \<Rightarrow> sr_last_tx r)\<rparr>) row else row)"
    by (rule poll_once_row [OF cycle.hyps(2)]) simp
  show ?case
  proof (cases "row \<noteq> None \<and> load_ok \<and> page_ok \<and> save_ok")
    case False
    then show ?thesis using inv row' cycle.hyps(3) by (cases row) (auto simp: scanner_inv_def)
  next
    case True
    have "rest = map fst ?new @ later @ drop HORIZON_PAGE_LIMIT rest"
      using later page append_take_drop_id [of HORIZON_PAGE_LIMIT rest] by (metis append.assoc)
    moreover have log': "log' = log @ ?new" using True cycle.hyps(3) by simp
    ultimately have "L = map fst log' @ later @ drop HORIZON_PAGE_LIMIT rest"
      unfolding log' map_append append.assoc by (subst L) (rule arg_cong)
    moreover have "list_all (settled cfg ledger) log'"
      using inv page_log_settled unfolding log' by (auto simp: scanner_inv_def list_all_iff)
    moreover have "load_cursor row' = cursor_at log' \<and> row' \<noteq> None"
    proof -
      from True obtain r where r: "row = Some r" by blast
      have old: "sr_cursor r = cursor_at log" using inv r by (simp add: scanner_inv_def load_cursor_def)
      show ?thesis
      proof (cases "?new = []")
        case True
        then have "row' = row" using row' by simp
        then show ?thesis using True old unfolding log' r by (simp add: load_cursor_def)
      next
        case False
        then obtain r' where "row' = Some r'" "sr_cursor r' = cursor_at ?new"
          using row' True unfolding r by (simp only: if_True simp_thms option.map) simp
        then show ?thesis using False unfolding log' cursor_at_append by (simp add: load_cursor_def)
      qed
    qed
    ultimately show ?thesis using inv unfolding scanner_inv_def by blast
  qed
next
  case (elsewhere L row w log w')
  then show ?case by simp
qed

text \<open>A ledger with one marketplace payment, and a registry that accepts everything.\<close>

definition demo_cfg :: scanner_config where
  "demo_cfg = \<lparr>sc_network = ''testnet'', sc_horizon_url = ''h'', sc_address = ''G'', sc_issuer = ''I'',
     sc_base_url = ''b'', sc_token = ''t''\<rparr>"

definition demo_payment :: "string \<Rightarrow> horizon_payment" where
  "demo_payment t = \<lparr>hp_token = t, hp_type = ''payment'', hp_tx = Some t, hp_to = Some ''G'', hp_amount = Some ''29.99'',
     hp_code = Some ''USDC'', hp_asset_issuer = Some ''I''\<rparr>"

definition demo_ledger :: "string \<Rightarrow> horizon_transaction" where
  "demo_ledger tx = \<lparr>ht_memo = Some ''mp-A'', ht_memo_type = Some ''text''\<rparr>"

definition accepting :: "nat registry" where
  "accepting memo tx n w = (Some 200, w + 1)"

lemma demo_amount: "parse_amount_to_stroops ''29.99'' = Ok 299900000"
  by code_simp

lemma demo_handled:
  "handle_payment demo_cfg (\<lambda>tx. Some (demo_ledger tx)) accepting (demo_payment t) w = (Confirmed t, w + 1)"
  by (simp add: handle_payment_def is_relevant_def is_payment_like_def demo_cfg_def demo_payment_def demo_ledger_def
      demo_amount fetch_memo_def unwrap_or_def accepting_def confirm_outcome_of_def)

lemma demo_request:
  "fetch_memo (\<lambda>tx. Some (demo_ledger tx)) tx = Some (Some ''mp-A'')"
  "parse_amount_to_stroops (unwrap_or (hp_amount (demo_payment t)) ''0'') = Ok 299900000"
  by (simp_all add: fetch_memo_def demo_ledger_def demo_payment_def unwrap_or_def demo_amount)

lemma accepting_final: "\<exists>st. fst (accepting memo tx n w) = Some st \<and> final_status st"
  by (simp add: accepting_def final_status_def)

lemma demo_run: "scanner_run demo_cfg demo_ledger [demo_payment ''1''] (Some \<lparr>sr_cursor = None, sr_last_tx = None\<rparr>) (0 :: nat) []"
  using scanner_run.grow [OF scanner_run.start [of demo_cfg demo_ledger True "0 :: nat"], of "demo_payment ''1''"]
  by (simp add: ensure_state_row_def)

text \<open>
  C13. The cursor never passes a payment that is not settled. Through failures of Horizon, of the
  registry and of the database in any order, the payments behind the saved cursor are a prefix of the
  ledger's, and each of them either calls for no confirmation or was answered by the registry
  with a success or a client error.
\<close>

theorem cursor_passes_settled:
  assumes "scanner_run cfg ledger L row w log"
  shows "(\<exists>rest. L = map fst log @ rest) \<and> list_all (settled cfg ledger) log \<and> load_cursor row = cursor_at log"
  using scanner_run_inv [OF assms] by (simp add: scanner_inv_def)

theorem cursor_passes_settled_witness:
  "\<exists>row. scanner_run demo_cfg demo_ledger [demo_payment ''1''] row (1 :: nat) [(demo_payment ''1'', Some 200)] \<and>
    load_cursor row = Some ''1''"
proof -
  have log: "page_log demo_cfg (\<lambda>tx. Some (demo_ledger tx)) accepting [demo_payment ''1''] 0 =
      [(demo_payment ''1'', Some 200)]"
    by (simp add: demo_handled demo_request) (simp add: accepting_def)
  have up: "(\<lambda>tx. Some (demo_ledger tx)) = horizon_of demo_ledger (\<lambda>_. True)"
    by (intro ext) (simp add: horizon_of_def)
  have page: "page_behind [demo_payment ''1''] None = [demo_payment ''1'']"
    by (simp add: page_behind_def HORIZON_PAGE_LIMIT_def)
  obtain res row w where poll: "poll_once demo_cfg (\<lambda>c. if True then Some (page_behind [demo_payment ''1''] c) else None)
      (horizon_of demo_ledger (\<lambda>_. True)) accepting True True (Some \<lparr>sr_cursor = None, sr_last_tx = None\<rparr>, 0) = (res, row, w)"
    by (metis prod_cases3)
  have w: "w = 1"
    using poll by (simp add: poll_once_def load_cursor_def page up [symmetric] demo_handled)
  have run: "scanner_run demo_cfg demo_ledger [demo_payment ''1''] row (1 :: nat) [(demo_payment ''1'', Some 200)]"
    by (rule scanner_run.cycle [OF demo_run poll [unfolded w]])
      (simp add: load_cursor_def page log [unfolded up] del: page_log.simps)
  from cursor_passes_settled [OF this] have "load_cursor row = Some ''1''"
    by (simp add: cursor_at_def demo_payment_def)
  with run show ?thesis by blast
qed

section \<open>Healthy cycles\<close>

text \<open>Cycles in which everything answers; the registry gives a final status to every request.\<close>

fun healthy_cycles ::
  "scanner_config \<Rightarrow> (string \<Rightarrow> horizon_transaction) \<Rightarrow> horizon_payment list \<Rightarrow> 'w registry \<Rightarrow> nat \<Rightarrow>
   scanner_row option \<times> 'w \<Rightarrow> scanner_row option \<times> 'w" where
  "healthy_cycles cfg ledger L confirm 0 st = st"
| "healthy_cycles cfg ledger L confirm (Suc k) st =
     healthy_cycles cfg ledger L confirm k
       (snd (poll_once cfg (\<lambda>c. Some (page_behind L c)) (\<lambda>tx. Some (ledger tx)) confirm True True st))"

lemma healthy_no_halt:
  assumes "\<And>memo tx n w. \<exists>st. fst (confirm memo tx n w) = Some st \<and> final_status st"
  shows "map fst (page_log cfg (horizon_of ledger (\<lambda>_. True)) confirm ps w) = ps"
proof (induction ps arbitrary: w)
  case (Cons p ps)
  obtain v w' where h: "handle_payment cfg (horizon_of ledger (\<lambda>_. True)) confirm p w = (v, w')"
    by (cases "handle_payment cfg (horizon_of ledger (\<lambda>_. True)) confirm p w")
  have "confirm_outcome_of (fst (confirm memo tx n w)) = Handled" for memo tx n w
    unfolding confirm_outcome_final by (rule assms)
  then have "v \<noteq> Halt"
    using h by (auto simp: handle_payment_def horizon_of_def fetch_memo_def
        split: if_splits sum.splits option.splits prod.splits confirm_outcome.splits)
      (metis confirm_outcome.distinct(1) fst_conv)+
  then show ?case using Cons h by (cases v) simp_all
qed simp

lemma horizon_up: "(\<lambda>tx. Some (ledger tx)) = horizon_of ledger (\<lambda>_. True)"
  by (intro ext) (simp add: horizon_of_def)

lemma healthy_cycle_advances:
  assumes run: "scanner_run cfg ledger L row w log" and row: "row \<noteq> None" and L: "L = map fst log @ rest"
    and final: "\<And>memo tx n w. \<exists>st. fst (confirm memo tx n w) = Some st \<and> final_status st"
    and poll: "poll_once cfg (\<lambda>c. Some (page_behind L c)) (\<lambda>tx. Some (ledger tx)) confirm True True (row, w) = (res, row', w')"
  shows "\<exists>log'. scanner_run cfg ledger L row' w' log' \<and> row' \<noteq> None \<and>
    L = map fst log' @ drop HORIZON_PAGE_LIMIT rest"
proof -
  let ?page = "page_behind L (load_cursor row)"
  let ?new = "page_log cfg (horizon_of ledger (\<lambda>_. True)) confirm ?page w"
  have poll': "poll_once cfg (\<lambda>c. if True then Some (page_behind L c) else None) (horizon_of ledger (\<lambda>_. True)) confirm True True
      (row, w) = (res, row', w')"
    using poll by (simp add: horizon_up)
  have run': "scanner_run cfg ledger L row' w' (log @ ?new)"
    by (rule scanner_run.cycle [OF run poll']) (simp add: row)
  have inv: "scanner_inv cfg ledger L row log" by (rule scanner_run_inv [OF run])
  have "?page = take HORIZON_PAGE_LIMIT rest"
    using inv L behind_cursor [of L log rest] by (simp add: scanner_inv_def)
  then have "L = map fst (log @ ?new) @ drop HORIZON_PAGE_LIMIT rest"
    using L healthy_no_halt [OF final] by simp
  moreover have "row' \<noteq> None"
    using row poll_once_row [OF poll', of True ?page] by (auto split: if_splits)
  ultimately show ?thesis using run' by blast
qed

text \<open>
  After an outage the scanner catches up. From any state it can reach with its row in the
  database, enough cycles in which Horizon, the registry and the database answer, one per page
  of payments not yet passed, bring the cursor to the last payment.
\<close>

theorem scanner_catches_up:
  assumes "scanner_run cfg ledger L row w log" "row \<noteq> None" "L \<noteq> []"
    and "\<And>memo tx n w. \<exists>st. fst (confirm memo tx n w) = Some st \<and> final_status st"
    and "length L \<le> length log + HORIZON_PAGE_LIMIT * k"
  shows "load_cursor (fst (healthy_cycles cfg ledger L confirm k (row, w))) = Some (hp_token (last L))"
  using assms(1,2,5)
proof (induction k arbitrary: row w log)
  case 0
  have inv: "scanner_inv cfg ledger L row log" by (rule scanner_run_inv [OF 0(1)])
  then obtain rest where L: "L = map fst log @ rest" by (auto simp: scanner_inv_def)
  with 0(3) have "rest = []" by simp
  with L assms(3) inv show ?case by (auto simp: scanner_inv_def cursor_at_def last_map)
next
  case (Suc k)
  obtain rest where L: "L = map fst log @ rest"
    using scanner_run_inv [OF Suc.prems(1)] by (auto simp: scanner_inv_def)
  obtain res row' w' where poll: "poll_once cfg (\<lambda>c. Some (page_behind L c)) (\<lambda>tx. Some (ledger tx)) confirm True True
      (row, w) = (res, row', w')"
    by (metis prod_cases3)
  obtain log' where log': "scanner_run cfg ledger L row' w' log'" "row' \<noteq> None"
    "L = map fst log' @ drop HORIZON_PAGE_LIMIT rest"
    using healthy_cycle_advances [OF Suc.prems(1,2) L assms(4) poll] by blast
  have "length L = length log' + (length rest - HORIZON_PAGE_LIMIT)"
    using arg_cong [OF log'(3), of length] by simp
  moreover have "length L = length log + length rest" using arg_cong [OF L, of length] by simp
  ultimately have "length L \<le> length log' + HORIZON_PAGE_LIMIT * k" using Suc.prems(3) by simp
  from Suc.IH [OF log'(1,2) this] show ?case by (simp add: poll)
qed

theorem scanner_catches_up_witness:
  "load_cursor (fst (healthy_cycles demo_cfg demo_ledger [demo_payment ''1''] accepting 1
     (Some \<lparr>sr_cursor = None, sr_last_tx = None\<rparr>, 0))) = Some ''1''"
  using scanner_catches_up [OF demo_run _ _ accepting_final, of 1]
  by (simp add: HORIZON_PAGE_LIMIT_def demo_payment_def)

section \<open>A missing row\<close>

text \<open>
  Without its row the scanner sees one page for ever. The row is created before the loop, once;
  the log says that this will be retried, which it is not, and an update of a missing row changes
  nothing. So if that statement failed, each cycle reads the first page again, whatever
  payments follow it, and no later payment is ever confirmed.
\<close>

theorem missing_row_first_page:
  assumes "HORIZON_PAGE_LIMIT \<le> length L"
  shows "poll_once cfg (\<lambda>c. Some (page_behind (L @ M) c)) horizon confirm load_ok save_ok (None, w) =
      poll_once cfg (\<lambda>c. Some (page_behind L c)) horizon confirm load_ok save_ok (None, w) \<and>
    fst (snd (poll_once cfg (\<lambda>c. Some (page_behind L c)) horizon confirm load_ok save_ok (None, w))) = None"
proof -
  have "page_behind (L @ M) (load_cursor None) = page_behind L (load_cursor None)"
    using assms by (simp add: page_behind_def load_cursor_def)
  then show ?thesis by (simp add: poll_once_def save_cursor_def split: prod.split option.split)
qed

theorem missing_row_first_page_witness:
  "poll_once demo_cfg (\<lambda>c. Some (page_behind (map (\<lambda>n. demo_payment (dec n)) [0..<50] @ [demo_payment ''late'']) c))
      (\<lambda>tx. Some (demo_ledger tx)) accepting True True (None, 0) =
    poll_once demo_cfg (\<lambda>c. Some (page_behind (map (\<lambda>n. demo_payment (dec n)) [0..<50]) c))
      (\<lambda>tx. Some (demo_ledger tx)) accepting True True (None, 0)"
  by (rule conjunct1 [OF missing_row_first_page]) (simp add: HORIZON_PAGE_LIMIT_def)

end
