(* ===== verification/Payment_Flow.thy ===== *)
theory Payment_Flow
  imports Usdc_Scanner Rate_Limit
begin

text \<open>
  The scanner, the limiter and the marketplace together: the scanner of the indexer posts its
  confirmations with a bearer token to the API, where they pass the rate limiter before the
  handler. The world of the scanner is the marketplace and the buckets of the limiter.
\<close>

section \<open>The registry behind the limiter\<close>

definition scanner_request :: "string \<Rightarrow> string \<Rightarrow> request" where
  "scanner_request ip token =
     \<lparr>rq_method = ''POST'', rq_path = ''/api/marketplace/usdc/confirm'', rq_query = None, x_forwarded_for = None,
      x_real_ip = None, connect_ip = Some ip, x_api_plan = None, x_api_key = None,
      authorization = Some (''Bearer '' @ token)\<rparr>"

definition status_of :: "api_error + 'a \<Rightarrow> nat" where
  "status_of r = (case r of Inl e \<Rightarrow> err_status e | Inr _ \<Rightarrow> 200)"

text \<open>
  What does not change while a page is scanned: the clocks (\<open>instant\<close> of the limiter, \<open>clock\<close> of the
  marketplace), the limits, the request, the faults and the signer of the handler, and the
  identifiers that it draws for a transaction.
\<close>

record flow =
  fl_earliest :: instant
  fl_parse_ip :: "string \<Rightarrow> string option"
  fl_limits :: rate_limit_config
  fl_instant :: instant
  fl_request :: request
  fl_ok :: "stmt \<Rightarrow> bool"
  fl_signer :: "codec option"
  fl_clock :: time
  fl_ids :: "string \<Rightarrow> uuid \<times> uuid"
  fl_user :: string

definition limited_registry :: "flow \<Rightarrow> (market \<times> buckets) registry" where
  "limited_registry fl memo tx stroops w =
     (let (d, m') = rate_limit_middleware (fl_earliest fl) (fl_parse_ip fl) (fl_limits fl) (fl_instant fl) (fl_request fl) (snd w)
      in if (case d of Some d \<Rightarrow> \<not> d_allowed d | None \<Rightarrow> False) then (Some 429, (fst w, m'))
         else
           let (r, db') = confirm_intent (fl_ok fl) (fl_signer fl) (fl_clock fl) (fl_ids fl tx) (fl_user fl)
                            \<lparr>cq_memo = memo, cq_tx_hash = tx, cq_stroops = stroops\<rparr> (fst w)
           in (Some (status_of r), (db', m')))"

section \<open>A page for which nothing is left of the quota\<close>

text \<open>The next request of the scanner would be refused.\<close>

definition quota_spent :: "flow \<Rightarrow> buckets \<Rightarrow> bool" where
  "quota_spent fl m \<longleftrightarrow>
     \<not> is_whitelisted (fl_parse_ip fl) (fl_limits fl) (fl_request fl) \<and>
     \<not> d_allowed (fst (check_request (fl_earliest fl) (fl_limits fl) (fl_instant fl)
         (select_limit_and_key (fl_parse_ip fl) (fl_limits fl) (fl_request fl)) m))"

lemma trim_front_twice [simp]: "trim_front c (trim_front c ts) = trim_front c ts"
  by (induction c ts rule: trim_front.induct) auto







text \<open>The default limits: writes with a token are limited to 300, of which the burst limit leaves 6.\<close>

definition demo_flow :: flow where
  "demo_flow =
     \<lparr>fl_earliest = 0, fl_parse_ip = (\<lambda>_. None), fl_limits = demo_limits, fl_instant = at_secs 1000,
      fl_request = scanner_request ''10.0.0.1'' ''service'', fl_ok = (\<lambda>_. True), fl_signer = Some demo_codec,
      fl_clock = 1000, fl_ids = (\<lambda>_. (20, 21)), fl_user = ''9''\<rparr>"

lemma scanner_endpoint [simp]:
  "rq_method (scanner_request ip token) = ''POST''" "rq_path (scanner_request ip token) = ''/api/marketplace/usdc/confirm''"
  "\<not> is_contract_abi_endpoint ''POST'' path" "\<not> is_publish_endpoint ''POST'' ''/api/marketplace/usdc/confirm''"
  "\<not> is_dependency_scan_endpoint ''POST'' ''/api/marketplace/usdc/confirm''" "\<not> is_search_endpoint ''POST'' path"
  "is_write_method ''POST''"
  by (simp_all add: scanner_request_def is_contract_abi_endpoint_def is_publish_endpoint_def
      is_dependency_scan_endpoint_def is_search_endpoint_def is_write_method_def)

lemma scanner_token: "extract_auth_token (scanner_request ip ''service'') = Some ''Bearer service''"
proof -
  have "trim ''Bearer service'' = ''Bearer service''" by code_simp
  then show ?thesis by (simp add: extract_auth_token_def non_blank_def and_then_def scanner_request_def)
qed

lemma write_burst: "burst_limit_for_limit 300 = 6"
  by code_simp

lemma demo_no_keys: "parse_key_limit_map '''' = (\<lambda>_. None)" "parse_csv_set '''' = {}"
proof -
  have "split_on CHR '','' '''' = [[]]" "split_first CHR ''='' [] = ([], None)" "trim [] = ([] :: string)" by code_simp+
  then show "parse_key_limit_map '''' = (\<lambda>_. None)" "parse_csv_set '''' = {}"
    by (simp_all add: parse_key_limit_map_def parse_csv_set_def)
qed

lemma scanner_quota:
  "select_limit_and_key (\<lambda>_. None) demo_limits (scanner_request ip ''service'') =
     \<lparr>q_limit = 300, q_burst = 6, q_key = ''auth:write:Bearer service''\<rparr>"
proof -
  have "per_api_key_limit demo_limits t = None" for t
    by (simp add: per_api_key_limit_def demo_limits_def config_from_env_def unwrap_or_def demo_no_keys)
  moreover have "extract_api_tier (scanner_request ip ''service'') = Free"
    by (simp add: extract_api_tier_def scanner_request_def)
  moreover have "write_auth_limit demo_limits = 300" "hourly_limit_for_tier demo_limits Free = 1000"
    by (simp_all add: demo_limits_def config_from_env_def env_u32_def env_u32_with_fallback_def hourly_limit_for_tier_def
        DEFAULT_WRITE_AUTH_LIMIT_def DEFAULT_AUTH_LIMIT_def FREE_TIER_LIMIT_def)
  ultimately show ?thesis
    by (simp add: select_limit_and_key_def scanner_token quota_of_def unwrap_or_def write_burst Let_def)
qed

lemma scanner_not_trusted: "\<not> is_whitelisted (\<lambda>_. None) demo_limits (scanner_request ip ''service'')"
  by (simp add: is_whitelisted_def demo_limits_def config_from_env_def unwrap_or_def demo_no_keys split: option.split)

text \<open>Six requests in the last second spend the quota.\<close>

definition spent_buckets :: buckets where
  "spent_buckets = (let ts = [at_secs 999, at_secs 999, at_secs 999, at_secs 999, at_secs 999, at_secs 999]
     in (\<lambda>_. Some \<lparr>timestamps = ts, burst_timestamps = ts\<rparr>))"

lemma demo_spent: "quota_spent demo_flow spent_buckets"
  by (simp add: quota_spent_def demo_flow_def scanner_quota scanner_not_trusted check_request_def check_bucket_def
      spent_buckets_def unwrap_or_def checked_sub_def demo_windows at_secs_def secs_def Let_def)


section \<open>How many licenses one page can bring\<close>

lemma issue_adds_one:
  "length (licenses (snd (issue_for_owner ok cd now ids contract pid owner meta db))) \<le> Suc (length (licenses db))"
  by (simp add: issue_for_owner_def Let_def split: option.split sum.split)

lemma after_claim_adds_one:
  "length (licenses (snd (after_claim ok sg now ids user req row db))) \<le> Suc (length (licenses db))"
proof (cases "load_signer sg")
  case (Inr cd)
  let ?r = "issue_for_owner ok cd now ids (up_contract row) (up_plan row) (up_payer row)
    [(''source'', ''usdc''), (''tx_hash'', cq_tx_hash req), (''memo'', cq_memo req), (''confirmed_by'', user)] db"
  obtain e db1 where r: "?r = (e, db1)" by (cases ?r)
  have "length (licenses db1) \<le> Suc (length (licenses db))"
    using issue_adds_one r by (metis snd_conv)
  then show ?thesis
    unfolding after_claim_def confirm_issue_def Inr sum.case r by (auto split: sum.split)
qed (simp add: after_claim_def confirm_issue_def)

lemma confirm_intent_adds_one:
  "length (licenses (snd (confirm_intent ok sg now ids user req db))) \<le> Suc (length (licenses db))"
proof -
  obtain db1 pc1 where check: "confirm_check ok now req db = (db1, pc1)" by fastforce
  have lic1: "licenses db1 = licenses db"
    using check by (auto simp: confirm_check_def split: if_splits option.splits)
  show ?thesis
  proof (rule confirm_check_cases [OF check])
    fix e
    assume "pc1 = Answered (Err e)"
    then show ?thesis using confirm_intent_from_check check lic1 by simp
  next
    assume pc1: "pc1 = Checked" and db1: "db1 = db"
    obtain db2 pc2 where claim: "confirm_claim ok now req db = (db2, pc2)" by fastforce
    have lic2: "licenses db2 = licenses db" and "(\<exists>e. pc2 = Answered e) \<or> (\<exists>row. pc2 = Claimed row)"
      using claim by (auto simp: confirm_claim_def split: if_splits option.splits)
    then consider e where "pc2 = Answered e" | row where "pc2 = Claimed row" by blast
    then show ?thesis
    proof cases
      case 1
      then show ?thesis using confirm_intent_from_claim check claim pc1 db1 lic2 by simp
    next
      case 2
      then show ?thesis
        using confirm_intent_claimed [of ok now req db db2 row sg ids user] check claim pc1 db1 lic2
          after_claim_adds_one [of ok sg now ids user req row db2]
        by simp
    qed
  qed
qed

text \<open>The scanner's bucket, and how many of its stamps are of the instant at which the page is scanned.\<close>

definition flow_quota :: "flow \<Rightarrow> quota" where
  "flow_quota fl = select_limit_and_key (fl_parse_ip fl) (fl_limits fl) (fl_request fl)"

definition flow_bucket :: "flow \<Rightarrow> buckets \<Rightarrow> bucket" where
  "flow_bucket fl m = unwrap_or (m (q_key (flow_quota fl))) empty_bucket"

definition stamps_now :: "flow \<Rightarrow> buckets \<Rightarrow> nat" where
  "stamps_now fl m = length (filter (\<lambda>t. t = fl_instant fl) (burst_timestamps (flow_bucket fl m)))"

lemma trim_front_keeps_later: "c < t \<Longrightarrow> filter (\<lambda>x. x = t) (trim_front c ts) = filter (\<lambda>x. x = t) ts"
  by (induction c ts rule: trim_front.induct) auto

definition proper_instant :: "flow \<Rightarrow> bool" where
  "proper_instant fl \<longleftrightarrow>
     fl_earliest fl \<le> fl_instant fl - int (burst_window (fl_limits fl)) \<and> 0 < burst_window (fl_limits fl)"

lemma check_bucket_stamps:
  assumes "check_bucket earliest cfg now l b bk = (d, bk')"
    and "earliest \<le> now - int (burst_window cfg)" "0 < burst_window cfg" "length (burst_timestamps bk) < 2 ^ 32"
  shows "length (burst_timestamps bk') \<le> Suc (length (burst_timestamps bk))"
    and "\<not> d_allowed d \<Longrightarrow> filter (\<lambda>t. t = now) (burst_timestamps bk') = filter (\<lambda>t. t = now) (burst_timestamps bk)"
    and "d_allowed d \<Longrightarrow> length (filter (\<lambda>t. t = now) (burst_timestamps bk')) =
        Suc (length (filter (\<lambda>t. t = now) (burst_timestamps bk))) \<and>
      length (filter (\<lambda>t. t = now) (burst_timestamps bk)) < unat b"
proof -
  let ?c = "now - int (burst_window cfg)"
  let ?bs = "trim_front ?c (burst_timestamps bk)"
  have cut: "unwrap_or (checked_sub earliest now (burst_window cfg)) now = ?c"
    using assms(2) by (simp add: checked_sub_def unwrap_or_def)
  have keep: "filter (\<lambda>t. t = now) ?bs = filter (\<lambda>t. t = now) (burst_timestamps bk)"
    using assms(3) by (intro trim_front_keeps_later) simp
  have short: "length ?bs \<le> length (burst_timestamps bk)" by (rule trim_front_shorter)
  have bs: "burst_timestamps bk' = (if d_allowed d then ?bs @ [now] else ?bs)"
    and allowed: "d_allowed d \<Longrightarrow> \<not> b \<le> of_nat (length ?bs)"
    using assms(1) unfolding check_bucket_def cut by (auto simp: Let_def split: if_splits)
  show "length (burst_timestamps bk') \<le> Suc (length (burst_timestamps bk))" using bs short by simp
  show "filter (\<lambda>t. t = now) (burst_timestamps bk') = filter (\<lambda>t. t = now) (burst_timestamps bk)" if "\<not> d_allowed d"
    using that bs keep by simp
  show "length (filter (\<lambda>t. t = now) (burst_timestamps bk')) =
        Suc (length (filter (\<lambda>t. t = now) (burst_timestamps bk))) \<and>
      length (filter (\<lambda>t. t = now) (burst_timestamps bk)) < unat b" if "d_allowed d"
  proof -
    have "length ?bs < unat b" using allowed [OF that] short assms(4) limit_reached [of "length ?bs" b] by simp
    moreover have "length (filter (\<lambda>t. t = now) ?bs) \<le> length ?bs" by (rule length_filter_le)
    ultimately show ?thesis using bs that keep by simp
  qed
qed

text \<open>A request changes the licenses and the stamps together, within what is left of the burst.\<close>

definition flow_potential :: "flow \<Rightarrow> market \<times> buckets \<Rightarrow> nat" where
  "flow_potential fl w = length (licenses (fst w)) + (unat (q_burst (flow_quota fl)) - stamps_now fl (snd w))"

lemma limited_registry_potential:
  assumes "proper_instant fl" "\<not> is_whitelisted (fl_parse_ip fl) (fl_limits fl) (fl_request fl)"
    and "length (burst_timestamps (flow_bucket fl (snd w))) < 2 ^ 32" "limited_registry fl memo tx n w = (a, w')"
  shows "flow_potential fl w' \<le> flow_potential fl w \<and>
    length (burst_timestamps (flow_bucket fl (snd w'))) \<le> Suc (length (burst_timestamps (flow_bucket fl (snd w))))"
proof -
  let ?q = "flow_quota fl"
  obtain d bk where c: "check_bucket (fl_earliest fl) (fl_limits fl) (fl_instant fl) (q_limit ?q) (q_burst ?q)
      (flow_bucket fl (snd w)) = (d, bk)" by fastforce
  note stamps = check_bucket_stamps [OF c _ _ assms(3)]
  have p: "fl_earliest fl \<le> fl_instant fl - int (burst_window (fl_limits fl))" "0 < burst_window (fl_limits fl)"
    using assms(1) by (simp_all add: proper_instant_def)
  have mid: "rate_limit_middleware (fl_earliest fl) (fl_parse_ip fl) (fl_limits fl) (fl_instant fl) (fl_request fl) (snd w) =
      (Some d, (snd w)(q_key ?q \<mapsto> bk))"
    using assms(2) c by (simp add: rate_limit_middleware_def check_request_def flow_quota_def flow_bucket_def)
  have bucket: "flow_bucket fl ((snd w)(q_key ?q \<mapsto> bk)) = bk" by (simp add: flow_bucket_def unwrap_or_def)
  show ?thesis
  proof (cases "d_allowed d")
    case False
    then have "w' = (fst w, (snd w)(q_key ?q \<mapsto> bk))"
      using assms(4) by (simp add: limited_registry_def mid)
    then show ?thesis using stamps(1,2) [OF p] False
      by (simp add: flow_potential_def stamps_now_def bucket)
  next
    case True
    let ?r = "confirm_intent (fl_ok fl) (fl_signer fl) (fl_clock fl) (fl_ids fl tx) (fl_user fl)
        \<lparr>cq_memo = memo, cq_tx_hash = tx, cq_stroops = n\<rparr> (fst w)"
    have w': "w' = (snd ?r, (snd w)(q_key ?q \<mapsto> bk))"
      using assms(4) True by (simp add: limited_registry_def mid split: prod.splits)
    have "length (licenses (snd ?r)) \<le> Suc (length (licenses (fst w)))" by (rule confirm_intent_adds_one)
    then show ?thesis using stamps(1,3) [OF p] True
      unfolding w' by (simp add: flow_potential_def stamps_now_def bucket)
  qed
qed

lemma handle_payment_world:
  assumes "handle_payment cfg horizon confirm p w = (v, w')"
  shows "w' = w \<or> (\<exists>memo tx n a. confirm memo tx n w = (a, w'))"
  using assms
  by (auto simp: handle_payment_def Let_def split: if_splits sum.splits option.splits prod.splits confirm_outcome.splits)

lemma scan_page_potential:
  assumes "proper_instant fl" "\<not> is_whitelisted (fl_parse_ip fl) (fl_limits fl) (fl_request fl)"
    and "length (burst_timestamps (flow_bucket fl (snd w))) + length ps < 2 ^ 32"
  shows "flow_potential fl (snd (scan_page cfg horizon (limited_registry fl) ps acc w)) \<le> flow_potential fl w"
  using assms(3)
proof (induction ps arbitrary: w acc)
  case (Cons p ps)
  obtain v w' where h: "handle_payment cfg horizon (limited_registry fl) p w = (v, w')"
    by (cases "handle_payment cfg horizon (limited_registry fl) p w")
  obtain x y z where acc: "acc = (x, y, z)" by (metis prod_cases3)
  have step: "flow_potential fl w' \<le> flow_potential fl w \<and>
      length (burst_timestamps (flow_bucket fl (snd w'))) \<le> Suc (length (burst_timestamps (flow_bucket fl (snd w))))"
    using handle_payment_world [OF h]
  proof (elim disjE exE)
    fix memo tx n a
    assume "limited_registry fl memo tx n w = (a, w')"
    then show ?thesis using limited_registry_potential [OF assms(1,2)] Cons.prems by simp
  qed simp
  then have "flow_potential fl (snd (scan_page cfg horizon (limited_registry fl) ps acc' w')) \<le> flow_potential fl w'" for acc'
    using Cons.prems by (intro Cons.IH) simp
  with step show ?case by (cases v) (auto simp: h acc intro: order_trans)
qed simp

text \<open>
  The burst limit bounds the licenses of a page. However many payments a page holds, scanning it
  at one instant brings at most as many licenses as the burst limit of the scanner's bucket, 6
  with the default limits, of a page of up to 50 payments.
\<close>

theorem page_licenses_bounded:
  assumes "proper_instant fl" "\<not> is_whitelisted (fl_parse_ip fl) (fl_limits fl) (fl_request fl)"
    and "length (burst_timestamps (flow_bucket fl m)) + length ps < 2 ^ 32"
  shows "length (licenses (fst (snd (scan_page cfg horizon (limited_registry fl) ps acc (db, m))))) \<le>
    length (licenses db) + unat (q_burst (select_limit_and_key (fl_parse_ip fl) (fl_limits fl) (fl_request fl)))"
  using scan_page_potential [OF assms(1,2), of "(db, m)" ps cfg horizon acc] assms(3)
  by (simp add: flow_potential_def flow_quota_def)

theorem page_licenses_bounded_witness:
  "length (licenses (fst (snd (scan_page demo_cfg (\<lambda>tx. Some (demo_ledger tx)) (limited_registry demo_flow)
      (map (\<lambda>n. demo_payment (dec n)) [0..<50]) (None, None, 0) (demo_market, (\<lambda>_. None)))))) \<le> 6"
proof -
  have "proper_instant demo_flow"
    by (simp add: proper_instant_def demo_flow_def demo_windows at_secs_def secs_def)
  moreover have "\<not> is_whitelisted (fl_parse_ip demo_flow) (fl_limits demo_flow) (fl_request demo_flow)"
    using demo_spent by (simp add: quota_spent_def)
  moreover have "q_burst (select_limit_and_key (fl_parse_ip demo_flow) (fl_limits demo_flow) (fl_request demo_flow)) = 6"
    by (simp add: demo_flow_def scanner_quota)
  moreover have "length (burst_timestamps (flow_bucket demo_flow (\<lambda>_. None))) = 0"
    by (simp add: flow_bucket_def unwrap_or_def empty_bucket_def)
  ultimately show ?thesis
    using page_licenses_bounded [of demo_flow "\<lambda>_. None" "map (\<lambda>n. demo_payment (dec n)) [0..<50]" demo_cfg
        "\<lambda>tx. Some (demo_ledger tx)" "(None, None, 0)" demo_market]
    by (simp add: demo_market_def)
qed

end
