(* ===== verification/Validation.thy ===== *)
theory Validation
  imports Tables
begin

text \<open>
  The validators of \<open>backend/api/src/validation/validators.rs\<close> that the modelled handlers rely on, and the
  rules for the text of a request in \<open>validation/handler_requests.rs\<close>. A validator is a predicate: the
  text of its message is left out. Regular expressions are written out as conditions on the characters.
  Requests are given as the extractor hands them on, sanitized.
\<close>

section \<open>Characters\<close>

definition upper_alnum :: "char \<Rightarrow> bool" where
  "upper_alnum c \<longleftrightarrow> (let n = of_char c :: nat in (48 \<le> n \<and> n \<le> 57) \<or> (65 \<le> n \<and> n \<le> 90))"

definition ascii_alnum :: "char \<Rightarrow> bool" where
  "ascii_alnum c \<longleftrightarrow> upper_alnum c \<or> (let n = of_char c :: nat in 97 \<le> n \<and> n \<le> 122)"

definition hex_digit :: "char \<Rightarrow> bool" where
  "hex_digit c \<longleftrightarrow> (let n = of_char c :: nat in
     (48 \<le> n \<and> n \<le> 57) \<or> (65 \<le> n \<and> n \<le> 70) \<or> (97 \<le> n \<and> n \<le> 102))"

text \<open>The number of characters of a string in UTF-8: the bytes that do not continue one.\<close>

definition char_count :: "string \<Rightarrow> nat" where
  "char_count s = length (filter (\<lambda>c. (of_char c :: nat) < 128 \<or> 192 \<le> (of_char c :: nat)) s)"

section \<open>Validators\<close>

definition validate_length :: "string \<Rightarrow> nat \<Rightarrow> nat \<Rightarrow> bool" where
  "validate_length s lo hi \<longleftrightarrow> lo \<le> char_count s \<and> char_count s \<le> hi"

definition strkey_shape :: "char \<Rightarrow> string \<Rightarrow> bool" where
  "strkey_shape c s \<longleftrightarrow> length s = 56 \<and> hd s = c \<and> list_all upper_alnum (tl s)"

definition validate_stellar_address :: "string \<Rightarrow> bool" where
  "validate_stellar_address s \<longleftrightarrow> strkey_shape CHR ''G'' (trim s)"

definition validate_contract_id :: "string \<Rightarrow> bool" where
  "validate_contract_id s \<longleftrightarrow> strkey_shape CHR ''C'' (trim s)"

definition validate_wasm_hash :: "string \<Rightarrow> bool" where
  "validate_wasm_hash s \<longleftrightarrow> length (trim s) = 64 \<and> list_all hex_digit (trim s)"

definition validate_unix_timestamp :: "int \<Rightarrow> bool" where
  "validate_unix_timestamp n \<longleftrightarrow> 0 < n"

text \<open>Base64 of at most \<open>limit\<close> bytes; \<open>unbase64\<close> decodes the standard alphabet.\<close>

definition validate_base64_size :: "(string \<Rightarrow> string option) \<Rightarrow> string \<Rightarrow> nat \<Rightarrow> bool" where
  "validate_base64_size unbase64 s limit \<longleftrightarrow>
     (let t = trim s in
      t \<noteq> [] \<and> length t \<le> limit * 4 div 3 + 4 \<and>
      (case unbase64 t of None \<Rightarrow> False | Some bytes \<Rightarrow> length bytes \<le> limit))"

definition validate_one_of_optional :: "string option \<Rightarrow> string list \<Rightarrow> bool" where
  "validate_one_of_optional v allowed \<longleftrightarrow>
     (case v of Some s \<Rightarrow> trim s = [] \<or> trim s \<in> set allowed | None \<Rightarrow> True)"

definition validate_hex_length :: "string \<Rightarrow> nat \<Rightarrow> bool" where
  "validate_hex_length s n \<longleftrightarrow> length (trim s) = n \<and> trim s \<noteq> [] \<and> list_all hex_digit (trim s)"

text \<open>The pattern of names: letters, digits, white space, hyphens and underscores.\<close>

fun name_chars :: "nat \<Rightarrow> string \<Rightarrow> bool" where
  "name_chars 0 s = (s = [])"
| "name_chars (Suc n) s =
     (case s of
        [] \<Rightarrow> True
      | c # cs \<Rightarrow>
          (case find (starts_with (codes s)) white_space of
             Some w \<Rightarrow> name_chars n (drop (length w) s)
           | None \<Rightarrow> (ascii_alnum c \<or> c = CHR ''-'' \<or> c = CHR ''_'') \<and> name_chars n cs))"

definition validate_name_format :: "string \<Rightarrow> bool" where
  "validate_name_format s \<longleftrightarrow> s \<noteq> [] \<and> name_chars (length s) s"

definition MAX_NAME_LENGTH :: nat where "MAX_NAME_LENGTH = 255"
definition MAX_DESCRIPTION_LENGTH :: nat where "MAX_DESCRIPTION_LENGTH = 5000"

text \<open>\<open>no_xss\<close> is the filter of script fragments, a list of regular expressions.\<close>

definition validate_text :: "(string \<Rightarrow> bool) \<Rightarrow> string \<Rightarrow> nat \<Rightarrow> nat \<Rightarrow> bool" where
  "validate_text no_xss s lo hi \<longleftrightarrow> validate_length s lo hi \<and> no_xss s"

definition validate_optional_text :: "(string \<Rightarrow> bool) \<Rightarrow> string option \<Rightarrow> nat \<Rightarrow> bool" where
  "validate_optional_text no_xss v hi \<longleftrightarrow>
     (case v of Some s \<Rightarrow> validate_length s 1 hi \<and> no_xss s | None \<Rightarrow> True)"

abbreviation validation_error :: api_error where
  "validation_error \<equiv> Api_error 400 ''VALIDATION_ERROR''"

text \<open>An address that passes its validator has no separator of the signing payloads in it.\<close>

lemma upper_alnum_no_colon: "upper_alnum c \<Longrightarrow> c \<noteq> CHR '':''"
  by (auto simp: upper_alnum_def Let_def)

lemma strkey_no_colon:
  assumes "strkey_shape c s" "c \<noteq> CHR '':''"
  shows "CHR '':'' \<notin> set s"
  using assms by (cases s) (auto simp: strkey_shape_def list_all_iff upper_alnum_def)

end
