(* ===== verification/Auth.thy ===== *)
theory Auth
  imports Validation
begin

text \<open>
  Authentication: \<open>backend/api/src/auth.rs\<close> (challenges, sessions, refresh tokens, access tokens),
  the handlers of \<open>auth_handlers.rs\<close> and the identity of \<open>policy.rs\<close>. The keys, signatures, hashes and the
  JSON Web Tokens are third-party code and a parameter; nonces, tokens and identifiers drawn at random
  are arguments. The lock on the manager makes each call one step; a call reads the clock
  several times and the model once.
\<close>

section \<open>State\<close>

text \<open>A call may also panic, and the release profile of the workspace aborts the process on a panic.\<close>

datatype 'a rust = Returns 'a | Panics

type_synonym secs = int

record auth_claims =
  cl_sub :: string
  cl_publisher :: uuid
  cl_iat :: secs
  cl_exp :: secs
  cl_scopes :: "string list"
  cl_role :: "string option"
  cl_admin :: bool
  cl_mfa :: bool
  cl_session :: "uuid option"

record challenge_record =
  ch_nonce :: string
  ch_expires :: secs

record session_record =
  se_subject :: string
  se_publisher :: uuid
  se_role :: "string option"
  se_scopes :: "string list"
  se_mfa :: bool
  se_expires :: secs

record token_pair =
  tp_access :: string
  tp_refresh :: string
  tp_secs :: nat

record auth_manager =
  challenges :: "string \<rightharpoonup> challenge_record"
  sessions :: "uuid \<rightharpoonup> session_record"
  refresh_tokens :: "string \<rightharpoonup> uuid"

text \<open>
  Third-party code: the key of a Stellar address, the test of a key, the verification of a signature, the
  hash of a refresh token, and the signed tokens, whose decoding checks signature and expiry.
\<close>

record auth_lib =
  address_key :: "string \<Rightarrow> string option"
  key_valid :: "string \<Rightarrow> bool"
  sig_verifies :: "string \<Rightarrow> string \<Rightarrow> string \<Rightarrow> bool"
  token_hash :: "string \<Rightarrow> string"
  jwt_encode :: "auth_claims \<Rightarrow> string option"
  jwt_decode :: "secs \<Rightarrow> string \<Rightarrow> auth_claims option"

definition new_manager :: auth_manager where
  "new_manager = \<lparr>challenges = Map.empty, sessions = Map.empty, refresh_tokens = Map.empty\<rparr>"

definition MIN_JWT_SECRET_LEN :: nat where "MIN_JWT_SECRET_LEN = 32"

definition validate_jwt_secret :: "string \<Rightarrow> (nat \<times> nat) + unit" where
  "validate_jwt_secret secret =
     (if length secret < MIN_JWT_SECRET_LEN then Err (MIN_JWT_SECRET_LEN, length secret) else Ok ())"

section \<open>Hexadecimal text\<close>

text \<open>\<open>u8::from_str_radix(_, 16)\<close> on two bytes: it takes a leading plus.\<close>

definition hex_value :: "char \<Rightarrow> nat option" where
  "hex_value c = (let n = of_char c :: nat in
     if 48 \<le> n \<and> n \<le> 57 then Some (n - 48) else if 65 \<le> n \<and> n \<le> 70 then Some (n - 55)
     else if 97 \<le> n \<and> n \<le> 102 then Some (n - 87) else None)"

definition u8_radix16 :: "char \<Rightarrow> char \<Rightarrow> nat option" where
  "u8_radix16 a b =
     (case hex_value b of None \<Rightarrow> None
      | Some lo \<Rightarrow> if a = CHR ''+'' then Some lo
                   else (case hex_value a of None \<Rightarrow> None | Some hi \<Rightarrow> Some (16 * hi + lo)))"

text \<open>A slice of a string at a byte inside a character panics: the byte there continues one.\<close>

definition continues :: "string \<Rightarrow> bool" where
  "continues s = (case s of [] \<Rightarrow> False | c # _ \<Rightarrow> 128 \<le> (of_char c :: nat) \<and> (of_char c :: nat) < 192)"

fun hex_pairs :: "string \<Rightarrow> string option rust" where
  "hex_pairs (a # b # rest) =
     (if continues rest then Panics
      else case u8_radix16 a b of
        None \<Rightarrow> Returns None
      | Some n \<Rightarrow>
          (case hex_pairs rest of
             Returns (Some bytes) \<Rightarrow> Returns (Some (char_of n # bytes))
           | r \<Rightarrow> r))"
| "hex_pairs _ = Returns (Some [])"

definition decode_hex :: "string \<Rightarrow> string option rust" where
  "decode_hex s = (if odd (length s) then Returns None else hex_pairs s)"

definition decode_hex_sized :: "nat \<Rightarrow> string \<Rightarrow> string option rust" where
  "decode_hex_sized n s =
     (case decode_hex s of
        Returns (Some bytes) \<Rightarrow> Returns (if length bytes = n then Some bytes else None)
      | r \<Rightarrow> r)"

section \<open>Challenges and logins\<close>

definition create_challenge :: "secs \<Rightarrow> string \<Rightarrow> string \<Rightarrow> auth_manager \<Rightarrow> auth_manager" where
  "create_challenge now address nonce m =
     m\<lparr>challenges := (challenges m)(address \<mapsto> \<lparr>ch_nonce = nonce, ch_expires = now + 300\<rparr>)\<rparr>"

text \<open>The checks that both forms of login start with: the challenge is taken whatever comes after.\<close>

definition answer_challenge ::
  "auth_lib \<Rightarrow> secs \<Rightarrow> string \<Rightarrow> string \<Rightarrow> string \<Rightarrow> auth_manager \<Rightarrow> (string + unit) rust" where
  "answer_challenge lib now address public_key_hex signature_hex m =
     (case challenges m address of
        None \<Rightarrow> Returns (Err ''challenge_not_found'')
      | Some ch \<Rightarrow>
          if ch_expires ch < now then Returns (Err ''challenge_expired'')
          else case decode_hex_sized 32 public_key_hex of
            Panics \<Rightarrow> Panics
          | Returns None \<Rightarrow> Returns (Err ''invalid_public_key_hex'')
          | Returns (Some key) \<Rightarrow>
          case address_key lib address of
            None \<Rightarrow> Returns (Err ''invalid_address'')
          | Some address_key' \<Rightarrow>
          if address_key' \<noteq> key then Returns (Err ''address_public_key_mismatch'')
          else case decode_hex_sized 64 signature_hex of
            Panics \<Rightarrow> Panics
          | Returns None \<Rightarrow> Returns (Err ''invalid_signature_hex'')
          | Returns (Some sig) \<Rightarrow>
          if \<not> key_valid lib key then Returns (Err ''invalid_public_key'')
          else if \<not> sig_verifies lib key (ch_nonce ch) sig then Returns (Err ''invalid_signature'')
          else Returns (Ok ()))"

definition take_challenge :: "string \<Rightarrow> auth_manager \<Rightarrow> auth_manager" where
  "take_challenge address m = m\<lparr>challenges := (challenges m)(address := None)\<rparr>"

definition clamp_lifetime :: "nat \<Rightarrow> nat" where
  "clamp_lifetime n = clamp n 300 (30 * 24 * 60 * 60)"

definition verify_and_issue_jwt ::
  "auth_lib \<Rightarrow> secs \<Rightarrow> string \<Rightarrow> string \<Rightarrow> string \<Rightarrow> uuid \<Rightarrow> string list \<Rightarrow> nat \<Rightarrow> auth_manager \<Rightarrow>
   (string + string) rust \<times> auth_manager" where
  "verify_and_issue_jwt lib now address public_key_hex signature_hex publisher scopes lifetime m =
     (case answer_challenge lib now address public_key_hex signature_hex m of
        Panics \<Rightarrow> (Panics, take_challenge address m)
      | Returns (Inl e) \<Rightarrow> (Returns (Err e), take_challenge address m)
      | Returns (Inr _) \<Rightarrow>
          (case jwt_encode lib \<lparr>cl_sub = address, cl_publisher = publisher, cl_iat = now,
                  cl_exp = now + int (clamp_lifetime lifetime), cl_scopes = scopes, cl_role = None,
                  cl_admin = False, cl_mfa = False, cl_session = None\<rparr> of
             None \<Rightarrow> (Returns (Err ''jwt_encode_failed''), take_challenge address m)
           | Some t \<Rightarrow> (Returns (Ok t), take_challenge address m)))"

definition issue_access_token_for_session ::
  "auth_lib \<Rightarrow> secs \<Rightarrow> uuid \<Rightarrow> session_record \<Rightarrow> nat \<Rightarrow> string + string" where
  "issue_access_token_for_session lib now sid s lifetime =
     (case jwt_encode lib \<lparr>cl_sub = se_subject s, cl_publisher = se_publisher s, cl_iat = now,
             cl_exp = now + int lifetime, cl_scopes = se_scopes s, cl_role = se_role s, cl_admin = False,
             cl_mfa = se_mfa s, cl_session = Some sid\<rparr> of
        None \<Rightarrow> Err ''jwt_encode_failed''
      | Some t \<Rightarrow> Ok t)"

definition login_session :: "secs \<Rightarrow> string \<Rightarrow> uuid \<Rightarrow> string list \<Rightarrow> session_record" where
  "login_session now address publisher scopes =
     \<lparr>se_subject = address, se_publisher = publisher, se_role = None, se_scopes = scopes, se_mfa = False,
      se_expires = now + 30 * 24 * 60 * 60\<rparr>"

definition verify_and_issue_token_pair ::
  "auth_lib \<Rightarrow> secs \<Rightarrow> uuid \<Rightarrow> string \<Rightarrow> string \<Rightarrow> string \<Rightarrow> string \<Rightarrow> uuid \<Rightarrow> string list \<Rightarrow> nat \<Rightarrow> auth_manager \<Rightarrow>
   (string + token_pair) rust \<times> auth_manager" where
  "verify_and_issue_token_pair lib now sid refresh address public_key_hex signature_hex publisher scopes lifetime m =
     (let m1 = take_challenge address m in
      case answer_challenge lib now address public_key_hex signature_hex m of
        Panics \<Rightarrow> (Panics, m1)
      | Returns (Inl e) \<Rightarrow> (Returns (Err e), m1)
      | Returns (Inr _) \<Rightarrow>
          let s = login_session now address publisher scopes;
              m2 = m1\<lparr>refresh_tokens := (refresh_tokens m1)(token_hash lib refresh \<mapsto> sid),
                      sessions := (sessions m1)(sid \<mapsto> s)\<rparr>
          in (case issue_access_token_for_session lib now sid s (clamp_lifetime lifetime) of
                Inl e \<Rightarrow> (Returns (Err e), m2)
              | Inr t \<Rightarrow>
                  (Returns (Ok \<lparr>tp_access = t, tp_refresh = refresh, tp_secs = clamp_lifetime lifetime\<rparr>), m2)))"

section \<open>Sessions\<close>

definition refresh_access_token ::
  "auth_lib \<Rightarrow> secs \<Rightarrow> string \<Rightarrow> string \<Rightarrow> nat \<Rightarrow> auth_manager \<Rightarrow> (string + token_pair) \<times> auth_manager" where
  "refresh_access_token lib now next_refresh refresh lifetime m =
     (let h = token_hash lib refresh in
      case refresh_tokens m h of
        None \<Rightarrow> (Err ''refresh_token_not_found'', m)
      | Some sid \<Rightarrow>
      case sessions m sid of
        None \<Rightarrow> (Err ''session_not_found'', m)
      | Some s \<Rightarrow>
          if se_expires s < now
          then (Err ''session_expired'',
                m\<lparr>sessions := (sessions m)(sid := None), refresh_tokens := (refresh_tokens m)(h := None)\<rparr>)
          else
            let m1 = m\<lparr>refresh_tokens := ((refresh_tokens m)(h := None))(token_hash lib next_refresh \<mapsto> sid)\<rparr>
            in (case issue_access_token_for_session lib now sid s (clamp_lifetime lifetime) of
                  Inl e \<Rightarrow> (Err e, m1)
                | Inr t \<Rightarrow>
                    (Ok \<lparr>tp_access = t, tp_refresh = next_refresh, tp_secs = clamp_lifetime lifetime\<rparr>, m1)))"

definition revoke_session :: "uuid \<Rightarrow> auth_manager \<Rightarrow> bool \<times> auth_manager" where
  "revoke_session sid m =
     (sessions m sid \<noteq> None,
      m\<lparr>sessions := (sessions m)(sid := None),
        refresh_tokens := (\<lambda>h. if refresh_tokens m h = Some sid then None else refresh_tokens m h)\<rparr>)"

definition validate_jwt :: "auth_lib \<Rightarrow> secs \<Rightarrow> string \<Rightarrow> string + auth_claims" where
  "validate_jwt lib now token =
     (case jwt_decode lib now token of None \<Rightarrow> Err ''invalid_token'' | Some c \<Rightarrow> Ok c)"

definition validate_access_token :: "auth_lib \<Rightarrow> secs \<Rightarrow> string \<Rightarrow> auth_manager \<Rightarrow> string + auth_claims" where
  "validate_access_token lib now token m =
     (case validate_jwt lib now token of
        Inl e \<Rightarrow> Err e
      | Inr c \<Rightarrow>
      case cl_session c of
        None \<Rightarrow> Ok c
      | Some sid \<Rightarrow>
      case sessions m sid of
        None \<Rightarrow> Err ''session_not_found''
      | Some s \<Rightarrow>
          if se_expires s < now then Err ''session_expired''
          else if se_subject s \<noteq> cl_sub c \<or> se_publisher s \<noteq> cl_publisher c \<or> se_role s \<noteq> cl_role c \<or>
                  se_scopes s \<noteq> cl_scopes c \<or> se_mfa s \<noteq> cl_mfa c
          then Err ''session_identity_mismatch''
          else Ok c)"

section \<open>The endpoints\<close>

definition unauthorized :: api_error where "unauthorized = Api_error 401 ''UNAUTHORIZED''"

text \<open>The address of a challenge is not normalised, and any text but spaces will do.\<close>

definition get_challenge :: "secs \<Rightarrow> string \<Rightarrow> string \<Rightarrow> auth_manager \<Rightarrow> (api_error + string) \<times> auth_manager" where
  "get_challenge now nonce address m =
     (if trim address = [] then (Err (Api_error 400 ''InvalidAddress''), m)
      else (Ok nonce, create_challenge now address nonce m))"

record verify_request =
  vr_address :: string
  vr_key :: string
  vr_signature :: string
  vr_scopes :: "string list"
  vr_lifetime :: "nat option"

text \<open>\<open>upper\<close> is the upper-case conversion of Unicode text.\<close>

definition sanitize_verify :: "(string \<Rightarrow> string) \<Rightarrow> verify_request \<Rightarrow> verify_request" where
  "sanitize_verify upper r =
     r\<lparr>vr_address := upper (trim (vr_address r)), vr_key := trim (vr_key r), vr_signature := trim (vr_signature r),
       vr_scopes := filter (\<lambda>s. s \<noteq> []) (map trim (vr_scopes r))\<rparr>"

definition validate_verify :: "verify_request \<Rightarrow> bool" where
  "validate_verify r \<longleftrightarrow>
     validate_stellar_address (vr_address r) \<and> validate_hex_length (vr_key r) 64 \<and>
     validate_length (vr_signature r) 1 512 \<and> length (vr_scopes r) \<le> 20 \<and>
     list_all (\<lambda>s. validate_length s 1 64 \<and> validate_name_format s) (vr_scopes r) \<and>
     (case vr_lifetime r of Some n \<Rightarrow> n \<noteq> 0 \<and> n \<le> 86400 | None \<Rightarrow> True)"

text \<open>\<open>publisher_of\<close> looks an address up in the table of publishers.\<close>

definition verify_challenge ::
  "auth_lib \<Rightarrow> (string \<Rightarrow> string) \<Rightarrow> bool \<Rightarrow> (string \<Rightarrow> uuid option) \<Rightarrow> secs \<Rightarrow> uuid \<Rightarrow> string \<Rightarrow> verify_request \<Rightarrow>
   auth_manager \<Rightarrow> (api_error + token_pair) rust \<times> auth_manager" where
  "verify_challenge lib upper db_ok publisher_of now sid refresh request m =
     (let r = sanitize_verify upper request in
      if \<not> validate_verify r then (Returns (Err validation_error), m)
      else if trim (vr_address r) = [] \<or> trim (vr_key r) = [] \<or> trim (vr_signature r) = []
      then (Returns (Err (Api_error 400 ''InvalidPayload'')), m)
      else if \<not> db_ok then (Returns (Err (Api_error 500 ''INTERNAL_ERROR'')), m)
      else case publisher_of (vr_address r) of
        None \<Rightarrow> (Returns (Err (Api_error 404 ''PublisherNotFound'')), m)
      | Some publisher \<Rightarrow>
          (case verify_and_issue_token_pair lib now sid refresh (vr_address r) (vr_key r) (vr_signature r)
                  publisher (vr_scopes r) (clamp_lifetime (unwrap_or (vr_lifetime r) 86400)) m of
             (Panics, m') \<Rightarrow> (Panics, m')
           | (Returns (Inl e), m') \<Rightarrow> (Returns (Err (Api_error 401 ''AuthFailed'')), m')
           | (Returns (Inr pair), m') \<Rightarrow> (Returns (Ok pair), m')))"

definition refresh_token ::
  "auth_lib \<Rightarrow> secs \<Rightarrow> string \<Rightarrow> string \<Rightarrow> nat option \<Rightarrow> auth_manager \<Rightarrow> (api_error + token_pair) \<times> auth_manager" where
  "refresh_token lib now next_refresh refresh lifetime m =
     (if trim refresh = [] then (Err validation_error, m)
      else case refresh_access_token lib now next_refresh (trim refresh)
                  (clamp_lifetime (unwrap_or lifetime 86400)) m of
        (Inl e, m') \<Rightarrow> (Err unauthorized, m')
      | (Inr pair, m') \<Rightarrow> (Ok pair, m'))"

section \<open>Who a request comes from\<close>

text \<open>\<open>AuthClaims::from_request_parts\<close>: the claims of a bearer token.\<close>

definition claims_from_header :: "auth_lib \<Rightarrow> secs \<Rightarrow> string option \<Rightarrow> auth_manager \<Rightarrow> api_error + auth_claims" where
  "claims_from_header lib now header m =
     (case header of
        None \<Rightarrow> Err unauthorized
      | Some h \<Rightarrow>
          if \<not> starts_with h ''Bearer '' then Err unauthorized
          else case validate_access_token lib now (drop 7 h) m of
            Inl e \<Rightarrow> Err unauthorized
          | Inr c \<Rightarrow> Ok c)"

definition nil_uuid :: uuid where "nil_uuid = 0"

declare nil_uuid_def [simp]

definition authenticated_user :: "auth_claims \<Rightarrow> api_error + string \<times> uuid" where
  "authenticated_user c =
     (if cl_publisher c = nil_uuid then Err (Api_error 403 ''FORBIDDEN'') else Ok (cl_sub c, cl_publisher c))"

record policy_actor =
  pa_publisher :: "uuid option"
  pa_address :: string
  pa_admin :: bool

definition claims_are_admin :: "auth_claims \<Rightarrow> bool" where
  "claims_are_admin c \<longleftrightarrow>
     cl_admin c \<or> (case cl_role c of Some r \<Rightarrow> ascii_lower r = ''admin'' | None \<Rightarrow> False)"

text \<open>\<open>address_of\<close> is the address of a publisher in the table.\<close>

definition actor_from_claims :: "bool \<Rightarrow> (uuid \<Rightarrow> string option) \<Rightarrow> auth_claims \<Rightarrow> api_error + policy_actor" where
  "actor_from_claims db_ok address_of c =
     (if cl_publisher c = nil_uuid
      then Ok \<lparr>pa_publisher = None, pa_address = cl_sub c, pa_admin = claims_are_admin c\<rparr>
      else if \<not> db_ok then Err database_error
      else case address_of (cl_publisher c) of
        None \<Rightarrow> Ok \<lparr>pa_publisher = None, pa_address = cl_sub c, pa_admin = claims_are_admin c\<rparr>
      | Some a \<Rightarrow>
          if a = cl_sub c
          then Ok \<lparr>pa_publisher = Some (cl_publisher c), pa_address = cl_sub c, pa_admin = claims_are_admin c\<rparr>
          else Err unauthorized)"

definition actor_publisher :: "policy_actor \<Rightarrow> api_error + uuid" where
  "actor_publisher a =
     (case pa_publisher a of None \<Rightarrow> Err (Api_error 403 ''UnknownPublisher'') | Some p \<Rightarrow> Ok p)"

definition require_admin :: "policy_actor \<Rightarrow> api_error + unit" where
  "require_admin a = (if pa_admin a then Ok () else Err (Api_error 403 ''FORBIDDEN''))"

definition require_contract_owner :: "policy_actor \<Rightarrow> uuid \<Rightarrow> api_error + unit" where
  "require_contract_owner a owner =
     (case actor_publisher a of
        Inl e \<Rightarrow> Err e
      | Inr p \<Rightarrow> if p = owner then Ok () else Err (Api_error 403 ''NotContractOwner''))"

definition require_resource_owner :: "policy_actor \<Rightarrow> uuid \<Rightarrow> api_error + unit" where
  "require_resource_owner a owner =
     (case actor_publisher a of
        Inl e \<Rightarrow> Err e
      | Inr p \<Rightarrow> if p = owner then Ok () else Err (Api_error 403 ''NotResourceOwner''))"

definition require_signature_identity :: "policy_actor \<Rightarrow> string \<Rightarrow> api_error + unit" where
  "require_signature_identity a signer =
     (if pa_address a = signer then Ok () else Err (Api_error 403 ''SignatureIdentityMismatch''))"

definition require_publisher_address :: "policy_actor \<Rightarrow> string \<Rightarrow> api_error + unit" where
  "require_publisher_address a address =
     (case actor_publisher a of Inl e \<Rightarrow> Err e | Inr _ \<Rightarrow> require_signature_identity a address)"

definition require_transfer_action :: "policy_actor \<Rightarrow> uuid \<Rightarrow> uuid \<Rightarrow> bool \<Rightarrow> api_error + unit" where
  "require_transfer_action a sender recipient accepting =
     (case actor_publisher a of
        Inl e \<Rightarrow> Err e
      | Inr p \<Rightarrow>
          if p \<noteq> sender \<and> p \<noteq> recipient then Err (Api_error 403 ''UnauthorizedConfirmation'')
          else if accepting \<and> p \<noteq> recipient then Err (Api_error 403 ''UnauthorizedConfirmation'')
          else Ok ())"

section \<open>Runs\<close>

text \<open>The calls that change the manager, with the values drawn at random in them. A panic ends the process.\<close>

datatype auth_call =
    Challenge secs string string
  | Login secs uuid string string string string uuid "string list" nat
  | Login_jwt secs string string string uuid "string list" nat
  | Refresh secs string string nat
  | Revoke uuid

fun auth_exec :: "auth_lib \<Rightarrow> auth_call \<Rightarrow> auth_manager \<Rightarrow> auth_manager option" where
  "auth_exec lib (Challenge now a nonce) m = Some (create_challenge now a nonce m)"
| "auth_exec lib (Login now sid rt a pk sg pub scopes lt) m =
     (case verify_and_issue_token_pair lib now sid rt a pk sg pub scopes lt m of
        (Panics, _) \<Rightarrow> None | (Returns _, m') \<Rightarrow> Some m')"
| "auth_exec lib (Login_jwt now a pk sg pub scopes lt) m =
     (case verify_and_issue_jwt lib now a pk sg pub scopes lt m of (Panics, _) \<Rightarrow> None | (Returns _, m') \<Rightarrow> Some m')"
| "auth_exec lib (Refresh now next_rt rt lt) m = Some (snd (refresh_access_token lib now next_rt rt lt m))"
| "auth_exec lib (Revoke sid) m = Some (snd (revoke_session sid m))"

fun auth_run :: "auth_lib \<Rightarrow> auth_call list \<Rightarrow> auth_manager \<Rightarrow> auth_manager option" where
  "auth_run lib [] m = Some m"
| "auth_run lib (c # cs) m = (case auth_exec lib c m of None \<Rightarrow> None | Some m' \<Rightarrow> auth_run lib cs m')"

text \<open>The calls that use up or replace the challenge of an address.\<close>

fun call_address :: "auth_call \<Rightarrow> string option" where
  "call_address (Challenge _ a _) = Some a"
| "call_address (Login _ _ _ a _ _ _ _ _) = Some a"
| "call_address (Login_jwt _ a _ _ _ _ _) = Some a"
| "call_address _ = None"

lemma auth_run_append:
  "auth_run lib (cs @ ds) m = (case auth_run lib cs m of None \<Rightarrow> None | Some m' \<Rightarrow> auth_run lib ds m')"
  by (induction cs arbitrary: m) (auto split: option.splits)

lemma auth_run_snoc:
  "auth_run lib (cs @ [c]) m = Some m' \<longleftrightarrow> (\<exists>m1. auth_run lib cs m = Some m1 \<and> auth_exec lib c m1 = Some m')"
  by (auto simp: auth_run_append split: option.splits)

text \<open>What each call does to the three maps.\<close>

lemma exec_challenges:
  "auth_exec lib c m = Some m' \<Longrightarrow>
   challenges m' = (case c of
       Challenge now a nonce \<Rightarrow> (challenges m)(a \<mapsto> \<lparr>ch_nonce = nonce, ch_expires = now + 300\<rparr>)
     | _ \<Rightarrow> (case call_address c of Some a \<Rightarrow> (challenges m)(a := None) | None \<Rightarrow> challenges m))"
  by (cases c)
    (auto simp: create_challenge_def verify_and_issue_token_pair_def verify_and_issue_jwt_def take_challenge_def
      refresh_access_token_def revoke_session_def Let_def split: rust.splits sum.splits option.splits)

lemma login_effect:
  assumes "auth_exec lib (Login now sid rt a pk sg pub scopes lt) m = Some m'"
  shows "sessions m' = sessions m \<and> refresh_tokens m' = refresh_tokens m \<or>
    answer_challenge lib now a pk sg m = Returns (Ok ()) \<and>
    sessions m' = (sessions m)(sid \<mapsto> login_session now a pub scopes) \<and>
    refresh_tokens m' = (refresh_tokens m)(token_hash lib rt \<mapsto> sid)"
  using assms
  by (auto simp: verify_and_issue_token_pair_def take_challenge_def Let_def split: rust.splits sum.splits)

lemma refresh_effect:
  assumes "refresh_access_token lib now next_rt rt lt m = (res, m')"
  obtains (same) "m' = m"
  | (expired) sid s where "refresh_tokens m (token_hash lib rt) = Some sid" "sessions m sid = Some s" "se_expires s < now"
      "m' = m\<lparr>sessions := (sessions m)(sid := None), refresh_tokens := (refresh_tokens m)(token_hash lib rt := None)\<rparr>"
  | (rotated) sid s where "refresh_tokens m (token_hash lib rt) = Some sid" "sessions m sid = Some s"
      "m' = m\<lparr>refresh_tokens := ((refresh_tokens m)(token_hash lib rt := None))(token_hash lib next_rt \<mapsto> sid)\<rparr>"
proof (cases "refresh_tokens m (token_hash lib rt)")
  case None
  then show thesis using assms by (intro same) (simp add: refresh_access_token_def)
next
  case h: (Some sid)
  show thesis
  proof (cases "sessions m sid")
    case None
    then show thesis using assms h by (intro same) (simp add: refresh_access_token_def)
  next
    case (Some s)
    have m': "m' = snd (refresh_access_token lib now next_rt rt lt m)" using assms by simp
    show thesis
    proof (cases "se_expires s < now")
      case True
      then show thesis by (intro expired [OF h Some]) (simp_all add: m' refresh_access_token_def h Some)
    next
      case False
      then show thesis
        by (intro rotated [OF h Some]) (simp add: m' refresh_access_token_def Let_def h Some split: sum.split)
    qed
  qed
qed

lemma exec_sessions:
  assumes "auth_exec lib c m = Some m'" "sessions m' sid = Some s"
  shows "sessions m sid = Some s \<or>
    (\<exists>now rt a pk sg pub scopes lt. c = Login now sid rt a pk sg pub scopes lt \<and>
       answer_challenge lib now a pk sg m = Returns (Ok ()) \<and> s = login_session now a pub scopes)"
proof (cases c)
  case (Login now sid' rt a pk sg pub scopes lt)
  then show ?thesis using login_effect [OF assms(1) [unfolded Login]] assms(2) by (auto split: if_splits)
next
  case (Login_jwt now a pk sg pub scopes lt)
  then show ?thesis
    using assms by (auto simp: verify_and_issue_jwt_def take_challenge_def split: rust.splits sum.splits option.splits)
next
  case (Refresh now next_rt rt lt)
  obtain res where "refresh_access_token lib now next_rt rt lt m = (res, m')"
    using assms(1) Refresh by (metis auth_exec.simps(4) option.inject prod.collapse)
  then show ?thesis using assms(2) by (cases rule: refresh_effect) (auto split: if_splits)
qed (use assms in \<open>auto simp: create_challenge_def revoke_session_def split: if_splits\<close>)

lemma run_challenge:
  "auth_run lib calls new_manager = Some m \<Longrightarrow> challenges m a = Some ch \<Longrightarrow>
   \<exists>pre now post. calls = pre @ Challenge now a (ch_nonce ch) # post \<and> ch_expires ch = now + 300 \<and>
     (\<forall>c \<in> set post. call_address c \<noteq> Some a)"
proof (induction calls arbitrary: m ch rule: rev_induct)
  case Nil
  then show ?case by (auto simp: new_manager_def)
next
  case (snoc c calls)
  obtain m1 where m1: "auth_run lib calls new_manager = Some m1" "auth_exec lib c m1 = Some m"
    using snoc.prems(1) by (auto simp: auth_run_snoc)
  show ?case
  proof (cases "call_address c = Some a")
    case True
    then obtain now nonce where "c = Challenge now a nonce" "ch = \<lparr>ch_nonce = nonce, ch_expires = now + 300\<rparr>"
      using exec_challenges [OF m1(2)] snoc.prems(2) by (cases c) auto
    then show ?thesis by fastforce
  next
    case False
    then have "challenges m1 a = Some ch"
      using exec_challenges [OF m1(2)] snoc.prems(2) by (cases c) (auto split: if_splits)
    then obtain pre now post where "calls = pre @ Challenge now a (ch_nonce ch) # post" "ch_expires ch = now + 300"
        "\<forall>c \<in> set post. call_address c \<noteq> Some a"
      using snoc.IH [OF m1(1)] by blast
    then show ?thesis
      using False by (intro exI [of _ pre] exI [of _ now] exI [of _ "post @ [c]"]) auto
  qed
qed

lemma run_session:
  "auth_run lib calls new_manager = Some m \<Longrightarrow> sessions m sid = Some s \<Longrightarrow>
   \<exists>pre now rt a pk sg pub scopes lt post m0. calls = pre @ Login now sid rt a pk sg pub scopes lt # post \<and>
     auth_run lib pre new_manager = Some m0 \<and> answer_challenge lib now a pk sg m0 = Returns (Ok ()) \<and>
     s = login_session now a pub scopes"
proof (induction calls arbitrary: m rule: rev_induct)
  case Nil
  then show ?case by (auto simp: new_manager_def)
next
  case (snoc c calls)
  obtain m1 where m1: "auth_run lib calls new_manager = Some m1" "auth_exec lib c m1 = Some m"
    using snoc.prems(1) by (auto simp: auth_run_snoc)
  from exec_sessions [OF m1(2) snoc.prems(2)] show ?case
  proof (elim disjE exE conjE)
    assume "sessions m1 sid = Some s"
    then obtain pre now rt a pk sg pub scopes lt post m0 where
      "calls = pre @ Login now sid rt a pk sg pub scopes lt # post" "auth_run lib pre new_manager = Some m0"
      "answer_challenge lib now a pk sg m0 = Returns (Ok ())" "s = login_session now a pub scopes"
      using snoc.IH [OF m1(1)] by blast
    then show ?thesis
      by (intro exI [of _ pre] exI [of _ now] exI [of _ rt] exI [of _ a] exI [of _ pk] exI [of _ sg] exI [of _ pub]
          exI [of _ scopes] exI [of _ lt] exI [of _ "post @ [c]"] exI [of _ m0]) simp
  next
    fix now rt a pk sg pub scopes lt
    assume "c = Login now sid rt a pk sg pub scopes lt" "answer_challenge lib now a pk sg m1 = Returns (Ok ())"
      "s = login_session now a pub scopes"
    then show ?thesis using m1(1) by blast
  qed
qed

lemma answer_challenge_ok:
  assumes "answer_challenge lib now a pk sg m = Returns (Ok ())"
  shows "\<exists>ch key sig. challenges m a = Some ch \<and> now \<le> ch_expires ch \<and> address_key lib a = Some key \<and>
    decode_hex_sized 32 pk = Returns (Some key) \<and> decode_hex_sized 64 sg = Returns (Some sig) \<and>
    sig_verifies lib key (ch_nonce ch) sig"
  using assms by (auto simp: answer_challenge_def not_less split: option.splits rust.splits if_splits)

lemma session_login:
  assumes "auth_run lib calls new_manager = Some m" "sessions m sid = Some s"
  shows "\<exists>pre t0 nonce mid t rt pk sg lt post key sig.
    calls = pre @ Challenge t0 (se_subject s) nonce # mid @
      Login t sid rt (se_subject s) pk sg (se_publisher s) (se_scopes s) lt # post \<and>
    (\<forall>c \<in> set mid. call_address c \<noteq> Some (se_subject s)) \<and> t \<le> t0 + 300 \<and> se_expires s = t + 30 * 24 * 60 * 60 \<and>
    address_key lib (se_subject s) = Some key \<and> decode_hex_sized 64 sg = Returns (Some sig) \<and> sig_verifies lib key nonce sig"
proof -
  obtain pre t rt a pk sg pub scopes lt post m0 where
    login: "calls = pre @ Login t sid rt a pk sg pub scopes lt # post" "auth_run lib pre new_manager = Some m0"
    "answer_challenge lib t a pk sg m0 = Returns (Ok ())" "s = login_session t a pub scopes"
    using run_session [OF assms] by blast
  then obtain ch key sig where ch: "challenges m0 a = Some ch" "t \<le> ch_expires ch" "address_key lib a = Some key"
      "decode_hex_sized 64 sg = Returns (Some sig)" "sig_verifies lib key (ch_nonce ch) sig"
    using answer_challenge_ok [OF login(3)] by blast
  obtain pre' t0 mid where pre': "pre = pre' @ Challenge t0 a (ch_nonce ch) # mid" "ch_expires ch = t0 + 300"
      "\<forall>c \<in> set mid. call_address c \<noteq> Some a"
    using run_challenge [OF login(2) ch(1)] by blast
  have s: "se_subject s = a" "se_publisher s = pub" "se_scopes s = scopes" "se_expires s = t + 30 * 24 * 60 * 60"
    by (simp_all add: login(4) login_session_def)
  show ?thesis
    unfolding s by (rule exI [of _ pre'], rule exI [of _ t0], rule exI [of _ "ch_nonce ch"], rule exI [of _ mid],
      rule exI [of _ t], rule exI [of _ rt], rule exI [of _ pk], rule exI [of _ sg], rule exI [of _ lt],
      rule exI [of _ post], rule exI [of _ key], rule exI [of _ sig]) (use login(1) ch pre' in simp)
qed

lemma validate_session:
  assumes "validate_access_token lib now token m = Ok c" "cl_session c = Some sid"
  shows "jwt_decode lib now token = Some c \<and> (\<exists>s. sessions m sid = Some s \<and> now \<le> se_expires s \<and>
    se_subject s = cl_sub c \<and> se_publisher s = cl_publisher c \<and> se_scopes s = cl_scopes c)"
  using assms by (auto simp: validate_access_token_def validate_jwt_def not_less split: option.splits if_splits)

text \<open>
  C3. A session token rests on a fresh proof of the key: whenever a token of a session is accepted, in any run
  of the manager, its session was opened at most 30 days before, however often the token was refreshed, by a
  login for the same address, publisher and scopes whose signature verifies, under the key of that address, over the nonce
  of a challenge at most five minutes older that no other login or challenge of the address came between to use.
\<close>

theorem token_rests_on_login:
  assumes "auth_run lib calls new_manager = Some m"
    "validate_access_token lib now token m = Ok c" "cl_session c = Some sid"
  shows "\<exists>pre t0 nonce mid t rt pk sg lt post key sig.
    calls = pre @ Challenge t0 (cl_sub c) nonce # mid @
      Login t sid rt (cl_sub c) pk sg (cl_publisher c) (cl_scopes c) lt # post \<and>
    (\<forall>c' \<in> set mid. call_address c' \<noteq> Some (cl_sub c)) \<and> t \<le> t0 + 300 \<and> now \<le> t + 30 * 24 * 60 * 60 \<and>
    address_key lib (cl_sub c) = Some key \<and> decode_hex_sized 64 sg = Returns (Some sig) \<and> sig_verifies lib key nonce sig"
proof -
  obtain s where s: "sessions m sid = Some s" "now \<le> se_expires s" "se_subject s = cl_sub c"
      "se_publisher s = cl_publisher c" "se_scopes s = cl_scopes c"
    using validate_session [OF assms(2,3)] by blast
  show ?thesis using session_login [OF assms(1) s(1)] s(2) unfolding s(3-5) by metis
qed

section \<open>Refresh tokens\<close>

text \<open>Every refresh token belongs to a session that is there, and no two to the same one.\<close>

definition auth_ok :: "auth_manager \<Rightarrow> bool" where
  "auth_ok m \<longleftrightarrow> (\<forall>h sid. refresh_tokens m h = Some sid \<longrightarrow> sessions m sid \<noteq> None) \<and>
     (\<forall>h h' sid. refresh_tokens m h = Some sid \<longrightarrow> refresh_tokens m h' = Some sid \<longrightarrow> h = h')"

text \<open>Random identifiers and tokens are new.\<close>

fun fresh_call :: "auth_lib \<Rightarrow> auth_manager \<Rightarrow> auth_call \<Rightarrow> bool" where
  "fresh_call lib m (Login _ sid rt _ _ _ _ _ _) \<longleftrightarrow> sessions m sid = None \<and> refresh_tokens m (token_hash lib rt) = None"
| "fresh_call lib m (Refresh _ next_rt _ _) \<longleftrightarrow> refresh_tokens m (token_hash lib next_rt) = None"
| "fresh_call lib m _ \<longleftrightarrow> True"

lemma auth_exec_ok:
  assumes "auth_exec lib c m = Some m'" "fresh_call lib m c" "auth_ok m"
  shows "auth_ok m'"
proof (cases c)
  case (Challenge now a nonce)
  then show ?thesis using assms by (auto simp: create_challenge_def auth_ok_def)
next
  case (Login now sid rt a pk sg pub scopes lt)
  then have new: "sessions m sid = None" using assms(2) by simp
  then have "refresh_tokens m h \<noteq> Some sid" for h using assms(3) unfolding auth_ok_def by metis
  then show ?thesis
    using login_effect [OF assms(1) [unfolded Login]] assms(3) by (auto simp: auth_ok_def split: if_splits)
next
  case (Login_jwt now a pk sg pub scopes lt)
  then show ?thesis
    using assms by (auto simp: auth_ok_def verify_and_issue_jwt_def take_challenge_def split: rust.splits sum.splits option.splits)
next
  case (Refresh now next_rt rt lt)
  obtain res where "refresh_access_token lib now next_rt rt lt m = (res, m')"
    using assms(1) Refresh by (metis auth_exec.simps(4) option.inject prod.collapse)
  then show ?thesis
  proof (cases rule: refresh_effect)
    case (expired sid s)
    then show ?thesis using assms(3) by (auto simp: auth_ok_def)
  next
    case (rotated sid s)
    then show ?thesis using assms(3) by (auto simp: auth_ok_def split: if_splits)
  qed (simp add: assms(3))
next
  case (Revoke sid)
  then show ?thesis using assms by (auto simp: revoke_session_def auth_ok_def split: if_splits)
qed

lemma refresh_Ok:
  assumes "refresh_access_token lib now next_rt rt lt m = (Ok pair, m')"
  obtains sid s where "refresh_tokens m (token_hash lib rt) = Some sid" "sessions m sid = Some s" "tp_refresh pair = next_rt"
    "m' = m\<lparr>refresh_tokens := ((refresh_tokens m)(token_hash lib rt := None))(token_hash lib next_rt \<mapsto> sid)\<rparr>"
  using assms by (auto simp: refresh_access_token_def Let_def split: option.splits if_splits sum.splits)

text \<open>
  A refresh token works exactly once: in a sound state, after a refresh that gives a new pair, the token it
  was made with is unknown, the new one gives another pair for the same session until that ends, and the sessions
  are as before.
\<close>

theorem refresh_rotates:
  assumes "auth_ok m" "refresh_access_token lib now next_rt rt lt m = (Ok pair, m')"
    "refresh_tokens m (token_hash lib next_rt) = None" "\<And>claims. jwt_encode lib claims \<noteq> None"
  shows "auth_ok m' \<and> sessions m' = sessions m \<and> tp_refresh pair = next_rt \<and>
    fst (refresh_access_token lib later rt' rt lt' m') = Err ''refresh_token_not_found'' \<and>
    (\<exists>sid s. refresh_tokens m (token_hash lib rt) = Some sid \<and> refresh_tokens m' (token_hash lib next_rt) = Some sid \<and>
       sessions m sid = Some s \<and>
       is_ok (fst (refresh_access_token lib later rt' next_rt lt' m')) = (later \<le> se_expires s))"
proof -
  have "auth_exec lib (Refresh now next_rt rt lt) m = Some m'" using assms(2) by simp
  then have ok: "auth_ok m'" using assms(1,3) by (elim auth_exec_ok) simp_all
  obtain sid s where r: "refresh_tokens m (token_hash lib rt) = Some sid" "sessions m sid = Some s" "tp_refresh pair = next_rt"
      "m' = m\<lparr>refresh_tokens := ((refresh_tokens m)(token_hash lib rt := None))(token_hash lib next_rt \<mapsto> sid)\<rparr>"
    by (rule refresh_Ok [OF assms(2)])
  have ne: "token_hash lib rt \<noteq> token_hash lib next_rt" using r(1) assms(3) by auto
  have "\<exists>t. issue_access_token_for_session lib later sid s (clamp_lifetime lt') = Ok t"
    using assms(4) by (simp add: issue_access_token_for_session_def split: option.split)
  then have "is_ok (fst (refresh_access_token lib later rt' next_rt lt' m')) = (later \<le> se_expires s)"
    using r by (auto simp: refresh_access_token_def Let_def not_less)
  moreover have "fst (refresh_access_token lib later rt' rt lt' m') = Err ''refresh_token_not_found''"
    using r ne by (simp add: refresh_access_token_def)
  ultimately show ?thesis using ok r by auto
qed

text \<open>A run whose random values are new at each call.\<close>

fun fresh_run :: "auth_lib \<Rightarrow> auth_call list \<Rightarrow> auth_manager \<Rightarrow> bool" where
  "fresh_run lib [] m = True"
| "fresh_run lib (c # cs) m =
     (fresh_call lib m c \<and> (case auth_exec lib c m of None \<Rightarrow> True | Some m' \<Rightarrow> fresh_run lib cs m'))"

lemma auth_run_ok: "auth_run lib calls m = Some m' \<Longrightarrow> fresh_run lib calls m \<Longrightarrow> auth_ok m \<Longrightarrow> auth_ok m'"
  by (induction calls arbitrary: m) (auto split: option.splits dest: auth_exec_ok)

lemma new_manager_ok: "auth_ok new_manager"
  by (simp add: auth_ok_def new_manager_def)

text \<open>
  A refresh token always finds its session: in a run with new identifiers and tokens, the maps of the
  manager agree, so a refresh fails only because the token is unknown, the session ended or the token could not be
  signed, never with \<open>session_not_found\<close>.
\<close>

theorem refresh_finds_session:
  assumes "auth_run lib calls new_manager = Some m" "fresh_run lib calls new_manager"
  shows "auth_ok m \<and> fst (refresh_access_token lib now next_rt rt lt m) \<noteq> Err ''session_not_found''"
proof -
  have ok: "auth_ok m" by (rule auth_run_ok [OF assms new_manager_ok])
  then have "sessions m sid \<noteq> None" if "refresh_tokens m (token_hash lib rt) = Some sid" for sid
    using that unfolding auth_ok_def by blast
  then have "fst (refresh_access_token lib now next_rt rt lt m) \<noteq> Err ''session_not_found''"
    by (auto simp: refresh_access_token_def issue_access_token_for_session_def Let_def split: option.split)
  then show ?thesis using ok by simp
qed

section \<open>Revocation\<close>

definition no_trace :: "uuid \<Rightarrow> auth_manager \<Rightarrow> bool" where
  "no_trace sid m \<longleftrightarrow> sessions m sid = None \<and> (\<forall>h. refresh_tokens m h \<noteq> Some sid)"

fun opens :: "auth_call \<Rightarrow> uuid option" where
  "opens (Login _ sid _ _ _ _ _ _ _) = Some sid"
| "opens _ = None"

lemma exec_no_trace:
  assumes "auth_exec lib c m = Some m'" "no_trace sid m" "opens c \<noteq> Some sid"
  shows "no_trace sid m'"
proof (cases c)
  case (Login now sid' rt a pk sg pub scopes lt)
  then show ?thesis using login_effect [OF assms(1) [unfolded Login]] assms(2,3) by (auto simp: no_trace_def split: if_splits)
next
  case (Login_jwt now a pk sg pub scopes lt)
  then show ?thesis
    using assms by (auto simp: no_trace_def verify_and_issue_jwt_def take_challenge_def split: rust.splits sum.splits option.splits)
next
  case (Refresh now next_rt rt lt)
  obtain res where "refresh_access_token lib now next_rt rt lt m = (res, m')"
    using assms(1) Refresh by (metis auth_exec.simps(4) option.inject prod.collapse)
  then show ?thesis
    by (cases rule: refresh_effect) (use assms(2) in \<open>auto simp: no_trace_def split: if_splits\<close>)
qed (use assms in \<open>auto simp: create_challenge_def revoke_session_def no_trace_def split: if_splits\<close>)

lemma run_no_trace:
  "auth_run lib calls m = Some m' \<Longrightarrow> no_trace sid m \<Longrightarrow> \<forall>c \<in> set calls. opens c \<noteq> Some sid \<Longrightarrow> no_trace sid m'"
  by (induction calls arbitrary: m) (auto split: option.splits dest: exec_no_trace)

text \<open>
  Revocation is final: after a session is revoked, whatever calls follow, no access token of it is accepted and
  no refresh token gives another, unless a login draws the same identifier again.
\<close>

theorem revoked_session_is_dead:
  assumes "auth_run lib (Revoke sid # calls) m = Some m'" "\<forall>c \<in> set calls. opens c \<noteq> Some sid"
  shows "(\<forall>now token c. validate_access_token lib now token m' = Ok c \<longrightarrow> cl_session c \<noteq> Some sid) \<and>
    (\<forall>h. refresh_tokens m' h \<noteq> Some sid)"
proof -
  have "no_trace sid (snd (revoke_session sid m))" by (simp add: no_trace_def revoke_session_def)
  then have "no_trace sid m'" using assms run_no_trace by simp
  then show ?thesis using validate_session by (fastforce simp: no_trace_def)
qed

section \<open>A request that ends the process\<close>

text \<open>Four bytes with a two-byte character in the middle: the first slice cuts it.\<close>

definition cut_char :: string where
  "cut_char = [CHR ''a'', CHR 0xC3, CHR 0xA9, CHR ''a'']"

lemma cut_char_panics: "decode_hex_sized 64 cut_char = Panics" "trim cut_char = cut_char" "validate_length cut_char 1 512"
  by code_simp+

text \<open>
  Anyone can end the process: for every registered publisher, whose address gives its public key, a challenge for
  that address and an answer with the key and four bytes of text for a signature make the handler panic; the
  validation of the request lets them through, and no key is needed.
\<close>

theorem verify_panics:
  assumes "validate_stellar_address a" "trim a = a" "upper a = a" "publisher_of a = Some publisher"
    "validate_hex_length k 64" "trim k = k" "decode_hex_sized 32 k = Returns (Some key)" "address_key lib a = Some key"
    "later \<le> now + 300"
  shows "fst (verify_challenge lib upper True publisher_of later sid rt
      \<lparr>vr_address = a, vr_key = k, vr_signature = cut_char, vr_scopes = [], vr_lifetime = None\<rparr>
      (snd (get_challenge now nonce a m))) = Panics"
proof -
  have ne: "k \<noteq> []" "a \<noteq> []" "cut_char \<noteq> []"
    using assms(1,2,5,6) by (auto simp: validate_hex_length_def validate_stellar_address_def strkey_shape_def cut_char_def)
  have ch: "answer_challenge lib later a k cut_char (create_challenge now a nonce m) = Panics"
    using assms by (simp add: answer_challenge_def create_challenge_def cut_char_panics)
  have login: "verify_and_issue_token_pair lib later sid rt a k cut_char publisher [] lt (create_challenge now a nonce m) =
      (Panics, take_challenge a (create_challenge now a nonce m))" for lt
    by (simp add: verify_and_issue_token_pair_def ch)
  have san: "sanitize_verify upper \<lparr>vr_address = a, vr_key = k, vr_signature = cut_char, vr_scopes = [], vr_lifetime = None\<rparr> =
      \<lparr>vr_address = a, vr_key = k, vr_signature = cut_char, vr_scopes = [], vr_lifetime = None\<rparr>"
    using assms by (simp add: sanitize_verify_def cut_char_panics)
  have valid: "validate_verify \<lparr>vr_address = a, vr_key = k, vr_signature = cut_char, vr_scopes = [], vr_lifetime = None\<rparr>"
    using assms(1,5) cut_char_panics(3) by (simp add: validate_verify_def)
  show ?thesis
    using assms(2,4,6) ne by (simp add: verify_challenge_def san valid cut_char_panics get_challenge_def login)
qed

section \<open>Witnesses\<close>

definition demo_key :: string where "demo_key = replicate 32 CHR 0x11"
definition demo_key_hex :: string where "demo_key_hex = replicate 64 CHR ''1''"
definition demo_sig_hex :: string where "demo_sig_hex = replicate 128 CHR ''2''"
definition demo_address :: string where "demo_address = CHR ''G'' # replicate 55 CHR ''A''"

definition demo_claims :: auth_claims where
  "demo_claims = \<lparr>cl_sub = demo_address, cl_publisher = 7, cl_iat = 100, cl_exp = 1000, cl_scopes = [], cl_role = None,
     cl_admin = False, cl_mfa = False, cl_session = Some 5\<rparr>"

definition demo_lib :: auth_lib where
  "demo_lib = \<lparr>address_key = (\<lambda>a. if a = demo_address then Some demo_key else None), key_valid = (\<lambda>_. True),
     sig_verifies = (\<lambda>_ n _. n = ''nonce''), token_hash = (\<lambda>t. t), jwt_encode = (\<lambda>_. Some ''jwt''),
     jwt_decode = (\<lambda>now t. if t = ''jwt'' \<and> now \<le> 1000 then Some demo_claims else None)\<rparr>"

definition demo_login :: "auth_call list" where
  "demo_login = [Challenge 0 demo_address ''nonce'', Login 100 5 ''r0'' demo_address demo_key_hex demo_sig_hex 7 [] 900]"

definition demo_manager :: auth_manager where
  "demo_manager = \<lparr>challenges = (\<lambda>_. None), sessions = [5 \<mapsto> login_session 100 demo_address 7 []], refresh_tokens = [''r0'' \<mapsto> 5]\<rparr>"

lemma demo_decodes:
  "decode_hex_sized 32 demo_key_hex = Returns (Some demo_key)" "is_ok (validate_jwt demo_lib 100 ''jwt'')"
  "validate_stellar_address demo_address" "trim demo_address = demo_address" "validate_hex_length demo_key_hex 64"
  "trim demo_key_hex = demo_key_hex" "demo_address \<noteq> []"
  by code_simp+

lemma demo_sig: "\<exists>sig. decode_hex_sized 64 demo_sig_hex = Returns (Some sig)"
proof -
  have "decode_hex_sized 64 demo_sig_hex = Returns (Some (replicate 64 CHR 0x22))" by code_simp
  then show ?thesis ..
qed

lemma demo_login_run: "auth_run demo_lib demo_login new_manager = Some demo_manager"
proof -
  obtain sig where sig: "decode_hex_sized 64 demo_sig_hex = Returns (Some sig)" using demo_sig ..
  have "answer_challenge demo_lib 100 demo_address demo_key_hex demo_sig_hex (create_challenge 0 demo_address ''nonce'' new_manager)
      = Returns (Ok ())"
    by (simp add: answer_challenge_def create_challenge_def demo_decodes sig demo_lib_def)
  then show ?thesis
    by (simp add: demo_login_def verify_and_issue_token_pair_def take_challenge_def Let_def issue_access_token_for_session_def)
      (simp add: demo_lib_def demo_manager_def create_challenge_def new_manager_def fun_upd_idem)
qed

lemma demo_token: "validate_access_token demo_lib 500 ''jwt'' demo_manager = Ok demo_claims"
  by (simp add: validate_access_token_def validate_jwt_def demo_lib_def demo_claims_def demo_manager_def login_session_def)

theorem token_rests_on_login_witness:
  "\<exists>pre t0 nonce mid t rt pk sg lt post key sig.
    demo_login = pre @ Challenge t0 demo_address nonce # mid @ Login t 5 rt demo_address pk sg 7 [] lt # post \<and> t \<le> t0 + 300 \<and>
    500 \<le> t + 30 * 24 * 60 * 60 \<and> sig_verifies demo_lib key nonce sig"
proof -
  have c: "cl_session demo_claims = Some 5" "cl_sub demo_claims = demo_address" "cl_publisher demo_claims = 7"
      "cl_scopes demo_claims = []"
    by (simp_all add: demo_claims_def)
  show ?thesis using token_rests_on_login [OF demo_login_run demo_token c(1)] unfolding c(2-4) by blast
qed

lemma demo_rotation:
  "\<exists>pair m'. refresh_access_token demo_lib 200 ''r1'' ''r0'' 900 demo_manager = (Ok pair, m') \<and>
     refresh_tokens demo_manager (token_hash demo_lib ''r1'') = None"
  by (simp add: refresh_access_token_def issue_access_token_for_session_def demo_lib_def demo_manager_def login_session_def)

lemma demo_manager_ok: "auth_ok demo_manager"
  by (simp add: auth_ok_def demo_manager_def)

lemma demo_encodes: "jwt_encode demo_lib claims \<noteq> None"
  by (simp add: demo_lib_def)

theorem refresh_rotates_witness:
  "\<exists>m'. sessions m' = sessions demo_manager \<and>
     fst (refresh_access_token demo_lib 300 ''r2'' ''r0'' 900 m') = Err ''refresh_token_not_found'' \<and>
     refresh_tokens m' ''r1'' = Some 5"
proof -
  obtain pair m' where r: "refresh_access_token demo_lib 200 ''r1'' ''r0'' 900 demo_manager = (Ok pair, m')"
      "refresh_tokens demo_manager (token_hash demo_lib ''r1'') = None"
    using demo_rotation by blast
  have h: "token_hash demo_lib t = t" for t by (simp add: demo_lib_def)
  have "refresh_tokens demo_manager ''r0'' = Some 5" by (simp add: demo_manager_def)
  then show ?thesis
    using refresh_rotates [OF demo_manager_ok r demo_encodes, of 300 "''r2''" 900] unfolding h by auto
qed

theorem refresh_finds_session_witness:
  "auth_ok demo_manager \<and> fst (refresh_access_token demo_lib 200 ''r1'' ''r0'' 900 demo_manager) \<noteq> Err ''session_not_found''"
proof (rule refresh_finds_session [OF demo_login_run])
  show "fresh_run demo_lib demo_login new_manager"
    by (simp add: demo_login_def create_challenge_def new_manager_def split: option.split)
qed

theorem revoked_session_is_dead_witness:
  "refresh_tokens (snd (revoke_session 5 demo_manager)) ''r0'' \<noteq> Some 5"
  using revoked_session_is_dead [of demo_lib 5 "[]" demo_manager "snd (revoke_session 5 demo_manager)"] by simp

theorem verify_panics_witness:
  "fst (verify_challenge demo_lib (\<lambda>s. s) True [demo_address \<mapsto> 7] 10 5 ''r0''
      \<lparr>vr_address = demo_address, vr_key = demo_key_hex, vr_signature = cut_char, vr_scopes = [], vr_lifetime = None\<rparr>
      (snd (get_challenge 0 ''nonce'' demo_address new_manager))) = Panics"
  by (rule verify_panics [where publisher = 7 and key = demo_key]) (simp_all add: demo_decodes demo_lib_def)

end
