(* ===== verification/Multisig.thy ===== *)
theory Multisig
  imports Validation
begin

text \<open>
  Approval by several signers: \<open>backend/api/src/multisig_handlers.rs\<close> (policies, proposals, decisions,
  execution, publisher keys) and the gate of \<open>handlers.rs\<close> that sensitive updates of a contract pass
  with a proposal. The handlers that write several rows do it in one transaction that locks the proposal,
  so each is one step, and a statement that fails undoes all of it. The routes carry no
  authentication: the request alone says who signs. Requests are taken as the extractor hands them on, sanitised;
  a statement that a decision may run is taken to fail whether or not its branch would run it.
\<close>

section \<open>Rows\<close>

datatype proposal_status = Prop_pending | Prop_approved | Prop_executed | Prop_expired | Prop_rejected

definition proposal_status_str :: "proposal_status \<Rightarrow> string" where
  "proposal_status_str s =
     (case s of Prop_pending \<Rightarrow> ''pending'' | Prop_approved \<Rightarrow> ''approved'' | Prop_executed \<Rightarrow> ''executed''
      | Prop_expired \<Rightarrow> ''expired'' | Prop_rejected \<Rightarrow> ''rejected'')"

datatype approval_decision = Approved | Rejected

record multisig_policy =
  mp_id :: uuid
  mp_name :: string
  mp_threshold :: int
  mp_signers :: "string list"
  mp_expiry :: int
  mp_ordered :: bool
  mp_creator :: string

record proposal =
  pr_id :: uuid
  pr_name :: string
  pr_contract :: string
  pr_wasm :: string
  pr_network :: string
  pr_description :: "string option"
  pr_policy :: uuid
  pr_status :: proposal_status
  pr_expires :: time
  pr_executed_at :: "time option"
  pr_approved_at :: "time option"
  pr_rejected_at :: "time option"
  pr_reason :: "string option"
  pr_proposer :: string
  pr_required :: int

record proposal_signature =
  ps_proposal :: uuid
  ps_signer :: string
  ps_data :: "string option"
  ps_decision :: approval_decision
  ps_comment :: "string option"
  ps_step :: "int option"

record publisher_key =
  pk_id :: uuid
  pk_publisher :: uuid
  pk_name :: string
  pk_key :: string
  pk_algorithm :: string
  pk_active :: bool

text \<open>The audit events keep the proposal, who acted and the action; the notifications whom they are for.\<close>

record multisig =
  policies :: "multisig_policy list"
  proposals :: "proposal list"
  signatures :: "proposal_signature list"
  approval_audit :: "(uuid \<times> string option \<times> string) list"
  notifications :: "(uuid \<times> string) list"
  publisher_keys :: "publisher_key list"

datatype msig_stmt =
    Select_policy | Insert_policy | Insert_proposal | Insert_notification | Insert_audit | Commit_proposal
  | Lock_proposal | Update_proposal | Count_signatures | Insert_signature
  | Select_proposals | Select_signatures | Select_keys | Insert_key | Update_key

section \<open>Policies\<close>

record policy_request =
  qp_name :: string
  qp_threshold :: int
  qp_signers :: "string list"
  qp_expiry :: "int option"
  qp_creator :: string
  qp_ordered :: "bool option"

definition valid_policy_request :: "(string \<Rightarrow> bool) \<Rightarrow> policy_request \<Rightarrow> bool" where
  "valid_policy_request no_xss r \<longleftrightarrow>
     validate_text no_xss (qp_name r) 1 MAX_NAME_LENGTH \<and>
     0 < qp_threshold r \<and> nat (qp_threshold r) \<le> length (qp_signers r) \<and>
     1 \<le> length (qp_signers r) \<and> length (qp_signers r) \<le> 20 \<and>
     list_all validate_stellar_address (qp_signers r) \<and> validate_stellar_address (qp_creator r)"

definition create_policy ::
  "(string \<Rightarrow> bool) \<Rightarrow> (msig_stmt \<Rightarrow> bool) \<Rightarrow> uuid \<Rightarrow> policy_request \<Rightarrow> multisig \<Rightarrow> (api_error + multisig_policy) \<times> multisig" where
  "create_policy no_xss ok new_id r db =
     (if \<not> valid_policy_request no_xss r then (Err validation_error, db)
      else if trim (qp_name r) = [] then (Err (Api_error 400 ''InvalidName''), db)
      else if trim (qp_creator r) = [] then (Err (Api_error 400 ''InvalidCreator''), db)
      else if qp_signers r = [] then (Err (Api_error 400 ''InvalidSigners''), db)
      else if qp_threshold r < 1 \<or> int (length (qp_signers r)) < qp_threshold r
      then (Err (Api_error 400 ''InvalidThreshold''), db)
      else if card (set (qp_signers r)) \<noteq> length (qp_signers r)
      then (Err (Api_error 400 ''DuplicateSigners''), db)
      else
        let expiry = unwrap_or (qp_expiry r) 86400
        in if expiry < 60 then (Err (Api_error 400 ''InvalidExpiry''), db)
           else
             let row = \<lparr>mp_id = new_id, mp_name = trim (qp_name r), mp_threshold = qp_threshold r,
                        mp_signers = qp_signers r, mp_expiry = expiry, mp_ordered = unwrap_or (qp_ordered r) False,
                        mp_creator = trim (qp_creator r)\<rparr>
             in if \<not> ok Insert_policy \<or> row_get mp_id (policies db) new_id \<noteq> None then (Err database_error, db)
                else (Ok row, db\<lparr>policies := policies db @ [row]\<rparr>))"

section \<open>Proposals\<close>

record proposal_request =
  qr_name :: string
  qr_contract :: string
  qr_wasm :: string
  qr_network :: string
  qr_description :: "string option"
  qr_policy :: uuid
  qr_proposer :: string

definition valid_proposal_request :: "(string \<Rightarrow> bool) \<Rightarrow> proposal_request \<Rightarrow> bool" where
  "valid_proposal_request no_xss r \<longleftrightarrow>
     validate_text no_xss (qr_name r) 1 MAX_NAME_LENGTH \<and> validate_contract_id (qr_contract r) \<and>
     validate_wasm_hash (qr_wasm r) \<and> validate_stellar_address (qr_proposer r)"

definition proposal_of :: "time \<Rightarrow> uuid \<Rightarrow> multisig_policy \<Rightarrow> proposal_request \<Rightarrow> proposal" where
  "proposal_of now new_id p r =
     \<lparr>pr_id = new_id, pr_name = trim (qr_name r), pr_contract = trim (qr_contract r), pr_wasm = trim (qr_wasm r),
      pr_network = qr_network r, pr_description = qr_description r, pr_policy = qr_policy r,
      pr_status = Prop_pending, pr_expires = now + mp_expiry p * 1000000, pr_executed_at = None,
      pr_approved_at = None, pr_rejected_at = None, pr_reason = None, pr_proposer = trim (qr_proposer r),
      pr_required = mp_threshold p\<rparr>"

definition create_deploy_proposal ::
  "(string \<Rightarrow> bool) \<Rightarrow> (msig_stmt \<Rightarrow> bool) \<Rightarrow> time \<Rightarrow> uuid \<Rightarrow> proposal_request \<Rightarrow> multisig \<Rightarrow> (api_error + proposal) \<times> multisig" where
  "create_deploy_proposal no_xss ok now new_id r db =
     (if \<not> valid_proposal_request no_xss r then (Err validation_error, db)
      else if trim (qr_name r) = [] then (Err (Api_error 400 ''InvalidContractName''), db)
      else if trim (qr_contract r) = [] then (Err (Api_error 400 ''InvalidContractId''), db)
      else if trim (qr_wasm r) = [] then (Err (Api_error 400 ''InvalidWasmHash''), db)
      else if trim (qr_proposer r) = [] then (Err (Api_error 400 ''InvalidProposer''), db)
      else if \<not> ok Select_policy then (Err database_error, db)
      else case row_get mp_id (policies db) (qr_policy r) of
        None \<Rightarrow> (Err (Api_error 404 ''PolicyNotFound''), db)
      | Some p \<Rightarrow>
          let row = proposal_of now new_id p r
          in if \<not> ok Insert_proposal \<or> row_get pr_id (proposals db) new_id \<noteq> None \<or>
                \<not> ok Insert_notification \<or> \<not> ok Insert_audit \<or> \<not> ok Commit_proposal
             then (Err database_error, db)
             else (Ok row,
                   db\<lparr>proposals := proposals db @ [row],
                      notifications := notifications db @ map (\<lambda>s. (new_id, s)) (mp_signers p),
                      approval_audit := approval_audit db @ [(new_id, Some (trim (qr_proposer r)), ''proposal_created'')]\<rparr>))"

section \<open>Decisions\<close>

record sign_request =
  sr_signer :: string
  sr_data :: "string option"
  sr_decision :: "approval_decision option"
  sr_comment :: "string option"

definition valid_sign_request :: "(string \<Rightarrow> bool) \<Rightarrow> sign_request \<Rightarrow> bool" where
  "valid_sign_request no_xss r \<longleftrightarrow>
     validate_stellar_address (sr_signer r) \<and> validate_optional_text no_xss (sr_comment r) MAX_DESCRIPTION_LENGTH"

record sign_response =
  sg_collected :: nat
  sg_needed :: nat
  sg_met :: bool
  sg_status :: string

fun position :: "'a \<Rightarrow> 'a list \<Rightarrow> nat option" where
  "position a [] = None"
| "position a (x # xs) = (if x = a then Some 0 else map_option Suc (position a xs))"

definition approvals :: "multisig \<Rightarrow> uuid \<Rightarrow> nat" where
  "approvals db pid = length (filter (\<lambda>s. ps_proposal s = pid \<and> ps_decision s = Approved) (signatures db))"

text \<open>The check of an ordered policy: the signer's turn, kept as the step of the signature.\<close>

definition check_turn ::
  "(msig_stmt \<Rightarrow> bool) \<Rightarrow> multisig_policy \<Rightarrow> string \<Rightarrow> nat \<Rightarrow> api_error + int option" where
  "check_turn ok mp signer approved =
     (if \<not> mp_ordered mp then Ok None
      else case position signer (mp_signers mp) of
        None \<Rightarrow> Err (Api_error 403 ''FORBIDDEN'')
      | Some i \<Rightarrow>
          if \<not> ok Count_signatures then Err database_error
          else if i \<noteq> approved then Err (Api_error 409 ''OutOfOrderApproval'')
          else Ok (Some (int i)))"

definition mark_prop_expired :: "proposal \<Rightarrow> proposal" where
  "mark_prop_expired p = p\<lparr>pr_status := Prop_expired\<rparr>"

definition mark_rejected :: "time \<Rightarrow> string option \<Rightarrow> proposal \<Rightarrow> proposal" where
  "mark_rejected now comment p =
     p\<lparr>pr_status := Prop_rejected,
       pr_rejected_at := (case pr_rejected_at p of Some t \<Rightarrow> Some t | None \<Rightarrow> Some now),
       pr_reason := (case comment of Some c \<Rightarrow> Some c | None \<Rightarrow> pr_reason p)\<rparr>"

definition mark_approved :: "time \<Rightarrow> proposal \<Rightarrow> proposal" where
  "mark_approved now p =
     p\<lparr>pr_status := Prop_approved,
       pr_approved_at := (case pr_approved_at p of Some t \<Rightarrow> Some t | None \<Rightarrow> Some now)\<rparr>"

text \<open>What a decision does once it is inserted: the new status of the proposal, and its audit event.\<close>

definition settle_decision ::
  "time \<Rightarrow> sign_request \<Rightarrow> string \<Rightarrow> proposal \<Rightarrow> multisig \<Rightarrow> proposal_status \<times> multisig" where
  "settle_decision now r signer p db =
     (if unwrap_or (sr_decision r) Approved = Rejected
      then (Prop_rejected, db\<lparr>proposals := row_upd pr_id (proposals db) (pr_id p) (mark_rejected now (sr_comment r))\<rparr>)
      else if pr_required p \<le> int (approvals db (pr_id p))
      then (Prop_approved,
            db\<lparr>proposals := update_where (\<lambda>q. pr_id q = pr_id p \<and> pr_status q = Prop_pending) (mark_approved now) (proposals db),
               approval_audit := approval_audit db @ [(pr_id p, Some signer, ''proposal_approved'')]\<rparr>)
      else (Prop_pending, db))"

text \<open>
  Everything up to the insertion of the decision: an error with the state it leaves, or the proposal,
  its policy and the step.
\<close>

definition admit_decision ::
  "(msig_stmt \<Rightarrow> bool) \<Rightarrow> time \<Rightarrow> uuid \<Rightarrow> string \<Rightarrow> multisig \<Rightarrow>
   api_error \<times> multisig + proposal \<times> multisig_policy \<times> int option" where
  "admit_decision ok now pid signer db =
     (if \<not> ok Lock_proposal then Err (database_error, db)
      else case row_get pr_id (proposals db) pid of
        None \<Rightarrow> Err (Api_error 404 ''ProposalNotFound'', db)
      | Some p \<Rightarrow>
      case row_get mp_id (policies db) (pr_policy p) of
        None \<Rightarrow> Err (Api_error 404 ''ProposalNotFound'', db)
      | Some mp \<Rightarrow>
          if pr_status p \<noteq> Prop_pending then Err (Api_error 409 ''InvalidProposalState'', db)
          else if pr_expires p \<le> now
          then if \<not> ok Update_proposal \<or> \<not> ok Commit_proposal then Err (database_error, db)
               else Err (Api_error 409 ''ProposalExpired'',
                         db\<lparr>proposals := row_upd pr_id (proposals db) pid mark_prop_expired\<rparr>)
          else if signer \<notin> set (mp_signers mp) then Err (Api_error 403 ''FORBIDDEN'', db)
          else case check_turn ok mp signer (approvals db pid) of
            Inl e \<Rightarrow> Err (e, db)
          | Inr step \<Rightarrow>
              if \<not> ok Insert_signature then Err (database_error, db)
              else if list_ex (\<lambda>s. ps_proposal s = pid \<and> ps_signer s = signer) (signatures db)
              then Err (Api_error 409 ''AlreadySigned'', db)
              else Ok (p, mp, step))"

definition sign_proposal ::
  "(string \<Rightarrow> bool) \<Rightarrow> (msig_stmt \<Rightarrow> bool) \<Rightarrow> time \<Rightarrow> uuid \<Rightarrow> sign_request \<Rightarrow> multisig \<Rightarrow> (api_error + sign_response) \<times> multisig" where
  "sign_proposal no_xss ok now pid r db =
     (if \<not> valid_sign_request no_xss r then (Err validation_error, db)
      else if trim (sr_signer r) = [] then (Err (Api_error 400 ''InvalidSigner''), db)
      else
        let signer = trim (sr_signer r) in
        case admit_decision ok now pid signer db of
          Inl (e, db') \<Rightarrow> (Err e, db')
        | Inr (p, mp, step) \<Rightarrow>
            if \<not> ok Insert_audit \<or> \<not> ok Count_signatures \<or> \<not> ok Update_proposal \<or> \<not> ok Commit_proposal
            then (Err database_error, db)
            else
              let decision = unwrap_or (sr_decision r) Approved;
                  row = \<lparr>ps_proposal = pid, ps_signer = signer, ps_data = sr_data r, ps_decision = decision,
                         ps_comment = sr_comment r, ps_step = step\<rparr>;
                  action = (case decision of Approved \<Rightarrow> ''signature_approved'' | Rejected \<Rightarrow> ''signature_rejected'');
                  db1 = db\<lparr>signatures := signatures db @ [row],
                           approval_audit := approval_audit db @ [(pid, Some signer, action)]\<rparr>;
                  (status, db2) = settle_decision now r signer p db1
              in (Ok \<lparr>sg_collected = approvals db1 pid, sg_needed = nat (pr_required p - int (approvals db1 pid)),
                     sg_met = (status = Prop_approved), sg_status = proposal_status_str status\<rparr>, db2))"

text \<open>The execution does not look at the date of expiry.\<close>

definition mark_executed :: "time \<Rightarrow> proposal \<Rightarrow> proposal" where
  "mark_executed now p =
     p\<lparr>pr_status := Prop_executed,
       pr_executed_at := (case pr_executed_at p of Some t \<Rightarrow> Some t | None \<Rightarrow> Some now)\<rparr>"

definition execute_proposal ::
  "(msig_stmt \<Rightarrow> bool) \<Rightarrow> time \<Rightarrow> uuid \<Rightarrow> multisig \<Rightarrow> (api_error + string \<times> string \<times> time) \<times> multisig" where
  "execute_proposal ok now pid db =
     (if \<not> ok Lock_proposal then (Err database_error, db)
      else case row_get pr_id (proposals db) pid of
        None \<Rightarrow> (Err (Api_error 404 ''ProposalNotFound''), db)
      | Some p \<Rightarrow>
          if pr_status p \<noteq> Prop_approved then (Err (Api_error 409 ''ProposalNotApproved''), db)
          else if \<not> ok Update_proposal \<or> \<not> ok Insert_audit \<or> \<not> ok Commit_proposal then (Err database_error, db)
          else (Ok (pr_contract p, pr_wasm p, unwrap_or (pr_executed_at p) now),
                db\<lparr>proposals := row_upd pr_id (proposals db) pid (mark_executed now),
                   approval_audit := approval_audit db @ [(pid, None, ''proposal_executed'')]\<rparr>))"

section \<open>Reading\<close>

record proposal_view =
  pi_proposal :: proposal
  pi_policy :: multisig_policy
  pi_signatures :: "proposal_signature list"
  pi_needed :: nat

definition proposal_info :: "(msig_stmt \<Rightarrow> bool) \<Rightarrow> uuid \<Rightarrow> multisig \<Rightarrow> api_error + proposal_view" where
  "proposal_info ok pid db =
     (if \<not> ok Select_proposals then Err database_error
      else case row_get pr_id (proposals db) pid of
        None \<Rightarrow> Err (Api_error 404 ''ProposalNotFound'')
      | Some p \<Rightarrow>
          if \<not> ok Select_policy \<or> \<not> ok Select_signatures \<or> \<not> ok Count_signatures then Err database_error
          else case row_get mp_id (policies db) (pr_policy p) of
            None \<Rightarrow> Err database_error
          | Some mp \<Rightarrow>
              Ok \<lparr>pi_proposal = p, pi_policy = mp,
                  pi_signatures = filter (\<lambda>s. ps_proposal s = pid) (signatures db),
                  pi_needed = nat (pr_required p - int (approvals db pid))\<rparr>)"

text \<open>Newest first: the tables are in the order of insertion. The total is of all that match.\<close>

definition list_proposals ::
  "(msig_stmt \<Rightarrow> bool) \<Rightarrow> string option \<Rightarrow> nat option \<Rightarrow> multisig \<Rightarrow> api_error + proposal list \<times> nat" where
  "list_proposals ok status limit db =
     (if (case status of Some s \<Rightarrow> s \<notin> set [''pending'', ''approved'', ''executed'', ''expired'', ''rejected''] | None \<Rightarrow> False)
      then Err (Api_error 400 ''InvalidStatus'')
      else if \<not> ok Select_proposals then Err database_error
      else
        let ps = filter (\<lambda>p. case status of Some s \<Rightarrow> proposal_status_str (pr_status p) = s | None \<Rightarrow> True) (proposals db)
        in Ok (take (clamp (unwrap_or limit 20) 1 100) (rev ps), length ps))"

section \<open>Publisher keys\<close>

record key_request =
  qk_name :: string
  qk_key :: string
  qk_algorithm :: "string option"

definition valid_key_request :: "(string \<Rightarrow> bool) \<Rightarrow> key_request \<Rightarrow> bool" where
  "valid_key_request no_xss r \<longleftrightarrow> validate_text no_xss (qk_name r) 1 128 \<and> validate_length (qk_key r) 32 128"

definition create_publisher_key ::
  "(string \<Rightarrow> bool) \<Rightarrow> (msig_stmt \<Rightarrow> bool) \<Rightarrow> (uuid \<Rightarrow> bool) \<Rightarrow> uuid \<Rightarrow> uuid \<Rightarrow> key_request \<Rightarrow> multisig \<Rightarrow>
   (api_error + publisher_key) \<times> multisig" where
  "create_publisher_key no_xss ok is_publisher new_id publisher r db =
     (if \<not> valid_key_request no_xss r then (Err validation_error, db)
      else if trim (qk_name r) = [] then (Err (Api_error 400 ''InvalidKeyName''), db)
      else if trim (qk_key r) = [] then (Err (Api_error 400 ''InvalidPublicKey''), db)
      else if ascii_lower (unwrap_or (qk_algorithm r) ''ed25519'') \<noteq> ''ed25519''
      then (Err (Api_error 400 ''InvalidAlgorithm''), db)
      else
        let row = \<lparr>pk_id = new_id, pk_publisher = publisher, pk_name = trim (qk_name r), pk_key = trim (qk_key r),
                   pk_algorithm = ascii_lower (unwrap_or (qk_algorithm r) ''ed25519''), pk_active = True\<rparr>
        in if \<not> ok Insert_key \<or> \<not> is_publisher publisher \<or> row_get pk_id (publisher_keys db) new_id \<noteq> None \<or>
              list_ex (\<lambda>k. pk_publisher k = publisher \<and> pk_key k = trim (qk_key r)) (publisher_keys db)
           then (Err database_error, db)
           else (Ok row, db\<lparr>publisher_keys := publisher_keys db @ [row]\<rparr>))"

definition deactivate :: "publisher_key \<Rightarrow> publisher_key" where
  "deactivate k = k\<lparr>pk_active := False\<rparr>"

definition deactivate_publisher_key ::
  "(msig_stmt \<Rightarrow> bool) \<Rightarrow> uuid \<Rightarrow> multisig \<Rightarrow> (api_error + publisher_key) \<times> multisig" where
  "deactivate_publisher_key ok kid db =
     (if \<not> ok Update_key then (Err database_error, db)
      else case row_get pk_id (publisher_keys db) kid of
        None \<Rightarrow> (Err (Api_error 404 ''KeyNotFound''), db)
      | Some k \<Rightarrow> (Ok (deactivate k), db\<lparr>publisher_keys := row_upd pk_id (publisher_keys db) kid deactivate\<rparr>))"

definition list_publisher_keys ::
  "(msig_stmt \<Rightarrow> bool) \<Rightarrow> (uuid \<Rightarrow> bool) \<Rightarrow> uuid \<Rightarrow> multisig \<Rightarrow> api_error + publisher_key list" where
  "list_publisher_keys ok is_publisher publisher db =
     (if \<not> ok Select_keys then Err database_error
      else if \<not> is_publisher publisher then Err (Api_error 404 ''PublisherNotFound'')
      else
        let ks = filter (\<lambda>k. pk_publisher k = publisher) (publisher_keys db)
        in Ok (filter pk_active (rev ks) @ filter (\<lambda>k. \<not> pk_active k) (rev ks)))"

section \<open>The gate of sensitive updates\<close>

text \<open>\<open>header\<close> is the header \<open>x-multisig-proposal-id\<close>, \<open>contract\<close> the on-chain address of the contract.\<close>

definition require_multisig_approval ::
  "(msig_stmt \<Rightarrow> bool) \<Rightarrow> (string \<Rightarrow> uuid option) \<Rightarrow> time \<Rightarrow> string option \<Rightarrow> string \<Rightarrow> multisig \<Rightarrow> api_error + unit" where
  "require_multisig_approval ok parse_uuid now header contract db =
     (case header of
        None \<Rightarrow> Err (Api_error 403 ''MultisigRequired'')
      | Some text \<Rightarrow>
      case parse_uuid text of
        None \<Rightarrow> Err (Api_error 400 ''InvalidProposalId'')
      | Some pid \<Rightarrow>
      if \<not> ok Select_proposals then Err database_error
      else case row_get pr_id (proposals db) pid of
        None \<Rightarrow> Err (Api_error 404 ''ProposalNotFound'')
      | Some p \<Rightarrow>
          if pr_contract p \<noteq> contract then Err (Api_error 409 ''ProposalContractMismatch'')
          else if pr_expires p \<le> now then Err (Api_error 409 ''ProposalExpired'')
          else if pr_status p \<noteq> Prop_approved \<and> pr_status p \<noteq> Prop_executed
          then Err (Api_error 409 ''ProposalNotApproved'')
          else if int (approvals db pid) < pr_required p then Err (Api_error 403 ''ThresholdNotMet'')
          else Ok ())"

section \<open>What every decision keeps\<close>

definition approvers :: "multisig \<Rightarrow> uuid \<Rightarrow> string list" where
  "approvers db pid = map ps_signer (filter (\<lambda>s. ps_proposal s = pid \<and> ps_decision s = Approved) (signatures db))"

definition was_rejected :: "multisig \<Rightarrow> uuid \<Rightarrow> bool" where
  "was_rejected db pid \<longleftrightarrow> (\<exists>s \<in> set (signatures db). ps_proposal s = pid \<and> ps_decision s = Rejected)"

lemma approvals_approvers: "approvals db pid = length (approvers db pid)"
  by (simp add: approvals_def approvers_def)

lemma signer_position: "position a xs = Some i \<Longrightarrow> i < length xs \<and> xs ! i = a"
  by (induction xs arbitrary: i) (auto split: if_splits)

text \<open>A proposal under its policy: who approved it, in which order, and what its status says.\<close>

definition decisions_ok :: "multisig \<Rightarrow> multisig_policy \<Rightarrow> proposal \<Rightarrow> bool" where
  "decisions_ok db mp p \<longleftrightarrow>
     pr_required p = mp_threshold mp \<and> set (approvers db (pr_id p)) \<subseteq> set (mp_signers mp) \<and>
     (mp_ordered mp \<longrightarrow> approvers db (pr_id p) = take (length (approvers db (pr_id p))) (mp_signers mp)) \<and>
     (pr_status p = Prop_pending \<longrightarrow> int (length (approvers db (pr_id p))) < pr_required p \<and> \<not> was_rejected db (pr_id p)) \<and>
     (pr_status p = Prop_approved \<or> pr_status p = Prop_executed \<longrightarrow>
        pr_required p \<le> int (length (approvers db (pr_id p))) \<and> \<not> was_rejected db (pr_id p)) \<and>
     (pr_status p = Prop_rejected \<longrightarrow> was_rejected db (pr_id p))"

definition multisig_ok :: "multisig \<Rightarrow> bool" where
  "multisig_ok db \<longleftrightarrow>
     distinct (map mp_id (policies db)) \<and> distinct (map pr_id (proposals db)) \<and>
     (\<forall>mp \<in> set (policies db). 1 \<le> mp_threshold mp \<and> mp_threshold mp \<le> int (length (mp_signers mp)) \<and> distinct (mp_signers mp)) \<and>
     (\<forall>s \<in> set (signatures db). ps_proposal s \<in> pr_id ` set (proposals db)) \<and>
     distinct (map (\<lambda>s. (ps_proposal s, ps_signer s)) (signatures db)) \<and>
     (\<forall>p \<in> set (proposals db). \<exists>mp \<in> set (policies db). mp_id mp = pr_policy p \<and> decisions_ok db mp p)"

lemma decisions_ok_cong:
  assumes "signatures db' = signatures db"
  shows "decisions_ok db' mp p = decisions_ok db mp p"
  by (simp add: decisions_ok_def approvers_def was_rejected_def assms)

lemma approvers_add:
  assumes "signatures db' = signatures db @ [s]"
  shows "approvers db' pid = approvers db pid @ (if ps_proposal s = pid \<and> ps_decision s = Approved then [ps_signer s] else [])"
    and "was_rejected db' pid \<longleftrightarrow> was_rejected db pid \<or> ps_proposal s = pid \<and> ps_decision s = Rejected"
  by (auto simp: approvers_def was_rejected_def assms)

lemma decisions_ok_other:
  assumes "signatures db' = signatures db @ [s]" "ps_proposal s \<noteq> pr_id p"
  shows "decisions_ok db' mp p = decisions_ok db mp p"
  using assms(2) by (auto simp: decisions_ok_def approvers_add [OF assms(1)])

lemma create_policy_ok:
  assumes "create_policy no_xss ok new_id r db = (res, db')" "multisig_ok db"
  shows "multisig_ok db'"
proof -
  have "db' = db \<or> (\<exists>mp. db' = db\<lparr>policies := policies db @ [mp]\<rparr> \<and> row_get mp_id (policies db) (mp_id mp) = None \<and>
      1 \<le> mp_threshold mp \<and> mp_threshold mp \<le> int (length (mp_signers mp)) \<and> distinct (mp_signers mp))"
    using assms(1) by (auto simp: create_policy_def Let_def card_distinct split: if_splits)
  then show ?thesis
  proof (elim disjE exE conjE)
    fix mp
    assume db': "db' = db\<lparr>policies := policies db @ [mp]\<rparr>" and mp: "row_get mp_id (policies db) (mp_id mp) = None"
      "1 \<le> mp_threshold mp" "mp_threshold mp \<le> int (length (mp_signers mp))" "distinct (mp_signers mp)"
    have "decisions_ok db' m p = decisions_ok db m p" for m p by (rule decisions_ok_cong) (simp add: db')
    then show ?thesis using assms(2) mp by (auto simp: multisig_ok_def row_get_None db')
  qed (simp add: assms(2))
qed

lemma create_deploy_proposal_ok:
  assumes "create_deploy_proposal no_xss ok now new_id r db = (res, db')" "multisig_ok db"
  shows "multisig_ok db'"
proof -
  have "db' = db \<or> (\<exists>mp. row_get mp_id (policies db) (qr_policy r) = Some mp \<and> row_get pr_id (proposals db) new_id = None \<and>
      policies db' = policies db \<and> signatures db' = signatures db \<and>
      proposals db' = proposals db @ [proposal_of now new_id mp r])"
    using assms(1) by (auto simp: create_deploy_proposal_def Let_def split: if_splits option.splits)
  then show ?thesis
  proof (elim disjE exE conjE)
    fix mp
    assume mp: "row_get mp_id (policies db) (qr_policy r) = Some mp" and new: "row_get pr_id (proposals db) new_id = None"
      and db': "policies db' = policies db" "signatures db' = signatures db"
        "proposals db' = proposals db @ [proposal_of now new_id mp r]"
    have mp': "mp \<in> set (policies db)" "mp_id mp = qr_policy r" using row_get_key [OF mp] by auto
    have "1 \<le> mp_threshold mp" using assms(2) mp' by (auto simp: multisig_ok_def)
    moreover have "ps_proposal s \<noteq> new_id" if "s \<in> set (signatures db)" for s
      using assms(2) new that by (auto simp: multisig_ok_def row_get_None)
    then have "approvers db' new_id = []" "\<not> was_rejected db' new_id"
      by (auto simp: approvers_def was_rejected_def db' filter_empty_conv)
    ultimately have "decisions_ok db' mp (proposal_of now new_id mp r)"
      by (simp add: decisions_ok_def proposal_of_def)
    then have "\<exists>m \<in> set (policies db). mp_id m = pr_policy (proposal_of now new_id mp r) \<and>
        decisions_ok db' m (proposal_of now new_id mp r)"
      using mp' by (auto simp: proposal_of_def)
    moreover have "decisions_ok db' m p = decisions_ok db m p" for m p by (rule decisions_ok_cong) (simp add: db')
    moreover have "pr_id (proposal_of now new_id mp r) = new_id" by (simp add: proposal_of_def)
    ultimately show ?thesis
      using assms(2) new by (auto simp: multisig_ok_def row_get_None db')
  qed (simp add: assms(2))
qed

text \<open>A change of one proposal's status keeps the rest.\<close>

lemma proposal_update_ok:
  assumes ok: "multisig_ok db" and db': "policies db' = policies db" "signatures db' = signatures db"
    "proposals db' = update_where P f (proposals db)"
    and f: "\<And>p. pr_id (f p) = pr_id p" "\<And>p. pr_policy (f p) = pr_policy p"
    and step: "\<And>p mp. p \<in> set (proposals db) \<Longrightarrow> P p \<Longrightarrow> decisions_ok db mp p \<Longrightarrow> decisions_ok db mp (f p)"
  shows "multisig_ok db'"
proof -
  have ids: "map pr_id (proposals db') = map pr_id (proposals db)"
    unfolding db' by (rule map_key_update_where) (rule f)
  have "pr_id ` set (proposals db') = pr_id ` set (proposals db)"
    by (simp only: set_map [symmetric] ids)
  moreover have "\<exists>mp \<in> set (policies db). mp_id mp = pr_policy q \<and> decisions_ok db mp q" if "q \<in> set (proposals db')" for q
  proof -
    obtain p where p: "p \<in> set (proposals db)" "q = (if P p then f p else p)"
      using \<open>q \<in> _\<close> by (auto simp: db' set_update_where)
    obtain mp where "mp \<in> set (policies db)" "mp_id mp = pr_policy p" "decisions_ok db mp p"
      using ok p(1) by (auto simp: multisig_ok_def)
    then show ?thesis using step [OF p(1)] p(2) f by auto
  qed
  moreover have "decisions_ok db' m p = decisions_ok db m p" for m p by (rule decisions_ok_cong) (rule db')
  ultimately show ?thesis using ok ids by (simp add: multisig_ok_def db' del: bex_simps)
qed

lemma admit_decision_Err:
  assumes "admit_decision ok now pid signer db = Err (e, db')"
  shows "db' = db \<or> (\<exists>p. row_get pr_id (proposals db) pid = Some p \<and> pr_status p = Prop_pending \<and>
    db' = db\<lparr>proposals := row_upd pr_id (proposals db) pid mark_prop_expired\<rparr>)"
  using assms by (auto simp: admit_decision_def split: if_splits option.splits sum.splits)

lemma admit_decision_Ok:
  assumes "admit_decision ok now pid signer db = Ok (p, mp, step)"
  shows "row_get pr_id (proposals db) pid = Some p \<and> row_get mp_id (policies db) (pr_policy p) = Some mp \<and>
    pr_status p = Prop_pending \<and> now < pr_expires p \<and> signer \<in> set (mp_signers mp) \<and>
    (mp_ordered mp \<longrightarrow> position signer (mp_signers mp) = Some (approvals db pid)) \<and>
    (pid, signer) \<notin> (\<lambda>s. (ps_proposal s, ps_signer s)) ` set (signatures db)"
  using assms
  by (auto simp: admit_decision_def check_turn_def list_ex_iff split: if_splits option.splits sum.splits)

lemma sign_proposal_effect:
  assumes "sign_proposal no_xss ok now pid r db = (res, db')"
  obtains (same) "db' = db"
  | (expired) p where "row_get pr_id (proposals db) pid = Some p" "pr_status p = Prop_pending"
      "db' = db\<lparr>proposals := row_upd pr_id (proposals db) pid mark_prop_expired\<rparr>"
  | (signed) p mp step s audit where "admit_decision ok now pid (ps_signer s) db = Ok (p, mp, step)"
      "ps_proposal s = pid" "ps_decision s = unwrap_or (sr_decision r) Approved"
      "db' = snd (settle_decision now r (ps_signer s) p (db\<lparr>signatures := signatures db @ [s], approval_audit := audit\<rparr>))"
proof (cases "admit_decision ok now pid (trim (sr_signer r)) db")
  case (Inl a)
  obtain e db'' where a: "a = (e, db'')" by fastforce
  have "db' = db \<or> db' = db''" using assms by (auto simp: sign_proposal_def Inl a split: if_splits)
  then show thesis using admit_decision_Err [OF Inl [unfolded a]] same expired by blast
next
  case (Inr a)
  obtain p mp step where a: "a = (p, mp, step)" by (cases a) auto
  let ?s = "\<lparr>ps_proposal = pid, ps_signer = trim (sr_signer r), ps_data = sr_data r,
    ps_decision = unwrap_or (sr_decision r) Approved, ps_comment = sr_comment r, ps_step = step\<rparr>"
  have "db' = db \<or> (\<exists>audit. db' = snd (settle_decision now r (ps_signer ?s) p
      (db\<lparr>signatures := signatures db @ [?s], approval_audit := audit\<rparr>)))"
    using assms by (auto simp: sign_proposal_def Inr a Let_def split: if_splits prod.splits) (metis snd_conv)
  then show thesis
    using same signed [of ?s p mp step] Inr by (auto simp: a)
qed

lemma settle_decision_rows:
  "settle_decision now r signer p db = (st, db') \<Longrightarrow>
   policies db' = policies db \<and> signatures db' = signatures db \<and>
   proposals db' =
     (if unwrap_or (sr_decision r) Approved = Rejected
      then row_upd pr_id (proposals db) (pr_id p) (mark_rejected now (sr_comment r))
      else if pr_required p \<le> int (approvals db (pr_id p))
      then update_where (\<lambda>q. pr_id q = pr_id p \<and> pr_status q = Prop_pending) (mark_approved now) (proposals db)
      else proposals db)"
  by (auto simp: settle_decision_def split: if_splits)

lemma mark_keys [simp]:
  "pr_id (mark_rejected now c p) = pr_id p" "pr_policy (mark_rejected now c p) = pr_policy p"
  "pr_id (mark_approved now p) = pr_id p" "pr_policy (mark_approved now p) = pr_policy p"
  "pr_id (mark_executed now p) = pr_id p" "pr_policy (mark_executed now p) = pr_policy p"
  "pr_id (mark_prop_expired p) = pr_id p" "pr_policy (mark_prop_expired p) = pr_policy p"
  "pr_required (mark_rejected now c p) = pr_required p" "pr_required (mark_approved now p) = pr_required p"
  "pr_required (mark_executed now p) = pr_required p" "pr_required (mark_prop_expired p) = pr_required p"
  "pr_status (mark_rejected now c p) = Prop_rejected" "pr_status (mark_approved now p) = Prop_approved"
  "pr_status (mark_executed now p) = Prop_executed" "pr_status (mark_prop_expired p) = Prop_expired"
  by (simp_all add: mark_rejected_def mark_approved_def mark_executed_def mark_prop_expired_def)

lemma take_next: "i < length xs \<Longrightarrow> ys = take i xs \<Longrightarrow> length ys = i \<Longrightarrow> ys @ [xs ! i] = take (Suc i) xs"
  by (simp add: take_Suc_conv_app_nth)

lemma take_min_length: "take (min (length xs) n) xs = take n xs"
  by (simp add: min_def)

text \<open>The decision of a signer on a pending proposal of a sound state, before and after it is settled.\<close>

lemma decision_added:
  assumes d: "decisions_ok db mp p" and st: "pr_status p = Prop_pending"
    and s: "ps_proposal s = pr_id p" "ps_signer s \<in> set (mp_signers mp)"
    and turn: "mp_ordered mp \<longrightarrow> position (ps_signer s) (mp_signers mp) = Some (approvals db (pr_id p))"
    and db1: "signatures db1 = signatures db @ [s]"
  shows "ps_decision s = Rejected \<Longrightarrow> decisions_ok db1 mp (mark_rejected now c p)"
    and "ps_decision s = Approved \<Longrightarrow> pr_required p \<le> int (approvals db1 (pr_id p)) \<Longrightarrow> decisions_ok db1 mp (mark_approved now p)"
    and "ps_decision s = Approved \<Longrightarrow> \<not> pr_required p \<le> int (approvals db1 (pr_id p)) \<Longrightarrow> decisions_ok db1 mp p"
proof -
  let ?as = "approvers db (pr_id p)"
  have as: "?as @ [ps_signer s] = take (Suc (length ?as)) (mp_signers mp)" if "mp_ordered mp"
  proof -
    have "length ?as < length (mp_signers mp)" "mp_signers mp ! length ?as = ps_signer s"
      using turn that signer_position [of "ps_signer s" "mp_signers mp" "length ?as"] by (simp_all add: approvals_approvers)
    moreover have "?as = take (length ?as) (mp_signers mp)" using d that by (simp add: decisions_ok_def)
    ultimately show ?thesis using take_next [of "length ?as" "mp_signers mp" ?as] by simp
  qed
  show "ps_decision s = Rejected \<Longrightarrow> decisions_ok db1 mp (mark_rejected now c p)"
    using d s by (auto simp: decisions_ok_def approvers_add [OF db1])
  show "ps_decision s = Approved \<Longrightarrow> pr_required p \<le> int (approvals db1 (pr_id p)) \<Longrightarrow> decisions_ok db1 mp (mark_approved now p)"
    using d st s as by (auto simp: decisions_ok_def approvals_approvers approvers_add [OF db1] take_min_length)
  show "ps_decision s = Approved \<Longrightarrow> \<not> pr_required p \<le> int (approvals db1 (pr_id p)) \<Longrightarrow> decisions_ok db1 mp p"
    using d st s as by (auto simp: decisions_ok_def approvals_approvers approvers_add [OF db1] take_min_length)
qed

end
