(* ===== verification/Multisig_Runs.thy ===== *)
theory Multisig_Runs
  imports Multisig
begin

text \<open>
  Runs of the multisignature handlers: the invariant of their tables, what an approval rests on, and that
  decisions are final.
\<close>

section \<open>Steps\<close>

lemma sign_proposal_ok:
  assumes "sign_proposal no_xss ok now pid r db = (res, db')" and ok: "multisig_ok db"
  shows "multisig_ok db'"
  using assms(1)
proof (cases rule: sign_proposal_effect)
  case (expired p)
  show ?thesis
    by (rule proposal_update_ok [OF ok, where P = "\<lambda>q. pr_id q = pid" and f = mark_prop_expired])
      (auto simp: expired(3) row_upd_def decisions_ok_def)
next
  case (signed p mp step s audit)
  let ?db1 = "db\<lparr>signatures := signatures db @ [s], approval_audit := audit\<rparr>"
  note adm = admit_decision_Ok [OF signed(1)]
  have p: "p \<in> set (proposals db)" "pr_id p = pid" using row_get_key [of pr_id "proposals db" pid p] adm by auto
  have mp: "mp \<in> set (policies db)" "mp_id mp = pr_policy p" using row_get_key [of mp_id "policies db" _ mp] adm by auto
  have d: "decisions_ok db mp p"
  proof -
    obtain m where "m \<in> set (policies db)" "mp_id m = pr_policy p" "decisions_ok db m p"
      using ok p by (auto simp: multisig_ok_def)
    moreover have "inj_on mp_id (set (policies db))" using ok by (simp add: multisig_ok_def distinct_map)
    ultimately show ?thesis using mp inj_onD [of mp_id "set (policies db)" m mp] by simp
  qed
  have only: "q = p" if "q \<in> set (proposals db)" "pr_id q = pid" for q
    using ok that p by (auto simp: multisig_ok_def distinct_map inj_on_def)
  obtain st where sd: "settle_decision now r (ps_signer s) p ?db1 = (st, db')"
    using signed(4) by (metis prod.collapse)
  note rows = settle_decision_rows [OF sd, simplified]
  note added = decision_added [OF d _ _ _ _, of s ?db1, simplified]
  let ?P = "\<lambda>q. pr_id q = pid"
  let ?f = "if ps_decision s = Rejected then mark_rejected now (sr_comment r)
    else if pr_required p \<le> int (approvals ?db1 pid) then mark_approved now else (\<lambda>q. q)"
  have f: "pr_id (?f q) = pr_id q" "pr_policy (?f q) = pr_policy q" for q by auto
  have pdb': "proposals db' = update_where ?P ?f (proposals db)"
    using rows signed(3) p(2) adm only by (auto simp: row_upd_def update_where_def)
  have own: "decisions_ok db' mp (?f p)"
  proof -
    have "decisions_ok ?db1 mp (?f p)"
      using added adm signed(2) p(2) by (cases "ps_decision s") auto
    moreover have "decisions_ok db' mp (?f p) = decisions_ok ?db1 mp (?f p)"
      by (rule decisions_ok_cong) (use rows in simp)
    ultimately show ?thesis by simp
  qed
  have other: "decisions_ok db' m q = decisions_ok db m q" if "pr_id q \<noteq> pid" for m q
    by (rule decisions_ok_other [of _ _ s]) (use rows signed(2) that in auto)
  have ids: "map pr_id (proposals db') = map pr_id (proposals db)"
    unfolding pdb' by (rule map_key_update_where) (rule f)
  then have set_ids: "pr_id ` set (proposals db') = pr_id ` set (proposals db)"
    by (metis set_map)
  have each: "\<exists>m \<in> set (policies db). mp_id m = pr_policy q \<and> decisions_ok db' m q" if "q \<in> set (proposals db')" for q
  proof -
    have "q \<in> (\<lambda>q. if pr_id q = pid then ?f q else q) ` set (proposals db)"
      using \<open>q \<in> set (proposals db')\<close> by (simp only: pdb' set_update_where)
    then obtain q0 where q0: "q = (if pr_id q0 = pid then ?f q0 else q0)" "q0 \<in> set (proposals db)"
      by (rule imageE)
    show ?thesis
    proof (cases "pr_id q0 = pid")
      case True
      then have "q = ?f p" using q0 only by simp
      then show ?thesis using own mp f by metis
    next
      case False
      then show ?thesis using ok q0 other by (auto simp: multisig_ok_def)
    qed
  qed
  show ?thesis
    using ok ids set_ids each rows adm p(1) signed(2)
    by (simp add: multisig_ok_def p(2) [symmetric] del: bex_simps)
qed (simp add: ok)

inductive msig_step :: "multisig \<Rightarrow> multisig \<Rightarrow> bool" where
  step_policy: "create_policy no_xss ok new_id r db = (res, db') \<Longrightarrow> msig_step db db'"
| step_proposal: "create_deploy_proposal no_xss ok now new_id r db = (res, db') \<Longrightarrow> msig_step db db'"
| step_sign: "sign_proposal no_xss ok now pid r db = (res, db') \<Longrightarrow> msig_step db db'"
| step_execute: "execute_proposal ok now pid db = (res, db') \<Longrightarrow> msig_step db db'"
| step_key: "create_publisher_key no_xss ok is_publisher new_id publisher r db = (res, db') \<Longrightarrow> msig_step db db'"
| step_deactivate: "deactivate_publisher_key ok kid db = (res, db') \<Longrightarrow> msig_step db db'"

lemma execute_proposal_ok:
  assumes "execute_proposal ok now pid db = (res, db')" and ok: "multisig_ok db"
  shows "multisig_ok db'"
proof -
  have "db' = db \<or> (\<exists>p. row_get pr_id (proposals db) pid = Some p \<and> pr_status p = Prop_approved \<and>
      policies db' = policies db \<and> signatures db' = signatures db \<and>
      proposals db' = update_where (\<lambda>q. pr_id q = pid) (mark_executed now) (proposals db))"
    using assms(1) by (auto simp: execute_proposal_def row_upd_def split: if_splits option.splits)
  then show ?thesis
  proof (elim disjE exE conjE)
    fix p
    assume p: "row_get pr_id (proposals db) pid = Some p" "pr_status p = Prop_approved"
      and db': "policies db' = policies db" "signatures db' = signatures db"
        "proposals db' = update_where (\<lambda>q. pr_id q = pid) (mark_executed now) (proposals db)"
    have "pr_status q = Prop_approved" if "q \<in> set (proposals db)" "pr_id q = pid" for q
      using ok that p row_get_distinct [of pr_id "proposals db" q] by (auto simp: multisig_ok_def)
    then show ?thesis
      by (intro proposal_update_ok [OF ok db']) (auto simp: decisions_ok_def)
  qed (simp add: ok)
qed

lemma same_decisions_ok:
  assumes "multisig_ok db" "policies db' = policies db" "proposals db' = proposals db" "signatures db' = signatures db"
  shows "multisig_ok db'"
  using assms decisions_ok_cong [OF assms(4)] by (simp add: multisig_ok_def)

lemma msig_step_ok: "msig_step db db' \<Longrightarrow> multisig_ok db \<Longrightarrow> multisig_ok db'"
proof (induction rule: msig_step.induct)
  case (step_key no_xss ok is_publisher new_id publisher r db res db')
  show ?case
    by (rule same_decisions_ok [OF step_key(2)])
      (use step_key(1) in \<open>auto simp: create_publisher_key_def Let_def split: if_splits\<close>)
next
  case (step_deactivate ok kid db res db')
  show ?case
    by (rule same_decisions_ok [OF step_deactivate(2)])
      (use step_deactivate(1) in \<open>auto simp: deactivate_publisher_key_def split: if_splits option.splits\<close>)
qed (rule create_policy_ok create_deploy_proposal_ok sign_proposal_ok execute_proposal_ok, assumption, assumption)+

lemma msig_steps_ok: "msig_step\<^sup>*\<^sup>* db db' \<Longrightarrow> multisig_ok db \<Longrightarrow> multisig_ok db'"
  by (induction rule: rtranclp_induct) (auto intro: msig_step_ok)


section \<open>What an approval rests on\<close>

definition empty_multisig :: multisig where
  "empty_multisig = \<lparr>policies = [], proposals = [], signatures = [], approval_audit = [], notifications = [], publisher_keys = []\<rparr>"

lemma empty_multisig_ok: "multisig_ok empty_multisig"
  by (simp add: multisig_ok_def empty_multisig_def)

lemma reached_multisig_ok: "msig_step\<^sup>*\<^sup>* empty_multisig db \<Longrightarrow> multisig_ok db"
  by (rule msig_steps_ok [OF _ empty_multisig_ok])

lemma approvers_distinct: "multisig_ok db \<Longrightarrow> distinct (approvers db pid)"
proof -
  have *: "distinct (map ps_signer (filter (\<lambda>s. ps_proposal s = pid \<and> ps_decision s = Approved) ss))"
    if "distinct (map (\<lambda>s. (ps_proposal s, ps_signer s)) ss)" for ss
    using that by (induction ss) (auto simp: image_iff)
  then show "multisig_ok db \<Longrightarrow> distinct (approvers db pid)"
    by (simp add: approvers_def multisig_ok_def *)
qed

text \<open>Enough distinct signers of the policy have approved, in its order if it has one, and none refused.\<close>

definition quorum :: "multisig \<Rightarrow> proposal \<Rightarrow> multisig_policy \<Rightarrow> bool" where
  "quorum db p mp \<longleftrightarrow>
     (let as = approvers db (pr_id p) in
      1 \<le> mp_threshold mp \<and> mp_threshold mp \<le> int (length as) \<and> distinct as \<and> set as \<subseteq> set (mp_signers mp) \<and>
      (\<not> mp_ordered mp \<or> as = take (length as) (mp_signers mp)) \<and> \<not> was_rejected db (pr_id p))"

lemma decided_quorum:
  assumes "multisig_ok db" "p \<in> set (proposals db)" "pr_status p = Prop_approved \<or> pr_status p = Prop_executed"
  shows "\<exists>mp \<in> set (policies db). mp_id mp = pr_policy p \<and> quorum db p mp"
proof -
  obtain mp where mp: "mp \<in> set (policies db)" "mp_id mp = pr_policy p" "decisions_ok db mp p"
    using assms by (auto simp: multisig_ok_def)
  moreover have "1 \<le> mp_threshold mp" using assms(1) mp by (auto simp: multisig_ok_def)
  ultimately show ?thesis
    using assms(3) approvers_distinct [OF assms(1)] by (auto simp: quorum_def decisions_ok_def)
qed

lemma gate_proposal:
  assumes "require_multisig_approval ok parse_uuid now header contract db = Ok ()"
  obtains p where "p \<in> set (proposals db)" "pr_contract p = contract" "now < pr_expires p"
    "pr_status p = Prop_approved \<or> pr_status p = Prop_executed"
proof -
  obtain pid p where p: "row_get pr_id (proposals db) pid = Some p" "pr_contract p = contract" "now < pr_expires p"
      "pr_status p = Prop_approved \<or> pr_status p = Prop_executed"
    using assms by (auto simp: require_multisig_approval_def not_le split: option.splits if_splits)
  show ?thesis by (rule that [OF _ p(2-4)]) (use row_get_key [OF p(1)] in simp)
qed

text \<open>
  C12. A sensitive update is let through only on a quorum: in every state the handlers reach, an update of a
  contract that passes the gate has an unexpired proposal for that contract which at least
  the threshold of distinct signers of its policy have approved, in the policy's order where it has one,
  and which no signer rejected.
\<close>

theorem gate_needs_quorum:
  assumes "msig_step\<^sup>*\<^sup>* empty_multisig db"
    "require_multisig_approval ok parse_uuid now header contract db = Ok ()"
  shows "\<exists>p mp. p \<in> set (proposals db) \<and> mp \<in> set (policies db) \<and> pr_contract p = contract \<and>
    now < pr_expires p \<and> mp_id mp = pr_policy p \<and> quorum db p mp"
proof -
  obtain p where "p \<in> set (proposals db)" "pr_contract p = contract" "now < pr_expires p"
      "pr_status p = Prop_approved \<or> pr_status p = Prop_executed"
    by (rule gate_proposal [OF assms(2)])
  then show ?thesis using decided_quorum [OF reached_multisig_ok [OF assms(1)]] by blast
qed

section \<open>Who stands behind an approval\<close>

text \<open>The requests by which one caller makes a policy of one signer, proposes under it and signs.\<close>

definition own_policy :: "string \<Rightarrow> policy_request" where
  "own_policy a = \<lparr>qp_name = ''p'', qp_threshold = 1, qp_signers = [a], qp_expiry = None, qp_creator = a, qp_ordered = None\<rparr>"

definition own_proposal :: "string \<Rightarrow> string \<Rightarrow> string \<Rightarrow> uuid \<Rightarrow> proposal_request" where
  "own_proposal a c w mid =
     \<lparr>qr_name = ''n'', qr_contract = c, qr_wasm = w, qr_network = ''testnet'', qr_description = None, qr_policy = mid,
      qr_proposer = a\<rparr>"

definition own_signature :: "string \<Rightarrow> sign_request" where
  "own_signature a = \<lparr>sr_signer = a, sr_data = None, sr_decision = None, sr_comment = None\<rparr>"

definition own_approval :: "(string \<Rightarrow> bool) \<Rightarrow> time \<Rightarrow> uuid \<Rightarrow> uuid \<Rightarrow> string \<Rightarrow> string \<Rightarrow> string \<Rightarrow> multisig \<Rightarrow> multisig" where
  "own_approval no_xss now mid pid a c w db =
     (let ok = (\<lambda>_. True);
          db1 = snd (create_policy no_xss ok mid (own_policy a) db);
          db2 = snd (create_deploy_proposal no_xss ok now pid (own_proposal a c w mid) db1)
      in snd (sign_proposal no_xss ok now pid (own_signature a) db2))"

lemma trim_letter: "trim ''p'' = ''p''" "trim ''n'' = ''n''"
  by code_simp+

lemma own_names:
  "no_xss ''p'' \<Longrightarrow> validate_text no_xss ''p'' 1 MAX_NAME_LENGTH"
  "no_xss ''n'' \<Longrightarrow> validate_text no_xss ''n'' 1 MAX_NAME_LENGTH"
  by (simp_all add: validate_text_def validate_length_def char_count_def MAX_NAME_LENGTH_def)

text \<open>
  One caller is quorum enough: whatever policies exist, whoever names an address of the right shape as the only
  signer of a policy of their own, proposes a deployment for any contract under it and signs it in that
  name, with no signature at all, holds a proposal that the gate accepts for that contract.
\<close>

lemma self_made_quorum:
  assumes "msig_step\<^sup>*\<^sup>* empty_multisig db" "mid \<notin> mp_id ` set (policies db)" "pid \<notin> pr_id ` set (proposals db)"
    and "validate_stellar_address a" "validate_contract_id c" "validate_wasm_hash w" "trim a = a" "trim c = c"
    and "no_xss ''p''" "no_xss ''n''" "parse_uuid h = Some pid" "now < later" "later < now + 86400000000"
  shows "require_multisig_approval (\<lambda>_. True) parse_uuid later (Some h) c (own_approval no_xss now mid pid a c w db) = Ok ()"
proof -
  note ok = reached_multisig_ok [OF assms(1)]
  have ne: "a \<noteq> []" "c \<noteq> []" "trim w \<noteq> []"
    using assms(4-8) by (auto simp: validate_stellar_address_def validate_contract_id_def validate_wasm_hash_def strkey_shape_def)
  have none: "row_get mp_id (policies db) mid = None" "row_get pr_id (proposals db) pid = None"
    using assms(2,3) by (simp_all add: row_get_None)
  have nosig: "ps_proposal s \<noteq> pid" if "s \<in> set (signatures db)" for s
    using ok assms(3) that by (auto simp: multisig_ok_def)
  let ?mp = "\<lparr>mp_id = mid, mp_name = ''p'', mp_threshold = 1, mp_signers = [a], mp_expiry = 86400, mp_ordered = False, mp_creator = a\<rparr>"
  let ?db1 = "db\<lparr>policies := policies db @ [?mp]\<rparr>"
  have s1: "snd (create_policy no_xss (\<lambda>_. True) mid (own_policy a) db) = ?db1"
    using assms ne none by (simp add: create_policy_def own_policy_def valid_policy_request_def own_names trim_letter Let_def unwrap_or_def del: One_nat_def)
  have mp: "row_get mp_id (policies db @ [?mp]) mid = Some ?mp" using none by (simp add: row_get_append)
  let ?p = "proposal_of now pid ?mp (own_proposal a c w mid)"
  have s2: "\<exists>ns as. snd (create_deploy_proposal no_xss (\<lambda>_. True) now pid (own_proposal a c w mid) ?db1) =
      ?db1\<lparr>proposals := proposals db @ [?p], notifications := ns, approval_audit := as\<rparr>"
    using assms ne none mp
    by (simp add: create_deploy_proposal_def own_proposal_def valid_proposal_request_def own_names trim_letter Let_def unwrap_or_def del: One_nat_def) blast
  then obtain ns as where s2: "snd (create_deploy_proposal no_xss (\<lambda>_. True) now pid (own_proposal a c w mid) ?db1) =
      ?db1\<lparr>proposals := proposals db @ [?p], notifications := ns, approval_audit := as\<rparr>"
    by blast
  have p: "row_get pr_id (proposals db @ [?p]) pid = Some ?p" using none by (simp add: row_get_append proposal_of_def)
  let ?db2 = "?db1\<lparr>proposals := proposals db @ [?p], notifications := ns, approval_audit := as\<rparr>"
  have p_fields: "pr_policy ?p = mid" "pr_status ?p = Prop_pending" "pr_expires ?p = now + 86400000000" "pr_id ?p = pid"
      "pr_required ?p = 1" "pr_contract ?p = c"
    using assms(8) by (simp_all add: proposal_of_def own_proposal_def)
  let ?s = "\<lparr>ps_proposal = pid, ps_signer = a, ps_data = None, ps_decision = Approved, ps_comment = None, ps_step = None\<rparr>"
  have "admit_decision (\<lambda>_. True) now pid a ?db2 = Ok (?p, ?mp, None)"
    using nosig by (simp add: admit_decision_def check_turn_def p mp p_fields list_ex_iff)
  then have "snd (sign_proposal no_xss (\<lambda>_. True) now pid (own_signature a) ?db2) =
      snd (settle_decision now (own_signature a) a ?p (?db2\<lparr>signatures := signatures db @ [?s],
        approval_audit := as @ [(pid, Some a, ''signature_approved'')]\<rparr>))"
    using assms(4,7) ne by (simp add: sign_proposal_def own_signature_def valid_sign_request_def
      validate_optional_text_def Let_def unwrap_or_def case_prod_beta)
  then obtain s as' where s3: "snd (sign_proposal no_xss (\<lambda>_. True) now pid (own_signature a) ?db2) =
      snd (settle_decision now (own_signature a) a ?p (?db2\<lparr>signatures := signatures db @ [s], approval_audit := as'\<rparr>))"
      and s: "ps_proposal s = pid" "ps_decision s = Approved"
    by (rule that) simp_all
  let ?db3 = "?db2\<lparr>signatures := signatures db @ [s], approval_audit := as'\<rparr>"
  obtain st db4 where sd: "settle_decision now (own_signature a) a ?p ?db3 = (st, db4)" by fastforce
  have nil: "filter (\<lambda>s. ps_proposal s = pid \<and> ps_decision s = Approved) (signatures db) = []"
    using nosig by (simp add: filter_empty_conv)
  have rows: "signatures db4 = signatures db @ [s]"
    "proposals db4 = update_where (\<lambda>q. pr_id q = pid \<and> pr_status q = Prop_pending) (mark_approved now) (proposals db @ [?p])"
    using settle_decision_rows [OF sd]
    by (simp_all add: own_signature_def unwrap_or_def approvals_def p_fields nil s)
  have own: "own_approval no_xss now mid pid a c w db = db4"
    by (simp only: own_approval_def Let_def s1 s2 s3 sd snd_conv)
  have "row_get pr_id (proposals db4) pid = Some (mark_approved now ?p)"
    unfolding rows using p by (simp add: row_get_update_where p_fields)
  moreover have "approvals db4 pid = 1" using rows by (simp add: approvals_def nil s)
  moreover have "pr_contract (mark_approved now ?p) = c" "pr_expires (mark_approved now ?p) = now + 86400000000"
    using p_fields by (simp_all add: mark_approved_def)
  ultimately show ?thesis
    using assms(11,13) unfolding own by (simp add: require_multisig_approval_def p_fields(5))
qed


section \<open>Decisions are final\<close>

definition same_decision :: "multisig \<Rightarrow> proposal \<Rightarrow> multisig \<Rightarrow> proposal \<Rightarrow> bool" where
  "same_decision db p db' p' \<longleftrightarrow>
     pr_id p' = pr_id p \<and> pr_contract p' = pr_contract p \<and> pr_policy p' = pr_policy p \<and> pr_required p' = pr_required p \<and>
     approvers db' (pr_id p) = approvers db (pr_id p) \<and> was_rejected db' (pr_id p) = was_rejected db (pr_id p) \<and>
     (pr_status p' = pr_status p \<or> pr_status p = Prop_approved \<and> pr_status p' = Prop_executed)"

lemma same_decision_refl: "signatures db' = signatures db \<Longrightarrow> same_decision db p db' p"
  by (simp add: same_decision_def approvers_def was_rejected_def)

lemma same_decision_trans: "same_decision a p b q \<Longrightarrow> same_decision b q c r \<Longrightarrow> same_decision a p c r"
  by (auto simp: same_decision_def)

lemma mark_contract [simp]:
  "pr_contract (mark_rejected now c p) = pr_contract p" "pr_contract (mark_approved now p) = pr_contract p"
  "pr_contract (mark_executed now p) = pr_contract p" "pr_contract (mark_prop_expired p) = pr_contract p"
  by (simp_all add: mark_rejected_def mark_approved_def mark_executed_def mark_prop_expired_def)

text \<open>What a step does to the rows and the decisions of the others: nothing.\<close>

lemma update_where_other: "r \<in> set rows \<Longrightarrow> \<not> P r \<Longrightarrow> r \<in> set (update_where P f rows)"
  by (force simp: set_update_where)

lemma sign_keeps_decided:
  assumes "sign_proposal no_xss ok now pid r db = (res, db')" "multisig_ok db"
    "p \<in> set (proposals db)" "pr_status p \<noteq> Prop_pending"
  shows "p \<in> set (proposals db') \<and> same_decision db p db' p"
  using assms(1)
proof (cases rule: sign_proposal_effect)
  case (expired q)
  have "q = p" if "pr_id p = pid"
    using expired(1) that assms(2,3) row_get_distinct [of pr_id "proposals db" p] by (auto simp: multisig_ok_def)
  then have "pr_id p \<noteq> pid" using expired(2) assms(4) by blast
  then show ?thesis
    using assms(3) by (auto simp: expired(3) row_upd_def intro: update_where_other same_decision_refl)
next
  case (signed q mp step s audit)
  note q = admit_decision_Ok [OF signed(1)]
  have "q = p" if "pr_id p = pid"
    using q that assms(2,3) row_get_distinct [of pr_id "proposals db" p] by (auto simp: multisig_ok_def)
  then have other: "pr_id p \<noteq> pid" using q assms(4) by blast
  have qid: "pr_id q = pid" using q row_get_key [of pr_id "proposals db"] by blast
  obtain st where sd: "settle_decision now r (ps_signer s) q (db\<lparr>signatures := signatures db @ [s], approval_audit := audit\<rparr>) = (st, db')"
    using signed(4) by (metis prod.collapse)
  note rows = settle_decision_rows [OF sd, simplified]
  have "p \<in> set (proposals db')"
    using rows qid other assms(3) by (auto simp: row_upd_def intro: update_where_other)
  moreover have "signatures db' = signatures db @ [s]" using rows by simp
  ultimately show ?thesis
    using other signed(2) by (simp add: same_decision_def approvers_add)
qed (use assms(3) in \<open>simp add: same_decision_refl\<close>)

lemma execute_keeps_decided:
  assumes "execute_proposal ok now pid db = (res, db')" "multisig_ok db" "p \<in> set (proposals db)"
  shows "\<exists>p' \<in> set (proposals db'). same_decision db p db' p'"
proof -
  have sigs: "signatures db' = signatures db"
    using assms(1) by (auto simp: execute_proposal_def split: if_splits option.splits)
  have "p \<in> set (proposals db') \<or> pr_status p = Prop_approved \<and> mark_executed now p \<in> set (proposals db')"
  proof (cases "pr_id p = pid")
    case True
    then have "row_get pr_id (proposals db) pid = Some p"
      using assms(2,3) row_get_distinct [of pr_id "proposals db" p] by (auto simp: multisig_ok_def)
    then show ?thesis
      using assms(1,3) True by (force simp: execute_proposal_def row_upd_def set_update_where split: if_splits)
  next
    case False
    then show ?thesis
      using assms(1,3) by (auto simp: execute_proposal_def row_upd_def intro!: update_where_other split: if_splits option.splits)
  qed
  moreover have "same_decision db p db' (mark_executed now p)" if "pr_status p = Prop_approved"
    using that sigs by (simp add: same_decision_def approvers_def was_rejected_def)
  ultimately show ?thesis using same_decision_refl [OF sigs] by blast
qed

lemma same_rows_decided:
  "set (proposals db) \<subseteq> set (proposals db') \<Longrightarrow> signatures db' = signatures db \<Longrightarrow> p \<in> set (proposals db) \<Longrightarrow>
   \<exists>p' \<in> set (proposals db'). same_decision db p db' p'"
  using same_decision_refl [of db' db p] by blast

lemma msig_step_decided:
  "msig_step db db' \<Longrightarrow> multisig_ok db \<Longrightarrow> p \<in> set (proposals db) \<Longrightarrow> pr_status p \<noteq> Prop_pending \<Longrightarrow>
   \<exists>p' \<in> set (proposals db'). same_decision db p db' p'"
proof (induction rule: msig_step.induct)
  case (step_policy no_xss ok new_id r db res db')
  show ?case
    by (rule same_rows_decided [OF _ _ step_policy(3)])
      (use step_policy(1) in \<open>auto simp: create_policy_def Let_def split: if_splits\<close>)
next
  case (step_proposal no_xss ok now new_id r db res db')
  show ?case
    by (rule same_rows_decided [OF _ _ step_proposal(3)])
      (use step_proposal(1) in \<open>auto simp: create_deploy_proposal_def Let_def split: if_splits option.splits\<close>)
next
  case (step_sign no_xss ok now pid r db res db')
  then show ?case using sign_keeps_decided by blast
next
  case (step_execute ok now pid db res db')
  then show ?case using execute_keeps_decided by blast
next
  case (step_key no_xss ok is_publisher new_id publisher r db res db')
  show ?case
    by (rule same_rows_decided [OF _ _ step_key(3)])
      (use step_key(1) in \<open>auto simp: create_publisher_key_def Let_def split: if_splits\<close>)
next
  case (step_deactivate ok kid db res db')
  show ?case
    by (rule same_rows_decided [OF _ _ step_deactivate(3)])
      (use step_deactivate(1) in \<open>auto simp: deactivate_publisher_key_def split: if_splits option.splits\<close>)
qed

text \<open>
  C34. A decision is final: once a proposal is approved, rejected, expired or executed, whatever requests
  follow, its row stays with the same policy, contract and threshold, nobody's approval or rejection is
  added or removed, and its status changes at most from approved to executed.
\<close>

theorem decided_is_final:
  assumes "msig_step\<^sup>*\<^sup>* empty_multisig db" "msig_step\<^sup>*\<^sup>* db db'" "p \<in> set (proposals db)" "pr_status p \<noteq> Prop_pending"
  shows "\<exists>p' \<in> set (proposals db'). same_decision db p db' p'"
  using assms(2)
proof (induction rule: rtranclp_induct)
  case base
  show ?case using assms(3) same_decision_refl [of db db p] by blast
next
  case (step b c)
  obtain q where q: "q \<in> set (proposals b)" "same_decision db p b q" using step.IH by blast
  have "pr_status q \<noteq> Prop_pending" using q(2) assms(4) by (auto simp: same_decision_def)
  moreover have "multisig_ok b" using msig_steps_ok [OF step.hyps(1) reached_multisig_ok [OF assms(1)]] .
  ultimately show ?case
    using msig_step_decided [OF step.hyps(2) _ q(1)] same_decision_trans [OF q(2)] by blast
qed

section \<open>Witnesses\<close>

text \<open>One signer, one proposal, one approval: the calls of \<open>own_approval\<close> as three steps.\<close>

abbreviation addr_a :: string where "addr_a \<equiv> CHR ''G'' # replicate 55 CHR ''A''"
abbreviation contract_c :: string where "contract_c \<equiv> CHR ''C'' # replicate 55 CHR ''A''"
abbreviation wasm_w :: string where "wasm_w \<equiv> replicate 64 CHR ''0''"

definition approved_db :: multisig where
  "approved_db = own_approval (\<lambda>_. True) 0 1 2 addr_a contract_c wasm_w empty_multisig"

lemma addr_ok:
  "validate_stellar_address addr_a" "validate_contract_id contract_c" "validate_wasm_hash wasm_w"
  "trim addr_a = addr_a" "trim contract_c = contract_c"
  by code_simp+

lemma own_approval_steps: "msig_step\<^sup>*\<^sup>* db (own_approval no_xss now mid pid a c w db)"
proof -
  have "msig_step db (snd (create_policy no_xss (\<lambda>_. True) mid (own_policy a) db))" for db
    by (rule step_policy) (rule prod.collapse [symmetric])
  moreover have "msig_step db (snd (create_deploy_proposal no_xss (\<lambda>_. True) now pid (own_proposal a c w mid) db))" for db
    by (rule step_proposal) (rule prod.collapse [symmetric])
  moreover have "msig_step db (snd (sign_proposal no_xss (\<lambda>_. True) now pid (own_signature a) db))" for db
    by (rule step_sign) (rule prod.collapse [symmetric])
  ultimately show ?thesis
    unfolding own_approval_def Let_def by (meson rtranclp.rtrancl_into_rtrancl rtranclp.rtrancl_refl)
qed

definition executed_db :: multisig where
  "executed_db = snd (execute_proposal (\<lambda>_. True) 1 2 approved_db)"

lemma executed_step: "msig_step\<^sup>*\<^sup>* approved_db executed_db"
  unfolding executed_db_def by (rule r_into_rtranclp, rule step_execute, rule prod.collapse [symmetric])

lemma approved_db_steps: "msig_step\<^sup>*\<^sup>* empty_multisig approved_db"
  unfolding approved_db_def by (rule own_approval_steps)

lemma approved_gate:
  "require_multisig_approval (\<lambda>_. True) (\<lambda>_. Some 2) 1 (Some ''2'') contract_c approved_db = Ok ()"
  by code_simp

theorem gate_needs_quorum_witness:
  "\<exists>p mp. p \<in> set (proposals approved_db) \<and> mp \<in> set (policies approved_db) \<and> pr_contract p = contract_c \<and>
    1 < pr_expires p \<and> mp_id mp = pr_policy p \<and> quorum approved_db p mp"
  by (rule gate_needs_quorum [OF approved_db_steps approved_gate])

lemma approved_row: "map pr_status (proposals approved_db) = [Prop_approved]"
  by code_simp

theorem decided_is_final_witness:
  "\<exists>p' \<in> set (proposals executed_db). same_decision approved_db (hd (proposals approved_db)) executed_db p'"
  by (rule decided_is_final [OF approved_db_steps executed_step]) (use approved_row in \<open>auto simp: map_eq_Cons_conv\<close>)

end
