(* ===== verification/Ownership_Transfer.thy ===== *)
theory Ownership_Transfer
  imports Auth
begin

text \<open>
  Transfers of contract ownership: \<open>backend/api/src/ownership_transfer.rs\<close> (payloads, freshness, verification,
  expiry and its sweeper) and their handlers in \<open>handlers.rs\<close>. A handler that writes does so in one transaction that locks the contract and then the
  transfer, so it is one step that a failing statement undoes. \<open>now\<close> is the clock of the process and
  \<open>dbnow\<close> the start of the transaction at the database.
\<close>

section \<open>Rows\<close>

datatype transfer_status = Tr_pending | Tr_confirmed | Tr_completed | Tr_expired | Tr_rejected | Tr_duplicate

definition is_live :: "transfer_status \<Rightarrow> bool" where
  "is_live s \<longleftrightarrow> s = Tr_pending \<or> s = Tr_confirmed"

record publisher_row =
  pb_id :: uuid
  pb_address :: string

record owned_contract =
  oc_id :: uuid
  oc_address :: string
  oc_owner :: uuid

record transfer =
  tr_id :: uuid
  tr_contract :: uuid
  tr_from :: uuid
  tr_to :: uuid
  tr_from_confirmation :: bool
  tr_to_confirmation :: bool
  tr_status :: transfer_status
  tr_expires :: time
  tr_created :: time
  tr_confirmed_at :: "time option"
  tr_completed_at :: "time option"
  tr_created_by :: uuid
  tr_algorithm :: string
  tr_request_nonce :: "string option"
  tr_from_signature :: "string option"
  tr_from_signer :: "string option"
  tr_from_signed_at :: "time option"
  tr_from_payload :: "string option"
  tr_decision_nonce :: "string option"
  tr_decision_signature :: "string option"
  tr_decision_signer :: "string option"
  tr_decision_signed_at :: "time option"
  tr_decision_payload :: "string option"
  tr_decision_by :: "uuid option"

text \<open>The log of a transfer and the audit log keep who acted and the action; the system acts as nobody.\<close>

record transfer_log =
  tl_transfer :: uuid
  tl_actor :: "uuid option"
  tl_action :: string

record ownership =
  publishers :: "publisher_row list"
  contracts :: "owned_contract list"
  transfers :: "transfer list"
  transfer_logs :: "transfer_log list"
  contract_audit :: "(uuid \<times> uuid \<times> string) list"
  announced :: "(uuid \<times> uuid) list"

datatype transfer_stmt =
    Begin_tx | Lock_contract | Select_publisher | Select_live | Insert_transfer | Insert_audit_row | Insert_log
  | Commit_tx | Select_transfer | Lock_transfer | Update_transfer | Update_contract | Insert_publisher

text \<open>
  Third-party code: Stellar addresses, base64, ed25519, the printed form of a UUID, the range of timestamps, the
  upper-case conversion. The environment has two settings.
\<close>

record transfer_lib =
  strkey_bytes :: "string \<Rightarrow> string option"
  unbase64 :: "string \<Rightarrow> string option"
  ed25519_key :: "string \<Rightarrow> bool"
  ed25519_signature :: "string \<Rightarrow> bool"
  ed25519_strict :: "string \<Rightarrow> string \<Rightarrow> string \<Rightarrow> bool"
  uuid_text :: "uuid \<Rightarrow> string"
  parse_uuid :: "string \<Rightarrow> uuid option"
  unix_ok :: "int \<Rightarrow> bool"
  to_upper :: "string \<Rightarrow> string"

record transfer_env =
  env_max_age :: "string option"
  env_min_expiry :: "string option"

section \<open>What is signed\<close>

datatype transfer_decision = Accept | Reject

definition decision_str :: "transfer_decision \<Rightarrow> string" where
  "decision_str d = (case d of Accept \<Rightarrow> ''accept'' | Reject \<Rightarrow> ''reject'')"

definition from_accept_flag :: "bool \<Rightarrow> transfer_decision" where
  "from_accept_flag accept = (if accept then Accept else Reject)"

definition PAYLOAD_DOMAIN :: string where "PAYLOAD_DOMAIN = ''soroban-registry:ownership-transfer''"
definition PAYLOAD_VERSION :: string where "PAYLOAD_VERSION = ''v1''"

definition initiate_payload :: "transfer_lib \<Rightarrow> uuid \<Rightarrow> string \<Rightarrow> string \<Rightarrow> int \<Rightarrow> string \<Rightarrow> int \<Rightarrow> string" where
  "initiate_payload lib contract from_address to_address expires nonce signed_at =
     PAYLOAD_DOMAIN @ '':'' @ PAYLOAD_VERSION @ '':initiate:'' @ uuid_text lib contract @ '':'' @ from_address @ '':'' @
     to_address @ '':'' @ show_i64 expires @ '':'' @ nonce @ '':'' @ show_i64 signed_at"

definition decision_payload ::
  "transfer_lib \<Rightarrow> transfer_decision \<Rightarrow> uuid \<Rightarrow> uuid \<Rightarrow> string \<Rightarrow> string \<Rightarrow> string \<Rightarrow> string \<Rightarrow> int \<Rightarrow> string" where
  "decision_payload lib d transfer contract from_address to_address request_nonce nonce signed_at =
     PAYLOAD_DOMAIN @ '':'' @ PAYLOAD_VERSION @ '':'' @ decision_str d @ '':'' @ uuid_text lib transfer @ '':'' @
     uuid_text lib contract @ '':'' @ from_address @ '':'' @ to_address @ '':'' @ request_nonce @ '':'' @ nonce @ '':'' @
     show_i64 signed_at"

section \<open>Checks of a signature\<close>

definition positive_setting :: "string option \<Rightarrow> int \<Rightarrow> int" where
  "positive_setting v d =
     (case v of None \<Rightarrow> d
      | Some s \<Rightarrow> (case parse_i64 s of None \<Rightarrow> d | Some n \<Rightarrow> if 0 < n then n else d))"

definition min_expiry_window_secs :: "transfer_env \<Rightarrow> int" where
  "min_expiry_window_secs env = positive_setting (env_min_expiry env) 60"

definition freshness_window_secs :: "transfer_env \<Rightarrow> int" where
  "freshness_window_secs env = positive_setting (env_max_age env) 300"

definition MAX_EXPIRY_WINDOW_SECS :: int where "MAX_EXPIRY_WINDOW_SECS = 90 * 24 * 60 * 60"

definition i64_saturating_sub :: "int \<Rightarrow> int \<Rightarrow> int" where
  "i64_saturating_sub a b = clamp (a - b) (- (2 ^ 63)) (2 ^ 63 - 1)"

definition check_signature_freshness :: "transfer_env \<Rightarrow> int \<Rightarrow> int \<Rightarrow> api_error + unit" where
  "check_signature_freshness env signed_at now =
     (let window = freshness_window_secs env; skew = i64_saturating_sub now signed_at in
      if window < skew then Err (Api_error 422 ''SignatureExpired'')
      else if skew < - window then Err (Api_error 422 ''SignatureNotYetValid'')
      else Ok ())"

datatype sig_error = InvalidKey | InvalidSignature | VerificationFailed

definition verify_ed25519 :: "transfer_lib \<Rightarrow> string \<Rightarrow> string \<Rightarrow> string \<Rightarrow> sig_error + unit" where
  "verify_ed25519 lib key message signature =
     (if length key \<noteq> 32 \<or> \<not> ed25519_key lib key then Err InvalidKey
      else if \<not> ed25519_signature lib signature then Err InvalidSignature
      else if \<not> ed25519_strict lib key message signature then Err VerificationFailed
      else Ok ())"

definition verify_transfer_signature :: "transfer_lib \<Rightarrow> string \<Rightarrow> string \<Rightarrow> string \<Rightarrow> api_error + unit" where
  "verify_transfer_signature lib signer payload signature_b64 =
     (case strkey_bytes lib signer of
        None \<Rightarrow> Err (Api_error 500 ''INTERNAL_ERROR'')
      | Some key \<Rightarrow>
      case unbase64 lib (trim signature_b64) of
        None \<Rightarrow> Err (Api_error 400 ''InvalidSignatureEncoding'')
      | Some sig \<Rightarrow>
          if length sig \<noteq> 64 then Err (Api_error 400 ''InvalidSignatureLength'')
          else case verify_ed25519 lib key payload sig of
            Inr _ \<Rightarrow> Ok ()
          | Inl InvalidKey \<Rightarrow> Err (Api_error 500 ''INTERNAL_ERROR'')
          | Inl InvalidSignature \<Rightarrow> Err (Api_error 400 ''InvalidSignature'')
          | Inl VerificationFailed \<Rightarrow> Err (Api_error 422 ''SignatureVerificationFailed''))"

definition resolve_algorithm :: "string option \<Rightarrow> api_error + string" where
  "resolve_algorithm requested =
     (case requested of
        None \<Rightarrow> Ok ''ed25519''
      | Some v \<Rightarrow>
          if trim v = [] \<or> ascii_lower (trim v) = ''ed25519'' then Ok ''ed25519''
          else Err (Api_error 400 ''UnsupportedSignatureAlgorithm''))"

section \<open>Requests\<close>

record create_request =
  ct_to :: string
  ct_expires :: int
  ct_nonce :: string
  ct_signed_at :: int
  ct_signature :: string
  ct_algorithm :: "string option"

record confirm_request =
  cf_accept :: bool
  cf_nonce :: string
  cf_signed_at :: int
  cf_signature :: string
  cf_algorithm :: "string option"

definition trim_optional :: "string option \<Rightarrow> string option" where
  "trim_optional v = (case v of None \<Rightarrow> None | Some s \<Rightarrow> if trim s = [] then None else Some (trim s))"

definition sanitize_create :: "transfer_lib \<Rightarrow> create_request \<Rightarrow> create_request" where
  "sanitize_create lib r =
     r\<lparr>ct_to := to_upper lib (trim (ct_to r)), ct_nonce := trim (ct_nonce r), ct_signature := trim (ct_signature r),
       ct_algorithm := trim_optional (ct_algorithm r)\<rparr>"

definition sanitize_confirm :: "confirm_request \<Rightarrow> confirm_request" where
  "sanitize_confirm r =
     r\<lparr>cf_nonce := trim (cf_nonce r), cf_signature := trim (cf_signature r), cf_algorithm := trim_optional (cf_algorithm r)\<rparr>"

definition nonce_char :: "char \<Rightarrow> bool" where
  "nonce_char c \<longleftrightarrow> ascii_alnum c \<or> c = CHR ''-'' \<or> c = CHR ''_''"

definition validate_transfer_nonce :: "string \<Rightarrow> bool" where
  "validate_transfer_nonce s \<longleftrightarrow> validate_length s 16 128 \<and> list_all nonce_char s"

definition validate_create :: "transfer_lib \<Rightarrow> create_request \<Rightarrow> bool" where
  "validate_create lib r \<longleftrightarrow>
     validate_stellar_address (ct_to r) \<and> validate_transfer_nonce (ct_nonce r) \<and>
     validate_unix_timestamp (ct_expires r) \<and> validate_unix_timestamp (ct_signed_at r) \<and>
     validate_base64_size (unbase64 lib) (ct_signature r) 64 \<and>
     validate_one_of_optional (ct_algorithm r) [''ed25519'']"

definition validate_confirm :: "transfer_lib \<Rightarrow> confirm_request \<Rightarrow> bool" where
  "validate_confirm lib r \<longleftrightarrow>
     validate_transfer_nonce (cf_nonce r) \<and> validate_unix_timestamp (cf_signed_at r) \<and>
     validate_base64_size (unbase64 lib) (cf_signature r) 64 \<and>
     validate_one_of_optional (cf_algorithm r) [''ed25519'']"

section \<open>Opening a transfer\<close>

definition has_live :: "uuid \<Rightarrow> transfer list \<Rightarrow> bool" where
  "has_live contract ts \<longleftrightarrow> list_ex (\<lambda>t. tr_contract t = contract \<and> is_live (tr_status t)) ts"

definition pending_transfer ::
  "uuid \<Rightarrow> uuid \<Rightarrow> time \<Rightarrow> uuid \<Rightarrow> uuid \<Rightarrow> string \<Rightarrow> string \<Rightarrow> string \<Rightarrow> create_request \<Rightarrow> transfer" where
  "pending_transfer new_id contract dbnow actor recipient signer algorithm payload r =
     \<lparr>tr_id = new_id, tr_contract = contract, tr_from = actor, tr_to = recipient, tr_from_confirmation = True,
      tr_to_confirmation = False, tr_status = Tr_pending, tr_expires = ct_expires r * 1000000, tr_created = dbnow,
      tr_confirmed_at = None, tr_completed_at = None, tr_created_by = actor, tr_algorithm = algorithm,
      tr_request_nonce = Some (ct_nonce r), tr_from_signature = Some (ct_signature r), tr_from_signer = Some signer,
      tr_from_signed_at = Some (ct_signed_at r * 1000000), tr_from_payload = Some payload, tr_decision_nonce = None,
      tr_decision_signature = None, tr_decision_signer = None, tr_decision_signed_at = None, tr_decision_payload = None,
      tr_decision_by = None\<rparr>"

text \<open>
  The request of the current owner, checked up to the insertion: the row to insert. \<open>r\<close> is sanitised and
  valid, \<open>actor\<close> the identity of the token.
\<close>

definition offer_row ::
  "transfer_lib \<Rightarrow> transfer_env \<Rightarrow> (transfer_stmt \<Rightarrow> bool) \<Rightarrow> time \<Rightarrow> time \<Rightarrow> uuid \<Rightarrow> policy_actor \<Rightarrow> string \<Rightarrow>
   create_request \<Rightarrow> ownership \<Rightarrow> api_error + transfer" where
  "offer_row lib env ok now dbnow new_id actor path r db =
     and_then (ok_or (Api_error 400 ''InvalidContractId'') (parse_uuid lib path)) (\<lambda>contract_id.
     and_then (resolve_algorithm (ct_algorithm r)) (\<lambda>algorithm.
     and_then (check_signature_freshness env (ct_signed_at r) (now div 1000000)) (\<lambda>_.
     and_then (unless (\<not> unix_ok lib (ct_expires r)) (Api_error 400 ''InvalidExpiry'')) (\<lambda>_.
     let ttl = ct_expires r - now div 1000000 in
     and_then (unless (ttl < min_expiry_window_secs env) (Api_error 400 ''InvalidExpiry'')) (\<lambda>_.
     and_then (unless (MAX_EXPIRY_WINDOW_SECS < ttl) (Api_error 400 ''InvalidExpiry'')) (\<lambda>_.
     and_then (unless (\<not> ok Begin_tx \<or> \<not> ok Lock_contract) database_error) (\<lambda>_.
     and_then (ok_or (Api_error 404 ''ContractNotFound'') (row_get oc_id (contracts db) contract_id)) (\<lambda>contract.
     and_then (require_contract_owner actor (oc_owner contract)) (\<lambda>_.
     and_then (actor_publisher actor) (\<lambda>actor_id.
     and_then (unless (\<not> ok Select_publisher) database_error) (\<lambda>_.
     and_then (ok_or (Api_error 404 ''PublisherNotFound'') (row_get pb_address (publishers db) (ct_to r))) (\<lambda>recipient.
     and_then (unless (pb_id recipient = actor_id) (Api_error 400 ''SelfTransfer'')) (\<lambda>_.
     and_then (unless (\<not> ok Select_live) database_error) (\<lambda>_.
     and_then (unless (has_live contract_id (transfers db)) (Api_error 409 ''DuplicateTransfer'')) (\<lambda>_.
     let payload = initiate_payload lib contract_id (pa_address actor) (pb_address recipient) (ct_expires r)
           (ct_nonce r) (ct_signed_at r) in
     and_then (verify_transfer_signature lib (pa_address actor) payload (ct_signature r)) (\<lambda>_.
     and_then (unless (\<not> unix_ok lib (ct_signed_at r)) (Api_error 400 ''InvalidSignedAt'')) (\<lambda>_.
     Ok (pending_transfer new_id contract_id dbnow actor_id (pb_id recipient) (pa_address actor) algorithm payload r))))))))))))))))))"

text \<open>
  The insertion against the constraints of the table: an expiry after the creation, a new key, a request nonce
  used once, one live transfer of a contract.
\<close>

definition insert_transfer :: "(transfer_stmt \<Rightarrow> bool) \<Rightarrow> transfer \<Rightarrow> transfer list \<Rightarrow> api_error + transfer list" where
  "insert_transfer ok t ts =
     (if \<not> ok Insert_transfer \<or> tr_from t = tr_to t \<or> tr_expires t \<le> tr_created t then Err database_error
      else if row_get tr_id ts (tr_id t) \<noteq> None then Err (Api_error 409 ''TransferConflict'')
      else if list_ex (\<lambda>u. tr_request_nonce u = tr_request_nonce t) ts then Err (Api_error 409 ''NonceAlreadyUsed'')
      else if has_live (tr_contract t) ts then Err (Api_error 409 ''DuplicateTransfer'')
      else Ok (ts @ [t]))"

definition create_ownership_transfer ::
  "transfer_lib \<Rightarrow> transfer_env \<Rightarrow> (transfer_stmt \<Rightarrow> bool) \<Rightarrow> time \<Rightarrow> time \<Rightarrow> uuid \<Rightarrow> policy_actor \<Rightarrow> string \<Rightarrow>
   create_request \<Rightarrow> ownership \<Rightarrow> (api_error + transfer) \<times> ownership" where
  "create_ownership_transfer lib env ok now dbnow new_id actor path request db =
     (let r = sanitize_create lib request in
      if \<not> validate_create lib r then (Err validation_error, db)
      else case offer_row lib env ok now dbnow new_id actor path r db of
        Inl e \<Rightarrow> (Err e, db)
      | Inr t \<Rightarrow>
      case insert_transfer ok t (transfers db) of
        Inl e \<Rightarrow> (Err e, db)
      | Inr ts \<Rightarrow>
          if \<not> ok Insert_audit_row \<or> \<not> ok Insert_log \<or> \<not> ok Commit_tx then (Err database_error, db)
          else (Ok t,
                db\<lparr>transfers := ts,
                   contract_audit := contract_audit db @ [(tr_contract t, tr_from t, ''transfer_request_created'')],
                   transfer_logs := transfer_logs db @
                     [\<lparr>tl_transfer = tr_id t, tl_actor = Some (tr_from t), tl_action = ''transfer_request_created''\<rparr>]\<rparr>))"

section \<open>Expiry\<close>

definition mark_expired :: "time \<Rightarrow> transfer \<Rightarrow> transfer" where
  "mark_expired dbnow t = t\<lparr>tr_status := Tr_expired, tr_completed_at := Some dbnow\<rparr>"

definition past_due :: "time \<Rightarrow> transfer \<Rightarrow> bool" where
  "past_due dbnow t \<longleftrightarrow> is_live (tr_status t) \<and> tr_expires t \<le> dbnow"

definition expiry_log :: "uuid \<Rightarrow> transfer_log" where
  "expiry_log i = \<lparr>tl_transfer = i, tl_actor = None, tl_action = ''transfer_expired''\<rparr>"

text \<open>The update of the rows in \<open>ids\<close> and one line of history for each, in one transaction.\<close>

definition expire_ids :: "time \<Rightarrow> uuid list \<Rightarrow> ownership \<Rightarrow> ownership" where
  "expire_ids dbnow ids db =
     db\<lparr>transfers := update_where (\<lambda>t. tr_id t \<in> set ids) (mark_expired dbnow) (transfers db),
        transfer_logs := transfer_logs db @ map expiry_log ids\<rparr>"

definition expire_transfer_if_due :: "(transfer_stmt \<Rightarrow> bool) \<Rightarrow> time \<Rightarrow> uuid \<Rightarrow> ownership \<Rightarrow> (api_error + bool) \<times> ownership" where
  "expire_transfer_if_due ok dbnow i db =
     (let ids = map tr_id (filter (\<lambda>t. tr_id t = i \<and> past_due dbnow t) (transfers db)) in
      if \<not> ok Begin_tx \<or> \<not> ok Update_transfer then (Err database_error, db)
      else if ids = [] then (Ok False, db)
      else if \<not> ok Insert_log \<or> \<not> ok Commit_tx then (Err database_error, db)
      else (Ok True, expire_ids dbnow ids db))"

definition expire_due_transfers_for_contract ::
  "(transfer_stmt \<Rightarrow> bool) \<Rightarrow> time \<Rightarrow> uuid \<Rightarrow> ownership \<Rightarrow> (api_error + nat) \<times> ownership" where
  "expire_due_transfers_for_contract ok dbnow contract db =
     (let ids = map tr_id (filter (\<lambda>t. tr_contract t = contract \<and> past_due dbnow t) (transfers db)) in
      if \<not> ok Begin_tx \<or> \<not> ok Update_transfer then (Err database_error, db)
      else if ids = [] then (Ok 0, db)
      else if \<not> ok Insert_log \<or> \<not> ok Commit_tx then (Err database_error, db)
      else (Ok (length ids), expire_ids dbnow ids db))"

text \<open>
  The sweeper: batches of at most 100 rows that nobody has locked, oldest expiry first, until a short one.
  Each batch is a transaction of its own, with its clock, its locks and its failures.
\<close>

definition EXPIRY_BATCH_SIZE :: nat where "EXPIRY_BATCH_SIZE = 100"

definition claim_due :: "(uuid \<Rightarrow> bool) \<Rightarrow> time \<Rightarrow> transfer list \<Rightarrow> uuid list" where
  "claim_due locked dbnow ts =
     map tr_id (take EXPIRY_BATCH_SIZE (sort_key tr_expires (filter (\<lambda>t. past_due dbnow t \<and> \<not> locked (tr_id t)) ts)))"

definition live_count :: "ownership \<Rightarrow> nat" where
  "live_count db = length (filter (\<lambda>t. is_live (tr_status t)) (transfers db))"

lemma length_filter_update_less:
  assumes "\<And>t. t \<in> set ts \<Longrightarrow> P t \<Longrightarrow> \<not> Q (f t)" "\<exists>t \<in> set ts. P t \<and> Q t"
  shows "length (filter Q (update_where P f ts)) < length (filter Q ts)"
proof -
  have le: "length (filter Q (update_where P f us)) \<le> length (filter Q us)" if "\<And>t. t \<in> set us \<Longrightarrow> P t \<Longrightarrow> \<not> Q (f t)" for us
    using that by (induction us) (auto simp: update_where_def le_SucI)
  from assms show ?thesis
  proof (induction ts)
    case (Cons t ts)
    have "length (filter Q (update_where P f ts)) \<le> length (filter Q ts)" by (rule le) (use Cons.prems in auto)
    then show ?case
      using Cons by (cases "P t \<and> Q t") (auto simp: update_where_def less_Suc_eq_le)
  qed simp
qed

lemma claim_due_live: "i \<in> set (claim_due locked dbnow ts) \<Longrightarrow> \<exists>t \<in> set ts. tr_id t = i \<and> past_due dbnow t \<and> \<not> locked i"
  by (auto simp: claim_due_def dest!: in_set_takeD)

lemma expire_ids_fewer:
  assumes "i \<in> set ids" "\<exists>t \<in> set (transfers db). tr_id t = i \<and> is_live (tr_status t)"
  shows "live_count (expire_ids dbnow ids db) < live_count db"
  unfolding live_count_def expire_ids_def
  by simp (rule length_filter_update_less; use assms in \<open>auto simp: mark_expired_def is_live_def\<close>)

function expire_due_transfers ::
  "(nat \<Rightarrow> transfer_stmt \<Rightarrow> bool) \<Rightarrow> (nat \<Rightarrow> time) \<Rightarrow> (nat \<Rightarrow> uuid \<Rightarrow> bool) \<Rightarrow> nat \<Rightarrow> nat \<Rightarrow> ownership \<Rightarrow>
   (api_error + nat) \<times> ownership" where
  "expire_due_transfers ok clock locked pass swept db =
     (let ids = claim_due (locked pass) (clock pass) (transfers db) in
      if \<not> ok pass Begin_tx \<or> \<not> ok pass Update_transfer then (Err database_error, db)
      else if ids = [] then (Ok swept, db)
      else if \<not> ok pass Insert_log \<or> \<not> ok pass Commit_tx then (Err database_error, db)
      else
        let db' = expire_ids (clock pass) ids db
        in if length ids < EXPIRY_BATCH_SIZE then (Ok (swept + length ids), db')
           else expire_due_transfers ok clock locked (Suc pass) (swept + length ids) db')"
  by pat_completeness auto
termination
proof (relation "measure (\<lambda>(ok, clock, locked, pass, swept, db). live_count db)")
  fix ok :: "nat \<Rightarrow> transfer_stmt \<Rightarrow> bool" and clock :: "nat \<Rightarrow> time" and locked :: "nat \<Rightarrow> uuid \<Rightarrow> bool"
    and pass swept :: nat and db db' :: ownership and ids
  assume "ids = claim_due (locked pass) (clock pass) (transfers db)" "ids \<noteq> []" "db' = expire_ids (clock pass) ids db"
  moreover from this obtain i where "i \<in> set ids" using hd_in_set by blast
  ultimately show "((ok, clock, locked, Suc pass, swept + length ids, db'), ok, clock, locked, pass, swept, db)
      \<in> measure (\<lambda>(ok, clock, locked, pass, swept, db). live_count db)"
    using claim_due_live [of i "locked pass" "clock pass" "transfers db"]
    by (auto simp: past_due_def intro!: expire_ids_fewer)
qed simp

declare expire_due_transfers.simps [simp del]

section \<open>Deciding a transfer\<close>

text \<open>
  What a decision finds under the locks: its algorithm, the transfer, the contract it is of, and who acts. The
  contract is found by a first, unlocked read of the transfer, whose contract never changes.
\<close>

definition locate_transfer ::
  "transfer_lib \<Rightarrow> transfer_env \<Rightarrow> (transfer_stmt \<Rightarrow> bool) \<Rightarrow> time \<Rightarrow> policy_actor \<Rightarrow> string \<Rightarrow> confirm_request \<Rightarrow>
   ownership \<Rightarrow> api_error + string \<times> transfer \<times> owned_contract \<times> uuid" where
  "locate_transfer lib env ok now actor path r db =
     and_then (ok_or (Api_error 400 ''InvalidTransferId'') (parse_uuid lib path)) (\<lambda>transfer_id.
     and_then (resolve_algorithm (cf_algorithm r)) (\<lambda>algorithm.
     and_then (check_signature_freshness env (cf_signed_at r) (now div 1000000)) (\<lambda>_.
     and_then (unless (\<not> unix_ok lib (cf_signed_at r)) (Api_error 400 ''InvalidSignedAt'')) (\<lambda>_.
     and_then (unless (\<not> ok Select_transfer) database_error) (\<lambda>_.
     and_then (ok_or (Api_error 404 ''TransferNotFound'') (row_get tr_id (transfers db) transfer_id)) (\<lambda>t.
     and_then (unless (\<not> ok Begin_tx \<or> \<not> ok Lock_contract) database_error) (\<lambda>_.
     and_then (ok_or (Api_error 404 ''ContractNotFound'') (row_get oc_id (contracts db) (tr_contract t))) (\<lambda>contract.
     and_then (unless (\<not> ok Lock_transfer) database_error) (\<lambda>_.
     and_then (require_transfer_action actor (tr_from t) (tr_to t) (cf_accept r)) (\<lambda>_.
     and_then (actor_publisher actor) (\<lambda>actor_id.
     Ok (algorithm, t, contract, actor_id))))))))))))"

text \<open>The decision on a live transfer, checked up to the update: the payload that was signed.\<close>

definition decision_checks ::
  "transfer_lib \<Rightarrow> (transfer_stmt \<Rightarrow> bool) \<Rightarrow> policy_actor \<Rightarrow> confirm_request \<Rightarrow> transfer \<Rightarrow> ownership \<Rightarrow> api_error + string" where
  "decision_checks lib ok actor r t db =
     and_then (unless (tr_status t \<noteq> Tr_pending) (Api_error 409 ''TransferNotPending'')) (\<lambda>_.
     and_then (ok_or (Api_error 409 ''UnsignedTransfer'') (tr_request_nonce t)) (\<lambda>request_nonce.
     and_then (unless (\<not> ok Select_publisher) database_error) (\<lambda>_.
     and_then (ok_or (Api_error 500 ''INTERNAL_ERROR'') (row_get pb_id (publishers db) (tr_from t))) (\<lambda>sender.
     and_then (ok_or (Api_error 500 ''INTERNAL_ERROR'') (row_get pb_id (publishers db) (tr_to t))) (\<lambda>recipient.
     let payload = decision_payload lib (from_accept_flag (cf_accept r)) (tr_id t) (tr_contract t) (pb_address sender)
           (pb_address recipient) request_nonce (cf_nonce r) (cf_signed_at r) in
     and_then (verify_transfer_signature lib (pa_address actor) payload (cf_signature r)) (\<lambda>_.
     Ok payload))))))"

text \<open>The columns a decision writes.\<close>

definition record_decision ::
  "confirm_request \<Rightarrow> policy_actor \<Rightarrow> uuid \<Rightarrow> string \<Rightarrow> string \<Rightarrow> transfer \<Rightarrow> transfer" where
  "record_decision r actor actor_id algorithm payload t =
     t\<lparr>tr_algorithm := algorithm, tr_decision_nonce := Some (cf_nonce r), tr_decision_signature := Some (cf_signature r),
       tr_decision_signer := Some (pa_address actor), tr_decision_signed_at := Some (cf_signed_at r * 1000000),
       tr_decision_payload := Some payload, tr_decision_by := Some actor_id\<rparr>"

definition mark_completed :: "time \<Rightarrow> transfer \<Rightarrow> transfer" where
  "mark_completed dbnow t =
     t\<lparr>tr_status := Tr_completed, tr_to_confirmation := True, tr_confirmed_at := Some dbnow, tr_completed_at := Some dbnow\<rparr>"

definition mark_refused :: "time \<Rightarrow> transfer \<Rightarrow> transfer" where
  "mark_refused dbnow t = t\<lparr>tr_status := Tr_rejected, tr_completed_at := Some dbnow\<rparr>"

definition nonce_used :: "uuid \<Rightarrow> string \<Rightarrow> transfer list \<Rightarrow> bool" where
  "nonce_used i nonce ts \<longleftrightarrow> list_ex (\<lambda>t. tr_id t \<noteq> i \<and> tr_decision_nonce t = Some nonce) ts"

definition move_owner :: "uuid \<Rightarrow> owned_contract \<Rightarrow> owned_contract" where
  "move_owner p c = c\<lparr>oc_owner := p\<rparr>"

definition accept_transfer ::
  "(transfer_stmt \<Rightarrow> bool) \<Rightarrow> time \<Rightarrow> policy_actor \<Rightarrow> uuid \<Rightarrow> string \<Rightarrow> string \<Rightarrow> confirm_request \<Rightarrow> transfer \<Rightarrow>
   owned_contract \<Rightarrow> ownership \<Rightarrow> (api_error + transfer) \<times> ownership" where
  "accept_transfer ok dbnow actor actor_id algorithm payload r t contract db =
     (let upd = (\<lambda>u. mark_completed dbnow (record_decision r actor actor_id algorithm payload u)) in
      if \<not> ok Update_transfer then (Err database_error, db)
      else if \<not> (tr_status t = Tr_pending \<and> tr_from_confirmation t \<and> \<not> tr_to_confirmation t \<and> dbnow < tr_expires t)
      then (Err (Api_error 409 ''TransferNoLongerAcceptable''), db)
      else if nonce_used (tr_id t) (cf_nonce r) (transfers db) then (Err (Api_error 409 ''NonceAlreadyUsed''), db)
      else if \<not> ok Update_contract then (Err database_error, db)
      else if oc_owner contract \<noteq> tr_from t then (Err (Api_error 409 ''OwnershipChangedConcurrently''), db)
      else if \<not> ok Insert_audit_row \<or> \<not> ok Insert_log \<or> \<not> ok Commit_tx then (Err database_error, db)
      else (Ok (upd t),
            db\<lparr>transfers := row_upd tr_id (transfers db) (tr_id t) upd,
               contracts := update_where (\<lambda>c. oc_id c = tr_contract t \<and> oc_owner c = tr_from t) (move_owner (tr_to t)) (contracts db),
               contract_audit := contract_audit db @ [(tr_contract t, actor_id, ''transfer_completed'')],
               transfer_logs := transfer_logs db @
                 [\<lparr>tl_transfer = tr_id t, tl_actor = Some actor_id, tl_action = ''transfer_completed''\<rparr>],
               announced := announced db @ [(tr_to t, tr_id t)]\<rparr>))"

definition reject_transfer ::
  "(transfer_stmt \<Rightarrow> bool) \<Rightarrow> time \<Rightarrow> policy_actor \<Rightarrow> uuid \<Rightarrow> string \<Rightarrow> string \<Rightarrow> confirm_request \<Rightarrow> transfer \<Rightarrow>
   ownership \<Rightarrow> (api_error + transfer) \<times> ownership" where
  "reject_transfer ok dbnow actor actor_id algorithm payload r t db =
     (let upd = (\<lambda>u. mark_refused dbnow (record_decision r actor actor_id algorithm payload u)) in
      if \<not> ok Update_transfer then (Err database_error, db)
      else if tr_status t \<noteq> Tr_pending then (Err (Api_error 409 ''TransferNotPending''), db)
      else if nonce_used (tr_id t) (cf_nonce r) (transfers db) then (Err (Api_error 409 ''NonceAlreadyUsed''), db)
      else if \<not> ok Insert_audit_row \<or> \<not> ok Insert_log \<or> \<not> ok Commit_tx then (Err database_error, db)
      else (Ok (upd t),
            db\<lparr>transfers := row_upd tr_id (transfers db) (tr_id t) upd,
               contract_audit := contract_audit db @ [(tr_contract t, actor_id, ''transfer_rejected'')],
               transfer_logs := transfer_logs db @
                 [\<lparr>tl_transfer = tr_id t, tl_actor = Some actor_id, tl_action = ''transfer_rejected''\<rparr>]\<rparr>))"

definition confirm_ownership_transfer ::
  "transfer_lib \<Rightarrow> transfer_env \<Rightarrow> (transfer_stmt \<Rightarrow> bool) \<Rightarrow> time \<Rightarrow> time \<Rightarrow> policy_actor \<Rightarrow> string \<Rightarrow>
   confirm_request \<Rightarrow> ownership \<Rightarrow> (api_error + transfer) \<times> ownership" where
  "confirm_ownership_transfer lib env ok now dbnow actor path request db =
     (let r = sanitize_confirm request in
      if \<not> validate_confirm lib r then (Err validation_error, db)
      else case locate_transfer lib env ok now actor path r db of
        Inl e \<Rightarrow> (Err e, db)
      | Inr (algorithm, t, contract, actor_id) \<Rightarrow>
          if is_live (tr_status t) \<and> tr_expires t \<le> now
          then if \<not> ok Update_transfer \<or> \<not> ok Insert_log \<or> \<not> ok Commit_tx then (Err database_error, db)
               else (Err (Api_error 409 ''TransferExpired''), expire_ids dbnow [tr_id t] db)
          else case decision_checks lib ok actor r t db of
            Inl e \<Rightarrow> (Err e, db)
          | Inr payload \<Rightarrow>
              if cf_accept r then accept_transfer ok dbnow actor actor_id algorithm payload r t contract db
              else reject_transfer ok dbnow actor actor_id algorithm payload r t db)"

section \<open>Reading\<close>

definition get_ownership_transfer ::
  "transfer_lib \<Rightarrow> (transfer_stmt \<Rightarrow> bool) \<Rightarrow> time \<Rightarrow> string \<Rightarrow> ownership \<Rightarrow> (api_error + transfer) \<times> ownership" where
  "get_ownership_transfer lib ok dbnow path db =
     (case parse_uuid lib path of
        None \<Rightarrow> (Err (Api_error 400 ''InvalidTransferId''), db)
      | Some i \<Rightarrow>
      case expire_transfer_if_due ok dbnow i db of
        (Inl e, db') \<Rightarrow> (Err e, db')
      | (Inr _, db') \<Rightarrow>
          if \<not> ok Select_transfer then (Err database_error, db')
          else (ok_or (Api_error 404 ''TransferNotFound'') (row_get tr_id (transfers db') i), db'))"

text \<open>Newest first: the table is in the order of insertion.\<close>

definition list_ownership_transfers ::
  "transfer_lib \<Rightarrow> (transfer_stmt \<Rightarrow> bool) \<Rightarrow> time \<Rightarrow> string \<Rightarrow> ownership \<Rightarrow> (api_error + transfer list) \<times> ownership" where
  "list_ownership_transfers lib ok dbnow path db =
     (case parse_uuid lib path of
        None \<Rightarrow> (Err (Api_error 400 ''InvalidContractId''), db)
      | Some i \<Rightarrow>
          if \<not> ok Lock_contract then (Err database_error, db)
          else if row_get oc_id (contracts db) i = None then (Err (Api_error 404 ''ContractNotFound''), db)
          else case expire_due_transfers_for_contract ok dbnow i db of
            (Inl e, db') \<Rightarrow> (Err e, db')
          | (Inr _, db') \<Rightarrow>
              if \<not> ok Select_transfer then (Err database_error, db')
              else (Ok (rev (filter (\<lambda>t. tr_contract t = i) (transfers db'))), db'))"

definition get_ownership_transfer_logs ::
  "transfer_lib \<Rightarrow> (transfer_stmt \<Rightarrow> bool) \<Rightarrow> time \<Rightarrow> string \<Rightarrow> ownership \<Rightarrow> (api_error + transfer_log list) \<times> ownership" where
  "get_ownership_transfer_logs lib ok dbnow path db =
     (case parse_uuid lib path of
        None \<Rightarrow> (Err (Api_error 400 ''InvalidTransferId''), db)
      | Some i \<Rightarrow>
      case expire_transfer_if_due ok dbnow i db of
        (Inl e, db') \<Rightarrow> (Err e, db')
      | (Inr _, db') \<Rightarrow>
          if \<not> ok Select_transfer then (Err database_error, db')
          else (Ok (filter (\<lambda>l. tl_transfer l = i) (transfer_logs db')), db'))"

end
