(* ===== verification/Transfer_Runs.thy ===== *)
theory Transfer_Runs
  imports Ownership_Transfer
begin

text \<open>
  Runs of the ownership handlers: what the tables keep, who moves a contract, and that the history
  of transfers accounts for it.
\<close>

section \<open>Payloads\<close>

definition colon_join :: "string list \<Rightarrow> string" where
  "colon_join xs = concat (map (\<lambda>x. '':'' @ x) xs)"

lemma split_on_colon_join:
  "CHR '':'' \<notin> set x \<Longrightarrow> \<forall>y \<in> set xs. CHR '':'' \<notin> set y \<Longrightarrow> split_on CHR '':'' (x @ colon_join xs) = x # xs"
proof (induction xs arbitrary: x)
  case Nil
  then show ?case by (simp add: colon_join_def split_on_no_sep)
next
  case (Cons y ys)
  have "x @ colon_join (y # ys) = x @ CHR '':'' # (y @ colon_join ys)" by (simp add: colon_join_def)
  also have "split_on CHR '':'' \<dots> = x # split_on CHR '':'' (y @ colon_join ys)" by (rule split_on_append) (rule Cons.prems)
  also have "\<dots> = x # y # ys" using Cons by simp
  finally show ?case .
qed

text \<open>What a party can sign: an offer, or a decision on one.\<close>

datatype signed_message =
    Offer (offer_contract: uuid) (offer_from: string) (offer_to: string) (offer_expires: int) (offer_nonce: string) (offer_at: int)
  | Decide transfer_decision uuid uuid string string string string int

fun message_text :: "transfer_lib \<Rightarrow> signed_message \<Rightarrow> string" where
  "message_text lib (Offer c f t e n s) = initiate_payload lib c f t e n s"
| "message_text lib (Decide d i c f t rn n s) = decision_payload lib d i c f t rn n s"

text \<open>Addresses and nonces of validated requests hold no separator.\<close>

fun message_ok :: "signed_message \<Rightarrow> bool" where
  "message_ok (Offer c f t e n s) \<longleftrightarrow> CHR '':'' \<notin> set f \<union> set t \<union> set n"
| "message_ok (Decide d i c f t rn n s) \<longleftrightarrow> CHR '':'' \<notin> set f \<union> set t \<union> set rn \<union> set n"

lemma show_i64_no_colon: "CHR '':'' \<notin> set (show_i64 n)"
proof -
  have "CHR '':'' \<notin> set (dec k)" for k by (rule no_char_in_dec) (simp add: is_digit_def)
  then show ?thesis by (simp add: show_i64_def)
qed

lemma dec_inj: "dec m = dec n \<Longrightarrow> m = n"
  by (metis digits_value_dec of_nat_eq_iff)

lemma dec_no_minus: "dec n \<noteq> CHR ''-'' # xs"
proof -
  have "CHR ''-'' \<notin> set (dec n)" by (rule no_char_in_dec) (simp add: is_digit_def)
  then show ?thesis by (metis list.set_intros(1))
qed

lemma show_i64_inj:
  assumes "show_i64 m = show_i64 n"
  shows "m = n"
proof -
  have ne: "dec a \<noteq> CHR ''-'' # dec b" "CHR ''-'' # dec b \<noteq> dec a" for a b
    using dec_no_minus by (blast, metis)
  show ?thesis
  proof (cases "m < 0"; cases "n < 0")
    assume "m < 0" "n < 0"
    then show ?thesis using assms dec_inj [of "nat (- m)" "nat (- n)"] by (simp add: show_i64_def)
  next
    assume "\<not> m < 0" "\<not> n < 0"
    then show ?thesis using assms dec_inj [of "nat m" "nat n"] by (simp add: show_i64_def)
  qed (use assms ne in \<open>simp_all add: show_i64_def\<close>)
qed

text \<open>The documented form of a UUID in text: no two alike, and no separator in it.\<close>

definition uuid_text_ok :: "transfer_lib \<Rightarrow> bool" where
  "uuid_text_ok lib \<longleftrightarrow> inj (uuid_text lib) \<and> (\<forall>u. CHR '':'' \<notin> set (uuid_text lib u))"

fun message_list :: "transfer_lib \<Rightarrow> signed_message \<Rightarrow> string list" where
  "message_list lib (Offer c f t e n s) =
     [''soroban-registry'', ''ownership-transfer'', ''v1'', ''initiate'', uuid_text lib c, f, t, show_i64 e, n, show_i64 s]"
| "message_list lib (Decide d i c f t rn n s) =
     [''soroban-registry'', ''ownership-transfer'', ''v1'', decision_str d, uuid_text lib i, uuid_text lib c, f, t, rn, n, show_i64 s]"

lemma split_message:
  assumes "uuid_text_ok lib" "message_ok m"
  shows "split_on CHR '':'' (message_text lib m) = message_list lib m"
proof -
  have d: "CHR '':'' \<notin> set (decision_str d)" for d by (cases d) (simp_all add: decision_str_def)
  have eq: "message_text lib m = hd (message_list lib m) @ colon_join (tl (message_list lib m))"
    by (cases m) (simp_all add: colon_join_def initiate_payload_def decision_payload_def PAYLOAD_DOMAIN_def PAYLOAD_VERSION_def)
  have "\<forall>x \<in> set (message_list lib m). CHR '':'' \<notin> set x"
    using assms d show_i64_no_colon by (cases m) (simp_all add: uuid_text_ok_def)
  moreover have "message_list lib m \<noteq> []" by (cases m) auto
  ultimately show ?thesis
    unfolding eq using split_on_colon_join [of "hd (message_list lib m)" "tl (message_list lib m)"]
    by (cases "message_list lib m") auto
qed

text \<open>
  C25. A signature is good for one message only: the text that is signed determines the whole message, so an offer is never
  read as a decision, an acceptance never as a rejection, and no two transfers, contracts, parties, expiries, nonces or
  times share a text.
\<close>

theorem payload_determines_message:
  assumes "uuid_text_ok lib" "message_ok m" "message_ok m'" "message_text lib m = message_text lib m'"
  shows "m = m'"
proof -
  have inj: "uuid_text lib a = uuid_text lib b \<longleftrightarrow> a = b" for a b
    using assms(1) by (auto simp: uuid_text_ok_def inj_eq)
  have d: "decision_str d = decision_str d' \<longleftrightarrow> d = d'" "decision_str d \<noteq> ''initiate''" for d d'
    by (cases d; cases d'; simp add: decision_str_def)+
  have "message_list lib m = message_list lib m'"
    using split_message [OF assms(1,2)] split_message [OF assms(1,3)] assms(4) by simp
  then show ?thesis
    using d(2) [symmetric] by (cases m; cases m') (auto simp: inj d dest: show_i64_inj)
qed

text \<open>Validated requests give such messages.\<close>

lemma nonce_no_colon: "validate_transfer_nonce n \<Longrightarrow> CHR '':'' \<notin> set n"
  by (auto simp: validate_transfer_nonce_def list_all_iff nonce_char_def ascii_alnum_def upper_alnum_def)

section \<open>Soundness of the tables\<close>

definition offered_by :: "transfer_lib \<Rightarrow> ownership \<Rightarrow> transfer \<Rightarrow> bool" where
  "offered_by lib db t \<longleftrightarrow>
     (\<exists>sender recipient nonce sig at expires payload.
        row_get pb_id (publishers db) (tr_from t) = Some sender \<and> row_get pb_id (publishers db) (tr_to t) = Some recipient \<and>
        tr_expires t = expires * 1000000 \<and> tr_request_nonce t = Some nonce \<and>
        tr_from_signed_at t = Some (at * 1000000) \<and> tr_from_signer t = Some (pb_address sender) \<and>
        tr_from_signature t = Some sig \<and> tr_from_payload t = Some payload \<and>
        payload = initiate_payload lib (tr_contract t) (pb_address sender) (pb_address recipient) expires nonce at \<and>
        verify_transfer_signature lib (pb_address sender) payload sig = Ok ())"

definition decided_by :: "transfer_lib \<Rightarrow> ownership \<Rightarrow> transfer_decision \<Rightarrow> uuid \<Rightarrow> transfer \<Rightarrow> bool" where
  "decided_by lib db d p t \<longleftrightarrow>
     (\<exists>sender recipient actor request_nonce nonce sig at payload.
        row_get pb_id (publishers db) (tr_from t) = Some sender \<and> row_get pb_id (publishers db) (tr_to t) = Some recipient \<and>
        row_get pb_id (publishers db) p = Some actor \<and> tr_decision_by t = Some p \<and>
        tr_request_nonce t = Some request_nonce \<and> tr_decision_nonce t = Some nonce \<and>
        tr_decision_signed_at t = Some (at * 1000000) \<and> tr_decision_signer t = Some (pb_address actor) \<and>
        tr_decision_signature t = Some sig \<and> tr_decision_payload t = Some payload \<and>
        payload = decision_payload lib d (tr_id t) (tr_contract t) (pb_address sender) (pb_address recipient) request_nonce nonce at \<and>
        verify_transfer_signature lib (pb_address actor) payload sig = Ok ())"

text \<open>What the columns of a transfer say is what was signed, and a completed one was completed in time.\<close>

definition transfer_ok :: "transfer_lib \<Rightarrow> ownership \<Rightarrow> transfer \<Rightarrow> bool" where
  "transfer_ok lib db t \<longleftrightarrow>
     tr_from t \<noteq> tr_to t \<and> offered_by lib db t \<and>
     (case tr_status t of
        Tr_pending \<Rightarrow> tr_from_confirmation t \<and> \<not> tr_to_confirmation t \<and> tr_decision_nonce t = None
      | Tr_completed \<Rightarrow> decided_by lib db Accept (tr_to t) t \<and> (\<exists>at. tr_completed_at t = Some at \<and> at < tr_expires t)
      | Tr_rejected \<Rightarrow> decided_by lib db Reject (tr_from t) t \<or> decided_by lib db Reject (tr_to t) t
      | Tr_expired \<Rightarrow> tr_decision_nonce t = None
      | _ \<Rightarrow> False)"

definition closing_lines :: "ownership \<Rightarrow> uuid \<Rightarrow> transfer_log list" where
  "closing_lines db i = filter (\<lambda>l. tl_transfer l = i \<and> tl_action l \<noteq> ''transfer_request_created'') (transfer_logs db)"

definition opening_lines :: "ownership \<Rightarrow> uuid \<Rightarrow> transfer_log list" where
  "opening_lines db i = filter (\<lambda>l. tl_transfer l = i \<and> tl_action l = ''transfer_request_created'') (transfer_logs db)"

text \<open>The history has one opening line of each transfer and one closing line of each that ended.\<close>

definition history_ok :: "ownership \<Rightarrow> transfer \<Rightarrow> bool" where
  "history_ok db t \<longleftrightarrow>
     length (opening_lines db (tr_id t)) = 1 \<and>
     length (closing_lines db (tr_id t)) = (if is_live (tr_status t) then 0 else 1)"

definition live_of :: "ownership \<Rightarrow> uuid \<Rightarrow> transfer list" where
  "live_of db c = filter (\<lambda>t. tr_contract t = c \<and> is_live (tr_status t)) (transfers db)"

text \<open>No two transfers have the same nonce in a column.\<close>

definition single_use :: "(transfer \<Rightarrow> string option) \<Rightarrow> transfer list \<Rightarrow> bool" where
  "single_use nonce ts \<longleftrightarrow>
     (\<forall>t \<in> set ts. \<forall>u \<in> set ts. nonce t = nonce u \<longrightarrow> nonce t \<noteq> None \<longrightarrow> tr_id t = tr_id u)"

definition ownership_ok :: "transfer_lib \<Rightarrow> ownership \<Rightarrow> bool" where
  "ownership_ok lib db \<longleftrightarrow>
     distinct (map pb_id (publishers db)) \<and> distinct (map oc_id (contracts db)) \<and> distinct (map tr_id (transfers db)) \<and>
     (\<forall>t \<in> set (transfers db). tr_contract t \<in> oc_id ` set (contracts db)) \<and>
     single_use tr_request_nonce (transfers db) \<and> single_use tr_decision_nonce (transfers db) \<and>
     (\<forall>c. length (live_of db c) \<le> 1) \<and>
     (\<forall>l \<in> set (transfer_logs db). tl_transfer l \<in> tr_id ` set (transfers db)) \<and>
     (\<forall>t \<in> set (transfers db). transfer_ok lib db t \<and> history_ok db t)"

section \<open>What a step does\<close>

text \<open>The address of a publisher in the table, as the identity of a token is checked against it.\<close>

definition address_in :: "ownership \<Rightarrow> uuid \<Rightarrow> string option" where
  "address_in db p = map_option pb_address (row_get pb_id (publishers db) p)"

text \<open>
  The elementary changes of the tables: a transfer is opened, some expire, one is settled, and elsewhere in the
  registry a publisher or a contract is added.
\<close>

inductive effect :: "transfer_lib \<Rightarrow> ownership \<Rightarrow> ownership \<Rightarrow> bool" for lib where
  opened: "row_get oc_id (contracts db) (tr_contract t) = Some c \<Longrightarrow> oc_owner c = tr_from t \<Longrightarrow>
    row_get tr_id (transfers db) (tr_id t) = None \<Longrightarrow> tr_request_nonce t \<notin> tr_request_nonce ` set (transfers db) \<Longrightarrow>
    \<not> has_live (tr_contract t) (transfers db) \<Longrightarrow> tr_status t = Tr_pending \<Longrightarrow> transfer_ok lib db t \<Longrightarrow>
    tl_transfer l = tr_id t \<Longrightarrow> tl_action l = ''transfer_request_created'' \<Longrightarrow>
    publishers db' = publishers db \<Longrightarrow> contracts db' = contracts db \<Longrightarrow> transfers db' = transfers db @ [t] \<Longrightarrow>
    transfer_logs db' = transfer_logs db @ [l] \<Longrightarrow> effect lib db db'"
| lapsed: "distinct ids \<Longrightarrow> \<forall>i \<in> set ids. \<exists>t \<in> set (transfers db). tr_id t = i \<and> is_live (tr_status t) \<Longrightarrow>
    effect lib db (expire_ids dbnow ids db)"
| settled: "row_get tr_id (transfers db) (tr_id t) = Some t \<Longrightarrow> tr_status t = Tr_pending \<Longrightarrow>
    row_get oc_id (contracts db) (tr_contract t) = Some c \<Longrightarrow>
    tr_id (f t) = tr_id t \<Longrightarrow> tr_contract (f t) = tr_contract t \<Longrightarrow> tr_from (f t) = tr_from t \<Longrightarrow>
    tr_to (f t) = tr_to t \<Longrightarrow> tr_request_nonce (f t) = tr_request_nonce t \<Longrightarrow>
    tr_status (f t) = Tr_completed \<and> oc_owner c = tr_from t \<or> tr_status (f t) = Tr_rejected \<Longrightarrow>
    \<forall>u \<in> set (transfers db). tr_id u \<noteq> tr_id t \<longrightarrow> tr_decision_nonce u \<noteq> tr_decision_nonce (f t) \<Longrightarrow>
    transfer_ok lib db (f t) \<Longrightarrow>
    tl_transfer l = tr_id t \<Longrightarrow> tl_action l \<noteq> ''transfer_request_created'' \<Longrightarrow>
    publishers db' = publishers db \<Longrightarrow> transfers db' = row_upd tr_id (transfers db) (tr_id t) f \<Longrightarrow>
    contracts db' = (if tr_status (f t) = Tr_completed
      then update_where (\<lambda>d. oc_id d = tr_contract t \<and> oc_owner d = tr_from t) (move_owner (tr_to t)) (contracts db)
      else contracts db) \<Longrightarrow>
    transfer_logs db' = transfer_logs db @ [l] \<Longrightarrow> effect lib db db'"
| joined: "pb_id p \<notin> pb_id ` set (publishers db) \<Longrightarrow> effect lib db (db\<lparr>publishers := publishers db @ [p]\<rparr>)"
| listed: "oc_id c \<notin> oc_id ` set (contracts db) \<Longrightarrow>
    effect lib db (db\<lparr>contracts := contracts db @ [c]\<rparr>)"

lemma expire_ids_simps [simp]:
  "publishers (expire_ids now ids db) = publishers db" "contracts (expire_ids now ids db) = contracts db"
  "transfers (expire_ids now ids db) = update_where (\<lambda>t. tr_id t \<in> set ids) (mark_expired now) (transfers db)"
  "transfer_logs (expire_ids now ids db) = transfer_logs db @ map expiry_log ids"
  by (simp_all add: expire_ids_def)

lemma mark_expired_simps [simp]:
  "tr_id (mark_expired now t) = tr_id t" "tr_contract (mark_expired now t) = tr_contract t"
  "tr_status (mark_expired now t) = Tr_expired" "tr_request_nonce (mark_expired now t) = tr_request_nonce t"
  "tr_decision_nonce (mark_expired now t) = tr_decision_nonce t" "tr_from (mark_expired now t) = tr_from t"
  "tr_to (mark_expired now t) = tr_to t"
  by (simp_all add: mark_expired_def)

text \<open>Publishers are only added, so what a transfer rests on stays.\<close>

definition keeps_publishers :: "ownership \<Rightarrow> ownership \<Rightarrow> bool" where
  "keeps_publishers db db' \<longleftrightarrow> (\<forall>p r. row_get pb_id (publishers db) p = Some r \<longrightarrow> row_get pb_id (publishers db') p = Some r)"

lemma transfer_ok_mono:
  assumes "keeps_publishers db db'" "transfer_ok lib db t"
  shows "transfer_ok lib db' t"
proof -
  have k: "row_get pb_id (publishers db') p = Some r" if "row_get pb_id (publishers db) p = Some r" for p r
    using assms(1) that by (simp add: keeps_publishers_def)
  have "offered_by lib db t \<Longrightarrow> offered_by lib db' t" unfolding offered_by_def
    by (elim exE conjE, intro exI conjI) (erule k | assumption)+
  moreover have "decided_by lib db d p t \<Longrightarrow> decided_by lib db' d p t" for d p
    unfolding decided_by_def by (elim exE conjE, intro exI conjI) (erule k | assumption)+
  ultimately show ?thesis using assms(2) by (auto simp: transfer_ok_def split: transfer_status.splits)
qed

lemma keeps_same: "publishers db' = publishers db \<Longrightarrow> keeps_publishers db db'"
  by (simp add: keeps_publishers_def)

lemma effect_keeps: "effect lib db db' \<Longrightarrow> keeps_publishers db db'"
  by (induction rule: effect.induct) (auto simp: keeps_same, auto simp: keeps_publishers_def row_get_append)

lemma transfer_ok_expired: "transfer_ok lib db t \<Longrightarrow> is_live (tr_status t) \<Longrightarrow> transfer_ok lib db (mark_expired now t)"
  by (auto simp: transfer_ok_def is_live_def offered_by_def mark_expired_def split: transfer_status.splits)

lemma ownership_okD:
  assumes "ownership_ok lib db"
  shows "distinct (map pb_id (publishers db))" "distinct (map oc_id (contracts db))" "distinct (map tr_id (transfers db))"
    and "single_use tr_request_nonce (transfers db)" "single_use tr_decision_nonce (transfers db)"
    and "\<And>t. t \<in> set (transfers db) \<Longrightarrow> tr_contract t \<in> oc_id ` set (contracts db)"
    and "\<And>c. length (live_of db c) \<le> 1"
    and "\<And>l. l \<in> set (transfer_logs db) \<Longrightarrow> tl_transfer l \<in> tr_id ` set (transfers db)"
    and "\<And>t. t \<in> set (transfers db) \<Longrightarrow> transfer_ok lib db t"
    and "\<And>t. t \<in> set (transfers db) \<Longrightarrow> history_ok db t"
  using assms unfolding ownership_ok_def by blast+

lemma same_transfer:
  assumes "ownership_ok lib db" "t \<in> set (transfers db)" "u \<in> set (transfers db)" "tr_id t = tr_id u"
  shows "t = u"
  using ownership_okD(3) [OF assms(1)] assms(2-4) by (simp add: distinct_map inj_on_def)

lemma filter_update_le:
  "(\<And>t. t \<in> set ts \<Longrightarrow> P t \<Longrightarrow> Q (f t) \<Longrightarrow> Q t) \<Longrightarrow> length (filter Q (update_where P f ts)) \<le> length (filter Q ts)"
  by (induction ts) (auto simp: update_where_def le_SucI)

lemma single_use_update:
  assumes "single_use n ts" and id: "\<And>t. tr_id (f t) = tr_id t"
    and new: "\<And>t. t \<in> set ts \<Longrightarrow> P t \<Longrightarrow> n (f t) = n t \<or> (\<forall>u \<in> set ts. tr_id u \<noteq> tr_id t \<longrightarrow> n u \<noteq> n (f t) \<and> \<not> P u)"
  shows "single_use n (update_where P f ts)"
  unfolding single_use_def set_update_where
proof (intro ballI impI, elim imageE)
  fix x y t u
  assume tu: "x = (if P t then f t else t)" "t \<in> set ts" "y = (if P u then f u else u)" "u \<in> set ts" and eq: "n x = n y" "n x \<noteq> None"
  have ids: "tr_id x = tr_id t" "tr_id y = tr_id u" using tu id by simp_all
  show "tr_id x = tr_id y"
  proof (rule ccontr)
    assume "tr_id x \<noteq> tr_id y"
    then have ne: "tr_id t \<noteq> tr_id u" "tr_id u \<noteq> tr_id t" using ids by simp_all
    have "n t \<noteq> n u \<or> n t = None" using assms(1) tu(2,4) ne(1) unfolding single_use_def by blast
    then show False
      using new [OF tu(2)] new [OF tu(4)] tu eq ne by (cases "P t"; cases "P u") auto
  qed
qed

lemma single_use_append:
  assumes "single_use n ts" "n t = None \<or> n t \<notin> n ` set ts"
  shows "single_use n (ts @ [t])"
  unfolding single_use_def
proof (intro ballI impI)
  fix u v
  assume "u \<in> set (ts @ [t])" "v \<in> set (ts @ [t])" and eq: "n u = n v" "n u \<noteq> None"
  then consider "u \<in> set ts" "v \<in> set ts" | "u = t" "v = t" | "u = t" "v \<in> set ts" | "u \<in> set ts" "v = t" by auto
  then show "tr_id u = tr_id v"
  proof cases
    case 1
    then show ?thesis using assms(1) eq unfolding single_use_def by blast
  next
    case 3
    then show ?thesis using assms(2) eq by (metis imageI)
  next
    case 4
    then show ?thesis using assms(2) eq by (metis imageI)
  qed simp
qed

text \<open>Live rows that end, each with a line of history of its own.\<close>

lemma rows_end_ok:
  assumes ok: "ownership_ok lib db"
    and db': "publishers db' = publishers db" "map oc_id (contracts db') = map oc_id (contracts db)"
      "transfers db' = update_where P f (transfers db)" "transfer_logs db' = transfer_logs db @ new"
    and rows: "\<And>t. t \<in> set (transfers db) \<Longrightarrow> P t \<Longrightarrow> is_live (tr_status t) \<and> \<not> is_live (tr_status (f t)) \<and> transfer_ok lib db (f t)"
    and keys: "\<And>t. tr_id (f t) = tr_id t" "\<And>t. tr_contract (f t) = tr_contract t"
      "\<And>t. tr_request_nonce (f t) = tr_request_nonce t"
    and nonces: "single_use tr_decision_nonce (transfers db')"
    and lines: "\<And>l. l \<in> set new \<Longrightarrow> tl_transfer l \<in> tr_id ` set (transfers db) \<and> tl_action l \<noteq> ''transfer_request_created''"
      "\<And>t. t \<in> set (transfers db) \<Longrightarrow> length (filter (\<lambda>l. tl_transfer l = tr_id t) new) = (if P t then 1 else 0)"
  shows "ownership_ok lib db'"
proof -
  note okD = ownership_okD [OF ok]
  have ids: "map tr_id (transfers db') = map tr_id (transfers db)"
    unfolding db' by (rule map_key_update_where) (rule keys)
  then have set_ids: "tr_id ` set (transfers db') = tr_id ` set (transfers db)" by (metis set_map)
  have set_cs: "oc_id ` set (contracts db') = oc_id ` set (contracts db)" using db'(2) by (metis set_map)
  have row: "\<exists>u \<in> set (transfers db). t = (if P u then f u else u) \<and> tr_id t = tr_id u \<and> tr_contract t = tr_contract u \<and>
      tr_request_nonce t = tr_request_nonce u" if t: "t \<in> set (transfers db')" for t
  proof -
    obtain u where "u \<in> set (transfers db)" "t = (if P u then f u else u)" using t unfolding db'(3) set_update_where by blast
    then show ?thesis using keys by (intro bexI [of _ u]) simp_all
  qed
  have live: "length (live_of db' c) \<le> length (live_of db c)" for c
    unfolding live_of_def db'(3) by (rule filter_update_le) (use rows in blast)
  have open_lines: "opening_lines db' i = opening_lines db i" for i
    using lines(1) by (auto simp: opening_lines_def db'(4) filter_empty_conv)
  have close: "closing_lines db' i = closing_lines db i @ filter (\<lambda>l. tl_transfer l = i) new" for i
    unfolding closing_lines_def db'(4) filter_append
    by (rule arg_cong [where f = "(@) _"]) (rule filter_cong [OF refl], use lines(1) in blast)
  have each: "transfer_ok lib db' t \<and> history_ok db' t" if t: "t \<in> set (transfers db')" for t
  proof -
    obtain u where u: "u \<in> set (transfers db)" "t = (if P u then f u else u)" "tr_id t = tr_id u" using row [OF t] by blast
    have tr: "transfer_ok lib db t" using u rows [OF u(1)] okD(9) [OF u(1)] by (cases "P u") simp_all
    have "history_ok db' t"
    proof (cases "P u")
      case True
      then show ?thesis using u rows [OF u(1)] lines(2) [OF u(1)] okD(10) [OF u(1)] by (simp add: history_ok_def open_lines close)
    next
      case False
      then show ?thesis using u lines(2) [OF u(1)] okD(10) [OF u(1)] by (simp add: history_ok_def open_lines close)
    qed
    then show ?thesis using transfer_ok_mono [OF keeps_same [OF db'(1)] tr] by blast
  qed
  have req: "single_use tr_request_nonce (transfers db')"
    using okD(4) row unfolding single_use_def by metis
  have contr: "tr_contract t \<in> oc_id ` set (contracts db')" if "t \<in> set (transfers db')" for t
    using row [OF that] okD(6) set_cs by metis
  have logs: "tl_transfer l \<in> tr_id ` set (transfers db')" if "l \<in> set (transfer_logs db')" for l
    using that okD(8) lines(1) by (auto simp: db'(4) set_ids)
  have one: "length (live_of db' c) \<le> 1" for c using okD(7) live by (rule order_trans [rotated])
  show ?thesis
    unfolding ownership_ok_def using okD(1-3) ids db'(1,2) each req nonces contr logs one by auto
qed

lemma lapsed_ok:
  assumes ok: "ownership_ok lib db" and ids: "distinct ids" "\<forall>i \<in> set ids. \<exists>t \<in> set (transfers db). tr_id t = i \<and> is_live (tr_status t)"
  shows "ownership_ok lib (expire_ids now ids db)"
proof (rule rows_end_ok [OF ok, where P = "\<lambda>t. tr_id t \<in> set ids" and f = "mark_expired now" and new = "map expiry_log ids"])
  fix t assume t: "t \<in> set (transfers db)" "tr_id t \<in> set ids"
  then obtain u where "u \<in> set (transfers db)" "tr_id u = tr_id t" "is_live (tr_status u)" using ids(2) by blast
  then have live: "is_live (tr_status t)" using same_transfer [OF ok, of u t] t(1) by simp
  show "is_live (tr_status t) \<and> \<not> is_live (tr_status (mark_expired now t)) \<and> transfer_ok lib db (mark_expired now t)"
    using live transfer_ok_expired [OF ownership_okD(9) [OF ok t(1)] live] by (simp add: is_live_def)
next
  show "single_use tr_decision_nonce (transfers (expire_ids now ids db))"
    unfolding expire_ids_simps by (rule single_use_update [OF ownership_okD(5) [OF ok]]) simp_all
next
  fix l assume "l \<in> set (map expiry_log ids)"
  then show "tl_transfer l \<in> tr_id ` set (transfers db) \<and> tl_action l \<noteq> ''transfer_request_created''"
    using ids(2) by (auto simp: expiry_log_def)
next
  fix t
  have "length (filter (\<lambda>l. tl_transfer l = tr_id t) (map expiry_log is)) = (if tr_id t \<in> set is then 1 else 0)" if "distinct is" for "is"
    using that by (induction "is") (auto simp: expiry_log_def)
  then show "length (filter (\<lambda>l. tl_transfer l = tr_id t) (map expiry_log ids)) = (if tr_id t \<in> set ids then 1 else 0)"
    using ids(1) by blast
qed simp_all

lemma settled_ok:
  assumes ok: "ownership_ok lib db"
    and t: "row_get tr_id (transfers db) i = Some t" "tr_status t = Tr_pending"
    and f: "tr_id (f t) = i" "tr_contract (f t) = tr_contract t" "tr_request_nonce (f t) = tr_request_nonce t"
      "\<not> is_live (tr_status (f t))" "transfer_ok lib db (f t)"
    and nonce: "\<forall>u \<in> set (transfers db). tr_id u \<noteq> i \<longrightarrow> tr_decision_nonce u \<noteq> tr_decision_nonce (f t)"
    and l: "tl_transfer l = i" "tl_action l \<noteq> ''transfer_request_created''"
    and db': "publishers db' = publishers db" "map oc_id (contracts db') = map oc_id (contracts db)"
      "transfers db' = row_upd tr_id (transfers db) i f" "transfer_logs db' = transfer_logs db @ [l]"
  shows "ownership_ok lib db'"
proof -
  have tin: "t \<in> set (transfers db)" "tr_id t = i" using row_get_key [OF t(1)] by simp_all
  have only: "u = t" if "u \<in> set (transfers db)" "tr_id u = i" for u using same_transfer [OF ok that(1) tin(1)] that(2) tin(2) by simp
  define g where "g u = (if u = t then f u else u)" for u
  have upd: "transfers db' = update_where (\<lambda>u. u = t) g (transfers db)"
  proof -
    have "(if tr_id u = i then f u else u) = (if u = t then g u else u)" if "u \<in> set (transfers db)" for u
      using only [OF that] tin(2) by (cases "u = t") (auto simp: g_def)
    then show ?thesis unfolding db'(3) row_upd_def update_where_def by (rule map_cong [OF refl])
  qed
  show ?thesis
  proof (rule rows_end_ok [OF ok db'(1,2) upd db'(4)])
    fix u
    show "tr_id (g u) = tr_id u" "tr_contract (g u) = tr_contract u" "tr_request_nonce (g u) = tr_request_nonce u"
      using f tin(2) by (simp_all add: g_def)
  next
    fix u assume "u \<in> set (transfers db)" "u = t"
    then show "is_live (tr_status u) \<and> \<not> is_live (tr_status (g u)) \<and> transfer_ok lib db (g u)"
      using f t(2) by (simp add: g_def is_live_def)
  next
    show "single_use tr_decision_nonce (transfers db')"
      unfolding upd
    proof (rule single_use_update [OF ownership_okD(5) [OF ok]])
      fix u
      show "tr_id (g u) = tr_id u" using f tin(2) by (simp add: g_def)
      assume "u \<in> set (transfers db)" "u = t"
      then show "tr_decision_nonce (g u) = tr_decision_nonce u \<or>
          (\<forall>v \<in> set (transfers db). tr_id v \<noteq> tr_id u \<longrightarrow> tr_decision_nonce v \<noteq> tr_decision_nonce (g u) \<and> v \<noteq> t)"
        using nonce tin(2) by (auto simp: g_def)
    qed
  next
    fix l' assume "l' \<in> set [l]"
    then show "tl_transfer l' \<in> tr_id ` set (transfers db) \<and> tl_action l' \<noteq> ''transfer_request_created''"
      using l imageI [OF tin(1), of tr_id] tin(2) by simp
  next
    fix u assume "u \<in> set (transfers db)"
    then show "length (filter (\<lambda>l. tl_transfer l = tr_id u) [l]) = (if u = t then 1 else 0)"
      using only [of u] l(1) tin(2) by (cases "u = t") auto
  qed
qed

lemma opened_ok:
  assumes ok: "ownership_ok lib db"
    and t: "row_get oc_id (contracts db) (tr_contract t) = Some c" "row_get tr_id (transfers db) (tr_id t) = None"
      "tr_request_nonce t \<notin> tr_request_nonce ` set (transfers db)" "\<not> has_live (tr_contract t) (transfers db)"
      "tr_status t = Tr_pending" "transfer_ok lib db t"
    and l: "tl_transfer l = tr_id t" "tl_action l = ''transfer_request_created''"
    and db': "publishers db' = publishers db" "contracts db' = contracts db" "transfers db' = transfers db @ [t]"
      "transfer_logs db' = transfer_logs db @ [l]"
  shows "ownership_ok lib db'"
proof -
  note okD = ownership_okD [OF ok]
  have new: "tr_id t \<notin> tr_id ` set (transfers db)" using t(2) by (simp add: row_get_None)
  have dn: "tr_decision_nonce t = None" using t(5,6) by (simp add: transfer_ok_def)
  have live: "length (live_of db' d) \<le> 1" for d
  proof (cases "d = tr_contract t")
    case True
    then have "live_of db d = []" using t(4) by (auto simp: has_live_def live_of_def filter_empty_conv list_ex_iff)
    then show ?thesis by (simp add: live_of_def db'(3))
  next
    case False
    then show ?thesis using okD(7) [of d] by (simp add: live_of_def db'(3))
  qed
  have no_line: "tl_transfer m \<noteq> tr_id t" if "m \<in> set (transfer_logs db)" for m using okD(8) [OF that] new by auto
  have mine: "history_ok db' t"
    using no_line l t(5) by (simp add: history_ok_def opening_lines_def closing_lines_def db'(4) filter_empty_conv is_live_def)
  have other: "history_ok db' u" if "u \<in> set (transfers db)" for u
  proof -
    have "tr_id u \<noteq> tr_id t" using that new by (metis imageI)
    then show ?thesis using okD(10) [OF that] l by (simp add: history_ok_def opening_lines_def closing_lines_def db'(4))
  qed
  have rows: "transfer_ok lib db' u \<and> history_ok db' u" if "u \<in> set (transfers db')" for u
  proof -
    have "transfer_ok lib db u" "history_ok db' u" using that t(6) okD(9) mine other by (auto simp: db'(3))
    then show ?thesis using transfer_ok_mono [OF keeps_same [OF db'(1)]] by blast
  qed
  have req: "single_use tr_request_nonce (transfers db')"
    unfolding db'(3) by (rule single_use_append [OF okD(4)]) (use t(3) in blast)
  have dec: "single_use tr_decision_nonce (transfers db')"
    unfolding db'(3) by (rule single_use_append [OF okD(5)]) (use dn in blast)
  have contr: "tr_contract u \<in> oc_id ` set (contracts db')" if "u \<in> set (transfers db')" for u
  proof -
    have "tr_contract t \<in> oc_id ` set (contracts db)" using row_get_key [OF t(1)] by (metis imageI)
    then show ?thesis using that okD(6) by (auto simp: db'(2,3))
  qed
  have logs: "tl_transfer m \<in> tr_id ` set (transfers db')" if "m \<in> set (transfer_logs db')" for m
    using that okD(8) l(1) by (auto simp: db'(3,4))
  have ids: "distinct (map tr_id (transfers db'))" using okD(3) new by (simp add: db'(3))
  show ?thesis
    unfolding ownership_ok_def using okD(1,2) ids rows req dec contr logs live by (simp add: db'(1,2))
qed

lemma effect_ok: "effect lib db db' \<Longrightarrow> ownership_ok lib db \<Longrightarrow> ownership_ok lib db'"
proof (induction rule: effect.induct)
  case (opened db t c l db')
  show ?case by (rule opened_ok [OF opened.prems opened.hyps(1,3,4,5,6,7,8,9,10,11,12,13)])
next
  case (lapsed ids db dbnow)
  then show ?case by (intro lapsed_ok) simp_all
next
  case (settled db t c f l db')
  have cs: "map oc_id (contracts db') = map oc_id (contracts db)"
    using map_key_update_where [where key = oc_id and f = "move_owner (tr_to t)"] by (simp add: settled.hyps(16) move_owner_def)
  show ?case
    by (rule settled_ok [OF settled.prems settled.hyps(1,2,4,5,8) _ settled.hyps(11,10) settled.hyps(12,13,14) cs settled.hyps(15,17)])
      (use settled.hyps(9) in \<open>auto simp: is_live_def\<close>)
next
  case (joined p db)
  have k: "keeps_publishers db (db\<lparr>publishers := publishers db @ [p]\<rparr>)" by (rule effect_keeps [OF effect.joined]) (rule joined)
  show ?case
    using ownership_okD [OF joined.prems] joined.hyps transfer_ok_mono [OF k]
    by (simp add: ownership_ok_def live_of_def history_ok_def opening_lines_def closing_lines_def)
next
  case (listed c db)
  have k: "keeps_publishers db (db\<lparr>contracts := contracts db @ [c]\<rparr>)" by (simp add: keeps_publishers_def)
  show ?case
    using ownership_okD [OF listed.prems] listed.hyps transfer_ok_mono [OF k]
    by (simp add: ownership_ok_def live_of_def history_ok_def opening_lines_def closing_lines_def)
qed

end
