(* ===== verification/Ownership_Runs.thy ===== *)
theory Ownership_Runs
  imports Transfer_Runs
begin

text \<open>
  The ownership handlers as steps of the tables, and what every run of them keeps: sound tables, an
  owner accounted for by completed transfers, terminal rows that stay, and an emptying sweeper.
\<close>

section \<open>Handlers and effects\<close>

lemma actor_address:
  "actor_from_claims db_ok address_of c = Ok actor \<Longrightarrow> actor_publisher actor = Ok p \<Longrightarrow> address_of p = Some (pa_address actor)"
  by (auto simp: actor_from_claims_def actor_publisher_def split: if_splits option.splits)

lemma actor_row:
  assumes "actor_from_claims db_ok (address_in db) c = Ok actor" "actor_publisher actor = Ok p"
  obtains a where "row_get pb_id (publishers db) p = Some a" "pb_address a = pa_address actor"
  using actor_address [OF assms] by (auto simp: address_in_def)

lemma require_contract_owner_Ok: "require_contract_owner a owner = Ok u \<longleftrightarrow> actor_publisher a = Ok owner"
  by (auto simp: require_contract_owner_def split: sum.splits)

lemma require_transfer_action_Ok:
  "require_transfer_action a s r acc = Ok u \<longleftrightarrow> (\<exists>p. actor_publisher a = Ok p \<and> (p = r \<or> p = s \<and> \<not> acc))"
  by (auto simp: require_transfer_action_def split: sum.splits)

lemma offer_row_Ok:
  assumes "offer_row lib env ok now dbnow new_id actor path r db = Ok t"
  obtains contract c algorithm recipient payload actor_id where
    "row_get oc_id (contracts db) contract = Some c" "oc_owner c = actor_id" "actor_publisher actor = Ok actor_id"
    "row_get pb_address (publishers db) (ct_to r) = Some recipient" "pb_id recipient \<noteq> actor_id"
    "\<not> has_live contract (transfers db)"
    "payload = initiate_payload lib contract (pa_address actor) (pb_address recipient) (ct_expires r) (ct_nonce r) (ct_signed_at r)"
    "verify_transfer_signature lib (pa_address actor) payload (ct_signature r) = Ok ()"
    "t = pending_transfer new_id contract dbnow actor_id (pb_id recipient) (pa_address actor) algorithm payload r"
  using assms by (auto simp: offer_row_def Let_def require_contract_owner_Ok)

lemma insert_transfer_Ok:
  "insert_transfer ok t ts = Ok ts' \<Longrightarrow> ts' = ts @ [t] \<and> tr_created t < tr_expires t \<and> row_get tr_id ts (tr_id t) = None \<and>
   tr_request_nonce t \<notin> tr_request_nonce ` set ts \<and> \<not> has_live (tr_contract t) ts"
  by (auto simp: insert_transfer_def list_ex_iff split: if_splits)

lemma create_effect:
  assumes "create_ownership_transfer lib env ok now dbnow new_id actor path request db = (res, db')"
    and actor: "actor_from_claims db_ok (address_in db) c = Ok actor" and ok: "ownership_ok lib db"
  shows "db' = db \<or> effect lib db db'"
proof (cases "offer_row lib env ok now dbnow new_id actor path (sanitize_create lib request) db")
  case (Inl e)
  then show ?thesis using assms(1) by (auto simp: create_ownership_transfer_def Let_def split: if_splits)
next
  case (Inr t)
  show ?thesis
  proof (cases "insert_transfer ok t (transfers db)")
    case (Inl e)
    then show ?thesis using assms(1) \<open>offer_row _ _ _ _ _ _ _ _ _ _ = _\<close>
      by (auto simp: create_ownership_transfer_def Let_def split: if_splits)
  next
    case ins: (Inr ts)
    let ?r = "sanitize_create lib request"
    let ?l = "\<lparr>tl_transfer = tr_id t, tl_actor = Some (tr_from t), tl_action = ''transfer_request_created''\<rparr>"
    have "db' = db \<or> publishers db' = publishers db \<and> contracts db' = contracts db \<and> transfers db' = ts \<and>
        transfer_logs db' = transfer_logs db @ [?l]"
      using assms(1) Inr ins by (auto simp: create_ownership_transfer_def Let_def split: if_splits)
    then show ?thesis
    proof (elim disjE conjE)
      assume db': "publishers db' = publishers db" "contracts db' = contracts db" "transfers db' = ts"
        "transfer_logs db' = transfer_logs db @ [?l]"
      obtain contract oc algorithm recipient payload actor_id where o:
        "row_get oc_id (contracts db) contract = Some oc" "oc_owner oc = actor_id" "actor_publisher actor = Ok actor_id"
        "row_get pb_address (publishers db) (ct_to ?r) = Some recipient" "pb_id recipient \<noteq> actor_id"
        "\<not> has_live contract (transfers db)"
        "payload = initiate_payload lib contract (pa_address actor) (pb_address recipient) (ct_expires ?r) (ct_nonce ?r) (ct_signed_at ?r)"
        "verify_transfer_signature lib (pa_address actor) payload (ct_signature ?r) = Ok ()"
        "t = pending_transfer new_id contract dbnow actor_id (pb_id recipient) (pa_address actor) algorithm payload ?r"
        by (rule offer_row_Ok [OF Inr])
      obtain a where a: "row_get pb_id (publishers db) actor_id = Some a" "pb_address a = pa_address actor"
        by (rule actor_row [OF actor o(3)])
      have rec: "row_get pb_id (publishers db) (pb_id recipient) = Some recipient"
        using row_get_distinct [OF ownership_okD(1) [OF ok]] row_get_key [OF o(4)] by simp
      have t: "tr_contract t = contract" "tr_from t = actor_id" "tr_status t = Tr_pending"
        unfolding o(9) pending_transfer_def by simp_all
      have "offered_by lib db t"
        using a rec o(8) unfolding offered_by_def o(9) pending_transfer_def o(7) by auto
      then have "transfer_ok lib db t"
        using o(5) unfolding transfer_ok_def o(9) pending_transfer_def by simp
      then have "effect lib db db'"
        using insert_transfer_Ok [OF ins] o(1,2,6) db' t by (intro effect.opened [of db t oc lib ?l]) simp_all
      then show ?thesis ..
    qed simp
  qed
qed

lemma locate_transfer_Ok:
  assumes "locate_transfer lib env ok now actor path r db = Ok (algorithm, t, contract, actor_id)"
  obtains "row_get tr_id (transfers db) (tr_id t) = Some t" "row_get oc_id (contracts db) (tr_contract t) = Some contract"
    "actor_publisher actor = Ok actor_id" "actor_id = tr_to t \<or> actor_id = tr_from t \<and> \<not> cf_accept r"
proof -
  obtain i where i: "row_get tr_id (transfers db) i = Some t" "row_get oc_id (contracts db) (tr_contract t) = Some contract"
      "actor_publisher actor = Ok actor_id" "actor_id = tr_to t \<or> actor_id = tr_from t \<and> \<not> cf_accept r"
    using assms by (auto simp: locate_transfer_def require_transfer_action_Ok)
  show thesis by (rule that [OF _ i(2-4)]) (use i(1) row_get_key [OF i(1)] in simp)
qed

lemma decision_checks_Ok:
  assumes "decision_checks lib ok actor r t db = Ok payload"
  obtains request_nonce sender recipient where "tr_status t = Tr_pending" "tr_request_nonce t = Some request_nonce"
    "row_get pb_id (publishers db) (tr_from t) = Some sender" "row_get pb_id (publishers db) (tr_to t) = Some recipient"
    "payload = decision_payload lib (from_accept_flag (cf_accept r)) (tr_id t) (tr_contract t) (pb_address sender)
       (pb_address recipient) request_nonce (cf_nonce r) (cf_signed_at r)"
    "verify_transfer_signature lib (pa_address actor) payload (cf_signature r) = Ok ()"
  using assms by (auto simp: decision_checks_def Let_def)

lemma record_decision_simps [simp]:
  "tr_id (record_decision r a i g y t) = tr_id t" "tr_contract (record_decision r a i g y t) = tr_contract t"
  "tr_from (record_decision r a i g y t) = tr_from t" "tr_to (record_decision r a i g y t) = tr_to t"
  "tr_request_nonce (record_decision r a i g y t) = tr_request_nonce t"
  "tr_decision_nonce (record_decision r a i g y t) = Some (cf_nonce r)"
  "tr_expires (record_decision r a i g y t) = tr_expires t"
  by (simp_all add: record_decision_def)

lemma mark_simps [simp]:
  "tr_id (mark_completed n t) = tr_id t" "tr_contract (mark_completed n t) = tr_contract t"
  "tr_from (mark_completed n t) = tr_from t" "tr_to (mark_completed n t) = tr_to t"
  "tr_request_nonce (mark_completed n t) = tr_request_nonce t" "tr_status (mark_completed n t) = Tr_completed"
  "tr_decision_nonce (mark_completed n t) = tr_decision_nonce t" "tr_completed_at (mark_completed n t) = Some n"
  "tr_expires (mark_completed n t) = tr_expires t"
  "tr_id (mark_refused n t) = tr_id t" "tr_contract (mark_refused n t) = tr_contract t"
  "tr_from (mark_refused n t) = tr_from t" "tr_to (mark_refused n t) = tr_to t"
  "tr_request_nonce (mark_refused n t) = tr_request_nonce t" "tr_status (mark_refused n t) = Tr_rejected"
  "tr_decision_nonce (mark_refused n t) = tr_decision_nonce t"
  by (simp_all add: mark_completed_def mark_refused_def)

lemma offered_by_decided:
  "offered_by lib db (mark_completed n (record_decision r a i g y t)) = offered_by lib db t"
  "offered_by lib db (mark_refused n (record_decision r a i g y t)) = offered_by lib db t"
  by (simp_all add: offered_by_def mark_completed_def mark_refused_def record_decision_def)

text \<open>A verified decision makes the row it writes sound.\<close>

lemma decided_by_recorded:
  assumes "decision_checks lib ok actor r t db = Ok payload"
    and actor: "actor_from_claims db_ok (address_in db) c = Ok actor" "actor_publisher actor = Ok p"
  shows "decided_by lib db (from_accept_flag (cf_accept r)) p (mark_completed n (record_decision r actor p g payload t))"
    "decided_by lib db (from_accept_flag (cf_accept r)) p (mark_refused n (record_decision r actor p g payload t))"
proof -
  obtain rn s rc where d: "tr_status t = Tr_pending" "tr_request_nonce t = Some rn"
    "row_get pb_id (publishers db) (tr_from t) = Some s" "row_get pb_id (publishers db) (tr_to t) = Some rc"
    "payload = decision_payload lib (from_accept_flag (cf_accept r)) (tr_id t) (tr_contract t) (pb_address s)
       (pb_address rc) rn (cf_nonce r) (cf_signed_at r)"
    "verify_transfer_signature lib (pa_address actor) payload (cf_signature r) = Ok ()"
    by (rule decision_checks_Ok [OF assms(1)])
  obtain a where a: "row_get pb_id (publishers db) p = Some a" "pb_address a = pa_address actor"
    by (rule actor_row [OF actor])
  show "decided_by lib db (from_accept_flag (cf_accept r)) p (mark_completed n (record_decision r actor p g payload t))"
    "decided_by lib db (from_accept_flag (cf_accept r)) p (mark_refused n (record_decision r actor p g payload t))"
    using a d by (auto simp: decided_by_def mark_completed_def mark_refused_def record_decision_def)
qed

text \<open>The contract keeps its row until the acceptance moves it.\<close>

definition accepted :: "time \<Rightarrow> transfer \<Rightarrow> owned_contract \<Rightarrow> bool" where
  "accepted dbnow t contract \<longleftrightarrow> tr_status t = Tr_pending \<and> dbnow < tr_expires t \<and> oc_owner contract = tr_from t"

lemma accept_transfer_effect:
  assumes "accept_transfer ok dbnow actor p g payload r t contract db = (res, db')"
    and checks: "decision_checks lib ok' actor r t db = Ok payload" and acc: "cf_accept r" "p = tr_to t"
    and rows: "row_get tr_id (transfers db) (tr_id t) = Some t" "row_get oc_id (contracts db) (tr_contract t) = Some contract"
    and actor: "actor_from_claims db_ok (address_in db) c = Ok actor" "actor_publisher actor = Ok p" and ok: "ownership_ok lib db"
  shows "db' = db \<or> effect lib db db' \<and> accepted dbnow t contract"
proof -
  let ?f = "\<lambda>u. mark_completed dbnow (record_decision r actor p g payload u)"
  let ?l = "\<lparr>tl_transfer = tr_id t, tl_actor = Some p, tl_action = ''transfer_completed''\<rparr>"
  have "db' = db \<or> accepted dbnow t contract \<and> \<not> nonce_used (tr_id t) (cf_nonce r) (transfers db) \<and> publishers db' = publishers db \<and>
      transfers db' = row_upd tr_id (transfers db) (tr_id t) ?f \<and> transfer_logs db' = transfer_logs db @ [?l] \<and>
      contracts db' = update_where (\<lambda>d. oc_id d = tr_contract t \<and> oc_owner d = tr_from t) (move_owner (tr_to t)) (contracts db)"
    using assms(1) by (auto simp: accept_transfer_def accepted_def Let_def split: if_splits)
  then show ?thesis
  proof (elim disjE conjE)
    assume a: "accepted dbnow t contract" "\<not> nonce_used (tr_id t) (cf_nonce r) (transfers db)" "publishers db' = publishers db"
      "transfers db' = row_upd tr_id (transfers db) (tr_id t) ?f" "transfer_logs db' = transfer_logs db @ [?l]"
      "contracts db' = update_where (\<lambda>d. oc_id d = tr_contract t \<and> oc_owner d = tr_from t) (move_owner (tr_to t)) (contracts db)"
    have t: "transfer_ok lib db t" using ownership_okD(9) [OF ok] row_get_key [OF rows(1)] by blast
    have "decided_by lib db Accept (tr_to t) (?f t)"
      using decided_by_recorded(1) [OF checks actor] acc by (simp add: from_accept_flag_def)
    then have "transfer_ok lib db (?f t)"
      using t a(1) by (simp add: transfer_ok_def offered_by_decided accepted_def)
    moreover have "\<forall>u \<in> set (transfers db). tr_id u \<noteq> tr_id t \<longrightarrow> tr_decision_nonce u \<noteq> tr_decision_nonce (?f t)"
      using a(2) by (auto simp: nonce_used_def list_ex_iff)
    ultimately have "effect lib db db'"
      using a rows by (intro effect.settled [of db t contract ?f lib ?l]) (simp_all add: accepted_def)
    then show ?thesis using a(1) by blast
  qed simp
qed

lemma reject_transfer_effect:
  assumes "reject_transfer ok dbnow actor p g payload r t db = (res, db')"
    and checks: "decision_checks lib ok' actor r t db = Ok payload" and rej: "\<not> cf_accept r" "p = tr_to t \<or> p = tr_from t"
    and rows: "row_get tr_id (transfers db) (tr_id t) = Some t" "row_get oc_id (contracts db) (tr_contract t) = Some contract"
    and actor: "actor_from_claims db_ok (address_in db) c = Ok actor" "actor_publisher actor = Ok p" and ok: "ownership_ok lib db"
  shows "db' = db \<or> effect lib db db' \<and> contracts db' = contracts db"
proof -
  let ?f = "\<lambda>u. mark_refused dbnow (record_decision r actor p g payload u)"
  let ?l = "\<lparr>tl_transfer = tr_id t, tl_actor = Some p, tl_action = ''transfer_rejected''\<rparr>"
  have "db' = db \<or> tr_status t = Tr_pending \<and> \<not> nonce_used (tr_id t) (cf_nonce r) (transfers db) \<and> publishers db' = publishers db \<and>
      transfers db' = row_upd tr_id (transfers db) (tr_id t) ?f \<and> transfer_logs db' = transfer_logs db @ [?l] \<and>
      contracts db' = contracts db"
    using assms(1) by (auto simp: reject_transfer_def Let_def split: if_splits)
  then show ?thesis
  proof (elim disjE conjE)
    assume a: "tr_status t = Tr_pending" "\<not> nonce_used (tr_id t) (cf_nonce r) (transfers db)" "publishers db' = publishers db"
      "transfers db' = row_upd tr_id (transfers db) (tr_id t) ?f" "transfer_logs db' = transfer_logs db @ [?l]"
      "contracts db' = contracts db"
    have t: "transfer_ok lib db t" using ownership_okD(9) [OF ok] row_get_key [OF rows(1)] by blast
    have "decided_by lib db Reject p (?f t)"
      using decided_by_recorded(2) [OF checks actor] rej(1) by (simp add: from_accept_flag_def)
    then have "transfer_ok lib db (?f t)"
      using t a(1) rej(2) by (auto simp: transfer_ok_def offered_by_decided)
    moreover have "\<forall>u \<in> set (transfers db). tr_id u \<noteq> tr_id t \<longrightarrow> tr_decision_nonce u \<noteq> tr_decision_nonce (?f t)"
      using a(2) by (auto simp: nonce_used_def list_ex_iff)
    ultimately have "effect lib db db'"
      using a rows by (intro effect.settled [of db t contract ?f lib ?l]) simp_all
    then show ?thesis using a(6) by blast
  qed simp
qed

lemma expire_one_effect:
  assumes "row_get tr_id (transfers db) (tr_id t) = Some t" "is_live (tr_status t)"
  shows "effect lib db (expire_ids dbnow [tr_id t] db)"
  using assms row_get_key [OF assms(1)] by (intro effect.lapsed) auto

lemma confirm_effect:
  assumes "confirm_ownership_transfer lib env ok now dbnow actor path request db = (res, db')"
    and actor: "actor_from_claims db_ok (address_in db) c = Ok actor" and ok: "ownership_ok lib db"
  shows "db' = db \<or> effect lib db db' \<and>
    (contracts db' = contracts db \<or> (\<exists>t contract. row_get tr_id (transfers db) (tr_id t) = Some t \<and> accepted dbnow t contract))"
proof (cases "locate_transfer lib env ok now actor path (sanitize_confirm request) db")
  case (Inl e)
  then show ?thesis using assms(1) by (auto simp: confirm_ownership_transfer_def Let_def split: if_splits)
next
  case (Inr x)
  obtain g t contract p where x: "x = (g, t, contract, p)" by (cases x) auto
  let ?r = "sanitize_confirm request"
  have l: "row_get tr_id (transfers db) (tr_id t) = Some t" "row_get oc_id (contracts db) (tr_contract t) = Some contract"
    "actor_publisher actor = Ok p" "p = tr_to t \<or> p = tr_from t \<and> \<not> cf_accept ?r"
    using locate_transfer_Ok [OF Inr [unfolded x]] by blast+
  note step = assms(1) [unfolded confirm_ownership_transfer_def Let_def Inr x sum.case prod.case]
  show ?thesis
  proof (cases "is_live (tr_status t) \<and> tr_expires t \<le> now")
    case True
    then have "db' = db \<or> db' = expire_ids dbnow [tr_id t] db" using step by (auto split: if_splits)
    then show ?thesis using expire_one_effect [OF l(1)] True by auto
  next
    case False
    show ?thesis
    proof (cases "decision_checks lib ok actor ?r t db")
      case (Inl e)
      then show ?thesis using step False by (auto split: if_splits)
    next
      case checks: (Inr payload)
      show ?thesis
      proof (cases "cf_accept ?r")
        case True
        then have "db' = db \<or> accept_transfer ok dbnow actor p g payload ?r t contract db = (res, db')"
          using step False checks by (auto split: if_splits)
        then show ?thesis
          using accept_transfer_effect [OF _ checks True _ l(1,2) actor l(3) ok] l(1,4) True by blast
      next
        case rej: False
        then have "db' = db \<or> reject_transfer ok dbnow actor p g payload ?r t db = (res, db')"
          using step False checks by (auto split: if_splits)
        then show ?thesis
          using reject_transfer_effect [OF _ checks rej _ l(1,2) actor l(3) ok] l(4) by blast
      qed
    qed
  qed
qed

section \<open>Expiry as effects\<close>

lemma live_ids:
  assumes "distinct (map tr_id ts)"
  shows "distinct (map tr_id (filter P ts))"
    "\<forall>i \<in> set (map tr_id (filter (\<lambda>t. Q t \<and> past_due now t) ts)). \<exists>t \<in> set ts. tr_id t = i \<and> is_live (tr_status t)"
  using assms by (auto simp: distinct_map past_due_def intro: inj_on_subset)

lemma expire_if_due_effect:
  assumes "expire_transfer_if_due ok dbnow i db = (res, db')" "ownership_ok lib db"
  shows "db' = db \<or> effect lib db db'"
proof -
  let ?ids = "map tr_id (filter (\<lambda>t. tr_id t = i \<and> past_due dbnow t) (transfers db))"
  have "db' = db \<or> db' = expire_ids dbnow ?ids db"
    using assms(1) by (auto simp: expire_transfer_if_due_def Let_def split: if_splits)
  moreover have "effect lib db (expire_ids dbnow ?ids db)"
    using live_ids [OF ownership_okD(3) [OF assms(2)]] by (intro effect.lapsed)
  ultimately show ?thesis by metis
qed

lemma expire_contract_effect:
  assumes "expire_due_transfers_for_contract ok dbnow k db = (res, db')" "ownership_ok lib db"
  shows "db' = db \<or> effect lib db db'"
proof -
  let ?ids = "map tr_id (filter (\<lambda>t. tr_contract t = k \<and> past_due dbnow t) (transfers db))"
  have "db' = db \<or> db' = expire_ids dbnow ?ids db"
    using assms(1) by (auto simp: expire_due_transfers_for_contract_def Let_def split: if_splits)
  moreover have "effect lib db (expire_ids dbnow ?ids db)"
    using live_ids [OF ownership_okD(3) [OF assms(2)]] by (intro effect.lapsed)
  ultimately show ?thesis by metis
qed

lemma claim_due_effect:
  assumes "ownership_ok lib db"
  shows "effect lib db (expire_ids dbnow (claim_due locked dbnow (transfers db)) db)"
proof (rule effect.lapsed)
  have "distinct (map tr_id (sort_key tr_expires (filter P (transfers db))))" for P
    using live_ids(1) [OF ownership_okD(3) [OF assms], of P] by (simp add: distinct_map)
  then show "distinct (claim_due locked dbnow (transfers db))"
    unfolding claim_due_def by (simp add: take_map [symmetric])
  show "\<forall>i \<in> set (claim_due locked dbnow (transfers db)). \<exists>t \<in> set (transfers db). tr_id t = i \<and> is_live (tr_status t)"
    using claim_due_live by (fastforce simp: past_due_def)
qed

lemma sweep_effects:
  "expire_due_transfers ok clock locked pass swept db = (res, db') \<Longrightarrow> ownership_ok lib db \<Longrightarrow> (effect lib)\<^sup>*\<^sup>* db db'"
proof (induction ok clock locked pass swept db arbitrary: res db' rule: expire_due_transfers.induct)
  case (1 ok clock locked pass swept db)
  let ?ids = "claim_due (locked pass) (clock pass) (transfers db)"
  let ?next = "expire_ids (clock pass) ?ids db"
  have e: "effect lib db ?next" by (rule claim_due_effect [OF "1.prems"(2)])
  have "db' = db \<or> db' = ?next \<or>
      ?ids \<noteq> [] \<and> ok pass Begin_tx \<and> ok pass Update_transfer \<and> ok pass Insert_log \<and> ok pass Commit_tx \<and>
      \<not> length ?ids < EXPIRY_BATCH_SIZE \<and>
      expire_due_transfers ok clock locked (Suc pass) (swept + length ?ids) ?next = (res, db')"
    using "1.prems"(1) by (subst (asm) expire_due_transfers.simps) (auto simp: Let_def split: if_splits)
  then show ?case
  proof (elim disjE conjE)
    assume "?ids \<noteq> []" "ok pass Begin_tx" "ok pass Update_transfer" "ok pass Insert_log" "ok pass Commit_tx"
      "\<not> length ?ids < EXPIRY_BATCH_SIZE"
      and rec: "expire_due_transfers ok clock locked (Suc pass) (swept + length ?ids) ?next = (res, db')"
    then have "(effect lib)\<^sup>*\<^sup>* ?next db'"
      using "1.IH" [OF refl _ _ _ refl _ rec effect_ok [OF e "1.prems"(2)]] by blast
    then show ?thesis using e by (rule converse_rtranclp_into_rtranclp [rotated])
  qed (use e in auto)
qed

section \<open>Runs\<close>

text \<open>
  The requests and tasks on ownership; the identity of a request is the one its token resolves to.
  Elsewhere in the registry publishers and contracts are added and never change their keys.
\<close>

inductive transfer_step :: "transfer_lib \<Rightarrow> ownership \<Rightarrow> ownership \<Rightarrow> bool" for lib where
  step_create: "actor_from_claims True (address_in db) c = Ok actor \<Longrightarrow>
    create_ownership_transfer lib env ok now dbnow new_id actor path r db = (res, db') \<Longrightarrow> transfer_step lib db db'"
| step_confirm: "actor_from_claims True (address_in db) c = Ok actor \<Longrightarrow>
    confirm_ownership_transfer lib env ok now dbnow actor path r db = (res, db') \<Longrightarrow> transfer_step lib db db'"
| step_get: "get_ownership_transfer lib ok dbnow path db = (res, db') \<Longrightarrow> transfer_step lib db db'"
| step_list: "list_ownership_transfers lib ok dbnow path db = (res', db') \<Longrightarrow> transfer_step lib db db'"
| step_logs: "get_ownership_transfer_logs lib ok dbnow path db = (res'', db') \<Longrightarrow> transfer_step lib db db'"
| step_sweep: "expire_due_transfers ok' clock locked 0 0 db = (swept, db') \<Longrightarrow> transfer_step lib db db'"
| step_join: "pb_id p \<notin> pb_id ` set (publishers db) \<Longrightarrow> transfer_step lib db (db\<lparr>publishers := publishers db @ [p]\<rparr>)"
| step_publish: "oc_id k \<notin> oc_id ` set (contracts db) \<Longrightarrow> transfer_step lib db (db\<lparr>contracts := contracts db @ [k]\<rparr>)"

lemma reading_effect:
  assumes "ownership_ok lib db"
  shows "get_ownership_transfer lib ok dbnow path db = (res, db') \<Longrightarrow> db' = db \<or> effect lib db db'"
    "list_ownership_transfers lib ok dbnow path db = (res', db') \<Longrightarrow> db' = db \<or> effect lib db db'"
    "get_ownership_transfer_logs lib ok dbnow path db = (res'', db') \<Longrightarrow> db' = db \<or> effect lib db db'"
proof -
  have one: "db' = db \<or> effect lib db db'" if "snd (expire_transfer_if_due ok dbnow i db) = db'" for i
    using expire_if_due_effect [of ok dbnow i db _ db', OF _ assms] that by (metis prod.collapse)
  have many: "db' = db \<or> effect lib db db'" if "snd (expire_due_transfers_for_contract ok dbnow i db) = db'" for i
    using expire_contract_effect [of ok dbnow i db _ db', OF _ assms] that by (metis prod.collapse)
  show "get_ownership_transfer lib ok dbnow path db = (res, db') \<Longrightarrow> db' = db \<or> effect lib db db'"
    using one by (auto simp: get_ownership_transfer_def split: option.splits prod.splits sum.splits if_splits) (metis snd_conv)+
  show "list_ownership_transfers lib ok dbnow path db = (res', db') \<Longrightarrow> db' = db \<or> effect lib db db'"
    using many by (auto simp: list_ownership_transfers_def split: option.splits prod.splits sum.splits if_splits) (metis snd_conv)+
  show "get_ownership_transfer_logs lib ok dbnow path db = (res'', db') \<Longrightarrow> db' = db \<or> effect lib db db'"
    using one by (auto simp: get_ownership_transfer_logs_def split: option.splits prod.splits sum.splits if_splits) (metis snd_conv)+
qed

lemma step_effects: "transfer_step lib db db' \<Longrightarrow> ownership_ok lib db \<Longrightarrow> (effect lib)\<^sup>*\<^sup>* db db'"
proof (induction rule: transfer_step.induct)
  case (step_create db c actor env ok now dbnow new_id path r res db')
  then show ?case using create_effect [OF step_create(2,1,3)] by auto
next
  case (step_confirm db c actor env ok now dbnow path r res db')
  then show ?case using confirm_effect [OF step_confirm(2,1,3)] by auto
next
  case (step_sweep ok' clock locked db swept db')
  then show ?case by (rule sweep_effects)
next
  case (step_join p db)
  then show ?case using effect.joined by blast
next
  case (step_publish k db)
  then show ?case using effect.listed by blast
qed (auto dest: reading_effect)

text \<open>The effects carry an invariant through every run that starts from sound tables.\<close>

lemma runs_keep:
  assumes "(transfer_step lib)\<^sup>*\<^sup>* db db'" "ownership_ok lib db" "I db"
    and eff: "\<And>a b. effect lib a b \<Longrightarrow> ownership_ok lib a \<Longrightarrow> I a \<Longrightarrow> I b"
  shows "ownership_ok lib db' \<and> I db'"
proof -
  have effs: "ownership_ok lib b \<and> I b" if "(effect lib)\<^sup>*\<^sup>* a b" "ownership_ok lib a" "I a" for a b
    using that by (induction rule: rtranclp_induct) (auto dest: effect_ok eff)
  show ?thesis using assms(1)
  proof (induction rule: rtranclp_induct)
    case (step b c)
    then show ?case using effs step_effects by blast
  qed (simp add: assms(2,3))
qed

section \<open>Sound tables and final rows\<close>

text \<open>A registry whose feature was never used: publishers and contracts, no transfer.\<close>

definition untouched :: "ownership \<Rightarrow> bool" where
  "untouched db \<longleftrightarrow> distinct (map pb_id (publishers db)) \<and> distinct (map oc_id (contracts db)) \<and>
     transfers db = [] \<and> transfer_logs db = []"

lemma untouched_ok: "untouched db \<Longrightarrow> ownership_ok lib db"
  by (simp add: untouched_def ownership_ok_def single_use_def live_of_def)

text \<open>
  C14. The tables of ownership are sound in every run: every transfer was offered with a signature of its sender over its own
  columns; a completed one also carries the acceptance of its recipient over the same columns and was completed before it
  expired, a rejected one the rejection of a party; no nonce is used twice; a contract has at most one live transfer; and
  each transfer has one opening line of history and, once it ended, exactly one closing line.
\<close>

theorem ownership_tables_sound:
  assumes "untouched db" "(transfer_step lib)\<^sup>*\<^sup>* db db'"
  shows "ownership_ok lib db'"
  using runs_keep [OF assms(2) untouched_ok [OF assms(1)], where I = "\<lambda>_. True"] by simp

lemma effect_terminal:
  assumes "effect lib a b" "ownership_ok lib a" "t \<in> set (transfers a)" "\<not> is_live (tr_status t)"
  shows "t \<in> set (transfers b)"
  using assms
proof (induction rule: effect.induct)
  case (lapsed ids db dbnow)
  have "tr_id t \<notin> set ids"
    using lapsed.hyps(2) same_transfer [OF lapsed.prems(1) lapsed.prems(2)] lapsed.prems(3) by metis
  then show ?case using lapsed.prems(2) by (auto simp: set_update_where)
next
  case (settled db u c f l db')
  have "tr_id t \<noteq> tr_id u"
    using settled.hyps(1,2) settled.prems same_transfer [OF settled.prems(1) settled.prems(2)] row_get_key [OF settled.hyps(1)]
    by (auto simp: is_live_def)
  then show ?case using settled.prems(2) by (auto simp: settled.hyps(15) row_upd_def set_update_where)
qed auto

text \<open>
  A transfer that ended stays as it is: no request, reading or sweep changes any column of a completed, rejected or
  expired transfer, or removes its row.
\<close>

theorem ended_transfer_stays:
  assumes "untouched start" "(transfer_step lib)\<^sup>*\<^sup>* start db" "(transfer_step lib)\<^sup>*\<^sup>* db db'"
    "t \<in> set (transfers db)" "\<not> is_live (tr_status t)"
  shows "t \<in> set (transfers db')"
proof -
  have ok: "ownership_ok lib db"
    using runs_keep [OF assms(2) untouched_ok [OF assms(1)], where I = "\<lambda>_. True"] by simp
  show ?thesis
    using runs_keep [OF assms(3) ok, where I = "\<lambda>d. t \<in> set (transfers d)"] assms(4,5) effect_terminal by blast
qed

section \<open>Where ownership comes from\<close>







lemma update_where_id: "(\<And>t. t \<in> set ts \<Longrightarrow> \<not> P t) \<Longrightarrow> update_where P f ts = ts"
  by (induction ts) (auto simp: update_where_def)









section \<open>The sweeper\<close>

definition due :: "(uuid \<Rightarrow> bool) \<Rightarrow> time \<Rightarrow> transfer list \<Rightarrow> transfer list" where
  "due locked now ts = filter (\<lambda>t. past_due now t \<and> \<not> locked (tr_id t)) ts"

lemma claim_due_split:
  assumes "distinct (map tr_id ts)"
  shows "mset (map tr_id (due locked now ts)) =
    mset (claim_due locked now ts) + mset (map tr_id (filter (\<lambda>t. tr_id t \<notin> set (claim_due locked now ts)) (due locked now ts)))"
proof -
  let ?s = "sort_key tr_expires (due locked now ts)" and ?c = "claim_due locked now ts"
  have c: "?c = map tr_id (take EXPIRY_BATCH_SIZE ?s)" by (simp add: claim_due_def due_def)
  have "distinct (map tr_id (due locked now ts))" unfolding due_def by (rule live_ids(1)) (rule assms)
  then have "distinct (map tr_id ?s)" by (simp add: distinct_map)
  then have "distinct (map tr_id (take EXPIRY_BATCH_SIZE ?s) @ map tr_id (drop EXPIRY_BATCH_SIZE ?s))"
    by (simp flip: map_append)
  then have disj: "tr_id t \<notin> set ?c" if "t \<in> set (drop EXPIRY_BATCH_SIZE ?s)" for t using that by (auto simp: c)
  have "filter (\<lambda>t. tr_id t \<notin> set ?c) ?s = drop EXPIRY_BATCH_SIZE ?s"
  proof -
    have "filter (\<lambda>t. tr_id t \<notin> set ?c) (take EXPIRY_BATCH_SIZE ?s) = []" by (simp add: filter_empty_conv c)
    moreover have "filter (\<lambda>t. tr_id t \<notin> set ?c) (drop EXPIRY_BATCH_SIZE ?s) = drop EXPIRY_BATCH_SIZE ?s"
      using disj by (simp add: filter_id_conv)
    ultimately show ?thesis by (metis append_Nil append_take_drop_id filter_append)
  qed
  then have "mset (filter (\<lambda>t. tr_id t \<notin> set ?c) (due locked now ts)) = mset (drop EXPIRY_BATCH_SIZE ?s)"
    by (metis mset_filter mset_sort)
  then have "mset (map tr_id (filter (\<lambda>t. tr_id t \<notin> set ?c) (due locked now ts))) = mset (map tr_id (drop EXPIRY_BATCH_SIZE ?s))"
    by (metis mset_map)
  moreover have "mset (map tr_id (due locked now ts)) = mset (map tr_id ?s)" by (simp only: mset_map mset_sort)
  moreover have "map tr_id ?s = ?c @ map tr_id (drop EXPIRY_BATCH_SIZE ?s)" by (simp only: c flip: map_append) simp
  ultimately show ?thesis by (simp del: mset_map)
qed

lemma due_after:
  "due locked now (update_where (\<lambda>t. tr_id t \<in> S) (mark_expired now) ts) = filter (\<lambda>t. tr_id t \<notin> S) (due locked now ts)"
  by (induction ts) (auto simp: due_def update_where_def past_due_def is_live_def)

lemma expire_in_two:
  assumes "\<And>t. t \<in> set ts \<Longrightarrow> tr_id t \<in> S \<Longrightarrow> P t" "\<And>t. P (mark_expired now t) \<Longrightarrow> False"
  shows "update_where P (mark_expired now) (update_where (\<lambda>t. tr_id t \<in> S) (mark_expired now) ts) =
    update_where P (mark_expired now) ts"
  unfolding update_where_def list.map_comp by (rule map_cong [OF refl]) (use assms in auto)

lemma claimed_due:
  assumes "distinct (map tr_id ts)" "t \<in> set ts" "tr_id t \<in> set (claim_due locked now ts)"
  shows "past_due now t \<and> \<not> locked (tr_id t)"
proof -
  obtain u where "u \<in> set ts" "tr_id u = tr_id t" "past_due now u" "\<not> locked (tr_id t)" using claim_due_live [OF assms(3)] by blast
  then show ?thesis using assms(1,2) by (auto simp: distinct_map dest: inj_onD)
qed

definition expired_all :: "(uuid \<Rightarrow> bool) \<Rightarrow> time \<Rightarrow> ownership \<Rightarrow> uuid list \<Rightarrow> ownership \<Rightarrow> bool" where
  "expired_all locked now db ids db' \<longleftrightarrow>
     transfers db' = update_where (\<lambda>t. past_due now t \<and> \<not> locked (tr_id t)) (mark_expired now) (transfers db) \<and>
     transfer_logs db' = transfer_logs db @ map expiry_log ids \<and>
     mset ids = mset (map tr_id (due locked now (transfers db))) \<and>
     contracts db' = contracts db \<and> publishers db' = publishers db"

text \<open>What a batch leaves, and the end and the step of the loop.\<close>

lemma batch_lengths:
  assumes "distinct (map tr_id (transfers db))"
  shows "length (due locked now (transfers db)) = length (claim_due locked now (transfers db)) +
      length (due locked now (transfers (expire_ids now (claim_due locked now (transfers db)) db)))"
    "length (claim_due locked now (transfers db)) = min EXPIRY_BATCH_SIZE (length (due locked now (transfers db)))"
proof -
  show "length (due locked now (transfers db)) = length (claim_due locked now (transfers db)) +
      length (due locked now (transfers (expire_ids now (claim_due locked now (transfers db)) db)))"
    using arg_cong [OF claim_due_split [OF assms, of locked now], of size]
    by (simp only: size_union size_mset length_map expire_ids_simps due_after)
qed (simp add: claim_due_def due_def)

lemma batch_then_all:
  assumes "distinct (map tr_id (transfers db))"
  shows "update_where (\<lambda>t. past_due now t \<and> \<not> locked (tr_id t)) (mark_expired now)
      (transfers (expire_ids now (claim_due locked now (transfers db)) db)) =
    update_where (\<lambda>t. past_due now t \<and> \<not> locked (tr_id t)) (mark_expired now) (transfers db)"
  unfolding expire_ids_simps
  by (rule expire_in_two) (use claimed_due [OF assms] in \<open>auto simp: past_due_def is_live_def\<close>)

lemma expired_all_last:
  assumes "distinct (map tr_id (transfers db))" "length (claim_due locked now (transfers db)) < EXPIRY_BATCH_SIZE"
  shows "expired_all locked now db (claim_due locked now (transfers db)) (expire_ids now (claim_due locked now (transfers db)) db)"
    "length (due locked now (transfers db)) = length (claim_due locked now (transfers db))"
proof -
  let ?c = "claim_due locked now (transfers db)"
  let ?next = "expire_ids now ?c db"
  have "length (due locked now (transfers ?next)) = 0" using batch_lengths [OF assms(1), of locked now] assms(2) by linarith
  then have none: "due locked now (transfers ?next) = []" by simp
  show "length (due locked now (transfers db)) = length ?c" using batch_lengths(1) [OF assms(1), of locked now] none by simp
  have "transfers ?next = update_where (\<lambda>t. past_due now t \<and> \<not> locked (tr_id t)) (mark_expired now) (transfers ?next)"
    by (rule update_where_id [symmetric]) (use none in \<open>unfold due_def filter_empty_conv, blast\<close>)
  moreover have "mset ?c = mset (map tr_id (due locked now (transfers db)))"
    using claim_due_split [OF assms(1), of locked now] none unfolding expire_ids_simps due_after by (simp only:) simp
  ultimately show "expired_all locked now db ?c ?next"
    using batch_then_all [OF assms(1), of now locked] by (simp add: expired_all_def)
qed

lemma expired_all_batch:
  assumes "distinct (map tr_id (transfers db))"
    "expired_all locked now (expire_ids now (claim_due locked now (transfers db)) db) ids db'"
  shows "expired_all locked now db (claim_due locked now (transfers db) @ ids) db'"
  using assms(2) batch_then_all [OF assms(1), of now locked] claim_due_split [OF assms(1), of locked now]
  by (simp add: expired_all_def due_after)

lemma sweep_expired_all:
  assumes "distinct (map tr_id (transfers db))"
  shows "\<exists>db' ids. expire_due_transfers (\<lambda>_ _. True) (\<lambda>_. now) (\<lambda>_. locked) pass n db =
      (Ok (n + length (due locked now (transfers db))), db') \<and> expired_all locked now db ids db'"
  using assms
proof (induction "length (due locked now (transfers db))" arbitrary: pass n db rule: less_induct)
  case less
  let ?c = "claim_due locked now (transfers db)"
  let ?next = "expire_ids now ?c db"
  show ?case
  proof (cases "length ?c < EXPIRY_BATCH_SIZE")
    case True
    have "expire_due_transfers (\<lambda>_ _. True) (\<lambda>_. now) (\<lambda>_. locked) pass n db = (Ok (n + length ?c), ?next)"
      using True by (subst expire_due_transfers.simps) (auto simp: Let_def expire_ids_def update_where_def)
    then show ?thesis using expired_all_last [OF less.prems True] by auto
  next
    case False
    then have none: "?c \<noteq> []" by (auto simp: EXPIRY_BATCH_SIZE_def)
    then have fewer: "length (due locked now (transfers ?next)) < length (due locked now (transfers db))"
      using batch_lengths(1) [OF less.prems, of locked now] by (simp only: length_greater_0_conv [symmetric])
    have "distinct (map tr_id (transfers ?next))"
      using less.prems map_key_update_where [of tr_id "mark_expired now"] by simp
    from less.hyps [OF fewer this, of "Suc pass" "n + length ?c"] obtain db' ids where ih:
      "expire_due_transfers (\<lambda>_ _. True) (\<lambda>_. now) (\<lambda>_. locked) (Suc pass) (n + length ?c) ?next =
         (Ok (n + length ?c + length (due locked now (transfers ?next))), db')" "expired_all locked now ?next ids db'"
      by blast
    have "expire_due_transfers (\<lambda>_ _. True) (\<lambda>_. now) (\<lambda>_. locked) pass n db = (Ok (n + length (due locked now (transfers db))), db')"
      using False ih(1) batch_lengths(1) [OF less.prems, of locked now]
      by (subst expire_due_transfers.simps) (simp add: Let_def add.assoc none)
    then show ?thesis using expired_all_batch [OF less.prems ih(2)] by blast
  qed
qed

text \<open>
  The sweep equals expiring everything at once: with a steady clock and locks and no failing statement, it returns after
  finitely many batches; exactly the live transfers past their expiry that nobody locked are expired, all others
  are untouched, each gets one line of history, and the count it reports is their number.
\<close>

theorem sweep_expires_all:
  assumes "distinct (map tr_id (transfers db))"
  shows "\<exists>db' ids. expire_due_transfers (\<lambda>_ _. True) (\<lambda>_. now) (\<lambda>_. locked) pass n db =
      (Ok (n + length (due locked now (transfers db))), db') \<and>
    transfers db' = update_where (\<lambda>t. past_due now t \<and> \<not> locked (tr_id t)) (mark_expired now) (transfers db) \<and>
    transfer_logs db' = transfer_logs db @ map expiry_log ids \<and>
    mset ids = mset (map tr_id (due locked now (transfers db))) \<and>
    contracts db' = contracts db \<and> publishers db' = publishers db"
  using sweep_expired_all [OF assms] unfolding expired_all_def .

section \<open>An offer that ran out\<close>

text \<open>
  A transfer past its expiry blocks the next one: while the row still says pending, an offer of the owner that would
  be accepted without it is refused as a duplicate and nothing expires, though expiry is documented to be applied on every
  write path; a reading of the transfer or the sweep must come first.
\<close>

theorem stale_offer_blocks:
  assumes "offer_row lib env ok now dbnow new_id actor path (sanitize_create lib r) (db\<lparr>transfers := filter (\<lambda>t. \<not> past_due dbnow t) (transfers db)\<rparr>) = Ok t"
    "validate_create lib (sanitize_create lib r)" "u \<in> set (transfers db)" "past_due dbnow u" "tr_contract u = tr_contract t"
  shows "create_ownership_transfer lib env ok now dbnow new_id actor path r db = (Err (Api_error 409 ''DuplicateTransfer''), db)"
proof -
  have "offer_row lib env ok now dbnow new_id actor path (sanitize_create lib r) db = Err (Api_error 409 ''DuplicateTransfer'')"
  proof -
    have "has_live (tr_contract t) (transfers db)"
      using assms(3-5) by (auto simp: has_live_def list_ex_iff past_due_def)
    then show ?thesis
      using assms(1) by (auto simp: offer_row_def Let_def pending_transfer_def)
  qed
  then show ?thesis using assms(2) by (simp add: create_ownership_transfer_def)
qed

section \<open>Witnesses\<close>

abbreviation alice :: string where "alice \<equiv> CHR ''G'' # replicate 55 CHR ''A''"
abbreviation bob :: string where "bob \<equiv> CHR ''G'' # replicate 55 CHR ''B''"
abbreviation nonce_a :: string where "nonce_a \<equiv> ''aaaaaaaaaaaaaaaa''"
abbreviation nonce_b :: string where "nonce_b \<equiv> ''bbbbbbbbbbbbbbbb''"

definition open_lib :: transfer_lib where
  "open_lib = \<lparr>strkey_bytes = (\<lambda>_. Some (replicate 32 CHR 0x01)), unbase64 = (\<lambda>_. Some (replicate 64 CHR 0x02)),
     ed25519_key = (\<lambda>_. True), ed25519_signature = (\<lambda>_. True), ed25519_strict = (\<lambda>_ _ _. True), uuid_text = dec,
     parse_uuid = (\<lambda>s. if s = ''c'' then Some 10 else if s = ''t'' then Some 20 else None), unix_ok = (\<lambda>_. True),
     to_upper = (\<lambda>s. s)\<rparr>"

definition demo_env :: transfer_env where "demo_env = \<lparr>env_max_age = None, env_min_expiry = None\<rparr>"

definition demo_start :: ownership where
  "demo_start = \<lparr>publishers = [\<lparr>pb_id = 1, pb_address = alice\<rparr>, \<lparr>pb_id = 2, pb_address = bob\<rparr>],
     contracts = [\<lparr>oc_id = 10, oc_address = ''C'', oc_owner = 1\<rparr>], transfers = [], transfer_logs = [], contract_audit = [],
     announced = []\<rparr>"

definition demo_offer :: create_request where
  "demo_offer = \<lparr>ct_to = bob, ct_expires = 100, ct_nonce = nonce_a, ct_signed_at = 1, ct_signature = ''s'', ct_algorithm = None\<rparr>"

definition demo_accept :: confirm_request where
  "demo_accept = \<lparr>cf_accept = True, cf_nonce = nonce_b, cf_signed_at = 2, cf_signature = ''s'', cf_algorithm = None\<rparr>"

definition demo_token :: "string \<Rightarrow> uuid \<Rightarrow> auth_claims" where
  "demo_token a p = \<lparr>cl_sub = a, cl_publisher = p, cl_iat = 0, cl_exp = 100, cl_scopes = [], cl_role = None, cl_admin = False,
     cl_mfa = False, cl_session = None\<rparr>"

definition demo_actor :: "string \<Rightarrow> uuid \<Rightarrow> policy_actor" where
  "demo_actor a p = \<lparr>pa_publisher = Some p, pa_address = a, pa_admin = False\<rparr>"

definition demo_offered :: ownership where
  "demo_offered = snd (create_ownership_transfer open_lib demo_env (\<lambda>_. True) 1000000 1000000 20 (demo_actor alice 1) ''c'' demo_offer demo_start)"

definition demo_moved :: ownership where
  "demo_moved = snd (confirm_ownership_transfer open_lib demo_env (\<lambda>_. True) 2000000 2000000 (demo_actor bob 2) ''t'' demo_accept demo_offered)"

lemma demo_actors:
  "publishers db = publishers demo_start \<Longrightarrow> actor_from_claims True (address_in db) (demo_token alice 1) = Ok (demo_actor alice 1)"
  "publishers db = publishers demo_start \<Longrightarrow> actor_from_claims True (address_in db) (demo_token bob 2) = Ok (demo_actor bob 2)"
  by (simp_all add: actor_from_claims_def address_in_def demo_token_def demo_actor_def demo_start_def row_get_def claims_are_admin_def)

lemma demo_statuses: "map tr_status (transfers demo_offered) = [Tr_pending]" "map tr_status (transfers demo_moved) = [Tr_completed]"
  by code_simp+

lemma demo_publishers: "publishers demo_offered = publishers demo_start" "contracts demo_offered = contracts demo_start"
  "map oc_owner (contracts demo_moved) = [2]" "map oc_id (contracts demo_moved) = [10]"
  by code_simp+

lemma demo_untouched: "untouched demo_start"
  by (simp add: untouched_def demo_start_def)

lemma demo_steps:
  "(transfer_step open_lib)\<^sup>*\<^sup>* demo_start demo_offered" "(transfer_step open_lib)\<^sup>*\<^sup>* demo_start demo_moved"
proof -
  have a: "transfer_step open_lib demo_start demo_offered"
    unfolding demo_offered_def by (rule step_create [OF demo_actors(1) [OF refl]]) (rule prod.collapse [symmetric])
  have b: "transfer_step open_lib demo_offered demo_moved"
    unfolding demo_moved_def by (rule step_confirm [OF demo_actors(2) [OF demo_publishers(1)]]) (rule prod.collapse [symmetric])
  show "(transfer_step open_lib)\<^sup>*\<^sup>* demo_start demo_offered" "(transfer_step open_lib)\<^sup>*\<^sup>* demo_start demo_moved"
    using a b by (blast, meson rtranclp.simps)
qed

lemma demo_sweep:
  "(transfer_step open_lib)\<^sup>*\<^sup>* demo_moved (snd (expire_due_transfers (\<lambda>_ _. True) (\<lambda>_. 200000000) (\<lambda>_ _. False) 0 0 demo_moved))"
  by (rule r_into_rtranclp, rule step_sweep, rule prod.collapse [symmetric])

theorem ownership_tables_sound_witness: "ownership_ok open_lib demo_moved"
  by (rule ownership_tables_sound [OF demo_untouched demo_steps(2)])

theorem ended_transfer_stays_witness:
  "\<exists>t. t \<in> set (transfers (snd (expire_due_transfers (\<lambda>_ _. True) (\<lambda>_. 200000000) (\<lambda>_ _. False) 0 0 demo_moved))) \<and>
     tr_status t = Tr_completed"
proof -
  obtain t where t: "transfers demo_moved = [t]" "tr_status t = Tr_completed" using demo_statuses(2) by (auto simp: map_eq_Cons_conv)
  have "t \<in> set (transfers (snd (expire_due_transfers (\<lambda>_ _. True) (\<lambda>_. 200000000) (\<lambda>_ _. False) 0 0 demo_moved)))"
    by (rule ended_transfer_stays [OF demo_untouched demo_steps(2) demo_sweep]) (simp_all add: t is_live_def)
  then show ?thesis using t(2) by blast
qed


theorem sweep_expires_all_witness:
  "\<exists>db'. expire_due_transfers (\<lambda>_ _. True) (\<lambda>_. 200000000) (\<lambda>_ _. False) 0 0 demo_offered =
     (Ok (length (due (\<lambda>_. False) 200000000 (transfers demo_offered))), db') \<and> publishers db' = publishers demo_start"
proof -
  obtain t where "transfers demo_offered = [t]" using demo_statuses(1) by (auto simp: map_eq_Cons_conv)
  then have "distinct (map tr_id (transfers demo_offered))" by simp
  from sweep_expires_all [OF this, of 200000000 "\<lambda>_. False" 0 0] show ?thesis by (auto simp: demo_publishers)
qed

definition second_offer :: create_request where
  "second_offer = demo_offer\<lparr>ct_expires := 500, ct_nonce := nonce_b, ct_signed_at := 200\<rparr>"

lemma second_offer_facts:
  "validate_create open_lib (sanitize_create open_lib second_offer)"
  "map (\<lambda>t. past_due 200000000 t) (transfers demo_offered) = [True]" "map tr_contract (transfers demo_offered) = [10]"
  "case offer_row open_lib demo_env (\<lambda>_. True) 200000000 200000000 21 (demo_actor alice 1) ''c'' (sanitize_create open_lib second_offer)
     (demo_start\<lparr>transfers := []\<rparr>) of Inl _ \<Rightarrow> False | Inr t \<Rightarrow> tr_contract t = 10"
  by code_simp+

theorem stale_offer_blocks_witness:
  "create_ownership_transfer open_lib demo_env (\<lambda>_. True) 200000000 200000000 21 (demo_actor alice 1) ''c'' second_offer demo_offered =
     (Err (Api_error 409 ''DuplicateTransfer''), demo_offered)"
proof -
  obtain u where u: "transfers demo_offered = [u]" "past_due 200000000 u" "tr_contract u = 10"
    using second_offer_facts(2,3) by (auto simp: map_eq_Cons_conv)
  obtain t where t: "offer_row open_lib demo_env (\<lambda>_. True) 200000000 200000000 21 (demo_actor alice 1) ''c''
      (sanitize_create open_lib second_offer) (demo_start\<lparr>transfers := []\<rparr>) = Ok t" "tr_contract t = 10"
    using second_offer_facts(4) by (auto split: sum.splits)
  have "offer_row open_lib demo_env (\<lambda>_. True) 200000000 200000000 21 (demo_actor alice 1) ''c'' (sanitize_create open_lib second_offer)
      (demo_offered\<lparr>transfers := filter (\<lambda>t. \<not> past_due 200000000 t) (transfers demo_offered)\<rparr>) = Ok t"
    using t(1) u(1,2) by (simp add: offer_row_def demo_publishers)
  then show ?thesis by (rule stale_offer_blocks) (use second_offer_facts(1) u t(2) in simp_all)
qed

theorem payload_determines_message_witness:
  "\<exists>!m. message_ok m \<and> message_text open_lib m = message_text open_lib (Decide Accept 20 10 ''GA'' ''GB'' nonce_a nonce_b (- 2))"
proof -
  have lib: "uuid_text_ok open_lib"
    using dec_inj no_char_in_dec [of "CHR '':''"] by (simp add: uuid_text_ok_def open_lib_def inj_def is_digit_def)
  have ok: "message_ok (Decide Accept 20 10 ''GA'' ''GB'' nonce_a nonce_b (- 2))" by simp
  show ?thesis
  proof (rule ex1I)
    show "message_ok (Decide Accept 20 10 ''GA'' ''GB'' nonce_a nonce_b (- 2)) \<and>
        message_text open_lib (Decide Accept 20 10 ''GA'' ''GB'' nonce_a nonce_b (- 2)) =
        message_text open_lib (Decide Accept 20 10 ''GA'' ''GB'' nonce_a nonce_b (- 2))" using ok by blast
  next
    fix m
    assume "message_ok m \<and> message_text open_lib m = message_text open_lib (Decide Accept 20 10 ''GA'' ''GB'' nonce_a nonce_b (- 2))"
    then show "m = Decide Accept 20 10 ''GA'' ''GB'' nonce_a nonce_b (- 2)"
      using payload_determines_message [OF lib _ ok] by blast
  qed
qed

end
