(* ===== verification/Gated_Updates.thy ===== *)
theory Gated_Updates
  imports Ownership_Runs Multisig_Runs
begin

text \<open>
  The two updates behind the multisignature gate, in \<open>handlers.rs\<close>: the direct change of a contract's publisher and the
  change of its verification status. Neither is a transaction: each statement is done when it returns, and
  what was written before a failing one stays.
\<close>

section \<open>The direct change of a publisher\<close>

text \<open>\<open>INSERT ... ON CONFLICT (stellar_address) DO UPDATE ... RETURNING\<close>.\<close>

definition upsert_publisher :: "uuid \<Rightarrow> string \<Rightarrow> publisher_row list \<Rightarrow> publisher_row \<times> publisher_row list" where
  "upsert_publisher new_id address rows =
     (case row_get pb_address rows address of
        Some p \<Rightarrow> (p, rows)
      | None \<Rightarrow> (let p = \<lparr>pb_id = new_id, pb_address = address\<rparr> in (p, rows @ [p])))"

definition change_contract_publisher ::
  "transfer_lib \<Rightarrow> (transfer_stmt \<Rightarrow> bool) \<Rightarrow> (msig_stmt \<Rightarrow> bool) \<Rightarrow> time \<Rightarrow> uuid \<Rightarrow> policy_actor \<Rightarrow> string \<Rightarrow> string option \<Rightarrow>
   string \<Rightarrow> multisig \<Rightarrow> ownership \<Rightarrow> (api_error + owned_contract) \<times> ownership" where
  "change_contract_publisher lib ok mok now new_id actor path header address_text msig db =
     (let address = to_upper lib (trim address_text) in
      if \<not> validate_stellar_address address then (Err validation_error, db)
      else case and_then (ok_or (Api_error 400 ''InvalidContractId'') (parse_uuid lib path)) (\<lambda>contract_id.
           and_then (unless (\<not> ok Lock_contract) database_error) (\<lambda>_.
           and_then (ok_or (Api_error 404 ''ContractNotFound'') (row_get oc_id (contracts db) contract_id)) (\<lambda>before.
           and_then (require_contract_owner actor (oc_owner before)) (\<lambda>_.
           and_then (actor_publisher actor) (\<lambda>actor_id.
           and_then (require_multisig_approval mok (parse_uuid lib) now header (oc_address before) msig) (\<lambda>_.
           and_then (unless (\<not> ok Select_publisher) database_error) (\<lambda>_.
           and_then (ok_or database_error (row_get pb_id (publishers db) (oc_owner before))) (\<lambda>_.
           Ok (before, actor_id))))))))) of
        Inl e \<Rightarrow> (Err e, db)
      | Inr (before, actor_id) \<Rightarrow>
          if \<not> ok Insert_publisher then (Err database_error, db)
          else
            let (p, rows) = upsert_publisher new_id address (publishers db);
                db1 = db\<lparr>publishers := rows\<rparr>;
                db2 = db1\<lparr>contracts := row_upd oc_id (contracts db) (oc_id before) (move_owner (pb_id p))\<rparr>
            in if \<not> ok Update_contract then (Err database_error, db1)
               else if oc_owner before = pb_id p then (Ok (move_owner (pb_id p) before), db2)
               else if \<not> ok Insert_audit_row then (Err database_error, db2)
               else (Ok (move_owner (pb_id p) before),
                     db2\<lparr>contract_audit := contract_audit db @ [(oc_id before, actor_id, ''publisher_changed'')]\<rparr>))"

section \<open>The change of a status\<close>

record status_row =
  sr_id :: uuid
  sr_address :: string
  sr_owner :: uuid
  sr_verified :: bool
  sr_verified_at :: "time option"
  sr_status :: string
  sr_verified_by :: "uuid option"
  sr_notes :: "string option"

text \<open>A verification keeps its contract, status and note; the audit log the actor; an interaction its kind.\<close>

record status_db =
  status_rows :: "status_row list"
  verifications :: "(uuid \<times> string \<times> time option \<times> string option) list"
  status_audit :: "(uuid \<times> uuid) list"
  interactions :: "(uuid \<times> string) list"

datatype status_stmt =
    Select_contract | Select_previous | Insert_verification | Update_status | Insert_status_audit | Insert_interaction | Select_after

record status_request =
  sq_status :: string
  sq_error :: "string option"
  sq_user :: "uuid option"

definition set_status :: "time \<Rightarrow> string \<Rightarrow> status_request \<Rightarrow> status_row \<Rightarrow> status_row" where
  "set_status now status r c =
     c\<lparr>sr_verified := (status = ''verified''),
       sr_verified_at := (if status = ''verified'' then Some now else sr_verified_at c),
       sr_status := status, sr_verified_by := sq_user r, sr_notes := sq_error r\<rparr>"

definition last_status :: "uuid \<Rightarrow> (uuid \<times> string \<times> time option \<times> string option) list \<Rightarrow> string" where
  "last_status i vs = (case find (\<lambda>v. fst v = i) (rev vs) of Some (_, s, _) \<Rightarrow> s | None \<Rightarrow> ''pending'')"

text \<open>No identity is asked for: \<open>sq_user\<close> is a field of the request.\<close>

definition update_contract_status ::
  "transfer_lib \<Rightarrow> (string \<Rightarrow> bool) \<Rightarrow> (status_stmt \<Rightarrow> bool) \<Rightarrow> (msig_stmt \<Rightarrow> bool) \<Rightarrow> time \<Rightarrow> string \<Rightarrow> string option \<Rightarrow>
   status_request \<Rightarrow> multisig \<Rightarrow> status_db \<Rightarrow> (api_error + string \<times> bool) \<times> status_db" where
  "update_contract_status lib no_xss ok mok now path header request msig db =
     (let r = request\<lparr>sq_status := to_upper lib (trim (sq_status request)), sq_error := trim_optional (sq_error request)\<rparr>;
          status = ascii_lower (sq_status r)
      in
      if sq_status r = [] \<or> (case sq_error r of Some m \<Rightarrow> \<not> no_xss m | None \<Rightarrow> False) then (Err validation_error, db)
      else if status \<noteq> ''pending'' \<and> status \<noteq> ''verified'' \<and> status \<noteq> ''failed''
      then (Err (Api_error 400 ''InvalidStatus''), db)
      else case and_then (ok_or (Api_error 400 ''InvalidContractId'') (parse_uuid lib path)) (\<lambda>contract_id.
           and_then (unless (\<not> ok Select_contract) database_error) (\<lambda>_.
           and_then (ok_or (Api_error 404 ''ContractNotFound'') (row_get sr_id (status_rows db) contract_id)) (\<lambda>c.
           and_then (require_multisig_approval mok (parse_uuid lib) now header (sr_address c) msig) (\<lambda>_.
           and_then (unless (\<not> ok Select_previous) database_error) (\<lambda>_.
           Ok c))))) of
        Inl e \<Rightarrow> (Err e, db)
      | Inr c \<Rightarrow>
          let i = sr_id c; verified = (status = ''verified'');
              db1 = db\<lparr>verifications := verifications db @ [(i, status, if verified then Some now else None, sq_error r)]\<rparr>;
              db2 = db1\<lparr>status_rows := row_upd sr_id (status_rows db) i (set_status now status r)\<rparr>;
              changed = (last_status i (verifications db) \<noteq> status \<or> sr_verified c \<noteq> verified);
              db3 = (if changed then db2\<lparr>status_audit := status_audit db @ [(i, unwrap_or (sq_user r) (sr_owner c))]\<rparr> else db2)
          in if \<not> ok Insert_verification then (Err database_error, db)
             else if \<not> ok Update_status then (Err database_error, db1)
             else if changed \<and> \<not> ok Insert_status_audit then (Err database_error, db2)
             else if status \<noteq> ''pending'' \<and> \<not> ok Insert_interaction then (Err database_error, db3)
             else
               let db4 = (if status = ''pending'' then db3
                     else db3\<lparr>interactions := interactions db @
                            [(i, if verified then ''publish_success'' else ''publish_failed'')]\<rparr>)
               in if \<not> ok Select_after then (Err database_error, db4) else (Ok (status, verified), db4))"

section \<open>Who can change a status\<close>

lemma accepted_update:
  assumes "row_get sr_id (status_rows db) i = Some c" "parse_uuid lib path = Some i"
    "require_multisig_approval (\<lambda>_. True) (parse_uuid lib) now header (sr_address c) msig = Ok ()"
    "to_upper lib ''verified'' = ''VERIFIED''"
  shows "\<exists>db'. update_contract_status lib no_xss (\<lambda>_. True) (\<lambda>_. True) now path header
      \<lparr>sq_status = ''verified'', sq_error = None, sq_user = user\<rparr> msig db = (Ok (''verified'', True), db') \<and>
    row_get sr_id (status_rows db') i = Some (set_status now ''verified'' \<lparr>sq_status = ''VERIFIED'', sq_error = None, sq_user = user\<rparr> c)"
proof -
  have low: "ascii_lower ''VERIFIED'' = ''verified''" and tr: "trim ''verified'' = ''verified''" by code_simp+
  have i: "sr_id c = i" using row_get_key [OF assms(1)] by simp
  have get: "row_get sr_id (row_upd sr_id (status_rows db) i (set_status n st r)) i = Some (set_status n st r c)" for n st r
    using row_get_update_where [where key = sr_id and f = "set_status n st r" and p = "\<lambda>r. sr_id r = i"] assms(1) i
    by (simp add: row_upd_def set_status_def)
  show ?thesis
    using assms get by (simp add: update_contract_status_def low tr i trim_optional_def Let_def)
qed

text \<open>
  C39. Anyone can verify any contract: with no token at all, for every contract of the registry with an address of the right
  shape, a caller who makes a policy of one signer, proposes a deployment for that address and signs it in the signer's
  name, unsigned, can then set the contract's status to verified, in the name of any user they like.
\<close>

theorem anyone_verifies_contract:
  assumes "msig_step\<^sup>*\<^sup>* empty_multisig msig" "mid \<notin> mp_id ` set (policies msig)" "pid \<notin> pr_id ` set (proposals msig)"
    and "validate_stellar_address a" "validate_contract_id (sr_address c)" "validate_wasm_hash w" "trim a = a"
      "trim (sr_address c) = sr_address c" "no_xss ''p''" "no_xss ''n''"
    and "row_get sr_id (status_rows db) i = Some c" "parse_uuid lib path = Some i" "parse_uuid lib h = Some pid"
      "to_upper lib ''verified'' = ''VERIFIED''" "now < later" "later < now + 86400000000"
  shows "\<exists>db' c'. update_contract_status lib no_xss (\<lambda>_. True) (\<lambda>_. True) later path (Some h)
      \<lparr>sq_status = ''verified'', sq_error = None, sq_user = user\<rparr>
      (own_approval no_xss now mid pid a (sr_address c) w msig) db = (Ok (''verified'', True), db') \<and>
    row_get sr_id (status_rows db') i = Some c' \<and> sr_verified c' \<and> sr_verified_by c' = user"
proof -
  have gate: "require_multisig_approval (\<lambda>_. True) (parse_uuid lib) later (Some h) (sr_address c)
      (own_approval no_xss now mid pid a (sr_address c) w msig) = Ok ()"
    by (rule self_made_quorum) (fact assms)+
  show ?thesis
    using accepted_update [OF assms(11,12) gate assms(14), where no_xss = no_xss and user = user]
    by (auto simp: set_status_def)
qed

text \<open>The direct change of a publisher takes the token of the owner and such a proposal, and no second party.\<close>

lemma owner_moves_alone:
  assumes "require_multisig_approval (\<lambda>_. True) (parse_uuid lib) now header (oc_address k) msig = Ok ()"
    "row_get oc_id (contracts db) i = Some k" "parse_uuid lib path = Some i" "actor_publisher actor = Ok (oc_owner k)"
    "row_get pb_id (publishers db) (oc_owner k) = Some own" "row_get pb_address (publishers db) new = Some p"
    "to_upper lib (trim new) = new" "validate_stellar_address new"
  shows "\<exists>db'. change_contract_publisher lib (\<lambda>_. True) (\<lambda>_. True) now new_id actor path header new msig db =
      (Ok (move_owner (pb_id p) k), db') \<and>
    row_get oc_id (contracts db') i = Some (move_owner (pb_id p) k) \<and> transfers db' = transfers db"
proof -
  have k: "oc_id k = i" using row_get_key [OF assms(2)] by simp
  have "row_get oc_id (row_upd oc_id (contracts db) i (move_owner (pb_id p))) i = Some (move_owner (pb_id p) k)"
    using row_get_update_where [where key = oc_id and f = "move_owner (pb_id p)" and p = "\<lambda>r. oc_id r = i"] assms(2) k
    by (simp add: row_upd_def move_owner_def)
  moreover have "require_contract_owner actor (oc_owner k) = Ok ()" using assms(4) by (simp add: require_contract_owner_def)
  ultimately show ?thesis
    using assms k by (simp add: change_contract_publisher_def upsert_publisher_def Let_def)
qed

section \<open>Witness\<close>

definition demo_status_row :: status_row where
  "demo_status_row = \<lparr>sr_id = 10, sr_address = contract_c, sr_owner = 1, sr_verified = False, sr_verified_at = None,
     sr_status = ''pending'', sr_verified_by = None, sr_notes = None\<rparr>"

definition demo_status_db :: status_db where
  "demo_status_db = \<lparr>status_rows = [demo_status_row], verifications = [], status_audit = [], interactions = []\<rparr>"

definition shout_lib :: transfer_lib where
  "shout_lib = open_lib\<lparr>to_upper := (\<lambda>s. if s = ''verified'' then ''VERIFIED'' else s)\<rparr>"

theorem anyone_verifies_contract_witness:
  "\<exists>db' c'. update_contract_status shout_lib (\<lambda>_. True) (\<lambda>_. True) (\<lambda>_. True) 1 ''c'' (Some ''t'')
      \<lparr>sq_status = ''verified'', sq_error = None, sq_user = Some 7\<rparr>
      (own_approval (\<lambda>_. True) 0 1 20 addr_a (sr_address demo_status_row) wasm_w empty_multisig) demo_status_db = (Ok (''verified'', True), db') \<and>
    row_get sr_id (status_rows db') 10 = Some c' \<and> sr_verified c' \<and> sr_verified_by c' = Some 7"
  by (rule anyone_verifies_contract [OF rtranclp.rtrancl_refl])
    (simp_all add: addr_ok empty_multisig_def demo_status_row_def demo_status_db_def row_get_def shout_lib_def open_lib_def)

end
