(* ===== verification/Db_Resilience.thy ===== *)
theory Db_Resilience
  imports Prelude
begin

text \<open>
  The resilience layer of \<open>backend/api/src/db_resilience.rs\<close>: the circuit breaker that the pings of the database
  drive, the queue of requests for a permit, and the middleware in front of both. The background task is
  the only caller of the breaker's updates. Requests run side by side: each is a thread whose atomic
  operations are steps, and the counters are 64-bit words. Times are in milliseconds.
\<close>

section \<open>The circuit breaker\<close>

datatype breaker_state = Closed | Open | Half_open

record breaker =
  br_state :: breaker_state
  br_failures :: "32 word"
  br_changed :: nat

record breaker_config =
  failure_threshold :: "32 word"
  recovery_time :: nat

definition new_breaker :: "nat \<Rightarrow> breaker" where
  "new_breaker now = \<lparr>br_state = Closed, br_failures = 0, br_changed = now\<rparr>"

definition is_open :: "breaker \<Rightarrow> bool" where
  "is_open b \<longleftrightarrow> br_state b = Open"

definition record_success :: "nat \<Rightarrow> breaker \<Rightarrow> breaker" where
  "record_success now b =
     (let b1 = b\<lparr>br_failures := 0\<rparr>
      in if br_state b1 \<noteq> Closed then b1\<lparr>br_state := Closed, br_changed := now\<rparr> else b1)"

definition record_failure :: "breaker_config \<Rightarrow> nat \<Rightarrow> breaker \<Rightarrow> breaker" where
  "record_failure cfg now b =
     (let failures = br_failures b + 1; b1 = b\<lparr>br_failures := failures\<rparr>
      in if br_state b1 = Closed \<and> failure_threshold cfg \<le> failures \<or> br_state b1 = Half_open
         then b1\<lparr>br_state := Open, br_changed := now\<rparr> else b1)"

definition check_recovery :: "breaker_config \<Rightarrow> nat \<Rightarrow> breaker \<Rightarrow> breaker" where
  "check_recovery cfg now b =
     (if br_state b = Open \<and> recovery_time cfg \<le> now - br_changed b
      then \<lparr>br_state = Half_open, br_failures = 0, br_changed = now\<rparr> else b)"

text \<open>One cycle of the background task: when it starts, when a ping made then ends, and whether that succeeds.\<close>

definition ping_cycle :: "breaker_config \<Rightarrow> nat \<times> nat \<times> bool \<Rightarrow> breaker \<Rightarrow> breaker" where
  "ping_cycle cfg ping b =
     (let (now, fin, healthy) = ping; b1 = check_recovery cfg now b
      in if br_state b1 = Open then b1
         else if healthy then record_success fin b1 else record_failure cfg fin b1)"

definition ping_run :: "breaker_config \<Rightarrow> (nat \<times> nat \<times> bool) list \<Rightarrow> breaker \<Rightarrow> breaker" where
  "ping_run cfg pings b = fold (ping_cycle cfg) pings b"

lemma ping_run_snoc: "ping_run cfg (ps @ [p]) b = ping_cycle cfg p (ping_run cfg ps b)"
  by (simp add: ping_run_def)

lemma ping_run_Cons: "ping_run cfg (p # ps) b = ping_run cfg ps (ping_cycle cfg p b)"
  by (simp add: ping_run_def)

lemma unat_succ: "n < 2 ^ 32 - 1 \<Longrightarrow> unat (a :: 32 word) = n \<Longrightarrow> unat (a + 1) = Suc n"
  by (simp add: unat_word_ariths)

text \<open>
  What the counter means while the breaker is closed: the last pings, that many, failed. Once open it
  stays so after enough of them in a row.
\<close>

definition failed_last :: "nat \<Rightarrow> (nat \<times> nat \<times> bool) list \<Rightarrow> bool" where
  "failed_last n ps \<longleftrightarrow> n \<le> length ps \<and> list_all (\<lambda>p. \<not> snd (snd p)) (drop (length ps - n) ps)"

lemma failed_last_0 [simp]: "failed_last 0 ps"
  by (simp add: failed_last_def)

lemma failed_last_Suc: "failed_last n ps \<Longrightarrow> \<not> snd (snd p) \<Longrightarrow> failed_last (Suc n) (ps @ [p])"
  by (auto simp: failed_last_def)

definition outage_seen :: "nat \<Rightarrow> (nat \<times> nat \<times> bool) list \<Rightarrow> bool" where
  "outage_seen n ps \<longleftrightarrow> (\<exists>pre post. ps = pre @ post \<and> failed_last n pre)"

lemma outage_seen_append: "outage_seen n ps \<Longrightarrow> outage_seen n (ps @ qs)"
  unfolding outage_seen_def by (metis append.assoc)

lemma outage_seen_now: "failed_last n ps \<Longrightarrow> outage_seen n ps"
  unfolding outage_seen_def by (metis append_Nil2)

lemma breaker_counts:
  assumes "0 < unat (failure_threshold cfg)"
  shows "let b = ping_run cfg ps (new_breaker t0) in
    (br_state b = Closed \<longrightarrow> failed_last (unat (br_failures b)) ps \<and> unat (br_failures b) < unat (failure_threshold cfg)) \<and>
    (br_state b \<noteq> Closed \<longrightarrow> outage_seen (unat (failure_threshold cfg)) ps)"
proof (induction ps rule: rev_induct)
  case Nil
  then show ?case using assms by (simp add: ping_run_def new_breaker_def)
next
  case (snoc p ps)
  let ?b = "ping_run cfg ps (new_breaker t0)"
  obtain now fin h where p: "p = (now, fin, h)" by (cases p)
  show ?case
  proof (cases "br_state ?b")
    case Closed
    then have ih: "failed_last (unat (br_failures ?b)) ps" "unat (br_failures ?b) < unat (failure_threshold cfg)"
      using snoc by (simp_all add: Let_def)
    have chk: "check_recovery cfg now ?b = ?b" by (simp add: check_recovery_def Closed)
    show ?thesis
    proof (cases h)
      case True
      then show ?thesis
        using assms by (simp add: ping_run_snoc ping_cycle_def p chk Closed record_success_def Let_def)
    next
      case False
      have "unat (br_failures ?b) < 2 ^ 32 - 1" using ih(2) unat_lt_exp [of "failure_threshold cfg"] by simp
      then have n: "unat (br_failures ?b + 1) = Suc (unat (br_failures ?b))" by (rule unat_succ) simp
      have fl: "failed_last (Suc (unat (br_failures ?b))) (ps @ [p])"
        by (rule failed_last_Suc [OF ih(1)]) (simp add: p False)
      have le: "failure_threshold cfg \<le> br_failures ?b + 1 \<longleftrightarrow> unat (failure_threshold cfg) \<le> Suc (unat (br_failures ?b))"
        by (simp add: word_le_nat_alt n)
      show ?thesis
      proof (cases "failure_threshold cfg \<le> br_failures ?b + 1")
        case True
        then have "Suc (unat (br_failures ?b)) = unat (failure_threshold cfg)" using le ih(2) by simp
        then have "outage_seen (unat (failure_threshold cfg)) (ps @ [p])" using outage_seen_now [OF fl] by simp
        then show ?thesis
          using True False by (simp add: ping_run_snoc ping_cycle_def p chk Closed record_failure_def Let_def)
      next
        case less: False
        then have ult: "\<not> unat (failure_threshold cfg) \<le> Suc (unat (br_failures ?b))"
            "Suc (unat (br_failures ?b)) < unat (failure_threshold cfg)" using le by simp_all
        then show ?thesis
          using False fl n by (simp add: ping_run_snoc ping_cycle_def p chk Closed record_failure_def Let_def le ult)
      qed
    qed
  next
    case Open
    then have "outage_seen (unat (failure_threshold cfg)) (ps @ [p])" using snoc outage_seen_append by (simp add: Let_def)
    then show ?thesis
      using Open assms by (simp add: ping_run_snoc ping_cycle_def p check_recovery_def record_success_def record_failure_def Let_def)
  next
    case Half_open
    then have "outage_seen (unat (failure_threshold cfg)) (ps @ [p])" using snoc outage_seen_append by (simp add: Let_def)
    then show ?thesis
      using Half_open assms by (simp add: ping_run_snoc ping_cycle_def p check_recovery_def record_success_def record_failure_def Let_def)
  qed
qed

text \<open>
  The breaker opens only on an outage: with a threshold above zero, whenever it is open after some cycles of the
  background task, as many cycles in a row as the threshold found the database failing.
\<close>

theorem open_after_outage:
  assumes "0 < unat (failure_threshold cfg)" "is_open (ping_run cfg ps (new_breaker t0))"
  shows "\<exists>pre fs post. ps = pre @ fs @ post \<and> length fs = unat (failure_threshold cfg) \<and> (\<forall>p \<in> set fs. \<not> snd (snd p))"
proof -
  have "outage_seen (unat (failure_threshold cfg)) ps"
    using breaker_counts [OF assms(1), of ps t0] assms(2) by (simp add: Let_def is_open_def)
  then obtain pre post where ps: "ps = pre @ post" "failed_last (unat (failure_threshold cfg)) pre"
    by (auto simp: outage_seen_def)
  let ?k = "length pre - unat (failure_threshold cfg)"
  have "ps = take ?k pre @ drop ?k pre @ post" using ps(1) by (metis append.assoc append_take_drop_id)
  moreover have "length (drop ?k pre) = unat (failure_threshold cfg)" using ps(2) by (simp add: failed_last_def)
  moreover have "\<forall>p \<in> set (drop ?k pre). \<not> snd (snd p)" using ps(2) by (simp add: failed_last_def list_all_iff)
  ultimately show ?thesis by blast
qed

lemma healthy_stays_closed:
  "br_state b = Closed \<Longrightarrow> \<forall>p \<in> set ps. snd (snd p) \<Longrightarrow> br_state (ping_run cfg ps b) = Closed"
proof (induction ps arbitrary: b)
  case (Cons p ps)
  obtain now fin h where "p = (now, fin, h)" by (cases p)
  then have "br_state (ping_cycle cfg p b) = Closed"
    using Cons.prems by (simp add: ping_cycle_def check_recovery_def record_success_def Let_def)
  then show ?case using Cons by (simp add: ping_run_Cons)
qed (simp add: ping_run_def)

text \<open>
  C38. The breaker heals: from any state, once the database answers every ping, the first cycle that comes at least the
  recovery time after the last change closes the breaker, and it stays closed as long as the pings succeed.
\<close>

theorem breaker_heals:
  assumes "\<forall>p \<in> set ps. snd (snd p)" "p \<in> set ps" "br_changed b + recovery_time cfg \<le> fst p"
  shows "br_state (ping_run cfg ps b) = Closed"
  using assms
proof (induction ps arbitrary: b)
  case (Cons q qs)
  obtain now fin where q: "q = (now, fin, True)" using Cons.prems(1) by (cases q) auto
  show ?case
  proof (cases "br_state (ping_cycle cfg q b) = Closed")
    case True
    then show ?thesis using healthy_stays_closed Cons.prems(1) by (simp add: ping_run_Cons)
  next
    case False
    then have "ping_cycle cfg q b = b" "\<not> br_changed b + recovery_time cfg \<le> now"
      by (auto simp: q ping_cycle_def check_recovery_def record_success_def Let_def split: if_splits)
    then show ?thesis using Cons by (auto simp: ping_run_Cons q)
  qed
qed simp

section \<open>The queue\<close>

text \<open>
  Where a request is: before the test of the queue, past it, waiting for a permit (counted as queued), with or
  without one and still counted, past the wait with its permit, running (counted as active), done but with its
  permit, and at an end: served, refused, timed out, or dropped. A request can be dropped at an await: while it
  waits nothing gives its place in the count back, while it runs the guard does. The semaphore is never closed.
\<close>

datatype pc = Arrived | Admitted | Waiting | Granted | Timed_out | Permitted | Running | Finishing | Served | Refused | Late | Dropped

record db_queue =
  qu_permits :: nat
  qu_queued :: "64 word"
  qu_active :: "64 word"
  qu_threads :: "pc list"

definition new_queue :: "nat \<Rightarrow> db_queue" where
  "new_queue concurrency = \<lparr>qu_permits = concurrency, qu_queued = 0, qu_active = 0, qu_threads = []\<rparr>"

definition is_queue_full :: "64 word \<Rightarrow> db_queue \<Rightarrow> bool" where
  "is_queue_full limit q \<longleftrightarrow> limit \<le> qu_queued q"

definition goto :: "nat \<Rightarrow> pc \<Rightarrow> db_queue \<Rightarrow> db_queue" where
  "goto i p q = q\<lparr>qu_threads := (qu_threads q)[i := p]\<rparr>"

datatype queue_event =
    Arrive | Test nat | Enqueue nat | Grant nat | Expire nat | Leave_late nat | Leave nat | Start nat | Finish nat | Return_permit nat
  | Cancel nat

text \<open>The atomic operations of \<open>acquire\<close>, of the guard and of the clients; \<open>None\<close> where one cannot happen.\<close>

fun queue_step :: "64 word \<Rightarrow> queue_event \<Rightarrow> db_queue \<Rightarrow> db_queue option" where
  "queue_step limit Arrive q = Some (q\<lparr>qu_threads := qu_threads q @ [Arrived]\<rparr>)"
| "queue_step limit (Test i) q =
     (if i < length (qu_threads q) \<and> qu_threads q ! i = Arrived
      then Some (goto i (if is_queue_full limit q then Refused else Admitted) q) else None)"
| "queue_step limit (Enqueue i) q =
     (if i < length (qu_threads q) \<and> qu_threads q ! i = Admitted
      then Some (goto i Waiting (q\<lparr>qu_queued := qu_queued q + 1\<rparr>)) else None)"
| "queue_step limit (Grant i) q =
     (if i < length (qu_threads q) \<and> qu_threads q ! i = Waiting \<and> 0 < qu_permits q
      then Some (goto i Granted (q\<lparr>qu_permits := qu_permits q - 1\<rparr>)) else None)"
| "queue_step limit (Expire i) q =
     (if i < length (qu_threads q) \<and> qu_threads q ! i = Waiting then Some (goto i Timed_out q) else None)"
| "queue_step limit (Leave_late i) q =
     (if i < length (qu_threads q) \<and> qu_threads q ! i = Timed_out
      then Some (goto i Late (q\<lparr>qu_queued := qu_queued q - 1\<rparr>)) else None)"
| "queue_step limit (Leave i) q =
     (if i < length (qu_threads q) \<and> qu_threads q ! i = Granted
      then Some (goto i Permitted (q\<lparr>qu_queued := qu_queued q - 1\<rparr>)) else None)"
| "queue_step limit (Start i) q =
     (if i < length (qu_threads q) \<and> qu_threads q ! i = Permitted
      then Some (goto i Running (q\<lparr>qu_active := qu_active q + 1\<rparr>)) else None)"
| "queue_step limit (Finish i) q =
     (if i < length (qu_threads q) \<and> qu_threads q ! i = Running
      then Some (goto i Finishing (q\<lparr>qu_active := qu_active q - 1\<rparr>)) else None)"
| "queue_step limit (Return_permit i) q =
     (if i < length (qu_threads q) \<and> qu_threads q ! i = Finishing
      then Some (goto i Served (q\<lparr>qu_permits := qu_permits q + 1\<rparr>)) else None)"
| "queue_step limit (Cancel i) q =
     (if i < length (qu_threads q) \<and> qu_threads q ! i = Waiting then Some (goto i Dropped q) else None)"

fun queue_run :: "64 word \<Rightarrow> queue_event list \<Rightarrow> db_queue \<Rightarrow> db_queue option" where
  "queue_run limit [] q = Some q"
| "queue_run limit (e # es) q = (case queue_step limit e q of None \<Rightarrow> None | Some q' \<Rightarrow> queue_run limit es q')"

section \<open>The middleware\<close>

datatype admission = Bypassed | Circuit_open | Queued_up

definition exempt_paths :: "string list" where
  "exempt_paths = [''/health'', ''/health/live'', ''/health/ready'', ''/health/detailed'', ''/metrics'']"

definition admit_request :: "string \<Rightarrow> breaker \<Rightarrow> admission" where
  "admit_request path b = (if path \<in> set exempt_paths then Bypassed else if is_open b then Circuit_open else Queued_up)"

text \<open>The status, the reason and the seconds to retry after, of a request that is not served.\<close>

definition refusal :: "pc \<Rightarrow> (nat \<times> string \<times> nat) option" where
  "refusal p = (case p of Refused \<Rightarrow> Some (503, ''QUEUE_FULL'', 5) | Late \<Rightarrow> Some (503, ''QUEUE_TIMEOUT'', 2) | _ \<Rightarrow> None)"

section \<open>What the counters count\<close>

definition tally :: "(pc \<Rightarrow> bool) \<Rightarrow> db_queue \<Rightarrow> nat" where
  "tally P q = length (filter P (qu_threads q))"

definition in_queue :: "pc \<Rightarrow> bool" where
  "in_queue p \<longleftrightarrow> p = Waiting \<or> p = Granted \<or> p = Timed_out \<or> p = Dropped"

definition holds_permit :: "pc \<Rightarrow> bool" where
  "holds_permit p \<longleftrightarrow> p = Granted \<or> p = Permitted \<or> p = Running \<or> p = Finishing"

lemma length_filter_list_update:
  "i < length xs \<Longrightarrow> length (filter P (xs[i := x])) + of_bool (P (xs ! i)) = length (filter P xs) + of_bool (P x)"
proof (induction xs arbitrary: i)
  case (Cons y ys)
  then show ?case by (cases i) (auto split: if_splits)
qed simp

lemma goto_simps [simp]:
  "qu_threads (goto i p q) = (qu_threads q)[i := p]" "qu_permits (goto i p q) = qu_permits q"
  "qu_queued (goto i p q) = qu_queued q" "qu_active (goto i p q) = qu_active q"
  by (simp_all add: goto_def)

text \<open>The permits are accounted for, and the two counters count, a dropped waiter among the queued.\<close>

definition queue_ok :: "nat \<Rightarrow> db_queue \<Rightarrow> bool" where
  "queue_ok concurrency q \<longleftrightarrow>
     qu_permits q + tally holds_permit q = concurrency \<and> qu_queued q = of_nat (tally in_queue q) \<and>
     qu_active q = of_nat (tally (\<lambda>p. p = Running) q)"

lemma of_nat_tally:
  assumes "i < length (qu_threads q)" "qu_threads q' = (qu_threads q)[i := p]"
  shows "of_nat (tally P q') + of_bool (P (qu_threads q ! i)) = (of_nat (tally P q) + of_bool (P p) :: 64 word)"
proof -
  have "tally P q' + of_bool (P (qu_threads q ! i)) = tally P q + of_bool (P p)"
    using length_filter_list_update [OF assms(1)] assms(2) by (simp add: tally_def)
  then have "(of_nat (tally P q' + of_bool (P (qu_threads q ! i))) :: 64 word) = of_nat (tally P q + of_bool (P p))"
    by (rule arg_cong)
  then show ?thesis by simp
qed

lemma thread_moves_ok:
  assumes "queue_ok concurrency q" "i < length (qu_threads q)" "qu_threads q ! i = old" "qu_threads q' = (qu_threads q)[i := p]"
    and "qu_permits q' + of_bool (holds_permit p) = qu_permits q + of_bool (holds_permit old)"
    and "qu_queued q' + of_bool (in_queue old) = qu_queued q + of_bool (in_queue p)"
    and "qu_active q' + of_bool (old = Running) = qu_active q + of_bool (p = Running)"
  shows "queue_ok concurrency q'"
proof -
  note t = of_nat_tally [OF assms(2,4), unfolded assms(3)]
  have "tally holds_permit q' + of_bool (holds_permit old) = tally holds_permit q + of_bool (holds_permit p)"
    using length_filter_list_update [OF assms(2)] assms(3,4) by (simp add: tally_def)
  then have "qu_permits q' + tally holds_permit q' = concurrency"
    using assms(1,5) unfolding queue_ok_def by linarith
  moreover have "qu_queued q' + of_bool (in_queue old) = of_nat (tally in_queue q') + of_bool (in_queue old)"
    using assms(1,6) t [of in_queue] by (simp add: queue_ok_def)
  moreover have "qu_active q' + of_bool (old = Running) = of_nat (tally (\<lambda>p. p = Running) q') + of_bool (old = Running)"
    using assms(1,7) t [of "\<lambda>p. p = Running"] by (simp add: queue_ok_def)
  ultimately show ?thesis unfolding queue_ok_def by (metis add_right_cancel)
qed

lemmas place_simps = in_queue_def holds_permit_def

lemma queue_step_ok:
  assumes "queue_step limit e q = Some q'" "queue_ok concurrency q"
  shows "queue_ok concurrency q'"
proof (cases e)
  case Arrive
  then show ?thesis using assms by (auto simp: queue_ok_def tally_def place_simps)
qed (use assms in \<open>auto split: if_splits simp: place_simps elim!: thread_moves_ok\<close>)

lemma queue_run_ok: "queue_run limit es q = Some q' \<Longrightarrow> queue_ok concurrency q \<Longrightarrow> queue_ok concurrency q'"
  by (induction es arbitrary: q) (auto split: option.splits dest: queue_step_ok)

lemma new_queue_ok [simp]: "queue_ok concurrency (new_queue concurrency)"
  by (simp add: queue_ok_def new_queue_def tally_def)

lemma tally_mono: "(\<And>p. P p \<Longrightarrow> R p) \<Longrightarrow> tally P q \<le> tally R q"
proof -
  assume "\<And>p. P p \<Longrightarrow> R p"
  then have "length (filter P xs) \<le> length (filter R xs)" for xs by (induction xs) auto
  then show ?thesis by (simp add: tally_def)
qed

text \<open>
  C30. The queue keeps its bound under every interleaving: never more requests run than the concurrency limit, the permits
  left are those no request holds, and the counter of the active requests is exact.
\<close>

theorem concurrency_respected:
  assumes "queue_run limit es (new_queue concurrency) = Some q"
  shows "tally (\<lambda>p. p = Running) q \<le> concurrency \<and> qu_permits q = concurrency - tally holds_permit q \<and>
    qu_active q = of_nat (tally (\<lambda>p. p = Running) q)"
proof -
  have ok: "queue_ok concurrency q" using assms by (rule queue_run_ok) simp
  have "tally (\<lambda>p. p = Running) q \<le> tally holds_permit q" by (rule tally_mono) (simp add: holds_permit_def)
  then show ?thesis using ok unfolding queue_ok_def by linarith
qed

theorem concurrency_respected_witness:
  "\<exists>q. queue_run 1 [Arrive, Arrive, Test 0, Test 1, Enqueue 1, Grant 1, Leave 1, Start 1] (new_queue 1) = Some q \<and>
     tally (\<lambda>p. p = Running) q \<le> 1 \<and> qu_permits q = 1 - tally holds_permit q \<and> qu_active q = of_nat (tally (\<lambda>p. p = Running) q)"
  (is "\<exists>q. queue_run 1 ?es _ = _ \<and> _")
proof -
  obtain q where q: "queue_run 1 ?es (new_queue 1) = Some q" by (simp add: new_queue_def goto_def is_queue_full_def)
  show ?thesis using q concurrency_respected [OF q] by blast
qed

section \<open>Dropped waiters\<close>

text \<open>A queue with as many dropped waiters as its limit is full for good: newcomers are refused.\<close>

definition shut_after :: "nat \<Rightarrow> 64 word \<Rightarrow> db_queue \<Rightarrow> bool" where
  "shut_after n limit q \<longleftrightarrow>
     unat limit \<le> tally (\<lambda>p. p = Dropped) q \<and> n \<le> length (qu_threads q) \<and>
     list_all (\<lambda>p. p = Arrived \<or> p = Refused) (drop n (qu_threads q))"

lemma dropped_queue_is_full:
  assumes "queue_ok concurrency q" "unat limit \<le> tally (\<lambda>p. p = Dropped) q" "length (qu_threads q) < 2 ^ 64"
  shows "is_queue_full limit q"
proof -
  have "tally (\<lambda>p. p = Dropped) q \<le> tally in_queue q" by (rule tally_mono) (simp add: in_queue_def)
  moreover have "tally in_queue q < 2 ^ 64" using assms(3) le_less_trans length_filter_le unfolding tally_def by blast
  then have "unat (qu_queued q) = tally in_queue q" using assms(1) by (simp add: queue_ok_def unat_of_nat)
  ultimately show ?thesis using assms(2) by (simp add: is_queue_full_def word_le_nat_alt)
qed

lemma queue_step_length: "queue_step limit e q = Some q' \<Longrightarrow> length (qu_threads q) \<le> length (qu_threads q')"
  by (cases e) (auto split: if_splits)

lemma queue_run_length: "queue_run limit es q = Some q' \<Longrightarrow> length (qu_threads q) \<le> length (qu_threads q')"
  by (induction es arbitrary: q) (fastforce split: option.splits dest: queue_step_length)+

lemma dropped_stays:
  assumes "i < length (qu_threads q)" "qu_threads q ! i \<noteq> Dropped" "qu_threads q' = (qu_threads q)[i := p]"
  shows "tally (\<lambda>p. p = Dropped) q \<le> tally (\<lambda>p. p = Dropped) q'"
  using length_filter_list_update [OF assms(1), of "\<lambda>p. p = Dropped" p] assms(2,3) by (simp add: tally_def)

lemma list_all_drop_update:
  "list_all P (drop n xs) \<Longrightarrow> (n \<le> i \<Longrightarrow> i < length xs \<Longrightarrow> P x) \<Longrightarrow> list_all P (drop n (xs[i := x]))"
  by (cases "i < length xs") (auto simp: list_all_length nth_list_update)

lemma list_all_drop_nth: "list_all P (drop n xs) \<Longrightarrow> n \<le> i \<Longrightarrow> i < length xs \<Longrightarrow> P (xs ! i)"
  by (auto simp: list_all_length dest!: spec [of _ "i - n"])

lemma shut_after_goto:
  assumes "shut_after n limit q" "i < length (qu_threads q)" "qu_threads q ! i = old" "old \<noteq> Dropped"
    and "qu_threads q' = (qu_threads q)[i := p]" "old = Arrived \<Longrightarrow> p = Refused" "old \<noteq> Refused"
  shows "shut_after n limit q'"
proof -
  have "p = Arrived \<or> p = Refused" if "n \<le> i"
    using list_all_drop_nth [of _ n "qu_threads q" i] that assms unfolding shut_after_def by blast
  then show ?thesis
    using assms dropped_stays [of i q q' p] list_all_drop_update [of _ n "qu_threads q" i p] unfolding shut_after_def by auto
qed

lemma shut_after_step:
  assumes "queue_step limit e q = Some q'" "queue_ok concurrency q" "shut_after n limit q" "length (qu_threads q) < 2 ^ 64"
  shows "shut_after n limit q'"
proof -
  have full: "is_queue_full limit q" using assms by (simp add: dropped_queue_is_full shut_after_def)
  show ?thesis
  proof (cases e)
    case Arrive
    then show ?thesis using assms by (auto simp: shut_after_def tally_def)
  qed (use assms full in \<open>auto split: if_splits elim!: shut_after_goto\<close>)
qed

lemma shut_after_run:
  assumes "queue_run limit es q = Some q'" "queue_ok concurrency q" "shut_after n limit q" "length (qu_threads q') < 2 ^ 64"
  shows "shut_after n limit q'"
  using assms
proof (induction es arbitrary: q)
  case (Cons e es)
  then obtain q1 where q1: "queue_step limit e q = Some q1" "queue_run limit es q1 = Some q'" by (auto split: option.splits)
  have "length (qu_threads q) < 2 ^ 64"
    using queue_step_length [OF q1(1)] queue_run_length [OF q1(2)] Cons.prems(4) by linarith
  then show ?case
    using Cons.IH [OF q1(2)] queue_step_ok [OF q1(1)] shut_after_step [OF q1(1)] Cons.prems by blast
qed simp

text \<open>
  C26. Waiters that are dropped close the service: once as many requests as the queue limit were dropped while they waited
  for a permit, no later request is ever served, whatever happens after and however idle the database is; each is
  refused as soon as it is looked at.
\<close>

theorem dropped_waiters_shut_queue:
  assumes "queue_run limit es (new_queue concurrency) = Some q" "unat limit \<le> tally (\<lambda>p. p = Dropped) q"
    and "queue_run limit later q = Some q'" "length (qu_threads q') < 2 ^ 64"
    and "p \<in> set (drop (length (qu_threads q)) (qu_threads q'))"
  shows "p = Arrived \<or> p = Refused"
proof -
  have "queue_ok concurrency q" using assms(1) by (rule queue_run_ok) simp
  moreover have "shut_after (length (qu_threads q)) limit q" using assms(2) by (simp add: shut_after_def)
  ultimately have "shut_after (length (qu_threads q)) limit q'" using shut_after_run [OF assms(3)] assms(4) by blast
  then show ?thesis using assms(5) by (auto simp: shut_after_def list_all_iff)
qed

theorem dropped_waiters_shut_queue_witness:
  "\<exists>q q'. queue_run 1 [Arrive, Test 0, Enqueue 0, Grant 0, Leave 0, Start 0, Arrive, Test 1, Enqueue 1, Cancel 1] (new_queue 1) = Some q
     \<and> queue_run 1 [Finish 0, Return_permit 0, Arrive, Test 2] q = Some q' \<and> qu_threads q' = [Served, Dropped, qu_threads q' ! 2]
     \<and> (qu_threads q' ! 2 = Arrived \<or> qu_threads q' ! 2 = Refused)"
  (is "\<exists>q q'. queue_run 1 ?es _ = _ \<and> queue_run 1 ?later q = _ \<and> _")
proof -
  obtain q where q: "queue_run 1 ?es (new_queue 1) = Some q" "qu_threads q = [Running, Dropped]" "qu_queued q = 1" 
    by (simp add: new_queue_def goto_def is_queue_full_def)
  then obtain q' where q': "queue_run 1 ?later q = Some q'" "length (qu_threads q') = 3" "qu_threads q' = [Served, Dropped, qu_threads q' ! 2]"
    by (simp add: goto_def is_queue_full_def)
  have "qu_threads q' ! 2 \<in> set (drop (length (qu_threads q)) (qu_threads q'))"
    by (subst q'(3)) (simp add: q(2))
  then have "qu_threads q' ! 2 = Arrived \<or> qu_threads q' ! 2 = Refused"
    using dropped_waiters_shut_queue [OF q(1) _ q'(1)] q(2) q'(2) by (simp add: tally_def)
  then show ?thesis using q(1) q' by blast
qed

text \<open>A limit of zero refuses every request, an idle permit or not.\<close>

lemma zero_limit_refuses: "queue_step 0 (Test i) q = Some q' \<Longrightarrow> qu_threads q' = (qu_threads q)[i := Refused]"
  by (auto simp: is_queue_full_def split: if_splits)

text \<open>The test of the limit and the count are two steps: two requests can pass a limit of one.\<close>

lemma limit_overshot:
  "map_option qu_queued (queue_run 1 [Arrive, Arrive, Test 0, Test 1, Enqueue 0, Enqueue 1] (new_queue 0)) = Some 2"
  by (simp add: new_queue_def goto_def is_queue_full_def)

theorem open_after_outage_witness:
  "\<exists>pre fs post. [(2, 3, False), (4, 5, False), (6, 6, True)] = pre @ fs @ (post :: (nat \<times> nat \<times> bool) list) \<and> length fs = 2 \<and> list_all (\<lambda>p. \<not> snd (snd p)) fs"
proof -
  let ?cfg = "\<lparr>failure_threshold = 2, recovery_time = 10\<rparr>"
  have "is_open (ping_run ?cfg [(2, 3, False), (4, 5, False), (6, 6, True)] (new_breaker 0))"
    by (simp add: is_open_def ping_run_def ping_cycle_def new_breaker_def check_recovery_def record_failure_def record_success_def Let_def)
  from open_after_outage [OF _ this] show ?thesis by (simp add: list_all_iff)
qed

theorem breaker_heals_witness:
  "br_state (ping_run \<lparr>failure_threshold = 2, recovery_time = 10\<rparr> [(6, 7, True), (15, 16, True), (17, 18, True)]
     \<lparr>br_state = Open, br_failures = 5, br_changed = 5\<rparr>) = Closed"
  by (rule breaker_heals [of _ "(15, 16, True)"]) simp_all

end
