(* ===== verification/Signatures.thy ===== *)
theory Signatures
  imports Ownership_Transfer
begin

text \<open>
  Signing keys and signatures of contracts: \<open>backend/api/src/signature_verification.rs\<close>. Keys are registered, rotated
  and revoked, certificates chain them to a root, and the verification puts a check of the signature, served from a cache,
  next to the key's window, the revocations and the chain. Signatures, hashes, base64 and hexadecimal are third-party code
  and a parameter. The routes carry no authentication. Metadata and times of creation are left out.
\<close>

section \<open>A cache of the least recently used\<close>

text \<open>What a client of a cache of verdicts relies on: it holds nothing that was not stored.\<close>

locale verdict_store =
  fixes lookup :: "'k \<Rightarrow> 'c \<Rightarrow> 'v option \<times> 'c"
    and store :: "'k \<Rightarrow> 'v \<Rightarrow> 'c \<Rightarrow> 'c"
    and holds :: "'k \<Rightarrow> 'v \<Rightarrow> 'c \<Rightarrow> bool"
  assumes lookup_holds: "lookup k c = (Some v, c') \<Longrightarrow> holds k v c"
    and lookup_keeps: "lookup k c = (r, c') \<Longrightarrow> holds k' v' c' \<Longrightarrow> holds k' v' c"
    and store_holds: "holds k' v' (store k v c) \<Longrightarrow> k' = k \<and> v' = v \<or> holds k' v' c"
begin

lemma sound_lookup:
  assumes "\<And>k v. holds k v c \<Longrightarrow> P k v" "lookup k c = (r, c')"
  shows "\<And>k v. holds k v c' \<Longrightarrow> P k v" "r = Some v \<Longrightarrow> P k v"
  using assms lookup_keeps lookup_holds by blast+

lemma sound_store:
  assumes "\<And>k v. holds k v c \<Longrightarrow> P k v" "P k v" "holds k' v' (store k v c)"
  shows "P k' v'"
  using assms store_holds by blast

end

text \<open>\<open>lru::LruCache\<close>: the entries, the most recently used first.\<close>

definition CACHE_CAPACITY :: nat where "CACHE_CAPACITY = 10000"

definition lru_get :: "'k \<Rightarrow> ('k \<times> 'v) list \<Rightarrow> 'v option \<times> ('k \<times> 'v) list" where
  "lru_get k c =
     (case map_of c k of
        None \<Rightarrow> (None, c)
      | Some v \<Rightarrow> (Some v, (k, v) # filter (\<lambda>e. fst e \<noteq> k) c))"

definition lru_put :: "'k \<Rightarrow> 'v \<Rightarrow> ('k \<times> 'v) list \<Rightarrow> ('k \<times> 'v) list" where
  "lru_put k v c = take CACHE_CAPACITY ((k, v) # filter (\<lambda>e. fst e \<noteq> k) c)"

interpretation lru: verdict_store lru_get lru_put "\<lambda>k v c. (k, v) \<in> set c"
  by unfold_locales (auto simp: lru_get_def lru_put_def dest: map_of_SomeD map_of_SomeD [OF sym] in_set_takeD split: option.splits)

lemma lru_get_put [simp]: "lru_get k (lru_put k v c) = (Some v, lru_put k v c)"
  by (auto simp: lru_get_def lru_put_def CACHE_CAPACITY_def numeral_eq_Suc intro!: filter_True dest: in_set_takeD)

lemma lru_put_bound: "length (lru_put k v c) \<le> CACHE_CAPACITY"
  by (simp add: lru_put_def)

section \<open>Algorithms\<close>

datatype sig_algorithm = Ed25519 | Secp256k1

definition parse_algorithm :: "string \<Rightarrow> sig_algorithm option" where
  "parse_algorithm s =
     (let t = ascii_lower (trim s) in
      if t = ''ed25519'' then Some Ed25519
      else if t \<in> {''secp256k1'', ''ecdsa'', ''ecdsa-secp256k1'', ''es256k''} then Some Secp256k1
      else None)"

definition algorithm_str :: "sig_algorithm \<Rightarrow> string" where
  "algorithm_str a = (case a of Ed25519 \<Rightarrow> ''ed25519'' | Secp256k1 \<Rightarrow> ''secp256k1'')"

record sig_lib =
  base_lib :: transfer_lib
  sec1_key :: "string \<Rightarrow> bool"
  ecdsa_slice :: "string \<Rightarrow> bool"
  ecdsa_der :: "string \<Rightarrow> bool"
  ecdsa_verify :: "string \<Rightarrow> string \<Rightarrow> string \<Rightarrow> bool"
  sha256_hex :: "string \<Rightarrow> string"
  unhex :: "string \<Rightarrow> string option"

definition verify_secp256k1 :: "sig_lib \<Rightarrow> string \<Rightarrow> string \<Rightarrow> string \<Rightarrow> sig_error + unit" where
  "verify_secp256k1 lib key message signature =
     (if \<not> sec1_key lib key then Err InvalidKey
      else if \<not> ecdsa_slice lib signature \<and> \<not> ecdsa_der lib signature then Err InvalidSignature
      else if \<not> ecdsa_verify lib key message signature then Err VerificationFailed
      else Ok ())"

definition verify_signature :: "sig_lib \<Rightarrow> sig_algorithm \<Rightarrow> string \<Rightarrow> string \<Rightarrow> string \<Rightarrow> sig_error + unit" where
  "verify_signature lib alg key message signature =
     (case alg of
        Ed25519 \<Rightarrow> verify_ed25519 (base_lib lib) key message signature
      | Secp256k1 \<Rightarrow> verify_secp256k1 lib key message signature)"

definition fingerprint :: "sig_lib \<Rightarrow> sig_algorithm \<Rightarrow> string \<Rightarrow> string" where
  "fingerprint lib alg key = sha256_hex lib (algorithm_str alg @ '':'' @ key)"

definition decode_message :: "sig_lib \<Rightarrow> string \<Rightarrow> string option \<Rightarrow> api_error + string" where
  "decode_message lib message encoding =
     (let e = unwrap_or encoding ''hex'' in
      if e = ''hex'' then ok_or (Api_error 400 ''INVALID_MESSAGE'') (unhex lib (trim message))
      else if e = ''base64'' then ok_or (Api_error 400 ''INVALID_MESSAGE'') (unbase64 (base_lib lib) (trim message))
      else if e = ''utf8'' then Ok message
      else Err (Api_error 400 ''INVALID_ENCODING''))"

definition validate_public_key :: "sig_algorithm \<Rightarrow> string \<Rightarrow> api_error + unit" where
  "validate_public_key alg key =
     unless (\<not> (case alg of Ed25519 \<Rightarrow> length key = 32 | Secp256k1 \<Rightarrow> length key = 33 \<or> length key = 65))
       (Api_error 400 ''INVALID_PUBLIC_KEY'')"

section \<open>The cached check\<close>

text \<open>The verdicts with their instants in seconds; \<open>ttl\<close> is read from the environment, 300 by default.\<close>

type_synonym verdicts = "(string \<times> bool \<times> nat) list"

definition cache_ttl_secs :: "string option \<Rightarrow> nat" where
  "cache_ttl_secs setting = (case setting of None \<Rightarrow> 300 | Some s \<Rightarrow> (case parse_u64 s of None \<Rightarrow> 300 | Some n \<Rightarrow> unat n))"

definition cache_key :: "sig_lib \<Rightarrow> sig_algorithm \<Rightarrow> string \<Rightarrow> string \<Rightarrow> string \<Rightarrow> string" where
  "cache_key lib alg key message signature = sha256_hex lib (algorithm_str alg @ key @ message @ signature)"

definition verify_cached ::
  "sig_lib \<Rightarrow> nat \<Rightarrow> nat \<Rightarrow> sig_algorithm \<Rightarrow> string \<Rightarrow> string \<Rightarrow> string \<Rightarrow> verdicts \<Rightarrow> (bool \<times> bool) \<times> verdicts" where
  "verify_cached lib ttl instant alg key message signature cache =
     (let k = cache_key lib alg key message signature;
          (found, cache1) = lru_get k cache;
          fresh = (case found of None \<Rightarrow> None | Some (valid, at) \<Rightarrow> if instant - at < ttl then Some valid else None)
      in case fresh of
           Some valid \<Rightarrow> ((valid, True), cache1)
         | None \<Rightarrow>
             (let valid = is_ok (verify_signature lib alg key message signature)
              in ((valid, False), lru_put k (valid, instant) cache1)))"

section \<open>The tables\<close>

record signing_key =
  sk_key :: string
  sk_owner :: string
  sk_algorithm :: string
  sk_public :: string
  sk_parent :: "string option"
  sk_cert :: "string option"
  sk_root :: bool
  sk_not_before :: time
  sk_not_after :: "time option"
  sk_status :: string
  sk_rotated_to :: "string option"

record revocation =
  rv_key :: string
  rv_reason :: string
  rv_by :: "string option"
  rv_at :: time

record contract_signature =
  cs_contract :: "uuid option"
  cs_ref :: string
  cs_subject :: string
  cs_algorithm :: string
  cs_signature :: string
  cs_key :: string
  cs_signed_at :: time
  cs_not_before :: "time option"
  cs_expires :: "time option"

record signature_db =
  signing_keys :: "signing_key list"
  revocations :: "revocation list"
  stored_signatures :: "contract_signature list"

datatype sig_stmt =
    Load_key | Upsert_key | Begin_rotation | Insert_rotated | Update_rotated | Commit_rotation | Insert_revocation
  | Update_revoked | List_revocations | Insert_stored | List_stored | Count_revocations

definition load_key :: "(sig_stmt \<Rightarrow> bool) \<Rightarrow> string \<Rightarrow> signature_db \<Rightarrow> api_error + signing_key option" where
  "load_key ok k db = (if ok Load_key then Ok (row_get sk_key (signing_keys db) k) else Err (Api_error 500 ''KEY_LOAD_ERROR''))"

definition is_revoked :: "(sig_stmt \<Rightarrow> bool) \<Rightarrow> string \<Rightarrow> signature_db \<Rightarrow> api_error + bool" where
  "is_revoked ok k db =
     (if ok Count_revocations then Ok (\<exists>r \<in> set (revocations db). rv_key r = k)
      else Err (Api_error 500 ''REVOCATION_CHECK_ERROR''))"

section \<open>Keys\<close>

record register_request =
  rg_owner :: string
  rg_algorithm :: string
  rg_public :: string
  rg_parent :: "string option"
  rg_cert :: "string option"
  rg_root :: bool
  rg_not_before :: "time option"
  rg_not_after :: "time option"

text \<open>The algorithm and the bytes of a key in a request.\<close>

definition request_key :: "sig_lib \<Rightarrow> string \<Rightarrow> string \<Rightarrow> api_error + sig_algorithm \<times> string" where
  "request_key lib algorithm public_key =
     and_then (ok_or (Api_error 400 ''UNSUPPORTED_ALGORITHM'') (parse_algorithm algorithm)) (\<lambda>alg.
     and_then (ok_or (Api_error 400 ''INVALID_PUBLIC_KEY'') (unbase64 (base_lib lib) (trim public_key))) (\<lambda>pk.
     and_then (validate_public_key alg pk) (\<lambda>_. Ok (alg, pk))))"

definition reregister :: "register_request \<Rightarrow> signing_key \<Rightarrow> signing_key" where
  "reregister r k =
     k\<lparr>sk_owner := rg_owner r, sk_parent := rg_parent r, sk_cert := rg_cert r, sk_root := rg_root r,
       sk_not_after := rg_not_after r\<rparr>"

text \<open>\<open>INSERT ... ON CONFLICT (key_id) DO UPDATE ... RETURNING\<close>.\<close>

definition upsert_key :: "signing_key \<Rightarrow> (signing_key \<Rightarrow> signing_key) \<Rightarrow> signing_key list \<Rightarrow> signing_key \<times> signing_key list" where
  "upsert_key k change ks =
     (case row_get sk_key ks (sk_key k) of
        None \<Rightarrow> (k, ks @ [k])
      | Some old \<Rightarrow> (change old, row_upd sk_key ks (sk_key k) change))"

definition register_key ::
  "sig_lib \<Rightarrow> (sig_stmt \<Rightarrow> bool) \<Rightarrow> time \<Rightarrow> register_request \<Rightarrow> signature_db \<Rightarrow> (api_error + signing_key) \<times> signature_db" where
  "register_key lib ok now r db =
     (case request_key lib (rg_algorithm r) (rg_public r) of
        Inl e \<Rightarrow> (Err e, db)
      | Inr (alg, pk) \<Rightarrow>
          if \<not> ok Upsert_key then (Err (Api_error 500 ''KEY_REGISTER_ERROR''), db)
          else
            let new_key = \<lparr>sk_key = fingerprint lib alg pk, sk_owner = rg_owner r, sk_algorithm = algorithm_str alg,
                   sk_public = rg_public r, sk_parent = rg_parent r, sk_cert = rg_cert r, sk_root = rg_root r,
                   sk_not_before = unwrap_or (rg_not_before r) now, sk_not_after = rg_not_after r, sk_status = ''active'',
                   sk_rotated_to = None\<rparr>;
                (k, ks) = upsert_key new_key (reregister r) (signing_keys db)
            in (Ok k, db\<lparr>signing_keys := ks\<rparr>))"

definition get_key :: "(sig_stmt \<Rightarrow> bool) \<Rightarrow> string \<Rightarrow> signature_db \<Rightarrow> api_error + signing_key" where
  "get_key ok k db = and_then (load_key ok k db) (ok_or (Api_error 404 ''KEY_NOT_FOUND''))"

record rotate_request =
  rt_algorithm :: string
  rt_public :: string
  rt_cert :: "string option"
  rt_not_after :: "time option"

definition mark_rotated :: "string \<Rightarrow> signing_key \<Rightarrow> signing_key" where
  "mark_rotated to k = k\<lparr>sk_status := ''rotated'', sk_rotated_to := Some to\<rparr>"

definition rotate_key ::
  "sig_lib \<Rightarrow> (sig_stmt \<Rightarrow> bool) \<Rightarrow> time \<Rightarrow> string \<Rightarrow> rotate_request \<Rightarrow> signature_db \<Rightarrow> (api_error + signing_key) \<times> signature_db" where
  "rotate_key lib ok dbnow old_id r db =
     (case and_then (load_key ok old_id db) (ok_or (Api_error 404 ''KEY_NOT_FOUND'')) of
        Inl e \<Rightarrow> (Err e, db)
      | Inr old \<Rightarrow>
      case request_key lib (rt_algorithm r) (rt_public r) of
        Inl e \<Rightarrow> (Err e, db)
      | Inr (alg, pk) \<Rightarrow>
          if \<not> ok Begin_rotation then (Err (Api_error 500 ''ROTATE_TX_ERROR''), db)
          else if \<not> ok Insert_rotated then (Err (Api_error 500 ''ROTATE_INSERT_ERROR''), db)
          else if \<not> ok Update_rotated then (Err (Api_error 500 ''ROTATE_UPDATE_ERROR''), db)
          else if \<not> ok Commit_rotation then (Err (Api_error 500 ''ROTATE_COMMIT_ERROR''), db)
          else
            let new_id = fingerprint lib alg pk;
                new_key = \<lparr>sk_key = new_id, sk_owner = sk_owner old, sk_algorithm = algorithm_str alg, sk_public = rt_public r,
                   sk_parent = sk_parent old, sk_cert = rt_cert r, sk_root = sk_root old, sk_not_before = dbnow,
                   sk_not_after = rt_not_after r, sk_status = ''active'', sk_rotated_to = None\<rparr>;
                (k, ks) = upsert_key new_key (\<lambda>k. k\<lparr>sk_status := ''active''\<rparr>) (signing_keys db)
            in (Ok k, db\<lparr>signing_keys := row_upd sk_key ks old_id (mark_rotated new_id)\<rparr>))"

record revoke_request =
  rk_reason :: "string option"
  rk_by :: "string option"

text \<open>
  The two statements of a revocation commit one by one. \<open>strict\<close> says that the columns \<open>signature_id\<close> and
  \<open>revoked_by\<close> of the table, shared with the signing of packages, are NOT NULL, as \<open>034_package_signing.sql\<close> makes them
  and no later migration changes: the insertion, which gives no \<open>signature_id\<close>, then fails.
\<close>

definition revoke_key ::
  "bool \<Rightarrow> (sig_stmt \<Rightarrow> bool) \<Rightarrow> time \<Rightarrow> string \<Rightarrow> revoke_request option \<Rightarrow> signature_db \<times> verdicts \<Rightarrow>
   (api_error + revocation) \<times> signature_db \<times> verdicts" where
  "revoke_key strict ok dbnow k body s =
     (let (db, cache) = s; r = unwrap_or body \<lparr>rk_reason = None, rk_by = None\<rparr> in
      case get_key ok k db of
        Inl e \<Rightarrow> (Err e, s)
      | Inr _ \<Rightarrow>
          if strict \<or> \<not> ok Insert_revocation then (Err (Api_error 500 ''REVOKE_ERROR''), s)
          else
            let row = \<lparr>rv_key = k, rv_reason = unwrap_or (rk_reason r) [], rv_by = rk_by r, rv_at = dbnow\<rparr>;
                rows = (case row_get rv_key (revocations db) k of
                          None \<Rightarrow> revocations db @ [row]
                        | Some _ \<Rightarrow> row_upd rv_key (revocations db) k (\<lambda>_. row));
                db1 = db\<lparr>revocations := rows\<rparr>
            in if \<not> ok Update_revoked then (Err (Api_error 500 ''REVOKE_UPDATE_ERROR''), db1, cache)
               else (Ok row, db1\<lparr>signing_keys := row_upd sk_key (signing_keys db) k (\<lambda>s. s\<lparr>sk_status := ''revoked''\<rparr>)\<rparr>, []))"

definition list_revocations :: "(sig_stmt \<Rightarrow> bool) \<Rightarrow> signature_db \<Rightarrow> api_error + revocation list" where
  "list_revocations ok db =
     (if ok List_revocations then Ok (take 500 (rev (sort_key rv_at (revocations db))))
      else Err (Api_error 500 ''REVOCATION_LIST_ERROR''))"

section \<open>Stored signatures\<close>

record store_request =
  st_contract :: "uuid option"
  st_ref :: string
  st_subject :: string
  st_algorithm :: string
  st_signature :: string
  st_key :: string
  st_signed_at :: "time option"
  st_not_before :: "time option"
  st_expires :: "time option"

definition store_signature ::
  "(sig_stmt \<Rightarrow> bool) \<Rightarrow> time \<Rightarrow> store_request \<Rightarrow> signature_db \<Rightarrow> (api_error + contract_signature) \<times> signature_db" where
  "store_signature ok now r db =
     (case parse_algorithm (st_algorithm r) of
        None \<Rightarrow> (Err (Api_error 400 ''UNSUPPORTED_ALGORITHM''), db)
      | Some _ \<Rightarrow>
          if \<not> ok Insert_stored then (Err (Api_error 500 ''SIGNATURE_STORE_ERROR''), db)
          else
            let row = \<lparr>cs_contract = st_contract r, cs_ref = st_ref r, cs_subject = st_subject r, cs_algorithm = st_algorithm r,
                   cs_signature = st_signature r, cs_key = st_key r, cs_signed_at = unwrap_or (st_signed_at r) now,
                   cs_not_before = st_not_before r, cs_expires = st_expires r\<rparr>
            in (Ok row, db\<lparr>stored_signatures := stored_signatures db @ [row]\<rparr>))"

definition list_contract_signatures :: "(sig_stmt \<Rightarrow> bool) \<Rightarrow> uuid \<Rightarrow> signature_db \<Rightarrow> api_error + contract_signature list" where
  "list_contract_signatures ok contract db =
     (if ok List_stored
      then Ok (rev (sort_key cs_signed_at (filter (\<lambda>s. cs_contract s = Some contract) (stored_signatures db))))
      else Err (Api_error 500 ''SIGNATURE_LIST_ERROR''))"

section \<open>Chains of certificates\<close>

definition MAX_CHAIN_DEPTH :: nat where "MAX_CHAIN_DEPTH = 10"

definition outside_window :: "time \<Rightarrow> signing_key \<Rightarrow> bool" where
  "outside_window now k \<longleftrightarrow> now < sk_not_before k \<or> (case sk_not_after k of None \<Rightarrow> False | Some t \<Rightarrow> t < now)"

text \<open>The check that the parent signed the key, on the stored texts.\<close>

definition check_certificate ::
  "sig_lib \<Rightarrow> signing_key \<Rightarrow> signing_key \<Rightarrow> string \<Rightarrow> api_error + bool" where
  "check_certificate lib parent child cert =
     and_then (ok_or (Api_error 500 ''BAD_STORED_ALGORITHM'') (parse_algorithm (sk_algorithm parent))) (\<lambda>alg.
     and_then (ok_or (Api_error 500 ''BAD_STORED_KEY'') (unbase64 (base_lib lib) (trim (sk_public parent)))) (\<lambda>parent_pk.
     and_then (ok_or (Api_error 500 ''BAD_STORED_KEY'') (unbase64 (base_lib lib) (trim (sk_public child)))) (\<lambda>child_pk.
     and_then (ok_or (Api_error 500 ''BAD_CERT_SIG'') (unbase64 (base_lib lib) (trim cert))) (\<lambda>sig.
     Ok (is_ok (verify_signature lib alg parent_pk child_pk sig))))))"

text \<open>The loop: the rounds left, the path so far and the current key.\<close>

fun climb_chain ::
  "sig_lib \<Rightarrow> (sig_stmt \<Rightarrow> bool) \<Rightarrow> time \<Rightarrow> signature_db \<Rightarrow> nat \<Rightarrow> string list \<Rightarrow> signing_key \<Rightarrow>
   api_error + bool \<times> string list \<times> string" where
  "climb_chain lib ok now db 0 path k = Ok (False, path, ''certificate chain exceeds maximum depth'')"
| "climb_chain lib ok now db (Suc n) path k =
     (let path = path @ [sk_key k] in
      and_then (is_revoked ok (sk_key k) db) (\<lambda>revoked.
      if revoked \<or> sk_status k = ''revoked'' then Ok (False, path, ''key '' @ sk_key k @ '' is revoked'')
      else if outside_window now k then Ok (False, path, ''key '' @ sk_key k @ '' is outside its validity window'')
      else if sk_root k then Ok (True, path, ''chain anchored to a trusted root'')
      else case sk_parent k of
        None \<Rightarrow> Ok (False, path, ''chain ends without reaching a trusted root'')
      | Some parent_id \<Rightarrow>
      case sk_cert k of
        None \<Rightarrow> Ok (False, path, ''key '' @ sk_key k @ '' has no certificate signature'')
      | Some cert \<Rightarrow>
      and_then (load_key ok parent_id db) (\<lambda>found.
      case found of
        None \<Rightarrow> Ok (False, path, ''parent key '' @ parent_id @ '' not found'')
      | Some parent \<Rightarrow>
      and_then (check_certificate lib parent k cert) (\<lambda>signed.
      if \<not> signed then Ok (False, path, ''invalid certificate signature for key '' @ sk_key k)
      else climb_chain lib ok now db n path parent))))"

definition validate_chain ::
  "sig_lib \<Rightarrow> (sig_stmt \<Rightarrow> bool) \<Rightarrow> time \<Rightarrow> string \<Rightarrow> signature_db \<Rightarrow> api_error + bool \<times> string list \<times> string" where
  "validate_chain lib ok now start db =
     and_then (load_key ok start db) (\<lambda>found.
     case found of
       None \<Rightarrow> Ok (False, [], ''start key not found'')
     | Some k \<Rightarrow> climb_chain lib ok now db MAX_CHAIN_DEPTH [] k)"

section \<open>The verification\<close>

record check_request =
  ck_message :: string
  ck_encoding :: "string option"
  ck_signature :: string
  ck_key :: "string option"
  ck_algorithm :: "string option"
  ck_public :: "string option"
  ck_signed_at :: "time option"
  ck_chain :: bool

record check_response =
  cr_valid :: bool
  cr_algorithm :: string
  cr_key :: string
  cr_revoked :: bool
  cr_in_window :: bool
  cr_chain :: "bool option"
  cr_hit :: bool
  cr_reason :: string

text \<open>The key and its algorithm, from the table or from the request; \<open>key_id\<close> is always there.\<close>

definition resolve_key ::
  "sig_lib \<Rightarrow> (sig_stmt \<Rightarrow> bool) \<Rightarrow> check_request \<Rightarrow> signature_db \<Rightarrow>
   api_error + sig_algorithm \<times> string \<times> signing_key option \<times> string" where
  "resolve_key lib ok r db =
     (case ck_key r of
        Some kid \<Rightarrow>
          and_then (get_key ok kid db) (\<lambda>k.
          and_then (ok_or (Api_error 500 ''BAD_STORED_ALGORITHM'') (parse_algorithm (sk_algorithm k))) (\<lambda>alg.
          and_then (ok_or (Api_error 500 ''BAD_STORED_KEY'') (unbase64 (base_lib lib) (trim (sk_public k)))) (\<lambda>pk.
          Ok (alg, pk, Some k, kid))))
      | None \<Rightarrow>
          and_then (ok_or (Api_error 400 ''MISSING_ALGORITHM'')
              (case ck_algorithm r of None \<Rightarrow> None | Some a \<Rightarrow> parse_algorithm a)) (\<lambda>alg.
          and_then (ok_or (Api_error 400 ''MISSING_PUBLIC_KEY'') (ck_public r)) (\<lambda>text.
          and_then (ok_or (Api_error 400 ''INVALID_PUBLIC_KEY'') (unbase64 (base_lib lib) (trim text))) (\<lambda>pk.
          Ok (alg, pk, None, fingerprint lib alg pk)))))"

definition verdict_reason :: "bool \<Rightarrow> bool \<Rightarrow> bool \<Rightarrow> bool option \<Rightarrow> string" where
  "verdict_reason crypto revoked in_window chain =
     (if \<not> crypto then ''cryptographic verification failed''
      else if revoked then ''signing key is revoked''
      else if \<not> in_window then ''signature timestamp outside key validity window''
      else if chain = Some False then ''certificate chain validation failed''
      else ''signature is valid'')"

text \<open>\<open>now\<close> is the clock, \<open>instant\<close> the monotonic clock of the cache in seconds.\<close>

definition verify ::
  "sig_lib \<Rightarrow> (sig_stmt \<Rightarrow> bool) \<Rightarrow> nat \<Rightarrow> time \<Rightarrow> nat \<Rightarrow> check_request \<Rightarrow> signature_db \<times> verdicts \<Rightarrow>
   (api_error + check_response) \<times> verdicts" where
  "verify lib ok ttl now instant r s =
     (let (db, cache) = s in
      case and_then (decode_message lib (ck_message r) (ck_encoding r)) (\<lambda>message.
           and_then (ok_or (Api_error 400 ''INVALID_SIGNATURE'') (unbase64 (base_lib lib) (trim (ck_signature r)))) (\<lambda>sig.
           and_then (resolve_key lib ok r db) (\<lambda>key.
           and_then (is_revoked ok (snd (snd (snd key))) db) (\<lambda>revoked.
           Ok (message, sig, key, revoked))))) of
        Inl e \<Rightarrow> (Err e, cache)
      | Inr (message, sig, (alg, pk, registered, kid), revoked) \<Rightarrow>
          let at = unwrap_or (ck_signed_at r) now;
              in_window = (case registered of None \<Rightarrow> True | Some k \<Rightarrow> \<not> outside_window at k);
              ((crypto, hit), cache') = verify_cached lib ttl instant alg pk message sig cache
          in case (if ck_chain r then and_then (validate_chain lib ok now kid db) (\<lambda>c. Ok (Some (fst c))) else Ok None) of
               Inl e \<Rightarrow> (Err e, cache')
             | Inr chain \<Rightarrow>
                 (Ok \<lparr>cr_valid = (crypto \<and> \<not> revoked \<and> in_window \<and> unwrap_or chain True), cr_algorithm = algorithm_str alg,
                      cr_key = kid, cr_revoked = revoked, cr_in_window = in_window, cr_chain = chain, cr_hit = hit,
                      cr_reason = verdict_reason crypto revoked in_window chain\<rparr>, cache'))"

end
