(* ===== verification/Signature_Runs.thy ===== *)
theory Signature_Runs
  imports Signatures
begin

text \<open>
  What the verification of signatures means: which keys a chain anchors, what a revocation does and why it is never
  recorded, when the cached verdicts are right and when they are not.
\<close>

section \<open>Chains\<close>

definition key_revoked :: "signature_db \<Rightarrow> string \<Rightarrow> bool" where
  "key_revoked db k \<longleftrightarrow> (\<exists>r \<in> set (revocations db). rv_key r = k)"

lemma key_revoked_image: "key_revoked db k \<longleftrightarrow> k \<in> set (map rv_key (revocations db))"
  by (auto simp: key_revoked_def)

definition live_key :: "time \<Rightarrow> signature_db \<Rightarrow> signing_key \<Rightarrow> bool" where
  "live_key now db k \<longleftrightarrow> \<not> key_revoked db (sk_key k) \<and> sk_status k \<noteq> ''revoked'' \<and> \<not> outside_window now k"

text \<open>A key is trusted by a chain of live keys, each but the last certified by the next, the last a root.\<close>

inductive trusted :: "sig_lib \<Rightarrow> time \<Rightarrow> signature_db \<Rightarrow> nat \<Rightarrow> signing_key \<Rightarrow> bool" for lib now db where
  anchor: "live_key now db k \<Longrightarrow> sk_root k \<Longrightarrow> trusted lib now db 1 k"
| certified: "live_key now db k \<Longrightarrow> \<not> sk_root k \<Longrightarrow> sk_parent k = Some pid \<Longrightarrow> sk_cert k = Some cert \<Longrightarrow>
    row_get sk_key (signing_keys db) pid = Some parent \<Longrightarrow> check_certificate lib parent k cert = Ok True \<Longrightarrow>
    trusted lib now db n parent \<Longrightarrow> trusted lib now db (Suc n) k"

inductive_simps trusted_iff: "trusted lib now db n k"

lemma climb_sound:
  "climb_chain lib ok now db fuel path k = Ok (True, path', why) \<Longrightarrow>
   \<exists>n keys. n \<le> fuel \<and> trusted lib now db n k \<and> path' = path @ keys \<and> list_all (\<lambda>x. \<not> key_revoked db x) keys"
proof (induction fuel arbitrary: path k)
  case (Suc fuel)
  show ?case
  proof (cases "sk_root k")
    case True
    then have "live_key now db k" "path' = path @ [sk_key k]"
      using Suc.prems by (auto simp: is_revoked_def live_key_def key_revoked_def Let_def split: if_splits)
    moreover from this True have "trusted lib now db 1 k" by (intro trusted.anchor)
    moreover have "\<not> key_revoked db (sk_key k)" using calculation by (simp add: live_key_def)
    ultimately show ?thesis by (intro exI [of _ 1] exI [of _ "[sk_key k]"]) simp
  next
    case False
    then obtain pid cert parent where p: "live_key now db k" "sk_parent k = Some pid" "sk_cert k = Some cert"
        "row_get sk_key (signing_keys db) pid = Some parent" "check_certificate lib parent k cert = Ok True"
        "climb_chain lib ok now db fuel (path @ [sk_key k]) parent = Ok (True, path', why)"
      using Suc.prems
      by (auto simp: is_revoked_def load_key_def live_key_def key_revoked_def Let_def split: if_splits option.splits)
    then obtain n keys where "n \<le> fuel" "trusted lib now db n parent" "path' = path @ sk_key k # keys"
        "list_all (\<lambda>x. \<not> key_revoked db x) keys"
      using Suc.IH by fastforce
    then show ?thesis
      using p False by (intro exI [of _ "Suc n"] exI [of _ "sk_key k # keys"]) (auto simp: live_key_def intro: trusted.certified)
  qed
qed simp

lemma climb_complete:
  "trusted lib now db n k \<Longrightarrow> n \<le> fuel \<Longrightarrow>
   \<exists>path' why. climb_chain lib (\<lambda>_. True) now db fuel path k = Ok (True, path', why)"
proof (induction arbitrary: fuel path rule: trusted.induct)
  case (anchor k)
  then show ?case by (cases fuel) (auto simp: is_revoked_def live_key_def key_revoked_def Let_def)
next
  case (certified k pid cert parent n)
  then obtain f where f: "fuel = Suc f" "n \<le> f" by (cases fuel) auto
  then show ?case
    using certified by (simp add: is_revoked_def load_key_def live_key_def key_revoked_def Let_def)
qed

text \<open>
  C8. The chain check is exact: it succeeds for precisely the keys that a chain of at most ten certificates, each signed by the
  next key, all of them unrevoked and within their windows, links to a root.
\<close>

theorem chain_check_exact:
  "(\<exists>path why. validate_chain lib (\<lambda>_. True) now start db = Ok (True, path, why)) \<longleftrightarrow>
   (\<exists>k n. row_get sk_key (signing_keys db) start = Some k \<and> n \<le> 10 \<and> trusted lib now db n k)"
proof (cases "row_get sk_key (signing_keys db) start")
  case (Some k)
  then have "validate_chain lib (\<lambda>_. True) now start db = climb_chain lib (\<lambda>_. True) now db 10 [] k"
    by (simp add: validate_chain_def load_key_def MAX_CHAIN_DEPTH_def)
  moreover have "(\<exists>path why. climb_chain lib (\<lambda>_. True) now db 10 [] k = Ok (True, path, why)) \<longleftrightarrow>
      (\<exists>n \<le> 10. trusted lib now db n k)"
    using climb_sound [of lib "\<lambda>_. True" now db 10 "[]" k] climb_complete [of lib now db _ k 10 "[]"] by blast
  ultimately show ?thesis using Some by simp
qed (simp add: validate_chain_def load_key_def)

section \<open>Roots\<close>

text \<open>A root is whatever key a caller registers as one: the registration takes the mark from the request.\<close>

lemma self_made_root:
  assumes "register_key lib (\<lambda>_. True) now r db = (Ok k, db')" "rg_root r" "rg_not_before r = None" "rg_not_after r = None"
    and "row_get sk_key (signing_keys db) (sk_key k) = None" "\<not> key_revoked db (sk_key k)"
  shows "validate_chain lib (\<lambda>_. True) now (sk_key k) db' = Ok (True, [sk_key k], ''chain anchored to a trusted root'')"
proof -
  obtain alg pk where pk: "request_key lib (rg_algorithm r) (rg_public r) = Ok (alg, pk)"
    using assms(1) by (auto simp: register_key_def split: sum.splits)
  moreover have "sk_key k = fingerprint lib alg pk"
    using assms(1) pk by (auto simp: register_key_def upsert_key_def reregister_def Let_def dest!: row_get_key split: option.splits)
  ultimately have "k = \<lparr>sk_key = fingerprint lib alg pk, sk_owner = rg_owner r, sk_algorithm = algorithm_str alg,
       sk_public = rg_public r, sk_parent = rg_parent r, sk_cert = rg_cert r, sk_root = True, sk_not_before = now,
       sk_not_after = None, sk_status = ''active'', sk_rotated_to = None\<rparr>" "db' = db\<lparr>signing_keys := signing_keys db @ [k]\<rparr>"
    using assms(1-5) by (auto simp: register_key_def upsert_key_def unwrap_or_def Let_def)
  then show ?thesis
    using assms(5,6) by (simp add: validate_chain_def load_key_def is_revoked_def key_revoked_def outside_window_def MAX_CHAIN_DEPTH_def row_get_append
        numeral_eq_Suc Let_def)
qed

section \<open>Runs\<close>

inductive sig_step :: "sig_lib \<Rightarrow> bool \<Rightarrow> signature_db \<times> verdicts \<Rightarrow> signature_db \<times> verdicts \<Rightarrow> bool" for lib strict where
  registers: "register_key lib ok now r db = (res, db') \<Longrightarrow> sig_step lib strict (db, c) (db', c)"
| rotates: "rotate_key lib ok now old rr db = (res, db') \<Longrightarrow> sig_step lib strict (db, c) (db', c)"
| revokes: "revoke_key strict ok now k body s = (rv, s') \<Longrightarrow> sig_step lib strict s s'"
| stores: "store_signature ok now sr db = (res', db') \<Longrightarrow> sig_step lib strict (db, c) (db', c)"
| verifies: "verify lib ok ttl now t ck (db, c) = (resp, c') \<Longrightarrow> sig_step lib strict (db, c) (db, c')"

lemma keys_keep_revocations:
  "register_key lib ok now r db = (res, db') \<Longrightarrow> revocations db' = revocations db"
  "rotate_key lib ok now old rr db = (res, db') \<Longrightarrow> revocations db' = revocations db"
  "store_signature ok now sr db = (res', db') \<Longrightarrow> revocations db' = revocations db"
  by (auto simp: register_key_def rotate_key_def store_signature_def Let_def split: sum.splits option.splits if_splits prod.splits)

lemma revoke_key_keeps:
  assumes "revoke_key strict ok now k body (db, c) = (res, db', c')" "key_revoked db x"
  shows "key_revoked db' x"
proof -
  let ?r = "unwrap_or body \<lparr>rk_reason = None, rk_by = None\<rparr>"
  let ?row = "\<lparr>rv_key = k, rv_reason = unwrap_or (rk_reason ?r) [], rv_by = rk_by ?r, rv_at = now\<rparr>"
  have "revocations db' = revocations db \<or> revocations db' = revocations db @ [?row] \<or>
      revocations db' = row_upd rv_key (revocations db) k (\<lambda>_. ?row)"
    using assms(1) by (auto simp: revoke_key_def Let_def split: sum.splits option.splits if_splits)
  moreover have "map rv_key (row_upd rv_key rows k (\<lambda>_. ?row)) = map rv_key rows" for rows
    by (induction rows) (simp_all add: row_upd_def update_where_def)
  ultimately have "set (map rv_key (revocations db)) \<subseteq> set (map rv_key (revocations db'))"
    by (elim disjE) (simp_all only: map_append set_append Un_upper1 order_refl)
  then show ?thesis using assms(2) by (auto simp only: key_revoked_image)
qed

lemma sig_step_keeps_revoked: "sig_step lib strict s s' \<Longrightarrow> key_revoked (fst s) x \<Longrightarrow> key_revoked (fst s') x"
proof (induction rule: sig_step.induct)
  case (revokes ok now k body s rv s')
  then show ?case using revoke_key_keeps by (cases s; cases s') fastforce
qed (simp_all add: key_revoked_def keys_keep_revocations)

lemma verify_answer:
  assumes "verify lib ok ttl now t r (db, c) = (Ok resp, c')"
  shows "cr_revoked resp = key_revoked db (cr_key resp) \<and> (cr_valid resp \<longrightarrow> \<not> cr_revoked resp)"
  using assms by (auto simp: verify_def is_revoked_def key_revoked_def Let_def split: sum.splits prod.splits if_splits)

text \<open>
  A revocation that is recorded is final: whatever registrations, rotations and other operations follow, no verification
  with the key, named or given inline, is valid, and no valid chain goes through it.
\<close>

theorem recorded_revocation_final:
  assumes "(sig_step lib strict)\<^sup>*\<^sup>* s s'" "key_revoked (fst s) k"
    and "verify lib ok ttl now t r s' = (Ok resp, c)" "cr_valid resp"
    and "validate_chain lib ok' now' start (fst s') = Ok (True, path, why)"
  shows "cr_key resp \<noteq> k \<and> k \<notin> set path"
proof -
  have revoked: "key_revoked (fst s') k"
    using assms(1,2) by (induction rule: rtranclp_induct) (auto dest: sig_step_keeps_revoked)
  then have "cr_key resp \<noteq> k" using verify_answer [of lib ok ttl now t r "fst s'" "snd s'"] assms(3,4) by auto
  moreover have "\<exists>keys. path = keys \<and> list_all (\<lambda>x. \<not> key_revoked (fst s') x) keys"
    using assms(5) climb_sound [of lib ok' now' "fst s'" MAX_CHAIN_DEPTH "[]"]
    by (fastforce simp: validate_chain_def load_key_def split: option.splits if_splits)
  ultimately show ?thesis using revoked by (auto simp: list_all_iff)
qed

definition empty_signatures :: signature_db where
  "empty_signatures = \<lparr>signing_keys = [], revocations = [], stored_signatures = []\<rparr>"


section \<open>The cache\<close>

text \<open>A call of the cached check: its instant, algorithm, key, message and signature.\<close>

type_synonym cached_call = "nat \<times> sig_algorithm \<times> string \<times> string \<times> string"

fun call_key :: "sig_lib \<Rightarrow> cached_call \<Rightarrow> string" where
  "call_key lib (t, alg, key, message, signature) = cache_key lib alg key message signature"

fun call_verdict :: "sig_lib \<Rightarrow> cached_call \<Rightarrow> bool" where
  "call_verdict lib (t, alg, key, message, signature) = is_ok (verify_signature lib alg key message signature)"

fun cached_calls :: "sig_lib \<Rightarrow> nat \<Rightarrow> cached_call list \<Rightarrow> verdicts \<Rightarrow> bool list" where
  "cached_calls lib ttl [] cache = []"
| "cached_calls lib ttl ((t, alg, key, message, signature) # calls) cache =
     (let ((valid, hit), cache') = verify_cached lib ttl t alg key message signature cache
      in valid # cached_calls lib ttl calls cache')"

text \<open>Keys and signatures of one length for each algorithm, so that the hashed text determines its parts.\<close>

fun framed :: "cached_call \<Rightarrow> bool" where
  "framed (t, alg, key, message, signature) \<longleftrightarrow>
     length signature = 64 \<and> length key = (case alg of Ed25519 \<Rightarrow> 32 | Secp256k1 \<Rightarrow> 33)"

fun hashed_text :: "cached_call \<Rightarrow> string" where
  "hashed_text (t, alg, key, message, signature) = algorithm_str alg @ key @ message @ signature"

lemma call_key_hash: "call_key lib c = sha256_hex lib (hashed_text c)"
  by (cases c) (simp add: cache_key_def)

lemma algorithm_prefix: "algorithm_str a @ x = algorithm_str b @ y \<Longrightarrow> a = b \<and> x = y"
  by (cases a; cases b) (simp_all add: algorithm_str_def)

lemma framed_text_inj:
  assumes "framed c" "framed d" "hashed_text c = hashed_text d"
  shows "call_verdict lib c = call_verdict lib d"
proof (cases c; cases d)
  fix t a k m s t' a' k' m' s'
  assume c: "c = (t, a, k, m, s)" and d: "d = (t', a', k', m', s')"
  then have "a = a'" "k @ m @ s = k' @ m' @ s'" using assms(3) algorithm_prefix by auto
  moreover from this have "length k = length k'" "length s = length s'" using assms(1,2) c d by auto
  ultimately show ?thesis using c d by simp
qed

definition right_for :: "sig_lib \<Rightarrow> cached_call set \<Rightarrow> string \<Rightarrow> bool \<times> nat \<Rightarrow> bool" where
  "right_for lib calls k v \<longleftrightarrow> (\<forall>c \<in> calls. call_key lib c = k \<longrightarrow> fst v = call_verdict lib c)"

lemma verify_cached_right:
  assumes "\<And>k v. (k, v) \<in> set cache \<Longrightarrow> right_for lib calls k v"
    and "c = (t, alg, key, message, signature)" "c \<in> calls" "right_for lib calls (call_key lib c) (call_verdict lib c, t)"
    and "verify_cached lib ttl t alg key message signature cache = ((valid, hit), cache')"
  shows "valid = call_verdict lib c" "(k, v) \<in> set cache' \<Longrightarrow> right_for lib calls k v"
proof -
  obtain found cache1 where get: "lru_get (call_key lib c) cache = (found, cache1)" by fastforce
  note kept = lru.sound_lookup [where P = "right_for lib calls", OF assms(1) get]
  have "found = Some (b, at) \<Longrightarrow> b = call_verdict lib c" for b at
    using kept(2) [of "(b, at)"] assms(3) by (auto simp: right_for_def)
  moreover have "(k, v) \<in> set (lru_put (call_key lib c) (call_verdict lib c, t) cache1) \<Longrightarrow> right_for lib calls k v" for k v
    using lru.sound_store [where P = "right_for lib calls"] kept(1) assms(4) by blast
  ultimately have "valid = call_verdict lib c \<and> ((k, v) \<in> set cache' \<longrightarrow> right_for lib calls k v)"
    using assms(2,5) get kept(1)
    by (auto simp: verify_cached_def Let_def split: option.splits prod.splits if_splits)
  then show "valid = call_verdict lib c" "(k, v) \<in> set cache' \<Longrightarrow> right_for lib calls k v" by auto
qed

lemma cached_calls_right:
  assumes "\<And>k v. (k, v) \<in> set cache \<Longrightarrow> right_for lib all k v" "set calls \<subseteq> all"
    and "\<And>c d. c \<in> all \<Longrightarrow> d \<in> all \<Longrightarrow> call_key lib c = call_key lib d \<Longrightarrow> call_verdict lib c = call_verdict lib d"
  shows "cached_calls lib ttl calls cache = map (call_verdict lib) calls"
  using assms(1,2)
proof (induction calls arbitrary: cache)
  case (Cons c calls)
  obtain t alg key message signature where c: "c = (t, alg, key, message, signature)" by (cases c) blast
  obtain valid hit cache' where v: "verify_cached lib ttl t alg key message signature cache = ((valid, hit), cache')"
    by (metis surj_pair)
  have member: "c \<in> all" using Cons.prems(2) by simp
  have agrees: "right_for lib all (call_key lib c) (call_verdict lib c, t)"
    unfolding right_for_def fst_conv using assms(3) member by metis
  note one = verify_cached_right [OF Cons.prems(1) c member agrees v]
  have "cached_calls lib ttl calls cache' = map (call_verdict lib) calls"
    by (rule Cons.IH) (use one(2) Cons.prems(2) in simp_all)
  then show ?case using c v one(1) by (simp del: call_verdict.simps)
qed simp

text \<open>
  C20. The cache never changes an answer when keys and signatures have the one length their algorithm fixes and the hash tells
  the texts in use apart: any sequence of checks, at any times and with any lifetime of the entries, answers what the
  verification itself answers.
\<close>

theorem cache_right_for_fixed_lengths:
  assumes "list_all framed calls" "inj_on (sha256_hex lib) (hashed_text ` set calls)"
  shows "cached_calls lib ttl calls [] = map (call_verdict lib) calls"
proof (rule cached_calls_right [where all = "set calls"])
  fix c d assume mem: "c \<in> set calls" "d \<in> set calls" and eq: "call_key lib c = call_key lib d"
  from eq have "sha256_hex lib (hashed_text c) = sha256_hex lib (hashed_text d)" by (simp only: call_key_hash)
  then have "hashed_text c = hashed_text d" by (rule inj_onD [OF assms(2)]) (use mem in auto)
  moreover have "framed c" "framed d" using mem assms(1) by (simp_all add: list_all_iff)
  ultimately show "call_verdict lib c = call_verdict lib d" by (rule_tac framed_text_inj)
qed simp_all

lemma verify_cached_stores:
  assumes "verify_cached lib ttl t alg key message signature cache = ((valid, False), cache')"
    and "cache_key lib alg key message' signature' = cache_key lib alg key message signature" "t' - t < ttl"
  shows "verify_cached lib ttl t' alg key message' signature' cache' = ((valid, True), cache')"
  using assms by (auto simp: verify_cached_def Let_def split: option.splits prod.splits if_splits)

lemma cached_empty:
  "verify_cached lib ttl t alg key message signature [] =
   ((is_ok (verify_signature lib alg key message signature), False),
    lru_put (cache_key lib alg key message signature) (is_ok (verify_signature lib alg key message signature), t) [])"
  by (simp add: verify_cached_def lru_get_def Let_def)

text \<open>
  C11. Otherwise it does: the hashed text joins message and signature without marking where one ends. Once a signature of a
  message has been verified, the request that moves the message's tail over to the signature is answered as valid from the
  cache, a prefix of the message that the owner never signed; without the cache an Ed25519 key rejects it.
\<close>

theorem cached_verdict_forged:
  assumes "verify lib ok ttl now t r (db, cache) = (Ok resp, cache')" "cr_valid resp" "\<not> cr_hit resp"
    and "decode_message lib (ck_message r) (ck_encoding r) = Ok (prefix @ tail)" "tail \<noteq> []"
    and "unbase64 (base_lib lib) (trim (ck_signature r)) = Some sig"
    and "decode_message lib message' encoding' = Ok prefix"
    and "unbase64 (base_lib lib) (trim signature') = Some (tail @ sig)"
    and "t' - t < ttl" "\<And>s. ed25519_signature (base_lib lib) s \<Longrightarrow> length s = 64"
    and "r' = r\<lparr>ck_message := message', ck_encoding := encoding', ck_signature := signature'\<rparr>"
  shows "verify lib ok ttl now t' r' (db, cache') = (Ok (resp\<lparr>cr_hit := True\<rparr>), cache') \<and>
    (cr_algorithm resp = ''ed25519'' \<longrightarrow>
     (\<exists>resp0 c0. verify lib ok ttl now t' r' (db, []) = (Ok resp0, c0) \<and> \<not> cr_valid resp0))"
proof -
  have key: "resolve_key lib ok r' db = resolve_key lib ok r db"
    by (cases r) (simp add: assms(11) resolve_key_def cong: option.case_cong)
  obtain alg pk reg kid revoked where k: "resolve_key lib ok r db = Ok (alg, pk, reg, kid)" "is_revoked ok kid db = Ok revoked"
    using assms(1,4,6) by (auto simp: verify_def Let_def split: sum.splits prod.splits)
  obtain valid hit cache1 where v: "verify_cached lib ttl t alg pk (prefix @ tail) sig cache = ((valid, hit), cache1)"
    by (metis surj_pair)
  obtain chain where chain: "(if ck_chain r then and_then (validate_chain lib ok now kid db) (\<lambda>c. Ok (Some (fst c))) else Ok None) = Ok chain"
    using assms(1,4,6) k v by (auto simp: verify_def Let_def split: sum.splits prod.splits)
  have resp: "resp = \<lparr>cr_valid = (valid \<and> \<not> revoked \<and> (case reg of None \<Rightarrow> True | Some k \<Rightarrow> \<not> outside_window (unwrap_or (ck_signed_at r) now) k) \<and> unwrap_or chain True),
      cr_algorithm = algorithm_str alg, cr_key = kid, cr_revoked = revoked,
      cr_in_window = (case reg of None \<Rightarrow> True | Some k \<Rightarrow> \<not> outside_window (unwrap_or (ck_signed_at r) now) k),
      cr_chain = chain, cr_hit = hit,
      cr_reason = verdict_reason valid revoked (case reg of None \<Rightarrow> True | Some k \<Rightarrow> \<not> outside_window (unwrap_or (ck_signed_at r) now) k) chain\<rparr>"
    and c1: "cache' = cache1"
    using assms(1,4,6) k v chain by (simp_all add: verify_def Let_def)
  have "verify_cached lib ttl t' alg pk prefix (tail @ sig) cache' = ((valid, True), cache')"
    using verify_cached_stores [of lib ttl t alg pk "prefix @ tail" sig cache valid cache' prefix "tail @ sig" t'] v c1 resp assms(3,9)
    by (simp add: cache_key_def)
  then have served: "verify lib ok ttl now t' r' (db, cache') = (Ok (resp\<lparr>cr_hit := True\<rparr>), cache')"
    using assms(7,8,11) key k chain resp by (simp add: verify_def Let_def)
  have "length sig = 64" if "alg = Ed25519"
    using v resp assms(2,3,10) that
    by (auto simp: verify_cached_def verify_signature_def verify_ed25519_def is_ok_def Let_def split: if_splits prod.splits option.splits)
  then have "\<not> is_ok (verify_signature lib alg pk prefix (tail @ sig))" if "alg = Ed25519"
    using assms(5) assms(10) [of "tail @ sig"] that by (auto simp: verify_signature_def verify_ed25519_def is_ok_def)
  then have "\<exists>resp0 c0. verify lib ok ttl now t' r' (db, []) = (Ok resp0, c0) \<and> \<not> cr_valid resp0" if "alg = Ed25519"
    using assms(7,8,11) key k chain that by (simp add: verify_def Let_def cached_empty)
  then show ?thesis using served resp by (cases alg) (simp_all add: algorithm_str_def)
qed


section \<open>Examples\<close>

text \<open>Texts stand for their bytes, the hash keeps its text, and a signature is right when it is as long as it should be.\<close>

definition plain_lib :: sig_lib where
  "plain_lib = \<lparr>base_lib = \<lparr>strkey_bytes = Some, unbase64 = Some, ed25519_key = (\<lambda>_. True),
     ed25519_signature = (\<lambda>s. length s = 64), ed25519_strict = (\<lambda>k m s. m = ''pay Bob''), uuid_text = (\<lambda>_. []),
     parse_uuid = (\<lambda>_. None), unix_ok = (\<lambda>_. True), to_upper = (\<lambda>s. s)\<rparr>,
     sec1_key = (\<lambda>_. True), ecdsa_slice = (\<lambda>_. True), ecdsa_der = (\<lambda>_. True), ecdsa_verify = (\<lambda>_ _ _. True),
     sha256_hex = (\<lambda>t. t), unhex = Some\<rparr>"

definition plain_request :: check_request where
  "plain_request = \<lparr>ck_message = ''pay Bob'', ck_encoding = Some ''utf8'', ck_signature = replicate 64 CHR ''s'',
     ck_key = None, ck_algorithm = Some ''ed25519'', ck_public = Some (replicate 32 CHR ''k''), ck_signed_at = Some 5,
     ck_chain = False\<rparr>"

definition plain_key :: signing_key where
  "plain_key = \<lparr>sk_key = ''k'', sk_owner = ''GA'', sk_algorithm = ''ed25519'', sk_public = replicate 32 CHR ''k'', sk_parent = None,
     sk_cert = None, sk_root = True, sk_not_before = 0, sk_not_after = None, sk_status = ''active'', sk_rotated_to = None\<rparr>"

definition revoked_db :: signature_db where
  "revoked_db = \<lparr>signing_keys = [plain_key],
     revocations = [\<lparr>rv_key = ''old'', rv_reason = [], rv_by = None, rv_at = 0\<rparr>], stored_signatures = []\<rparr>"

theorem cache_right_for_fixed_lengths_witness:
  "cached_calls plain_lib 300 [(0, Ed25519, replicate 32 CHR ''k'', ''pay Bob'', replicate 64 CHR ''s''),
     (9, Ed25519, replicate 32 CHR ''k'', ''pay Bob'', replicate 64 CHR ''s''),
     (9, Ed25519, replicate 32 CHR ''k'', ''pay Eve'', replicate 64 CHR ''s'')] [] = [True, True, False]"
  by (subst cache_right_for_fixed_lengths)
    (simp_all add: plain_lib_def verify_signature_def verify_ed25519_def is_ok_def)

definition plain_forgery :: check_request where
  "plain_forgery = plain_request\<lparr>ck_message := ''pay '', ck_encoding := Some ''utf8'', ck_signature := ''Bob'' @ replicate 64 CHR ''s''\<rparr>"

lemma plain_texts [simp]:
  "trim (replicate 64 CHR ''s'') = replicate 64 CHR ''s''" "trim (replicate 32 CHR ''k'') = replicate 32 CHR ''k''"
  "trim (CHR ''B'' # CHR ''o'' # CHR ''b'' # replicate 64 CHR ''s'') = ''Bob'' @ replicate 64 CHR ''s''"
  "parse_algorithm ''ed25519'' = Some Ed25519"
  by code_simp+

lemma plain_verified:
  "verify plain_lib (\<lambda>_. True) 300 5 0 plain_request (empty_signatures, []) =
   (Ok \<lparr>cr_valid = True, cr_algorithm = ''ed25519'', cr_key = ''ed25519:'' @ replicate 32 CHR ''k'', cr_revoked = False,
        cr_in_window = True, cr_chain = None, cr_hit = False, cr_reason = ''signature is valid''\<rparr>,
    [(''ed25519'' @ replicate 32 CHR ''k'' @ ''pay Bob'' @ replicate 64 CHR ''s'', True, 0)])"
  by (simp add: verify_def decode_message_def resolve_key_def is_revoked_def verify_cached_def verify_signature_def
      verify_ed25519_def cache_key_def lru_get_def lru_put_def CACHE_CAPACITY_def fingerprint_def algorithm_str_def verdict_reason_def
      plain_lib_def plain_request_def empty_signatures_def Let_def unwrap_or_def)

theorem cached_verdict_forged_witness:
  "\<exists>resp cache'. cr_valid resp \<and>
     verify plain_lib (\<lambda>_. True) 300 5 0 plain_request (empty_signatures, []) = (Ok resp, cache') \<and>
     verify plain_lib (\<lambda>_. True) 300 5 8 plain_forgery (empty_signatures, cache') = (Ok (resp\<lparr>cr_hit := True\<rparr>), cache')"
proof -
  have decoded: "unbase64 (base_lib plain_lib) (trim (ck_signature plain_forgery)) = Some (''Bob'' @ replicate 64 CHR ''s'')"
    "decode_message plain_lib (ck_message plain_forgery) (ck_encoding plain_forgery) = Ok ''pay ''"
    "unbase64 (base_lib plain_lib) (trim (ck_signature plain_request)) = Some (replicate 64 CHR ''s'')"
    "decode_message plain_lib (ck_message plain_request) (ck_encoding plain_request) = Ok (''pay '' @ ''Bob'')"
    by (simp_all add: plain_lib_def plain_forgery_def plain_request_def decode_message_def Let_def unwrap_or_def)
  note forged = conjunct1 [OF cached_verdict_forged [OF plain_verified _ _ decoded(4) _ decoded(3,2,1), of 8 plain_forgery]]
  show ?thesis
    by (intro exI conjI, rule_tac [2] plain_verified, simp, rule forged)
      (simp_all add: plain_lib_def plain_forgery_def)
qed

lemma plain_revoked_verified:
  "verify plain_lib (\<lambda>_. True) 300 5 0 plain_request (revoked_db, []) =
   (Ok \<lparr>cr_valid = True, cr_algorithm = ''ed25519'', cr_key = ''ed25519:'' @ replicate 32 CHR ''k'', cr_revoked = False,
        cr_in_window = True, cr_chain = None, cr_hit = False, cr_reason = ''signature is valid''\<rparr>,
    [(''ed25519'' @ replicate 32 CHR ''k'' @ ''pay Bob'' @ replicate 64 CHR ''s'', True, 0)])"
  by (simp add: verify_def decode_message_def resolve_key_def is_revoked_def verify_cached_def verify_signature_def
      verify_ed25519_def cache_key_def lru_get_def lru_put_def CACHE_CAPACITY_def fingerprint_def algorithm_str_def verdict_reason_def
      plain_lib_def plain_request_def revoked_db_def Let_def unwrap_or_def)

theorem recorded_revocation_final_witness:
  "\<exists>resp c path why. verify plain_lib (\<lambda>_. True) 300 5 0 plain_request (revoked_db, []) = (Ok resp, c) \<and> cr_valid resp \<and>
     validate_chain plain_lib (\<lambda>_. True) 5 ''k'' revoked_db = Ok (True, path, why) \<and> cr_key resp \<noteq> ''old'' \<and> ''old'' \<notin> set path"
proof -
  have chain: "validate_chain plain_lib (\<lambda>_. True) 5 ''k'' revoked_db = Ok (True, [''k''], ''chain anchored to a trusted root'')"
    by code_simp
  have "key_revoked (fst (revoked_db, [] :: verdicts)) ''old''" by (simp add: key_revoked_def revoked_db_def)
  then have "''old'' \<notin> set [''k'']"
    using recorded_revocation_final [of plain_lib True "(revoked_db, [])" "(revoked_db, [])" "''old''", OF _ _ plain_revoked_verified _, of "\<lambda>_. True" 5 "''k''"]
      chain by simp
  then show ?thesis using plain_revoked_verified chain by simp
qed


end
