(* ===== verification/Component_Search.thy ===== *)
theory Component_Search
  imports Tables
begin

text \<open>
  \<open>strongly_connected_components\<close> of \<open>backend/api/src/dependency.rs\<close>: two searches with explicit stacks, the second over the
  reversed edges in the opposite order of the first one's ends. The theory defines the loops as the code has them and proves
  that two nodes get one component exactly when each reaches the other.
\<close>

section \<open>Graphs\<close>

text \<open>A \<open>HashMap<Uuid, Vec<Uuid>>\<close>; the order of its keys is never used, and a node only has to be told from another.\<close>

type_synonym 'n graph = "('n \<times> 'n list) list"

definition entry_or_default :: "'n \<Rightarrow> 'n graph \<Rightarrow> 'n graph" where
  "entry_or_default k g = (if map_of g k = None then (k, []) # g else g)"

definition push_edge :: "'n \<times> 'n \<Rightarrow> 'n graph \<Rightarrow> 'n graph" where
  "push_edge e g = map (\<lambda>(k, ns). if k = fst e then (k, ns @ [snd e]) else (k, ns)) (entry_or_default (fst e) g)"

definition graph_of :: "'n list \<Rightarrow> ('n \<times> 'n) list \<Rightarrow> 'n graph" where
  "graph_of nodes edges = fold push_edge edges (fold entry_or_default nodes [])"

definition neighbors :: "'n graph \<Rightarrow> 'n \<Rightarrow> 'n list" where
  "neighbors g n = (case map_of g n of None \<Rightarrow> [] | Some ns \<Rightarrow> ns)"

definition edge_set :: "'n graph \<Rightarrow> ('n \<times> 'n) set" where
  "edge_set g = {(n, m). m \<in> set (neighbors g n)}"

definition heads :: "'n graph \<Rightarrow> 'n set" where
  "heads g = \<Union> (set ` snd ` set g)"

lemma finite_heads [simp]: "finite (heads g)"
  by (simp add: heads_def)

lemma neighbors_heads: "m \<in> set (neighbors g n) \<Longrightarrow> m \<in> heads g"
  unfolding neighbors_def heads_def by (cases "map_of g n") (force dest: map_of_SomeD)+

lemma neighbors_entry [simp]: "neighbors (entry_or_default k g) n = neighbors g n"
  by (simp add: neighbors_def entry_or_default_def)

lemma neighbors_entries [simp]: "neighbors (fold entry_or_default ks g) n = neighbors g n"
  by (induction ks arbitrary: g) simp_all

lemma neighbors_push:
  "neighbors (push_edge e g) n = (if n = fst e then neighbors g n @ [snd e] else neighbors g n)"
proof -
  have "map_of (map (\<lambda>(k, ns). if k = x then (k, ns @ [y]) else (k, ns)) h) n =
      (if n = x then map_option (\<lambda>ns. ns @ [y]) (map_of h n) else map_of h n)" for x y h
    by (induction h) auto
  then have "map_of (push_edge e g) n = (if n = fst e then map_option (\<lambda>ns. ns @ [snd e]) (map_of (entry_or_default (fst e) g) n)
      else map_of (entry_or_default (fst e) g) n)"
    unfolding push_edge_def .
  moreover have "map_of (entry_or_default (fst e) g) (fst e) \<noteq> None" by (auto simp: entry_or_default_def)
  ultimately show ?thesis
    using neighbors_entry [of "fst e" g n] by (auto simp: neighbors_def split: option.splits)
qed

lemma neighbors_graph_of: "set (neighbors (graph_of nodes edges) n) = {m. (n, m) \<in> set edges}"
proof -
  have "set (neighbors (fold push_edge edges g) n) = set (neighbors g n) \<union> {m. (n, m) \<in> set edges}" for g
    by (induction edges arbitrary: g) (auto simp: neighbors_push)
  then show ?thesis by (simp add: graph_of_def) (simp add: neighbors_def)
qed

lemma edge_set_graph_of: "edge_set (graph_of nodes edges) = set edges"
  by (auto simp: edge_set_def neighbors_graph_of)

section \<open>The first search\<close>

text \<open>The \<open>while let\<close> loop; the top of the stack is the head of the list.\<close>

function finish_loop :: "'n graph \<Rightarrow> ('n \<times> nat) list \<Rightarrow> 'n set \<Rightarrow> 'n list \<Rightarrow> 'n set \<times> 'n list" where
  "finish_loop g [] visited order = (visited, order)"
| "finish_loop g ((node, i) # stack) visited order =
     (if i < length (neighbors g node) then
        let to = neighbors g node ! i in
        if to \<in> visited then finish_loop g ((node, Suc i) # stack) visited order
        else finish_loop g ((to, 0) # (node, Suc i) # stack) (insert to visited) order
      else finish_loop g stack visited (order @ [node]))"
  by pat_completeness auto

termination
proof (relation "inv_image (less_than <*lex*> less_than)
    (\<lambda>(g, stack, visited, order). (card (heads g - visited), \<Sum>(n, i) \<leftarrow> stack. Suc (length (neighbors g n) - i)))")
  fix g node i stack visited order to
  assume "i < length (neighbors g node)" "to = neighbors g node ! i" "to \<notin> visited"
  then have "to \<in> heads g - visited" using neighbors_heads [OF nth_mem, of i g node] by simp
  then have "card (heads g - insert to visited) < card (heads g - visited)"
    by (intro psubset_card_mono) auto
  then show "((g, (to, 0) # (node, Suc i) # stack, insert to visited, order), g, (node, i) # stack, visited, order)
      \<in> inv_image (less_than <*lex*> less_than)
        (\<lambda>(g, stack, visited, order). (card (heads g - visited), \<Sum>(n, i) \<leftarrow> stack. Suc (length (neighbors g n) - i)))"
    by simp
qed auto

definition finish_from :: "'n graph \<Rightarrow> 'n \<Rightarrow> 'n set \<times> 'n list \<Rightarrow> 'n set \<times> 'n list" where
  "finish_from g start s =
     (if start \<in> fst s then s else finish_loop g [(start, 0)] (insert start (fst s)) (snd s))"

definition finish_order :: "'n graph \<Rightarrow> 'n list \<Rightarrow> 'n list" where
  "finish_order g nodes = snd (fold (finish_from g) nodes ({}, []))"

section \<open>The second search\<close>

text \<open>The stack after \<open>stack.push(next)\<close> for the neighbours without a component.\<close>

definition push_open :: "('n \<Rightarrow> nat option) \<Rightarrow> 'n list \<Rightarrow> 'n list \<Rightarrow> 'n list" where
  "push_open found ns stack = rev (filter (\<lambda>n. found n = None) ns) @ stack"

function assign_loop ::
  "'n graph \<Rightarrow> nat \<Rightarrow> 'n list \<Rightarrow> ('n \<Rightarrow> nat option) \<Rightarrow> nat \<Rightarrow> ('n \<Rightarrow> nat option) \<times> nat" where
  "assign_loop rg idx [] found many = (found, many)"
| "assign_loop rg idx (node # stack) found many =
     (if found node \<noteq> None then assign_loop rg idx stack found many
      else let found' = found(node \<mapsto> idx) in
        assign_loop rg idx (push_open found' (neighbors rg node) stack) found' (Suc many))"
  by pat_completeness auto

termination
proof (relation "inv_image (less_than <*lex*> less_than)
    (\<lambda>(rg, idx, stack, found, many). (card ((heads rg \<union> set stack) - dom found), length stack))")
  fix rg :: "'n graph" and idx node stack many and found found' :: "'n \<Rightarrow> nat option"
  assume "\<not> found node \<noteq> None" "found' = found(node \<mapsto> idx)"
  then have "card ((heads rg \<union> set (push_open found' (neighbors rg node) stack)) - dom found')
      < card ((heads rg \<union> set (node # stack)) - dom found)"
    by (intro psubset_card_mono) (auto simp: push_open_def intro: neighbors_heads)
  then show "((rg, idx, push_open found' (neighbors rg node) stack, found', Suc many),
      rg, idx, node # stack, found, many) \<in> inv_image (less_than <*lex*> less_than)
        (\<lambda>(rg, idx, stack, found, many). (card ((heads rg \<union> set stack) - dom found), length stack))"
    by simp
next
  fix rg :: "'n graph" and idx node stack many and found :: "'n \<Rightarrow> nat option"
  assume "found node \<noteq> (None :: nat option)"
  then have "(heads rg \<union> set (node # stack)) - dom found = (heads rg \<union> set stack) - dom found" by auto
  then show "((rg, idx, stack, found, many), rg, idx, node # stack, found, many) \<in> inv_image (less_than <*lex*> less_than)
        (\<lambda>(rg, idx, stack, found, many). (card ((heads rg \<union> set stack) - dom found), length stack))"
    by simp
qed auto

definition assign_from ::
  "'n graph \<Rightarrow> 'n \<Rightarrow> ('n \<Rightarrow> nat option) \<times> nat list \<Rightarrow> ('n \<Rightarrow> nat option) \<times> nat list" where
  "assign_from rg start s =
     (let (found, sizes) = s in
      if found start \<noteq> None then s
      else let (found', many) = assign_loop rg (length sizes) [start] found 0 in (found', sizes @ [many]))"

definition strongly_connected_components ::
  "'n list \<Rightarrow> ('n \<times> 'n) list \<Rightarrow> ('n \<Rightarrow> nat option) \<times> nat list" where
  "strongly_connected_components nodes edges =
     (let g = graph_of nodes edges; rg = graph_of nodes (map prod.swap edges)
      in fold (assign_from rg) (rev (finish_order g nodes)) (Map.empty, []))"

section \<open>What the first search leaves\<close>

definition mutual :: "('n \<times> 'n) set \<Rightarrow> 'n \<Rightarrow> 'n \<Rightarrow> bool" where
  "mutual E x y \<longleftrightarrow> (x, y) \<in> E\<^sup>* \<and> (y, x) \<in> E\<^sup>*"

lemma mutual_refl [simp]: "mutual E x x"
  and mutual_sym: "mutual E x y \<Longrightarrow> mutual E y x"
  and mutual_trans: "mutual E x y \<Longrightarrow> mutual E y z \<Longrightarrow> mutual E x z"
  by (auto simp: mutual_def)

text \<open>
  The order in which nodes end: whatever a node reaches ended before it, or the node's component has a member that ends
  later.
\<close>

definition ends_ordered :: "('n \<times> 'n) set \<Rightarrow> 'n list \<Rightarrow> bool" where
  "ends_ordered E order \<longleftrightarrow>
     (\<forall>xs u ys v. order = xs @ u # ys \<longrightarrow> (u, v) \<in> E\<^sup>* \<longrightarrow>
        v \<in> set (xs @ [u]) \<or> (\<exists>z. mutual E u z \<and> z \<notin> set (xs @ [u])))"

lemma ends_ordered_snoc:
  assumes "ends_ordered E order"
    and "\<And>v. (n, v) \<in> E\<^sup>* \<Longrightarrow> v \<in> insert n (set order) \<or> (\<exists>z. mutual E n z \<and> z \<notin> insert n (set order))"
  shows "ends_ordered E (order @ [n])"
  unfolding ends_ordered_def
proof (intro allI impI)
  fix xs u ys v
  assume split: "order @ [n] = xs @ u # ys" and reach: "(u, v) \<in> E\<^sup>*"
  show "v \<in> set (xs @ [u]) \<or> (\<exists>z. mutual E u z \<and> z \<notin> set (xs @ [u]))"
  proof (cases ys rule: rev_cases)
    case Nil
    then show ?thesis using split reach assms(2) by simp
  next
    case (snoc zs z)
    then have "order = xs @ u # zs" using split by simp
    then show ?thesis using assms(1) reach unfolding ends_ordered_def by blast
  qed
qed

lemma rtrancl_leaves:
  "(a, v) \<in> R\<^sup>* \<Longrightarrow> a \<in> B \<Longrightarrow> v \<notin> B \<Longrightarrow> \<exists>b z. (a, b) \<in> R\<^sup>* \<and> b \<in> B \<and> (b, z) \<in> R \<and> z \<notin> B"
  by (induction rule: rtrancl_induct) (blast+)

definition search_ok :: "'n graph \<Rightarrow> ('n \<times> nat) list \<Rightarrow> 'n set \<Rightarrow> 'n list \<Rightarrow> bool" where
  "search_ok g stack visited order \<longleftrightarrow>
     distinct (map fst stack @ order) \<and> visited = fst ` set stack \<union> set order \<and>
     (\<forall>(n, i) \<in> set stack. set (take i (neighbors g n)) \<subseteq> visited) \<and>
     (\<forall>n \<in> set order. set (neighbors g n) \<subseteq> visited) \<and>
     sorted_wrt (\<lambda>a b. (fst b, fst a) \<in> (edge_set g)\<^sup>*) stack \<and>
     ends_ordered (edge_set g) order"

lemma search_ok_end:
  assumes "search_ok g ((node, i) # stack) visited order" "\<not> i < length (neighbors g node)"
  shows "search_ok g stack visited (order @ [node])"
proof -
  let ?E = "edge_set g"
  have all: "set (neighbors g node) \<subseteq> visited" using assms by (auto simp: search_ok_def)
  have "v \<in> insert node (set order) \<or> (\<exists>z. mutual ?E node z \<and> z \<notin> insert node (set order))" if reach: "(node, v) \<in> ?E\<^sup>*" for v
  proof (rule ccontr)
    assume no: "\<not> ?thesis"
    then obtain b z where z: "(node, b) \<in> ?E\<^sup>*" "b \<in> insert node (set order)" "(b, z) \<in> ?E" "z \<notin> insert node (set order)"
      using rtrancl_leaves [OF reach, of "insert node (set order)"] by auto
    then have "z \<in> visited" using assms(1) all by (auto simp: search_ok_def edge_set_def)
    then have "z \<in> fst ` set stack" using assms(1) z(4) by (auto simp: search_ok_def)
    then have "(z, node) \<in> ?E\<^sup>*" using assms(1) by (auto simp: search_ok_def)
    moreover have "(node, z) \<in> ?E\<^sup>*" using z by auto
    ultimately show False using no z(4) by (auto simp: mutual_def)
  qed
  then have "ends_ordered ?E (order @ [node])"
    using assms(1) by (intro ends_ordered_snoc) (auto simp: search_ok_def)
  then show ?thesis using assms(1) all by (auto simp: search_ok_def)
qed

lemma search_ok_seen:
  assumes "search_ok g ((node, i) # stack) visited order" "i < length (neighbors g node)" "neighbors g node ! i \<in> visited"
  shows "search_ok g ((node, Suc i) # stack) visited order"
  using assms by (auto simp: search_ok_def take_Suc_conv_app_nth)

lemma search_ok_descend:
  assumes "search_ok g ((node, i) # stack) visited order" "i < length (neighbors g node)" "to = neighbors g node ! i"
    and "to \<notin> visited"
  shows "search_ok g ((to, 0) # (node, Suc i) # stack) (insert to visited) order"
proof -
  have edge: "(node, to) \<in> edge_set g" using assms(2,3) by (simp add: edge_set_def)
  moreover have "(fst b, node) \<in> (edge_set g)\<^sup>*" if "b \<in> set stack" for b using assms(1) that by (simp add: search_ok_def)
  ultimately have "(fst b, to) \<in> (edge_set g)\<^sup>*" if "b \<in> set stack" for b using that by (meson rtrancl.rtrancl_into_rtrancl)
  then show ?thesis
    using assms edge by (auto simp: search_ok_def take_Suc_conv_app_nth)
qed

lemma finish_loop_ok:
  "search_ok g stack visited order \<Longrightarrow> finish_loop g stack visited order = (visited', order') \<Longrightarrow>
   search_ok g [] visited' order' \<and> visited \<subseteq> visited'"
proof (induction g stack visited order rule: finish_loop.induct)
  case (2 g node i stack visited order)
  consider "i < length (neighbors g node)" "neighbors g node ! i \<in> visited"
    | "i < length (neighbors g node)" "neighbors g node ! i \<notin> visited" | "\<not> i < length (neighbors g node)"
    by blast
  then show ?case
  proof cases
    case 1
    then show ?thesis using "2.IH"(1) [OF 1(1) refl 1(2) search_ok_seen [OF "2.prems"(1) 1]] "2.prems"(2) by (simp add: Let_def)
  next
    case 2
    then show ?thesis using "2.IH"(2) [OF 2(1) refl 2(2)] "2.prems" search_ok_descend [OF "2.prems"(1) 2(1) refl 2(2)] by (auto simp: Let_def)
  next
    case 3
    then show ?thesis using "2.IH"(3) [OF 3 search_ok_end [OF "2.prems"(1) 3]] "2.prems"(2) 3 by simp
  qed
qed simp

lemma finish_from_ok:
  assumes "search_ok g [] visited order" "finish_from g start (visited, order) = (visited', order')"
  shows "search_ok g [] visited' order' \<and> insert start visited \<subseteq> visited'"
proof (cases "start \<in> visited")
  case False
  then have "search_ok g [(start, 0)] (insert start visited) order" using assms(1) by (auto simp: search_ok_def)
  then show ?thesis using assms(2) False finish_loop_ok [of g "[(start, 0)]" "insert start visited" order]
    by (simp add: finish_from_def del: finish_loop.simps)
qed (use assms in \<open>auto simp: finish_from_def\<close>)

lemma finish_order_ok:
  fixes nodes g
  defines "order \<equiv> finish_order g nodes"
  shows "distinct order" "set nodes \<subseteq> set order" "ends_ordered (edge_set g) order"
    "n \<in> set order \<Longrightarrow> set (neighbors g n) \<subseteq> set order"
proof -
  have "search_ok g [] (fst s) (snd s) \<Longrightarrow>
      search_ok g [] (fst (fold (finish_from g) nodes s)) (snd (fold (finish_from g) nodes s)) \<and>
      set nodes \<union> fst s \<subseteq> fst (fold (finish_from g) nodes s)" for s
  proof (induction nodes arbitrary: s)
    case (Cons start nodes)
    have "search_ok g [] (fst (finish_from g start s)) (snd (finish_from g start s)) \<and> insert start (fst s) \<subseteq> fst (finish_from g start s)"
      using finish_from_ok [of g "fst s" "snd s" start "fst (finish_from g start s)" "snd (finish_from g start s)"] Cons.prems by simp
    then show ?case using Cons.IH [of "finish_from g start s"] by auto
  qed simp
  from this [of "({}, [])"]
  have "search_ok g [] (set order) order" "set nodes \<subseteq> set order"
    by (auto simp: order_def finish_order_def search_ok_def ends_ordered_def)
  then show "distinct order" "set nodes \<subseteq> set order" "ends_ordered (edge_set g) order"
    "n \<in> set order \<Longrightarrow> set (neighbors g n) \<subseteq> set order"
    by (simp_all add: search_ok_def)
qed

section \<open>What the second search assigns\<close>

definition pred_closed :: "('n \<times> 'n) set \<Rightarrow> 'n set \<Rightarrow> bool" where
  "pred_closed E A \<longleftrightarrow> (\<forall>x y. (x, y) \<in> E \<longrightarrow> y \<in> A \<longrightarrow> x \<in> A)"

definition assign_ok ::
  "('n \<times> 'n) set \<Rightarrow> ('n \<Rightarrow> nat option) \<Rightarrow> nat \<Rightarrow> 'n \<Rightarrow> 'n list \<Rightarrow> ('n \<Rightarrow> nat option) \<Rightarrow> nat \<Rightarrow> bool" where
  "assign_ok E old idx s stack found many \<longleftrightarrow>
     dom old \<subseteq> dom found \<and> (\<forall>x \<in> dom old. found x = old x) \<and> (\<forall>x \<in> dom found - dom old. found x = Some idx) \<and>
     (\<forall>x \<in> dom found \<union> set stack - dom old. (x, s) \<in> E\<^sup>*) \<and> s \<in> dom found \<union> set stack \<and> s \<notin> dom old \<and>
     (\<forall>x y. (x, y) \<in> E \<longrightarrow> y \<in> dom found - dom old \<longrightarrow> x \<in> dom found \<union> set stack) \<and>
     finite (dom found - dom old) \<and> many = card (dom found - dom old)"

lemma assign_ok_take:
  assumes "assign_ok E old idx s (node # stack) found many" "found node = None" "edge_set rg = E\<inverse>"
  shows "assign_ok E old idx s (push_open (found(node \<mapsto> idx)) (neighbors rg node) stack) (found(node \<mapsto> idx)) (Suc many)"
proof -
  let ?F = "found(node \<mapsto> idx)"
  have old: "dom old \<subseteq> dom found" "\<And>x. x \<in> dom old \<Longrightarrow> found x = old x"
    "\<And>x. x \<in> dom found - dom old \<Longrightarrow> found x = Some idx"
    "\<And>x. x \<in> dom found \<union> set (node # stack) - dom old \<Longrightarrow> (x, s) \<in> E\<^sup>*"
    "s \<in> dom found \<union> set (node # stack)" "s \<notin> dom old"
    "\<And>x y. (x, y) \<in> E \<Longrightarrow> y \<in> dom found - dom old \<Longrightarrow> x \<in> dom found \<union> set (node # stack)"
    "finite (dom found - dom old)" "many = card (dom found - dom old)"
    using assms(1) unfolding assign_ok_def by blast+
  have new: "node \<notin> dom old" using old(1) assms(2) by auto
  have node: "(node, s) \<in> E\<^sup>*" using old(4) new by simp
  have pred: "set (neighbors rg node) = {x. (x, node) \<in> E}" using assms(3) by (auto simp: edge_set_def)
  then have push: "set (push_open ?F (neighbors rg node) stack) = {x. (x, node) \<in> E} - dom ?F \<union> set stack"
    by (auto simp: push_open_def domIff)
  have F: "dom ?F = insert node (dom found)" by simp
  have grown: "insert node (dom found) - dom old = insert node (dom found - dom old)" "node \<notin> dom found - dom old"
    using new assms(2) by auto
  show ?thesis
    unfolding assign_ok_def push F grown(1)
  proof (intro conjI ballI allI impI)
    show "finite (insert node (dom found - dom old))" "Suc many = card (insert node (dom found - dom old))"
      using old(8,9) grown(2) by simp_all
    show "(x, s) \<in> E\<^sup>*" if "x \<in> insert node (dom found) \<union> ({x. (x, node) \<in> E} - insert node (dom found) \<union> set stack) - dom old" for x
      using that old(4) [of x] node by (auto intro: converse_rtrancl_into_rtrancl)
    show "x \<in> insert node (dom found) \<union> ({x. (x, node) \<in> E} - insert node (dom found) \<union> set stack)"
      if "(x, y) \<in> E" "y \<in> insert node (dom found - dom old)" for x y
      using that old(7) [of x y] by auto
    show "?F x = Some idx" if "x \<in> insert node (dom found - dom old)" for x using that old(3) [of x] by auto
    show "?F x = old x" if "x \<in> dom old" for x using that old(2) [of x] new by auto
    show "s \<in> insert node (dom found) \<union> ({x. (x, node) \<in> E} - insert node (dom found) \<union> set stack)" using old(5) by auto
  qed (use old(1,6) in auto)
qed

lemma assign_ok_skip: "assign_ok E old idx s (node # stack) found many \<Longrightarrow> found node \<noteq> None \<Longrightarrow> assign_ok E old idx s stack found many"
proof -
  assume ok: "assign_ok E old idx s (node # stack) found many" and "found node \<noteq> None"
  then have same: "dom found \<union> set (node # stack) = dom found \<union> set stack" by auto
  show ?thesis unfolding assign_ok_def by (rule ok [unfolded assign_ok_def same])
qed

lemma assign_loop_ok:
  "assign_ok E old idx s stack found many \<Longrightarrow> edge_set rg = E\<inverse> \<Longrightarrow> assign_loop rg idx stack found many = (found', many') \<Longrightarrow>
   assign_ok E old idx s [] found' many'"
proof (induction rg idx stack found many rule: assign_loop.induct)
  case (2 rg idx node stack found many)
  show ?case
  proof (cases "found node = None")
    case True
    show ?thesis
      by (rule 2(2) [OF _ refl assign_ok_take [OF 2(3) True 2(4)] 2(4)])
        (use True 2(5) in \<open>simp_all add: Let_def del: fun_upd_apply\<close>)
  next
    case False
    then show ?thesis using 2(1) [OF False assign_ok_skip [OF 2(3) False] 2(4)] 2(5) by simp
  qed
qed simp

lemma assign_loop_result:
  assumes "edge_set rg = E\<inverse>" "pred_closed E (dom old)" "s \<notin> dom old" "assign_loop rg idx [s] old 0 = (found, many)"
  defines "S \<equiv> {x. x \<notin> dom old \<and> (x, s) \<in> E\<^sup>*}"
  shows "found = (\<lambda>x. if x \<in> S then Some idx else old x)" "finite S" "many = card S"
proof -
  have ok: "assign_ok E old idx s [] found many"
    by (rule assign_loop_ok [OF _ assms(1,4)]) (use assms(3) in \<open>auto simp: assign_ok_def\<close>)
  have more: "dom old \<subseteq> dom found" "s \<in> dom found" "\<And>x. x \<in> dom found - dom old \<Longrightarrow> (x, s) \<in> E\<^sup>*"
    "\<And>x y. (x, y) \<in> E \<Longrightarrow> y \<in> dom found - dom old \<Longrightarrow> x \<in> dom found"
    "finite (dom found - dom old)" "many = card (dom found - dom old)"
    using ok unfolding assign_ok_def list.set Un_empty_right by blast+
  have "x \<in> dom found" if "(x, s) \<in> E\<^sup>*" for x
    using that
  proof (induction rule: converse_rtrancl_induct)
    case (step x y)
    then show ?case using more(1,4) assms(2) unfolding pred_closed_def by blast
  qed (rule more(2))
  then have S: "S = dom found - dom old" using more(3) unfolding S_def by blast
  then show "finite S" "many = card S" using more by simp_all
  show "found = (\<lambda>x. if x \<in> S then Some idx else old x)"
  proof
    fix x
    have "x \<in> S \<Longrightarrow> found x = Some idx" "x \<in> dom old \<Longrightarrow> found x = old x" using ok unfolding S assign_ok_def by blast+
    then show "found x = (if x \<in> S then Some idx else old x)" by (cases "x \<in> S"; cases "x \<in> dom old") (auto simp: S domIff)
  qed
qed

section \<open>Components\<close>

text \<open>The nodes assigned so far: whole components, closed under predecessors, with their sizes.\<close>

definition assigned_ok :: "('n \<times> 'n) set \<Rightarrow> ('n \<Rightarrow> nat option) \<Rightarrow> nat list \<Rightarrow> bool" where
  "assigned_ok E found sizes \<longleftrightarrow>
     pred_closed E (dom found) \<and>
     (\<forall>x i. found x = Some i \<longrightarrow> i < length sizes \<and> {y. found y = Some i} = {y. mutual E x y} \<and>
        finite {y. mutual E x y} \<and> sizes ! i = card {y. mutual E x y})"

lemma open_component:
  assumes order: "distinct (xs @ s # ys)" "ends_ordered E (xs @ s # ys)" "fst ` E \<subseteq> set (xs @ s # ys)"
    and ok: "assigned_ok E found sizes" and later: "set ys \<subseteq> dom found" and s: "s \<notin> dom found"
  shows "{x. x \<notin> dom found \<and> (x, s) \<in> E\<^sup>*} = {x. mutual E s x}"
proof (intro equalityI subsetI)
  fix x assume x: "x \<in> {x. x \<notin> dom found \<and> (x, s) \<in> E\<^sup>*}"
  have whole: "z \<in> set (xs @ [s])" if "mutual E x z" for z
  proof -
    have "z \<notin> dom found"
    proof
      assume "z \<in> dom found"
      then obtain i where i: "found z = Some i" by auto
      then have "{y. found y = Some i} = {y. mutual E z y}" using ok unfolding assigned_ok_def by blast
      then show False using mutual_sym [OF that] x by auto
    qed
    moreover have "z \<in> set (xs @ s # ys)"
    proof (cases "z = s")
      case False
      moreover have "(z, s) \<in> E\<^sup>*" using that x unfolding mutual_def by (blast intro: rtrancl_trans)
      ultimately obtain y where "(z, y) \<in> E" by (auto elim: converse_rtranclE)
      then show ?thesis using order(3) by force
    qed simp
    ultimately show ?thesis using later by auto
  qed
  obtain p m q where split: "xs @ [s] = p @ m # q" "mutual E x m" "\<And>z. z \<in> set q \<Longrightarrow> \<not> mutual E x z"
    using split_list_last_prop [of "xs @ [s]" "mutual E x"] whole [OF mutual_refl] mutual_refl by metis
  show "x \<in> {x. mutual E s x}"
  proof (cases q rule: rev_cases)
    case Nil
    then show ?thesis using split mutual_sym by auto
  next
    case (snoc q' z)
    then have parts: "xs @ s # ys = p @ m # (q @ ys)" "s \<in> set q" using split(1) by auto
    moreover have "(m, s) \<in> E\<^sup>*" using split(2) x unfolding mutual_def by (blast intro: rtrancl_trans)
    ultimately have "s \<in> set (p @ [m]) \<or> (\<exists>z. mutual E m z \<and> z \<notin> set (p @ [m]))"
      using order(2) unfolding ends_ordered_def by blast
    moreover have "s \<notin> set (p @ [m])" using order(1) parts by auto
    ultimately obtain z where "mutual E m z" "z \<notin> set (p @ [m])" by blast
    then have "mutual E x z" "z \<in> set q" using mutual_trans split(2) whole [of z] split(1) by fastforce+
    then show ?thesis using split(3) by blast
  qed
next
  fix x assume x: "x \<in> {x. mutual E s x}"
  moreover have "x \<notin> dom found"
  proof
    assume "x \<in> dom found"
    then obtain i where "found x = Some i" by auto
    then have "{y. found y = Some i} = {y. mutual E x y}" using ok unfolding assigned_ok_def by blast
    then show False using mutual_sym [of E s x] x s by auto
  qed
  ultimately show "x \<in> {x. x \<notin> dom found \<and> (x, s) \<in> E\<^sup>*}" by (auto simp: mutual_def)
qed

lemma assigned_ok_extend:
  assumes ok: "assigned_ok E found sizes" and s: "s \<notin> dom found"
    and S: "S = {x. mutual E s x}" "S = {x. x \<notin> dom found \<and> (x, s) \<in> E\<^sup>*}" "finite S"
  shows "assigned_ok E (\<lambda>x. if x \<in> S then Some (length sizes) else found x) (sizes @ [card S])" (is "assigned_ok E ?found _")
proof -
  have dom: "dom ?found = S \<union> dom found" by (auto split: if_splits)
  have bound: "found x = Some i \<Longrightarrow> i < length sizes" for x i using ok by (simp add: assigned_ok_def)
  have closed_before: "(x, y) \<in> E \<Longrightarrow> y \<in> dom found \<Longrightarrow> x \<in> dom found" for x y
    using ok unfolding assigned_ok_def pred_closed_def by blast
  have "pred_closed E (S \<union> dom found)"
    unfolding pred_closed_def
  proof (intro allI impI)
    fix x y assume "(x, y) \<in> E" "y \<in> S \<union> dom found"
    then show "x \<in> S \<union> dom found"
      using closed_before unfolding S(2) by (blast intro: converse_rtrancl_into_rtrancl)
  qed
  note closed = this
  have parts: "i < length (sizes @ [card S]) \<and> {y. ?found y = Some i} = {y. mutual E x y} \<and>
      finite {y. mutual E x y} \<and> (sizes @ [card S]) ! i = card {y. mutual E x y}" if x: "?found x = Some i" for x i
  proof (cases "x \<in> S")
    case True
    then have i: "i = length sizes" using x by simp
    have "mutual E s x" using True S(1) by simp
    then have "mutual E x y \<longleftrightarrow> mutual E s y" for y by (metis mutual_sym mutual_trans)
    then have "{y. mutual E x y} = S" unfolding S(1) by simp
    moreover have "found y \<noteq> Some i" for y using bound [of y i] i by auto
    then have "{y. ?found y = Some i} = S" using i by auto
    ultimately show ?thesis using S(3) by (simp add: i)
  next
    case False
    then have f: "found x = Some i" using x by simp
    then have "{y. found y = Some i} = {y. mutual E x y} \<and> finite {y. mutual E x y} \<and> sizes ! i = card {y. mutual E x y}"
      using ok unfolding assigned_ok_def by blast
    moreover have "{y. ?found y = Some i} = {y. found y = Some i}" using bound [OF f] S(2) by auto
    ultimately show ?thesis using bound [OF f] by (simp add: nth_append)
  qed
  show ?thesis unfolding assigned_ok_def dom by (rule conjI [OF closed], intro allI impI, erule parts)
qed

lemma assign_from_ok:
  assumes "edge_set rg = E\<inverse>" "distinct (xs @ s # ys)" "ends_ordered E (xs @ s # ys)" "fst ` E \<subseteq> set (xs @ s # ys)"
    and "assigned_ok E found sizes" "set ys \<subseteq> dom found" "assign_from rg s (found, sizes) = (found', sizes')"
  shows "assigned_ok E found' sizes' \<and> insert s (dom found) \<subseteq> dom found'"
proof (cases "s \<in> dom found")
  case False
  then have "found s = None" by (simp add: domIff)
  then obtain many where loop: "assign_loop rg (length sizes) [s] found 0 = (found', many)" "sizes' = sizes @ [many]"
    using assms(7) by (auto simp: assign_from_def simp del: assign_loop.simps split: prod.splits)
  define S where "S = {x. x \<notin> dom found \<and> (x, s) \<in> E\<^sup>*}"
  have closed: "pred_closed E (dom found)" using assms(5) by (simp add: assigned_ok_def)
  note result = assign_loop_result [OF assms(1) closed False loop(1), folded S_def]
  have "S = {x. mutual E s x}" unfolding S_def by (rule open_component [OF assms(2-6) False])
  then have "assigned_ok E found' sizes'"
    using assigned_ok_extend [OF assms(5) False _ S_def result(2)] result loop(2) by simp
  moreover have "insert s (dom found) \<subseteq> dom found'" using False by (auto simp: result(1) S_def)
  ultimately show ?thesis by blast
qed (use assms(5,7) in \<open>auto simp: assign_from_def\<close>)

lemma assign_all_ok:
  assumes "edge_set rg = E\<inverse>" "distinct order" "ends_ordered E order" "fst ` E \<subseteq> set order"
  shows "order = rev todo @ rest \<Longrightarrow> assigned_ok E found sizes \<Longrightarrow> set rest \<subseteq> dom found \<Longrightarrow>
    fold (assign_from rg) todo (found, sizes) = (found', sizes') \<Longrightarrow> assigned_ok E found' sizes' \<and> set order \<subseteq> dom found'"
proof (induction todo arbitrary: rest found sizes)
  case (Cons s todo)
  obtain found1 sizes1 where one: "assign_from rg s (found, sizes) = (found1, sizes1)" by fastforce
  have "assigned_ok E found1 sizes1 \<and> insert s (dom found) \<subseteq> dom found1"
    using assign_from_ok [OF assms(1) _ _ _ Cons.prems(2,3) one, of "rev todo"] assms(2-4) Cons.prems(1) by simp
  moreover have "set (s # rest) \<subseteq> dom found1" using calculation Cons.prems(3) by auto
  ultimately show ?case using Cons.IH [of "s # rest" found1 sizes1] Cons.prems(1,4) one by simp
qed simp

theorem components_exact:
  assumes "fst ` set edges \<subseteq> set nodes" "strongly_connected_components nodes edges = (found, sizes)"
    and "u \<in> set nodes \<union> snd ` set edges"
  shows "\<exists>i < length sizes. found u = Some i \<and> sizes ! i = card {w. mutual (set edges) u w} \<and>
    (\<forall>v. found v = Some i \<longleftrightarrow> mutual (set edges) u v)"
proof -
  define g where "g = graph_of nodes edges"
  define order where "order = finish_order g nodes"
  have E: "edge_set g = set edges" "edge_set (graph_of nodes (map prod.swap edges)) = (set edges)\<inverse>"
    by (auto simp: g_def edge_set_graph_of)
  note fin = finish_order_ok [where g = g and nodes = nodes, folded order_def, unfolded E]
  have "fst ` set edges \<subseteq> set order" using assms(1) fin(2) by blast
  moreover have "fold (assign_from (graph_of nodes (map prod.swap edges))) (rev order) (Map.empty, []) = (found, sizes)"
    using assms(2) by (simp add: strongly_connected_components_def Let_def g_def order_def)
  ultimately have ok: "assigned_ok (set edges) found sizes \<and> set order \<subseteq> dom found"
    using assign_all_ok [OF E(2) fin(1,3), of "rev order" "[]" Map.empty "[]" found sizes]
    by (simp add: assigned_ok_def pred_closed_def)
  have "u \<in> set order"
  proof (cases "u \<in> set nodes")
    case False
    then obtain x where "(x, u) \<in> set edges" using assms(3) by auto
    then show ?thesis using fin(2) fin(4) [of x] assms(1) by (force simp: g_def neighbors_graph_of)
  qed (use fin(2) in auto)
  then obtain i where i: "found u = Some i" using ok by auto
  then have "i < length sizes \<and> {y. found y = Some i} = {y. mutual (set edges) u y} \<and> sizes ! i = card {y. mutual (set edges) u y}"
    using ok unfolding assigned_ok_def by blast
  then show ?thesis using i by (intro exI [of _ i]) auto
qed

end
