(* ===== verification/Dependency_Graph.thy ===== *)
theory Dependency_Graph
  imports Component_Search Dependency_Traversal Validation
begin

text \<open>
  The declared dependencies of contracts: \<open>backend/api/src/dependency.rs\<close> with the handlers that call it. Transitive closures by
  a queue, cycles, the graphs with their circular edges, the binding of references, and the replacement of a declaration in
  the two tables that mirror each other. Statements of the pool may fail; the replacement is one transaction.
\<close>

section \<open>Tables\<close>

record registered =
  gc_id :: uuid
  gc_address :: string
  gc_network :: network
  gc_interface :: "string option"
  gc_wasm :: string

text \<open>\<open>contract_static_dependencies\<close>, unique in contract and name, and \<open>contract_dependency_edges\<close>.\<close>

record static_dep =
  sd_contract :: uuid
  sd_name :: string
  sd_target :: "uuid option"
  sd_constraint :: string

record canonical_edge =
  ce_source :: uuid
  ce_target :: "uuid option"
  ce_ref :: string
  ce_network :: network
  ce_origin :: string
  ce_state :: string
  ce_constraint :: "string option"
  ce_interface :: "string option"
  ce_wasm :: "string option"
  ce_recorded :: time
  ce_superseded :: "time option"

record dependency_db =
  registered_contracts :: "registered list"
  static_deps :: "static_dep list"
  dependency_edges :: "canonical_edge list"

text \<open>The pairs of a contract and a bound dependency, in the order of the rows.\<close>

definition static_edges :: "static_dep list \<Rightarrow> (uuid \<times> uuid) list" where
  "static_edges rows = concat (map (\<lambda>r. case sd_target r of None \<Rightarrow> [] | Some t \<Rightarrow> [(sd_contract r, t)]) rows)"

lemma static_edges_set: "(a, b) \<in> set (static_edges rows) \<longleftrightarrow> (\<exists>r \<in> set rows. sd_contract r = a \<and> sd_target r = Some b)"
  by (force simp: static_edges_def split: option.splits)

section \<open>Closures\<close>

definition successors :: "(uuid \<times> uuid) list \<Rightarrow> uuid \<Rightarrow> uuid list" where
  "successors edges n = map snd (filter (\<lambda>e. fst e = n) edges)"

text \<open>The \<open>for\<close> loop over the rows of one query.\<close>

fun visit_rows :: "uuid list \<Rightarrow> uuid list \<times> uuid set \<times> uuid list \<Rightarrow> uuid list \<times> uuid set \<times> uuid list" where
  "visit_rows [] s = s"
| "visit_rows (d # ds) (queue, visited, result) =
     visit_rows ds (if d \<in> visited then (queue, visited, result) else (queue @ [d], insert d visited, result @ [d]))"

text \<open>The elements of a list that are not in a set yet, each once.\<close>

fun news :: "uuid set \<Rightarrow> uuid list \<Rightarrow> uuid list" where
  "news v [] = []"
| "news v (d # ds) = (if d \<in> v then news v ds else d # news (insert d v) ds)"

lemma news_set [simp]: "set (news v ds) = set ds - v"
  by (induction ds arbitrary: v) auto

lemma news_distinct [simp]: "distinct (news v ds)"
  by (induction ds arbitrary: v) auto

lemma visit_rows_news: "visit_rows ds (queue, visited, result) = (queue @ news visited ds, visited \<union> set ds, result @ news visited ds)"
  by (induction ds arbitrary: queue visited result) (auto simp: insert_absorb)

function bfs_loop :: "(uuid \<times> uuid) list \<Rightarrow> uuid list \<Rightarrow> uuid set \<Rightarrow> uuid list \<Rightarrow> uuid list" where
  "bfs_loop edges [] visited result = result"
| "bfs_loop edges (current # queue) visited result =
     (let (queue', visited', result') = visit_rows (successors edges current) (queue, visited, result)
      in bfs_loop edges queue' visited' result')"
  by pat_completeness auto

termination
proof (relation "inv_image (less_than <*lex*> less_than)
    (\<lambda>(edges, queue, visited, result). (card (snd ` set edges - visited), length queue))")
  fix edges current queue visited result x queue' y visited' result'
  assume "x = visit_rows (successors edges current) (queue, visited, result)" "(queue', y) = x" "(visited', result') = y"
  then have eq: "queue' = queue @ news visited (successors edges current)" "visited' = visited \<union> set (successors edges current)"
    by (simp_all add: visit_rows_news)
  have sub: "set (successors edges current) \<subseteq> snd ` set edges" by (auto simp: successors_def)
  show "((edges, queue', visited', result'), edges, current # queue, visited, result)
      \<in> inv_image (less_than <*lex*> less_than) (\<lambda>(edges, queue, visited, result). (card (snd ` set edges - visited), length queue))"
  proof (cases "set (successors edges current) \<subseteq> visited")
    case True
    then have "set (news visited (successors edges current)) = {}" by auto
    then have "news visited (successors edges current) = []" by (simp only: set_empty)
    then show ?thesis using True by (simp add: eq Un_absorb2)
  next
    case False
    then have "snd ` set edges - visited' \<subset> snd ` set edges - visited" using sub by (auto simp: eq)
    then show ?thesis by (simp add: psubset_card_mono)
  qed
qed auto

definition get_transitive_dependencies :: "static_dep list \<Rightarrow> uuid \<Rightarrow> uuid list" where
  "get_transitive_dependencies rows root = bfs_loop (static_edges rows) [root] {root} []"

definition get_transitive_dependents :: "static_dep list \<Rightarrow> uuid \<Rightarrow> uuid list" where
  "get_transitive_dependents rows root = bfs_loop (map prod.swap (static_edges rows)) [root] {root} []"

definition detect_cycle :: "static_dep list \<Rightarrow> uuid \<Rightarrow> uuid \<Rightarrow> bool" where
  "detect_cycle rows start dep \<longleftrightarrow> start = dep \<or> start \<in> set (get_transitive_dependencies rows dep)"

definition bfs_ok :: "(uuid \<times> uuid) set \<Rightarrow> uuid \<Rightarrow> uuid list \<Rightarrow> uuid set \<Rightarrow> uuid list \<Rightarrow> bool" where
  "bfs_ok E root queue visited result \<longleftrightarrow>
     distinct result \<and> root \<notin> set result \<and> visited = insert root (set result) \<and> set queue \<subseteq> visited \<and>
     (\<forall>x y. (x, y) \<in> E \<longrightarrow> x \<in> visited - set queue \<longrightarrow> y \<in> visited) \<and> (\<forall>x \<in> visited. (root, x) \<in> E\<^sup>*)"

lemma successors_set [simp]: "y \<in> set (successors edges x) \<longleftrightarrow> (x, y) \<in> set edges"
  by (force simp: successors_def)

lemma bfs_loop_ok:
  "bfs_ok (set edges) root queue visited result \<Longrightarrow>
   distinct (bfs_loop edges queue visited result) \<and>
   set (bfs_loop edges queue visited result) = {x. (root, x) \<in> (set edges)\<^sup>*} - {root}"
proof (induction edges queue visited result rule: bfs_loop.induct)
  case (1 edges visited result)
  have "x \<in> visited" if "(root, x) \<in> (set edges)\<^sup>*" for x
    using that by (induction rule: rtrancl_induct) (use 1 in \<open>auto simp: bfs_ok_def\<close>)
  then show ?case using 1 by (auto simp: bfs_ok_def)
next
  case (2 edges current queue visited result)
  let ?new = "news visited (successors edges current)"
  have "bfs_ok (set edges) root (queue @ ?new) (visited \<union> set (successors edges current)) (result @ ?new)"
    using 2(2) by (auto simp: bfs_ok_def intro: rtrancl_into_rtrancl)
  then show ?case using 2(1) [of _ "queue @ ?new" _ "visited \<union> set (successors edges current)" "result @ ?new", OF refl]
    by (simp add: visit_rows_news)
qed

lemma bfs_exact:
  "distinct (bfs_loop edges [root] {root} [])"
  "set (bfs_loop edges [root] {root} []) = {x. (root, x) \<in> (set edges)\<^sup>*} - {root}"
  using bfs_loop_ok [of edges root "[root]" "{root}" "[]"] by (auto simp: bfs_ok_def)

lemma detect_cycle_iff: "detect_cycle rows start dep \<longleftrightarrow> (dep, start) \<in> (set (static_edges rows))\<^sup>*"
  by (auto simp: detect_cycle_def get_transitive_dependencies_def bfs_exact simp del: bfs_loop.simps)

section \<open>Impact\<close>

record impact_response =
  im_contract :: uuid
  im_change :: "string option"
  im_count :: nat
  im_affected :: "registered list"
  im_cycles :: bool

datatype dep_stmt =
    Impact_rows | Impact_contracts | Contract_network | Resolve nat | Replace_tx | Saved_rows | Graph_rows

definition get_impact_analysis ::
  "(string \<Rightarrow> uuid option) \<Rightarrow> (dep_stmt \<Rightarrow> bool) \<Rightarrow> string \<Rightarrow> string option \<Rightarrow> dependency_db \<Rightarrow> api_error + impact_response" where
  "get_impact_analysis parse_id ok path change db =
     and_then (ok_or (Api_error 400 ''InvalidContractId'') (parse_id path)) (\<lambda>contract.
     and_then (unless (\<not> ok Impact_rows) (Api_error 500 ''INTERNAL_ERROR'')) (\<lambda>_.
     let affected = get_transitive_dependents (static_deps db) contract in
     and_then (unless (affected \<noteq> [] \<and> \<not> ok Impact_contracts) database_error) (\<lambda>_.
     Ok \<lparr>im_contract = contract, im_change = change, im_count = length affected,
         im_affected = filter (\<lambda>c. gc_id c \<in> set affected) (registered_contracts db),
         im_cycles = (contract \<in> set affected)\<rparr>)))"

section \<open>Graphs\<close>

record graph_edge =
  ge_source :: uuid
  ge_target :: uuid
  ge_frequency :: "int option"
  ge_volume :: "int option"
  ge_estimated :: bool
  ge_circular :: bool

text \<open>
  One edge of an answer. \<open>exact\<close> and \<open>totals\<close> are the sums of the recorded calls by pair and by caller; the degree divides
  the total as Rust does, and both are positive where the division is reached.
\<close>

definition out_degree :: "(uuid \<times> uuid) list \<Rightarrow> uuid \<Rightarrow> int" where
  "out_degree edges n = int (length (filter (\<lambda>e. fst e = n) edges))"

definition is_circular :: "(uuid \<Rightarrow> nat option) \<times> nat list \<Rightarrow> uuid \<Rightarrow> uuid \<Rightarrow> bool" where
  "is_circular components s t =
     (case (fst components s, fst components t) of
        (Some a, Some b) \<Rightarrow> a = b \<and> ((if a < length (snd components) then snd components ! a else 0) > 1 \<or> s = t)
      | _ \<Rightarrow> False)"

definition graph_edge_of ::
  "(uuid \<times> uuid \<Rightarrow> int option) \<Rightarrow> (uuid \<Rightarrow> int option) \<Rightarrow> (uuid \<times> uuid) list \<Rightarrow> (uuid \<Rightarrow> nat option) \<times> nat list \<Rightarrow> uuid \<times> uuid \<Rightarrow> graph_edge" where
  "graph_edge_of exact totals edges components e =
     (let (s, t) = e;
          degree = out_degree edges s;
          inferred = (if degree > 0 then
             (case totals s of None \<Rightarrow> None | Some calls \<Rightarrow> if calls > 0 then Some (max (calls div degree) 1) else None) else None);
          frequency = (case exact e of None \<Rightarrow> inferred | Some n \<Rightarrow> Some n)
      in \<lparr>ge_source = s, ge_target = t, ge_frequency = frequency, ge_volume = frequency,
          ge_estimated = (exact e = None \<and> inferred \<noteq> None), ge_circular = is_circular components s t\<rparr>)"

text \<open>The edges between given nodes, and the answer over them.\<close>

definition edges_within :: "uuid list \<Rightarrow> (uuid \<times> uuid) list \<Rightarrow> (uuid \<times> uuid) list" where
  "edges_within ids edges = filter (\<lambda>(s, t). s \<in> set ids \<and> t \<in> set ids) edges"

definition graph_over ::
  "(uuid \<times> uuid \<Rightarrow> int option) \<Rightarrow> (uuid \<Rightarrow> int option) \<Rightarrow> uuid list \<Rightarrow> (uuid \<times> uuid) list \<Rightarrow> graph_edge list" where
  "graph_over exact totals ids edges =
     (let components = strongly_connected_components ids edges
      in map (graph_edge_of exact totals edges components) edges)"

definition build_dependency_graph ::
  "(uuid \<times> uuid \<Rightarrow> int option) \<Rightarrow> (uuid \<Rightarrow> int option) \<Rightarrow> network option \<Rightarrow> dependency_db \<Rightarrow> registered list \<times> graph_edge list" where
  "build_dependency_graph exact totals network db =
     (let listed = filter (\<lambda>c. case network of None \<Rightarrow> True | Some n \<Rightarrow> gc_network c = n) (registered_contracts db);
          ids = map gc_id listed;
          edges = edges_within ids (static_edges (static_deps db))
      in (listed, graph_over exact totals ids edges))"

text \<open>The view \<open>contract_dependencies\<close>: the current declared edges.\<close>

definition current_declared :: "canonical_edge \<Rightarrow> bool" where
  "current_declared e \<longleftrightarrow> ce_superseded e = None \<and> ce_origin e = ''declared''"

definition view_edges :: "canonical_edge list \<Rightarrow> (uuid \<times> uuid) list" where
  "view_edges rows =
     concat (map (\<lambda>e. case ce_target e of None \<Rightarrow> [] | Some t \<Rightarrow> [(ce_source e, t)]) (filter current_declared rows))"

text \<open>The layers around a root: \<open>UNION\<close> gives each neighbour once.\<close>

fun grow_layers :: "(uuid \<times> uuid) list \<Rightarrow> nat \<Rightarrow> uuid list \<Rightarrow> uuid set \<Rightarrow> uuid set" where
  "grow_layers edges 0 layer seen = seen"
| "grow_layers edges (Suc n) layer seen =
     (if layer = [] then seen
      else let around = remdups (concat (map (\<lambda>x. successors edges x @ successors (map prod.swap edges) x) layer)) in
        grow_layers edges n (filter (\<lambda>x. x \<notin> seen) around) (seen \<union> set around))"

definition build_local_graph ::
  "(uuid \<times> uuid \<Rightarrow> int option) \<Rightarrow> (uuid \<Rightarrow> int option) \<Rightarrow> uuid \<Rightarrow> nat \<Rightarrow> dependency_db \<Rightarrow> registered list \<times> graph_edge list" where
  "build_local_graph exact totals root depth db =
     (let ids = sorted_list_of_set (grow_layers (view_edges (dependency_edges db)) depth [root] {root});
          edges = edges_within ids (view_edges (dependency_edges db))
      in (filter (\<lambda>c. gc_id c \<in> set ids) (registered_contracts db), graph_over exact totals ids edges))"

definition local_depth :: "nat option \<Rightarrow> nat" where
  "local_depth depth = clamp 1 3 (unwrap_or depth 1)"


section \<open>References\<close>

record dep_decl =
  dd_name :: string
  dd_constraint :: string

datatype resolution = Bound uuid | Network_mismatch uuid network | Unknown_address | Not_an_address

definition lookup_contract_by_identifier :: "(string \<Rightarrow> uuid option) \<Rightarrow> string \<Rightarrow> dependency_db \<Rightarrow> uuid option" where
  "lookup_contract_by_identifier parse_id identifier db =
     (case parse_id (trim identifier) of
        Some u \<Rightarrow> map_option gc_id (row_get gc_id (registered_contracts db) u)
      | None \<Rightarrow> map_option gc_id (row_get gc_address (registered_contracts db) (trim identifier)))"

text \<open>The first row in the order of the networks.\<close>

definition first_by_network :: "registered list \<Rightarrow> registered option" where
  "first_by_network rows = (case sort_key (\<lambda>c. network_rank (gc_network c)) rows of [] \<Rightarrow> None | c # _ \<Rightarrow> Some c)"

definition resolve_reference :: "registered list \<Rightarrow> string \<Rightarrow> network \<Rightarrow> resolution" where
  "resolve_reference rows target_ref network =
     (let t = trim target_ref in
      if \<not> validate_contract_id t then Not_an_address
      else case find (\<lambda>c. gc_address c = t \<and> gc_network c = network) rows of
             Some c \<Rightarrow> Bound (gc_id c)
           | None \<Rightarrow>
               (case first_by_network (filter (\<lambda>c. gc_address c = t) rows) of
                  Some c \<Rightarrow> Network_mismatch (gc_id c) (gc_network c)
                | None \<Rightarrow> Unknown_address))"

text \<open>A failing query ends the loop over the declarations.\<close>

definition resolve_all :: "(dep_stmt \<Rightarrow> bool) \<Rightarrow> registered list \<Rightarrow> network \<Rightarrow> dep_decl list \<Rightarrow> unit + resolution list" where
  "resolve_all ok rows network decls =
     (if \<forall>i \<in> set [0..<length decls]. ok (Resolve i) \<or> \<not> validate_contract_id (trim (dd_name (decls ! i)))
      then Ok (map (\<lambda>d. resolve_reference rows (dd_name d) network) decls)
      else Err ())"

section \<open>The replacement of a declaration\<close>

definition bound_target :: "resolution \<Rightarrow> uuid option" where
  "bound_target r = (case r of Bound u \<Rightarrow> Some u | _ \<Rightarrow> None)"

definition upsert_static :: "uuid \<Rightarrow> dep_decl \<times> resolution \<Rightarrow> static_dep list \<Rightarrow> static_dep list" where
  "upsert_static contract dr rows =
     (let (d, r) = dr; same = (\<lambda>x. sd_contract x = contract \<and> sd_name x = dd_name d) in
      if find same rows = None
      then rows @ [\<lparr>sd_contract = contract, sd_name = dd_name d, sd_target = bound_target r, sd_constraint = dd_constraint d\<rparr>]
      else update_where same (\<lambda>x. x\<lparr>sd_target := bound_target r, sd_constraint := dd_constraint d\<rparr>) rows)"

record edge_facts =
  ef_target :: "uuid option"
  ef_state :: string
  ef_interface :: "string option"
  ef_wasm :: "string option"

definition facts_of :: "registered list \<Rightarrow> resolution \<Rightarrow> edge_facts" where
  "facts_of rows r =
     (let target = bound_target r;
          state = (case r of Bound _ \<Rightarrow> ''resolved'' | Network_mismatch _ _ \<Rightarrow> ''network_mismatch'' | _ \<Rightarrow> ''unresolved'');
          row = (case target of None \<Rightarrow> None | Some u \<Rightarrow> row_get gc_id rows u)
      in \<lparr>ef_target = target, ef_state = state,
          ef_interface = (case row of None \<Rightarrow> None | Some c \<Rightarrow> gc_interface c),
          ef_wasm = (case row of None \<Rightarrow> None | Some c \<Rightarrow> Some (gc_wasm c))\<rparr>)"

text \<open>The current declared edges of a contract on its network; the last one of a reference counts.\<close>

definition current_of :: "uuid \<Rightarrow> network \<Rightarrow> canonical_edge \<Rightarrow> bool" where
  "current_of contract network e \<longleftrightarrow> current_declared e \<and> ce_source e = contract \<and> ce_network e = network"

definition current_by_ref :: "uuid \<Rightarrow> network \<Rightarrow> canonical_edge list \<Rightarrow> string \<Rightarrow> canonical_edge option" where
  "current_by_ref contract network edges ref = find (\<lambda>e. ce_ref e = ref) (rev (filter (current_of contract network) edges))"

definition carried :: "registered list \<Rightarrow> uuid \<Rightarrow> network \<Rightarrow> canonical_edge list \<Rightarrow> dep_decl \<times> resolution \<Rightarrow> bool" where
  "carried rows contract network edges dr =
     (let (d, r) = dr; f = facts_of rows r in
      case current_by_ref contract network edges (dd_name d) of
        None \<Rightarrow> False
      | Some e \<Rightarrow> ce_target e = ef_target f \<and> ce_constraint e = Some (dd_constraint d) \<and> ce_interface e = ef_interface f \<and>
          ce_state e = ef_state f)"

text \<open>
  An insertion fails on a self edge and on a second current edge of one source, reference, network and origin, by the
  constraints of the table.
\<close>

definition insert_edge :: "canonical_edge \<Rightarrow> canonical_edge list \<Rightarrow> canonical_edge list option" where
  "insert_edge e edges =
     (if ce_target e = Some (ce_source e) \<or>
         (\<exists>x \<in> set edges. ce_superseded x = None \<and> ce_source x = ce_source e \<and> ce_ref x = ce_ref e \<and>
            ce_network x = ce_network e \<and> ce_origin x = ce_origin e)
      then None else Some (edges @ [e]))"

definition declared_edge :: "time \<Rightarrow> registered list \<Rightarrow> uuid \<Rightarrow> network \<Rightarrow> dep_decl \<times> resolution \<Rightarrow> canonical_edge" where
  "declared_edge now rows contract network dr =
     (let (d, r) = dr; f = facts_of rows r in
      \<lparr>ce_source = contract, ce_target = ef_target f, ce_ref = dd_name d, ce_network = network, ce_origin = ''declared'',
       ce_state = ef_state f, ce_constraint = Some (dd_constraint d), ce_interface = ef_interface f, ce_wasm = ef_wasm f,
       ce_recorded = now, ce_superseded = None\<rparr>)"

fun insert_edges :: "canonical_edge list \<Rightarrow> canonical_edge list \<Rightarrow> canonical_edge list option" where
  "insert_edges [] edges = Some edges"
| "insert_edges (e # es) edges = (case insert_edge e edges of None \<Rightarrow> None | Some edges' \<Rightarrow> insert_edges es edges')"

definition write_canonical_edges ::
  "time \<Rightarrow> registered list \<Rightarrow> uuid \<Rightarrow> network \<Rightarrow> (dep_decl \<times> resolution) list \<Rightarrow> canonical_edge list \<Rightarrow> canonical_edge list option" where
  "write_canonical_edges now rows contract network drs edges =
     (let unchanged = map (dd_name \<circ> fst) (filter (carried rows contract network edges) drs);
          to_write = filter (\<lambda>dr. \<not> carried rows contract network edges dr) drs;
          kept = update_where (\<lambda>e. current_of contract network e \<and> ce_ref e \<notin> set unchanged) (\<lambda>e. e\<lparr>ce_superseded := Some now\<rparr>) edges
      in insert_edges (map (declared_edge now rows contract network) to_write) kept)"

text \<open>The cycles are only logged: their answer is left out here, and the handler asks again.\<close>

definition save_dependencies ::
  "(dep_stmt \<Rightarrow> bool) \<Rightarrow> time \<Rightarrow> uuid \<Rightarrow> network \<Rightarrow> dep_decl list \<Rightarrow> dependency_db \<Rightarrow> (unit + resolution list) \<times> dependency_db" where
  "save_dependencies ok now contract network decls db =
     (case resolve_all ok (registered_contracts db) network decls of
        Inl e \<Rightarrow> (Err e, db)
      | Inr rs \<Rightarrow>
          if \<not> ok Replace_tx then (Err (), db)
          else case write_canonical_edges now (registered_contracts db) contract network (zip decls rs) (dependency_edges db) of
                 None \<Rightarrow> (Err (), db)
               | Some edges \<Rightarrow>
                   (Ok rs, db\<lparr>static_deps := fold (upsert_static contract) (zip decls rs)
                                (filter (\<lambda>x. sd_contract x \<noteq> contract) (static_deps db)),
                              dependency_edges := edges\<rparr>))"

section \<open>The endpoint\<close>

record declare_response =
  dr_contract :: uuid
  dr_saved :: "canonical_edge list"
  dr_circular :: bool
  dr_unresolved :: "(string \<times> resolution) list"

definition validate_declaration :: "dep_decl \<Rightarrow> bool" where
  "validate_declaration d \<longleftrightarrow> validate_length (dd_name d) 1 255 \<and> validate_length (dd_constraint d) 1 100"

definition validate_declarations :: "dep_decl list \<Rightarrow> bool" where
  "validate_declarations decls \<longleftrightarrow> length decls \<le> 50 \<and> list_all validate_declaration decls"

text \<open>\<open>uuid_text\<close> prints a UUID; the reason of an unbound reference is given by its resolution.\<close>

definition declare_contract_dependencies ::
  "(uuid \<Rightarrow> string) \<Rightarrow> (dep_stmt \<Rightarrow> bool) \<Rightarrow> time \<Rightarrow> uuid \<Rightarrow> dep_decl list \<Rightarrow> dependency_db \<Rightarrow>
   (api_error + declare_response) \<times> dependency_db" where
  "declare_contract_dependencies uuid_text ok now contract decls db =
     (if \<not> validate_declarations decls then (Err validation_error, db)
      else case and_then (unless (\<not> ok Contract_network) database_error) (\<lambda>_.
                ok_or (Api_error 404 ''ContractNotFound'') (row_get gc_id (registered_contracts db) contract)) of
        Inl e \<Rightarrow> (Err e, db)
      | Inr c \<Rightarrow>
          if list_ex (\<lambda>d. dd_name d = uuid_text contract) decls then (Err (Api_error 400 ''SelfDependency''), db)
          else case save_dependencies ok now contract (gc_network c) decls db of
            (Inl _, db') \<Rightarrow> (Err (Api_error 500 ''INTERNAL_ERROR''), db')
          | (Inr rs, db') \<Rightarrow>
              if \<not> ok Saved_rows then (Err database_error, db')
              else
                let saved = sort_key ce_ref (filter (\<lambda>e. current_declared e \<and> ce_source e = contract) (dependency_edges db'))
                in (Ok \<lparr>dr_contract = contract, dr_saved = saved,
                        dr_circular = list_ex (\<lambda>e. case ce_target e of None \<Rightarrow> False
                            | Some dep \<Rightarrow> ok Graph_rows \<and> detect_cycle (static_deps db') contract dep) saved,
                        dr_unresolved = concat (map (\<lambda>(d, r). case r of Bound _ \<Rightarrow> [] | _ \<Rightarrow> [(dd_name d, r)]) (zip decls rs))\<rparr>, db'))"

end
