(* ===== verification/Dependency_Runs.thy ===== *)
theory Dependency_Runs
  imports Dependency_Graph
begin

text \<open>
  What the graphs and the declarations of dependencies mean: circular edges are the edges on a cycle, closures are
  reachability, the two tables hold the same pairs in every state that declarations reach, a declaration repeated changes
  nothing, and the history replays.
\<close>

section \<open>Circular edges\<close>

lemma circular_iff:
  assumes "fst ` set edges \<subseteq> set ids" "(s, t) \<in> set edges"
  shows "is_circular (strongly_connected_components ids edges) s t \<longleftrightarrow> (t, s) \<in> (set edges)\<^sup>*"
proof -
  obtain found sizes where c: "strongly_connected_components ids edges = (found, sizes)" by fastforce
  have "s \<in> set ids" using assms by force
  then obtain i where i: "i < length sizes" "found s = Some i" "sizes ! i = card {w. mutual (set edges) s w}"
      "\<And>v. found v = Some i \<longleftrightarrow> mutual (set edges) s v"
    using components_exact [OF assms(1) c, of s] by blast
  have "t \<in> set ids \<union> snd ` set edges" using assms(2) by force
  then obtain j where j: "found t = Some j" using components_exact [OF assms(1) c, of t] by blast
  have step: "(s, t) \<in> (set edges)\<^sup>*" using assms(2) by blast
  have "{w. mutual (set edges) s w} \<subseteq> insert s (snd ` set edges)"
  proof
    fix x assume "x \<in> {w. mutual (set edges) s w}"
    then have "(s, x) \<in> (set edges)\<^sup>*" by (simp add: mutual_def)
    then show "x \<in> insert s (snd ` set edges)" by (cases rule: rtranclE) force+
  qed
  then have fin: "finite {w. mutual (set edges) s w}" by (rule finite_subset) simp
  have "sizes ! i > 1 \<or> s = t" if "mutual (set edges) s t"
  proof (cases "s = t")
    case False
    have "card {s, t} \<le> card {w. mutual (set edges) s w}" using that by (intro card_mono fin) auto
    then show ?thesis using False i(3) by simp
  qed simp
  moreover have "mutual (set edges) s t \<longleftrightarrow> (t, s) \<in> (set edges)\<^sup>*" using step by (simp add: mutual_def)
  moreover have "i = j \<longleftrightarrow> mutual (set edges) s t" using i(4) [of t] j by auto
  ultimately show ?thesis using i(1,2) j by (auto simp: is_circular_def c)
qed

lemma graph_over_circular:
  assumes "fst ` set edges \<subseteq> set ids"
  shows "map (\<lambda>e. (ge_source e, ge_target e, ge_circular e)) (graph_over exact totals ids edges) =
    map (\<lambda>(s, t). (s, t, (t, s) \<in> (set edges)\<^sup>*)) edges"
  using circular_iff [OF assms] by (auto simp: graph_over_def graph_edge_of_def Let_def split: prod.splits)

lemma edges_within_set: "set (edges_within ids edges) = {(s, t) \<in> set edges. s \<in> set ids \<and> t \<in> set ids}"
  by (auto simp: edges_within_def)

text \<open>
  C10. In the graph of a network, or of all, an edge is marked circular exactly when it lies on a cycle of the edges between the
  listed contracts.
\<close>

theorem circular_edges_exact:
  "map (\<lambda>e. (ge_source e, ge_target e, ge_circular e)) (snd (build_dependency_graph exact totals network db)) =
   (let edges = edges_within (map gc_id (fst (build_dependency_graph exact totals network db))) (static_edges (static_deps db))
    in map (\<lambda>(s, t). (s, t, (t, s) \<in> (set edges)\<^sup>*)) edges)"
  unfolding build_dependency_graph_def Let_def fst_conv snd_conv
  by (rule graph_over_circular) (auto simp: edges_within_set)

section \<open>Neighbourhoods\<close>

definition around :: "(uuid \<times> uuid) list \<Rightarrow> (uuid \<times> uuid) set" where
  "around edges = set edges \<union> (set edges)\<inverse>"

fun ball :: "('n \<times> 'n) set \<Rightarrow> 'n \<Rightarrow> nat \<Rightarrow> 'n set" where
  "ball U root 0 = {root}"
| "ball U root (Suc n) = ball U root n \<union> U `` ball U root n"

lemma ball_relpow: "ball U root n = {v. \<exists>k \<le> n. (root, v) \<in> U ^^ k}"
proof (induction n)
  case (Suc n)
  show ?case
  proof (intro set_eqI iffI)
    fix v assume "v \<in> ball U root (Suc n)"
    then consider k where "k \<le> n" "(root, v) \<in> U ^^ k" | k u where "k \<le> n" "(root, u) \<in> U ^^ k" "(u, v) \<in> U"
      using Suc by auto
    then show "v \<in> {v. \<exists>k \<le> Suc n. (root, v) \<in> U ^^ k}"
    proof cases
      case (2 k u)
      then have "(root, v) \<in> U ^^ Suc k" by auto
      then show ?thesis using 2(1) by blast
    qed (auto intro: le_SucI)
  next
    fix v assume "v \<in> {v. \<exists>k \<le> Suc n. (root, v) \<in> U ^^ k}"
    then obtain k where k: "k \<le> Suc n" "(root, v) \<in> U ^^ k" by blast
    show "v \<in> ball U root (Suc n)"
    proof (cases k)
      case 0
      then show ?thesis using k Suc by auto
    next
      case (Suc m)
      then obtain u where "(root, u) \<in> U ^^ m" "(u, v) \<in> U" using k(2) by auto
      then show ?thesis using k(1) Suc \<open>ball U root n = _\<close> by auto
    qed
  qed
qed simp

lemma ball_closed: "U `` ball U root n \<subseteq> ball U root n \<Longrightarrow> ball U root (n + m) = ball U root n"
  by (induction m) auto

lemma grow_layers_ball:
  "seen = ball (around edges) root n \<Longrightarrow> set layer \<subseteq> seen \<Longrightarrow>
   around edges `` (seen - set layer) \<subseteq> seen \<Longrightarrow>
   grow_layers edges m layer seen = ball (around edges) root (n + m)"
proof (induction edges m layer seen arbitrary: n rule: grow_layers.induct)
  case (2 edges m layer seen)
  let ?U = "around edges" and ?next = "remdups (concat (map (\<lambda>x. successors edges x @ successors (map prod.swap edges) x) layer))"
  have next_set: "set ?next = ?U `` set layer" by (auto simp: around_def)
  show ?case
  proof (cases "layer = []")
    case True
    then show ?thesis using ball_closed [of ?U root n "Suc m"] 2(2,4) by simp
  next
    case False
    have "seen \<union> set ?next = ball ?U root (Suc n)" using 2(2-4) unfolding next_set by auto
    moreover have "set (filter (\<lambda>x. x \<notin> seen) ?next) = ?U `` set layer - seen" unfolding set_filter next_set by blast
    then have "?U `` (seen \<union> set ?next - set (filter (\<lambda>x. x \<notin> seen) ?next)) \<subseteq> seen \<union> set ?next"
      using 2(4) unfolding next_set by blast
    ultimately have "grow_layers edges m (filter (\<lambda>x. x \<notin> seen) ?next) (seen \<union> set ?next) = ball ?U root (Suc n + m)"
      by (intro 2(1) [OF False refl]) auto
    then show ?thesis using False by (simp add: Let_def)
  qed
qed simp

lemma local_ids: "grow_layers edges depth [root] {root} = {v. \<exists>k \<le> depth. (root, v) \<in> around edges ^^ k}"
  using grow_layers_ball [of "{root}" edges root 0 "[root]" depth] by (simp add: ball_relpow)

section \<open>Closures\<close>

text \<open>
  The closures are reachability: each contract that the root depends on, directly or not, is answered once, and nothing
  else; and so for the contracts that depend on the root.
\<close>

theorem closures_exact:
  "distinct (get_transitive_dependencies rows root) \<and> distinct (get_transitive_dependents rows root) \<and>
   set (get_transitive_dependencies rows root) = {x. (root, x) \<in> (set (static_edges rows))\<^sup>*} - {root} \<and>
   set (get_transitive_dependents rows root) = {x. (x, root) \<in> (set (static_edges rows))\<^sup>*} - {root}"
proof -
  have "set (map prod.swap (static_edges rows)) = (set (static_edges rows))\<inverse>" by auto
  then show ?thesis
    unfolding get_transitive_dependencies_def get_transitive_dependents_def
    by (simp add: bfs_exact rtrancl_converse del: bfs_loop.simps)
qed

text \<open>
  C37. The impact analysis never reports a cycle: it looks for the contract among its own dependents, which the closure leaves
  out, so the answer is the same for a contract that depends on itself through others.
\<close>

theorem impact_cycle_never_reported:
  "case get_impact_analysis parse_id ok path change db of Inl _ \<Rightarrow> True | Inr resp \<Rightarrow> \<not> im_cycles resp"
proof -
  have "root \<notin> set (get_transitive_dependents rows root)" for rows and root :: uuid
    by (simp add: get_transitive_dependents_def bfs_exact del: bfs_loop.simps)
  then show ?thesis
    by (auto simp: get_impact_analysis_def and_then_def ok_or_def unless_def Let_def split: sum.splits option.splits)
qed

section \<open>One replacement\<close>

definition matches :: "registered list \<Rightarrow> canonical_edge \<Rightarrow> dep_decl \<times> resolution \<Rightarrow> bool" where
  "matches rows e dr \<longleftrightarrow>
     (let f = facts_of rows (snd dr) in
      ce_ref e = dd_name (fst dr) \<and> ce_target e = ef_target f \<and> ce_constraint e = Some (dd_constraint (fst dr)) \<and>
      ce_interface e = ef_interface f \<and> ce_state e = ef_state f)"

definition edge_key :: "canonical_edge \<Rightarrow> uuid \<times> string \<times> network \<times> string" where
  "edge_key e = (ce_source e, ce_ref e, ce_network e, ce_origin e)"

text \<open>The unique index and the check against self edges.\<close>

definition edges_ok :: "canonical_edge list \<Rightarrow> bool" where
  "edges_ok edges \<longleftrightarrow>
     distinct (map edge_key (filter (\<lambda>e. ce_superseded e = None) edges)) \<and>
     list_all (\<lambda>e. ce_target e \<noteq> Some (ce_source e)) edges"

lemma ef_target [simp]: "ef_target (facts_of rows r) = bound_target r"
  by (simp add: facts_of_def Let_def)

lemma declared_edge_matches [simp]: "matches rows (declared_edge now rows contract network dr) dr"
  by (cases dr) (simp add: matches_def declared_edge_def Let_def)

lemma declared_edge_current [simp]: "current_of contract network (declared_edge now rows contract network dr)"
  by (cases dr) (simp add: current_of_def current_declared_def declared_edge_def Let_def)

lemma declared_edge_key:
  "edge_key (declared_edge now rows contract network dr) = (contract, dd_name (fst dr), network, ''declared'')"
  "ce_superseded (declared_edge now rows contract network dr) = None" "ce_recorded (declared_edge now rows contract network dr) = now"
  by (cases dr; simp add: edge_key_def declared_edge_def Let_def)+

lemma insert_edge_Some:
  "insert_edge e edges = Some edges' \<longleftrightarrow>
   edges' = edges @ [e] \<and> ce_target e \<noteq> Some (ce_source e) \<and> edge_key e \<notin> edge_key ` set (filter (\<lambda>x. ce_superseded x = None) edges)"
proof -
  have "(\<exists>x \<in> set edges. ce_superseded x = None \<and> ce_source x = ce_source e \<and> ce_ref x = ce_ref e \<and>
      ce_network x = ce_network e \<and> ce_origin x = ce_origin e) \<longleftrightarrow> edge_key e \<in> edge_key ` set (filter (\<lambda>x. ce_superseded x = None) edges)"
    by (simp add: edge_key_def image_iff) metis
  then show ?thesis by (auto simp: insert_edge_def)
qed

lemma insert_edges_Some:
  "insert_edges es edges = Some edges' \<Longrightarrow> list_all (\<lambda>e. ce_superseded e = None) es \<Longrightarrow>
   edges' = edges @ es \<and> (edges_ok edges \<longrightarrow> edges_ok edges')"
proof (induction es arbitrary: edges)
  case (Cons e es)
  then obtain edges1 where one: "insert_edge e edges = Some edges1" "insert_edges es edges1 = Some edges'"
    by (auto split: option.splits)
  have "edges_ok edges \<longrightarrow> edges_ok edges1"
    using one(1) Cons.prems(2) by (auto simp: insert_edge_Some edges_ok_def)
  then show ?case using Cons.IH [OF one(2)] Cons.prems(2) one(1) by (auto simp: insert_edge_Some)
qed simp

text \<open>The edges of a key, by the index.\<close>

lemma current_key_unique:
  assumes "edges_ok edges" "x \<in> set edges" "y \<in> set edges" "ce_superseded x = None" "ce_superseded y = None" "edge_key x = edge_key y"
  shows "x = y"
  using assms by (auto simp: edges_ok_def distinct_map dest!: inj_onD [of edge_key _ x y])

lemma current_by_ref_Some:
  assumes "edges_ok edges"
  shows "current_by_ref contract network edges ref = Some e \<longleftrightarrow> e \<in> set edges \<and> current_of contract network e \<and> ce_ref e = ref"
proof
  assume "current_by_ref contract network edges ref = Some e"
  then show "e \<in> set edges \<and> current_of contract network e \<and> ce_ref e = ref"
    by (auto simp: current_by_ref_def row_get_def [symmetric] dest!: row_get_key)
next
  assume e: "e \<in> set edges \<and> current_of contract network e \<and> ce_ref e = ref"
  then have "current_by_ref contract network edges ref \<noteq> None"
    by (auto simp: current_by_ref_def find_None_iff)
  then obtain x where x: "current_by_ref contract network edges ref = Some x" by blast
  then have "x \<in> set edges \<and> current_of contract network x \<and> ce_ref x = ref"
    by (auto simp: current_by_ref_def row_get_def [symmetric] dest!: row_get_key)
  then have "x = e"
    using e by (intro current_key_unique [OF assms]) (auto simp: current_of_def current_declared_def edge_key_def)
  then show "current_by_ref contract network edges ref = Some e" using x by simp
qed

lemma carried_iff:
  assumes "edges_ok edges"
  shows "carried rows contract network edges dr \<longleftrightarrow> (\<exists>e \<in> set edges. current_of contract network e \<and> matches rows e dr)"
  using current_by_ref_Some [OF assms, of contract network "dd_name (fst dr)"]
  by (cases dr; cases "current_by_ref contract network edges (dd_name (fst dr))") (force simp: carried_def matches_def Let_def)+

definition close_edges :: "time \<Rightarrow> (canonical_edge \<Rightarrow> bool) \<Rightarrow> canonical_edge list \<Rightarrow> canonical_edge list" where
  "close_edges now p edges = update_where p (\<lambda>e. e\<lparr>ce_superseded := Some now\<rparr>) edges"

lemma close_edges_open:
  "filter (\<lambda>e. ce_superseded e = None) (close_edges now p edges) = filter (\<lambda>e. ce_superseded e = None \<and> \<not> p e) edges"
  by (induction edges) (simp_all add: close_edges_def update_where_def)

lemma close_edges_current: "e \<in> set (close_edges now p edges) \<Longrightarrow> ce_superseded e = None \<Longrightarrow> e \<in> set edges \<and> \<not> p e"
  by (auto simp: close_edges_def update_where_def split: if_splits)

lemma close_edges_fields:
  "e \<in> set (close_edges now p edges) \<Longrightarrow> \<exists>x \<in> set edges. ce_source x = ce_source e \<and> ce_network x = ce_network e"
  by (force simp: close_edges_def update_where_def split: if_splits)

lemma close_edges_keep: "e \<in> set edges \<Longrightarrow> \<not> p e \<Longrightarrow> e \<in> set (close_edges now p edges)"
  by (force simp: close_edges_def update_where_def)

lemma close_edges_ok: "edges_ok edges \<Longrightarrow> edges_ok (close_edges now p edges)"
proof -
  assume ok: "edges_ok edges"
  have "distinct (map edge_key (filter (\<lambda>e. ce_superseded e = None \<and> \<not> p e) edges))"
    using ok distinct_map_filter [of edge_key "filter (\<lambda>e. ce_superseded e = None) edges" "\<lambda>e. \<not> p e"]
    by (simp add: edges_ok_def conj_commute)
  moreover have "list_all (\<lambda>e. ce_target e \<noteq> Some (ce_source e)) (close_edges now p edges)"
    using ok by (auto simp: edges_ok_def list_all_iff close_edges_def update_where_def)
  ultimately show ?thesis by (simp add: edges_ok_def close_edges_open)
qed

text \<open>
  What a replacement leaves: the other edges as they were, and for the contract exactly one current edge for each
  declaration, the old one where nothing changed.
\<close>

lemma write_canonical_edges_spec:
  assumes "write_canonical_edges now rows contract network drs edges = Some edges'" "edges_ok edges"
  defines "closes \<equiv> \<lambda>e. current_of contract network e \<and> ce_ref e \<notin> dd_name ` fst ` {dr \<in> set drs. carried rows contract network edges dr}"
    and "new \<equiv> map (declared_edge now rows contract network) (filter (\<lambda>dr. \<not> carried rows contract network edges dr) drs)"
  shows "edges' = close_edges now closes edges @ new" "edges_ok edges'"
    "e \<in> set edges' \<Longrightarrow> current_of contract network e \<Longrightarrow> \<exists>dr \<in> set drs. matches rows e dr"
    "dr \<in> set drs \<Longrightarrow> \<exists>e \<in> set edges'. current_of contract network e \<and> matches rows e dr"
proof -
  have "set (map (dd_name \<circ> fst) (filter (carried rows contract network edges) drs)) =
      dd_name ` fst ` {dr \<in> set drs. carried rows contract network edges dr}" by auto
  then have "insert_edges new (close_edges now closes edges) = Some edges'"
    using assms(1) by (simp add: write_canonical_edges_def close_edges_def closes_def new_def Let_def)
  then have "edges' = close_edges now closes edges @ new \<and> (edges_ok (close_edges now closes edges) \<longrightarrow> edges_ok edges')"
    by (rule insert_edges_Some) (simp add: new_def list_all_iff declared_edge_key)
  then show eq: "edges' = close_edges now closes edges @ new" and ok': "edges_ok edges'"
    using close_edges_ok [OF assms(2)] by blast+
  have old: "e \<in> set edges \<and> \<not> closes e" if "e \<in> set (close_edges now closes edges)" "current_of contract network e" for e
    using that close_edges_current by (auto simp: current_of_def current_declared_def)
  show "\<exists>dr \<in> set drs. matches rows e dr" if e: "e \<in> set edges'" "current_of contract network e"
  proof (cases "e \<in> set new")
    case False
    then have "e \<in> set (close_edges now closes edges)" using e(1) eq by auto
    then have o: "e \<in> set edges" "\<not> closes e" using old e(2) by auto
    then obtain dr where dr: "dr \<in> set drs" "carried rows contract network edges dr" "ce_ref e = dd_name (fst dr)"
      using e(2) by (auto simp: closes_def)
    then obtain x where x: "x \<in> set edges" "current_of contract network x" "matches rows x dr"
      using carried_iff [OF assms(2)] by blast
    then have "x = e"
      using o(1) e(2) dr(3)
      by (intro current_key_unique [OF assms(2)]) (auto simp: current_of_def current_declared_def edge_key_def matches_def Let_def)
    then show ?thesis using x(3) dr(1) by blast
  next
    case True
    then obtain dr where "dr \<in> set drs" "e = declared_edge now rows contract network dr" by (auto simp: new_def)
    then show ?thesis using declared_edge_matches by blast
  qed
  show "\<exists>e \<in> set edges'. current_of contract network e \<and> matches rows e dr" if dr: "dr \<in> set drs"
  proof (cases "carried rows contract network edges dr")
    case True
    then obtain x where x: "x \<in> set edges" "current_of contract network x" "matches rows x dr"
      using carried_iff [OF assms(2)] by blast
    then have "\<not> closes x" using dr True by (auto simp: closes_def matches_def Let_def)
    then have "x \<in> set (close_edges now closes edges)" using x(1) by (rule_tac close_edges_keep)
    then show ?thesis using x eq by auto
  next
    case False
    then have "declared_edge now rows contract network dr \<in> set edges'" using dr eq by (auto simp: new_def)
    then show ?thesis using declared_edge_current declared_edge_matches by blast
  qed
qed

text \<open>The rows of the other table after the loop of upserts.\<close>

definition static_pairs :: "static_dep list \<Rightarrow> (uuid \<times> string \<times> uuid option) set" where
  "static_pairs rows = (\<lambda>x. (sd_contract x, sd_name x, sd_target x)) ` set rows"

definition static_agrees :: "(string \<Rightarrow> resolution) \<Rightarrow> uuid \<Rightarrow> static_dep list \<Rightarrow> bool" where
  "static_agrees f contract rows \<longleftrightarrow> (\<forall>n t. (contract, n, t) \<in> static_pairs rows \<longrightarrow> t = bound_target (f n))"

lemma static_pairs_iff:
  "(a, n, t) \<in> static_pairs rows \<longleftrightarrow> (\<exists>x \<in> set rows. sd_contract x = a \<and> sd_name x = n \<and> sd_target x = t)"
  by (auto simp: static_pairs_def)

lemma upsert_static_pairs:
  assumes "static_agrees f contract rows"
  shows "static_pairs (upsert_static contract (d, f (dd_name d)) rows) =
      insert (contract, dd_name d, bound_target (f (dd_name d))) (static_pairs rows)"
    and "static_agrees f contract (upsert_static contract (d, f (dd_name d)) rows)"
proof -
  let ?same = "\<lambda>x. sd_contract x = contract \<and> sd_name x = dd_name d"
  let ?g = "\<lambda>x. x\<lparr>sd_target := bound_target (f (dd_name d)), sd_constraint := dd_constraint d\<rparr>"
  have agree: "sd_target x = bound_target (f (dd_name d))" if "x \<in> set rows" "?same x" for x
  proof -
    have "(contract, dd_name d, sd_target x) \<in> static_pairs rows" unfolding static_pairs_iff using that by blast
    then show ?thesis using assms unfolding static_agrees_def by blast
  qed
  have "(\<lambda>x. (sd_contract x, sd_name x, sd_target x)) (if ?same x then ?g x else x) = (sd_contract x, sd_name x, sd_target x)"
    if "x \<in> set rows" for x using agree [OF that] by auto
  then have "static_pairs (update_where ?same ?g rows) = static_pairs rows"
    unfolding static_pairs_def update_where_def set_map image_image by (rule image_cong [OF refl])
  moreover have "(contract, dd_name d, bound_target (f (dd_name d))) \<in> static_pairs rows" if found: "find ?same rows \<noteq> None"
  proof -
    obtain x where x: "x \<in> set rows" "sd_contract x = contract" "sd_name x = dd_name d"
      using found [unfolded find_None_iff] by blast
    then show ?thesis unfolding static_pairs_iff using agree by blast
  qed
  ultimately show pairs: "static_pairs (upsert_static contract (d, f (dd_name d)) rows) =
      insert (contract, dd_name d, bound_target (f (dd_name d))) (static_pairs rows)"
    by (cases "find ?same rows = None") (auto simp: upsert_static_def Let_def static_pairs_def)
  show "static_agrees f contract (upsert_static contract (d, f (dd_name d)) rows)"
    using assms unfolding static_agrees_def pairs by blast
qed

lemma upserts_static_pairs:
  "static_agrees f contract rows \<Longrightarrow>
   static_pairs (fold (upsert_static contract) (map (\<lambda>d. (d, f (dd_name d))) decls) rows) =
   (\<lambda>d. (contract, dd_name d, bound_target (f (dd_name d)))) ` set decls \<union> static_pairs rows"
  by (induction decls arbitrary: rows) (simp_all add: upsert_static_pairs)

lemma static_edges_pairs: "(a, b) \<in> set (static_edges rows) \<longleftrightarrow> (\<exists>n. (a, n, Some b) \<in> static_pairs rows)"
  by (force simp: static_edges_set static_pairs_def)

section \<open>Runs\<close>

text \<open>Contracts are registered and change their interface; declarations come from the endpoint and from a registration.\<close>

inductive dep_step :: "dependency_db \<Rightarrow> dependency_db \<Rightarrow> bool" where
  registers: "gc_id c \<notin> gc_id ` set (registered_contracts db) \<Longrightarrow>
    dep_step db (db\<lparr>registered_contracts := registered_contracts db @ [c]\<rparr>)"
| upgrades: "dep_step db (db\<lparr>registered_contracts := row_upd gc_id (registered_contracts db) u (\<lambda>c. c\<lparr>gc_interface := i, gc_wasm := w\<rparr>)\<rparr>)"
| publishes: "row_get gc_id (registered_contracts db) contract = Some c \<Longrightarrow>
    save_dependencies ok now contract (gc_network c) decls db = (res, db') \<Longrightarrow> dep_step db db'"
| declares: "declare_contract_dependencies uuid_text ok now contract decls db = (resp, db') \<Longrightarrow> dep_step db db'"

definition no_dependencies :: dependency_db where
  "no_dependencies = \<lparr>registered_contracts = [], static_deps = [], dependency_edges = []\<rparr>"

definition network_of :: "registered list \<Rightarrow> uuid \<Rightarrow> network option" where
  "network_of rows u = map_option gc_network (row_get gc_id rows u)"

definition mirrored :: "dependency_db \<Rightarrow> bool" where
  "mirrored db \<longleftrightarrow>
     edges_ok (dependency_edges db) \<and> set (static_edges (static_deps db)) = set (view_edges (dependency_edges db)) \<and>
     list_all (\<lambda>e. network_of (registered_contracts db) (ce_source e) = Some (ce_network e)) (dependency_edges db)"

lemma view_edges_set: "(a, b) \<in> set (view_edges edges) \<longleftrightarrow> (\<exists>e \<in> set edges. current_declared e \<and> ce_source e = a \<and> ce_target e = Some b)"
  by (force simp: view_edges_def split: option.splits)

lemma resolve_all_Ok: "resolve_all ok rows network decls = Ok rs \<Longrightarrow> rs = map (\<lambda>d. resolve_reference rows (dd_name d) network) decls"
  by (simp add: resolve_all_def split: if_splits)

lemma save_dependencies_cases:
  assumes "save_dependencies ok now contract network decls db = (res, db')"
  obtains (failed) "res = Err ()" "db' = db"
  | (saved) drs edges where
      "drs = map (\<lambda>d. (d, resolve_reference (registered_contracts db) (dd_name d) network)) decls" "res = Ok (map snd drs)"
      "write_canonical_edges now (registered_contracts db) contract network drs (dependency_edges db) = Some edges"
      "db' = db\<lparr>static_deps := fold (upsert_static contract) drs (filter (\<lambda>x. sd_contract x \<noteq> contract) (static_deps db)),
         dependency_edges := edges\<rparr>"
proof (cases "resolve_all ok (registered_contracts db) network decls")
  case (Inr rs)
  define drs where "drs = map (\<lambda>d. (d, resolve_reference (registered_contracts db) (dd_name d) network)) decls"
  have "rs = map (\<lambda>d. resolve_reference (registered_contracts db) (dd_name d) network) decls" by (rule resolve_all_Ok [OF Inr])
  then have "zip decls rs = drs" "rs = map snd drs" by (simp_all add: zip_map2 drs_def zip_same_conv_map)
  note rs = this
  show ?thesis
  proof (cases "ok Replace_tx")
    case True
    show ?thesis
    proof (cases "write_canonical_edges now (registered_contracts db) contract network drs (dependency_edges db)")
      case None
      then show ?thesis using assms Inr True rs(1) failed by (simp add: save_dependencies_def)
    next
      case (Some edges)
      then show ?thesis using assms Inr True rs saved [OF drs_def _ Some] by (simp add: save_dependencies_def)
    qed
  qed (use assms Inr failed in \<open>simp add: save_dependencies_def\<close>)
next
  case (Inl e)
  then have "res = Err e" "db' = db" using assms by (simp_all add: save_dependencies_def)
  then show ?thesis by (intro failed) simp_all
qed

lemma declare_saves:
  assumes "declare_contract_dependencies uuid_text ok now contract decls db = (resp, db')"
  shows "db' = db \<or> (\<exists>c res. row_get gc_id (registered_contracts db) contract = Some c \<and>
    save_dependencies ok now contract (gc_network c) decls db = (res, db'))"
  using assms by (auto simp: declare_contract_dependencies_def Let_def split: if_splits sum.splits prod.splits)

lemma save_mirrors:
  assumes "mirrored db" "row_get gc_id (registered_contracts db) contract = Some c"
    and "save_dependencies ok now contract (gc_network c) decls db = (res, db')"
  shows "mirrored db'"
  using assms(3)
proof (cases rule: save_dependencies_cases)
  case (saved drs edges)
  let ?n = "gc_network c" and ?rows = "registered_contracts db"
  let ?f = "\<lambda>name. resolve_reference ?rows name ?n"
  have ok: "edges_ok (dependency_edges db)" using assms(1) by (simp add: mirrored_def)
  note spec = write_canonical_edges_spec [OF saved(3) ok]
  have declared: "network_of ?rows (ce_source e) = Some (ce_network e)" if "e \<in> set (dependency_edges db)" for e
    using assms(1) that by (simp add: mirrored_def list_all_iff)
  have home: "network_of ?rows contract = Some ?n" using assms(2) by (simp add: network_of_def)
  have own: "current_of contract ?n e" if e: "e \<in> set edges" "current_declared e" "ce_source e = contract" for e
  proof (cases "e \<in> set (dependency_edges db)")
    case True
    then show ?thesis using declared [OF True] home e(2,3) by (simp add: current_of_def)
  next
    case False
    then have "e \<in> set (map (declared_edge now ?rows contract ?n) (filter (\<lambda>dr. \<not> carried ?rows contract ?n (dependency_edges db) dr) drs))"
      using e(1,2) close_edges_current unfolding spec(1) set_append Un_iff current_declared_def by blast
    then show ?thesis by auto
  qed
  have net: "list_all (\<lambda>e. network_of ?rows (ce_source e) = Some (ce_network e)) edges"
    unfolding list_all_iff
  proof
    fix e assume "e \<in> set edges"
    then consider (old) "\<exists>x \<in> set (dependency_edges db). ce_source x = ce_source e \<and> ce_network x = ce_network e"
      | (new) dr where "e = declared_edge now ?rows contract ?n dr"
      unfolding spec(1) set_append Un_iff using close_edges_fields by (elim disjE) (blast, force)
    then show "network_of ?rows (ce_source e) = Some (ce_network e)"
    proof cases
      case old
      then show ?thesis using declared by metis
    next
      case new
      then show ?thesis using home by (cases dr) (simp add: declared_edge_def Let_def)
    qed
  qed
  have "static_agrees ?f contract (filter (\<lambda>x. sd_contract x \<noteq> contract) (static_deps db))"
    by (simp add: static_agrees_def static_pairs_iff)
  moreover have "static_pairs (filter (\<lambda>x. sd_contract x \<noteq> contract) rows) = {p \<in> static_pairs rows. fst p \<noteq> contract}" for rows
    unfolding static_pairs_def set_filter by force
  ultimately have pairs: "static_pairs (static_deps db') =
      (\<lambda>d. (contract, dd_name d, bound_target (?f (dd_name d)))) ` set decls \<union> {p \<in> static_pairs (static_deps db). fst p \<noteq> contract}"
    using upserts_static_pairs [of ?f contract "filter (\<lambda>x. sd_contract x \<noteq> contract) (static_deps db)" decls] saved(1,4)
    by simp
  have "(a, b) \<in> set (static_edges (static_deps db')) \<longleftrightarrow> (a, b) \<in> set (view_edges (dependency_edges db'))" for a b
  proof (cases "a = contract")
    case True
    have "(a, b) \<in> set (static_edges (static_deps db')) \<longleftrightarrow> (\<exists>d \<in> set decls. bound_target (?f (dd_name d)) = Some b)"
      using True unfolding static_edges_pairs pairs image_iff Un_iff by simp metis
    also have "\<dots> \<longleftrightarrow> (\<exists>dr \<in> set drs. bound_target (snd dr) = Some b)" using saved(1) by auto
    also have "\<dots> \<longleftrightarrow> (\<exists>e \<in> set edges. current_of contract ?n e \<and> ce_target e = Some b)"
    proof
      assume "\<exists>dr \<in> set drs. bound_target (snd dr) = Some b"
      then obtain dr where dr: "dr \<in> set drs" "bound_target (snd dr) = Some b" by blast
      then show "\<exists>e \<in> set edges. current_of contract ?n e \<and> ce_target e = Some b"
        using spec(4) [of dr] by (auto simp: matches_def Let_def)
    next
      assume "\<exists>e \<in> set edges. current_of contract ?n e \<and> ce_target e = Some b"
      then obtain e where e: "e \<in> set edges" "current_of contract ?n e" "ce_target e = Some b" by blast
      then obtain dr where "dr \<in> set drs" "matches ?rows e dr" using spec(3) [of e] by blast
      then show "\<exists>dr \<in> set drs. bound_target (snd dr) = Some b"
        using e(3) by (intro bexI [of _ dr]) (simp_all add: matches_def Let_def)
    qed
    also have "\<dots> \<longleftrightarrow> (a, b) \<in> set (view_edges (dependency_edges db'))"
      using own saved(4) True by (auto simp: view_edges_set current_of_def)
    finally show ?thesis .
  next
    case False
    have "(a, b) \<in> set (static_edges (static_deps db')) \<longleftrightarrow> (a, b) \<in> set (static_edges (static_deps db))"
      using False unfolding static_edges_pairs pairs by auto
    also have "\<dots> \<longleftrightarrow> (a, b) \<in> set (view_edges (dependency_edges db))" using assms(1) by (simp add: mirrored_def)
    also have "\<dots> \<longleftrightarrow> (a, b) \<in> set (view_edges edges)"
    proof -
      have new: "ce_source (declared_edge now ?rows contract ?n dr) = contract" for dr
        using declared_edge_key(1) [of now ?rows contract ?n dr] by (simp add: edge_key_def)
      have "e \<in> set edges \<longleftrightarrow> e \<in> set (dependency_edges db)" if "current_declared e" "ce_source e \<noteq> contract" for e
        using that close_edges_current [of e now _ "dependency_edges db"] new close_edges_keep [of e]
        unfolding spec(1) by (auto simp: current_declared_def current_of_def)
      then show ?thesis using False by (auto simp: view_edges_set)
    qed
    finally show ?thesis using saved(4) by simp
  qed
  then have "set (static_edges (static_deps db')) = set (view_edges (dependency_edges db'))" by auto
  then show ?thesis using spec(2) net saved(4) by (simp add: mirrored_def)
qed (use assms(1) in simp)

lemma network_of_append: "network_of rows u = Some n \<Longrightarrow> network_of (rows @ [c]) u = Some n"
  by (auto simp: network_of_def row_get_append split: option.splits)

lemma network_of_upgrade:
  "network_of (row_upd gc_id rows u (\<lambda>c. c\<lparr>gc_interface := i, gc_wasm := w\<rparr>)) v = network_of rows v"
proof -
  have "row_get gc_id (row_upd gc_id rows u (\<lambda>c. c\<lparr>gc_interface := i, gc_wasm := w\<rparr>)) v =
      map_option (\<lambda>c. if gc_id c = u then c\<lparr>gc_interface := i, gc_wasm := w\<rparr> else c) (row_get gc_id rows v)"
    unfolding row_upd_def by (rule row_get_update_where) simp
  then show ?thesis by (cases "row_get gc_id rows v") (simp_all add: network_of_def)
qed

lemma dep_step_mirrors: "dep_step db db' \<Longrightarrow> mirrored db \<Longrightarrow> mirrored db'"
proof (induction rule: dep_step.induct)
  case (registers c db)
  then show ?case using network_of_append by (auto simp: mirrored_def list_all_iff)
next
  case (upgrades db u i w)
  then show ?case by (simp add: mirrored_def network_of_upgrade)
next
  case (publishes db contract c ok now decls res db')
  then show ?case using save_mirrors by blast
next
  case (declares uuid_text ok now contract decls db resp db')
  then show ?case using declare_saves save_mirrors by blast
qed

lemma reached_mirrored: "dep_step\<^sup>*\<^sup>* no_dependencies db \<Longrightarrow> mirrored db"
proof (induction rule: rtranclp_induct)
  case base
  show ?case by (simp add: no_dependencies_def mirrored_def edges_ok_def static_edges_def view_edges_def)
qed (rule dep_step_mirrors)



text \<open>
  Declaring the same dependencies again leaves every edge as it was, its time of recording included: history grows only by
  genuine changes.
\<close>

theorem same_declaration_no_churn:
  assumes "dep_step\<^sup>*\<^sup>* no_dependencies db"
    and "save_dependencies ok now contract network decls db = (Ok rs, db')"
    and "\<And>s. ok' s"
  shows "\<exists>db''. save_dependencies ok' now' contract network decls db' = (Ok rs, db'') \<and>
    dependency_edges db'' = dependency_edges db'"
  using assms(2)
proof (cases rule: save_dependencies_cases)
  case (saved drs edges)
  have ok: "edges_ok (dependency_edges db)" using reached_mirrored [OF assms(1)] by (simp add: mirrored_def)
  note spec = write_canonical_edges_spec [OF saved(3) ok]
  have all: "carried (registered_contracts db) contract network edges dr" if "dr \<in> set drs" for dr
    using spec(4) [OF that] carried_iff [OF spec(2)] by blast
  have "\<not> (current_of contract network e \<and> ce_ref e \<notin> dd_name ` fst ` set drs)" if "e \<in> set edges" for e
    using spec(3) [OF that] by (force simp: matches_def Let_def)
  then have "update_where (\<lambda>e. current_of contract network e \<and> ce_ref e \<notin> dd_name ` fst ` set drs) g edges = edges" for g
    unfolding update_where_def by (intro map_idI) auto
  moreover have "filter (carried (registered_contracts db) contract network edges) drs = drs"
    "filter (\<lambda>dr. \<not> carried (registered_contracts db) contract network edges dr) drs = []"
    using all by (simp_all add: filter_id_conv filter_empty_conv)
  ultimately have same: "write_canonical_edges now' (registered_contracts db) contract network drs edges = Some edges"
    by (simp add: write_canonical_edges_def Let_def image_image)
  have "resolve_all ok' (registered_contracts db) network decls = Ok (map snd drs)" "zip decls (map snd drs) = drs"
    using assms(3) saved(1) by (simp_all add: resolve_all_def zip_map2 zip_same_conv_map comp_def)
  then show ?thesis using saved(2,4) assms(3) same by (simp add: save_dependencies_def)
qed simp

section \<open>History\<close>

text \<open>The rows of the traversal's \<open>edges\<close> term at an instant, and what is read of them.\<close>

definition edges_as_of :: "time option \<Rightarrow> canonical_edge list \<Rightarrow> canonical_edge list" where
  "edges_as_of t edges =
     filter (\<lambda>e. case t of None \<Rightarrow> ce_superseded e = None
        | Some t \<Rightarrow> ce_recorded e \<le> t \<and> (case ce_superseded e of None \<Rightarrow> True | Some s \<Rightarrow> t < s)) edges"

definition read_edges :: "canonical_edge list \<Rightarrow> canonical_edge list" where
  "read_edges edges = map (\<lambda>e. e\<lparr>ce_superseded := None\<rparr>) edges"

lemma as_of_close:
  assumes "t < now" "\<And>e. e \<in> set edges \<Longrightarrow> p e \<Longrightarrow> ce_superseded e = None"
  shows "read_edges (edges_as_of (Some t) (close_edges now p edges)) = read_edges (edges_as_of (Some t) edges)"
  using assms(2)
proof (induction edges)
  case (Cons e edges)
  let ?close = "\<lambda>e. if p e then e\<lparr>ce_superseded := Some now\<rparr> else e"
  have "read_edges (edges_as_of (Some t) [?close e]) = read_edges (edges_as_of (Some t) [e])"
    using Cons.prems [of e] assms(1) by (cases "p e") (simp_all add: read_edges_def edges_as_of_def)
  moreover have "read_edges (edges_as_of (Some t) (x # xs)) = read_edges (edges_as_of (Some t) [x]) @ read_edges (edges_as_of (Some t) xs)" for x xs
    by (simp add: read_edges_def edges_as_of_def)
  moreover have "close_edges now p (e # edges) = ?close e # close_edges now p edges"
    by (simp add: close_edges_def update_where_def)
  ultimately show ?case using Cons.IH Cons.prems by (metis list.set_intros(2))
qed (simp add: read_edges_def edges_as_of_def close_edges_def update_where_def)

text \<open>
  C23. Replaying an instant is stable: a declaration made later, whatever it changes or however it fails, leaves the edges
  that a reading as of an earlier instant shows.
\<close>

theorem replay_stable:
  assumes "dep_step\<^sup>*\<^sup>* no_dependencies db"
    and "declare_contract_dependencies uuid_text ok now contract decls db = (resp, db')" "t < now"
  shows "read_edges (edges_as_of (Some t) (dependency_edges db')) = read_edges (edges_as_of (Some t) (dependency_edges db))"
proof -
  have ok: "edges_ok (dependency_edges db)" using reached_mirrored [OF assms(1)] by (simp add: mirrored_def)
  consider "db' = db" | c res where "row_get gc_id (registered_contracts db) contract = Some c" "save_dependencies ok now contract (gc_network c) decls db = (res, db')"
    using declare_saves [OF assms(2)] by blast
  then show ?thesis
  proof cases
    case (2 c res)
    from 2(2) show ?thesis
    proof (cases rule: save_dependencies_cases)
      case (saved drs edges)
      note spec = write_canonical_edges_spec [OF saved(3) ok]
      have "edges_as_of (Some t) (map (declared_edge now rows contract network) xs) = []" for rows network xs
        using assms(3) by (auto simp: edges_as_of_def filter_empty_conv declared_edge_key)
      then have "read_edges (edges_as_of (Some t) edges) = read_edges (edges_as_of (Some t) (close_edges now
          (\<lambda>e. current_of contract (gc_network c) e \<and> ce_ref e \<notin> dd_name ` fst ` {dr \<in> set drs. carried (registered_contracts db) contract (gc_network c) (dependency_edges db) dr})
          (dependency_edges db)))"
        unfolding spec(1) by (simp add: edges_as_of_def)
      also have "\<dots> = read_edges (edges_as_of (Some t) (dependency_edges db))"
        by (rule as_of_close [OF assms(3)]) (auto simp: current_of_def current_declared_def)
      finally show ?thesis using saved(4) by simp
    qed simp
  qed simp
qed

section \<open>What cannot be declared\<close>

text \<open>
  A contract that names itself by its address, or names one reference with two constraints, cannot declare: nothing is saved,
  the check of the endpoint on its own UUID notwithstanding.
\<close>

theorem unsavable_declarations:
  assumes "dep_step\<^sup>*\<^sup>* no_dependencies db" "row_get gc_id (registered_contracts db) contract = Some c"
    and "d \<in> set decls" "d' \<in> set decls"
    and "resolve_reference (registered_contracts db) (dd_name d) (gc_network c) = Bound contract \<or>
      dd_name d = dd_name d' \<and> dd_constraint d \<noteq> dd_constraint d'"
  shows "save_dependencies ok now contract (gc_network c) decls db = (Err (), db)"
proof -
  obtain res db' where save: "save_dependencies ok now contract (gc_network c) decls db = (res, db')" by fastforce
  then show ?thesis
  proof (cases rule: save_dependencies_cases)
    case (saved drs edges)
    let ?n = "gc_network c" and ?rows = "registered_contracts db"
    have ok: "edges_ok (dependency_edges db)" using reached_mirrored [OF assms(1)] by (simp add: mirrored_def)
    note spec = write_canonical_edges_spec [OF saved(3) ok]
    have found: "\<exists>e \<in> set edges. current_of contract ?n e \<and> matches ?rows e (x, resolve_reference ?rows (dd_name x) ?n)"
      if "x \<in> set decls" for x
      using spec(4) [of "(x, resolve_reference ?rows (dd_name x) ?n)"] saved(1) that by auto
    obtain e e' where e: "e \<in> set edges" "current_of contract ?n e" "matches ?rows e (d, resolve_reference ?rows (dd_name d) ?n)"
      and e': "e' \<in> set edges" "current_of contract ?n e'" "matches ?rows e' (d', resolve_reference ?rows (dd_name d') ?n)"
      using found [OF assms(3)] found [OF assms(4)] by blast
    have "ce_target e \<noteq> Some contract"
      using spec(2) e(1,2) by (auto simp: edges_ok_def list_all_iff current_of_def)
    then have "resolve_reference ?rows (dd_name d) ?n \<noteq> Bound contract"
      using e(3) by (auto simp: matches_def bound_target_def Let_def)
    then have "dd_name d = dd_name d'" "dd_constraint d \<noteq> dd_constraint d'" using assms(5) by auto
    then have "edge_key e = edge_key e'" "ce_constraint e \<noteq> ce_constraint e'"
      using e(2,3) e'(2,3) by (simp_all add: edge_key_def matches_def current_of_def current_declared_def Let_def)
    moreover have "e = e'"
      using current_key_unique [OF spec(2) e(1) e'(1)] e(2) e'(2) calculation(1) by (simp add: current_of_def current_declared_def)
    ultimately show ?thesis by simp
  qed (use save in simp)
qed

section \<open>Examples\<close>

definition address_of :: "char \<Rightarrow> string" where
  "address_of ch = CHR ''C'' # replicate 55 ch"

definition two_contracts :: dependency_db where
  "two_contracts = \<lparr>registered_contracts =
     [\<lparr>gc_id = 1, gc_address = address_of CHR ''A'', gc_network = Mainnet, gc_interface = None, gc_wasm = ''w''\<rparr>,
      \<lparr>gc_id = 2, gc_address = address_of CHR ''B'', gc_network = Mainnet, gc_interface = Some ''i'', gc_wasm = ''w''\<rparr>],
     static_deps = [], dependency_edges = []\<rparr>"

definition edge_12 :: canonical_edge where
  "edge_12 = \<lparr>ce_source = 1, ce_target = Some 2, ce_ref = address_of CHR ''B'', ce_network = Mainnet, ce_origin = ''declared'',
     ce_state = ''resolved'', ce_constraint = Some ''*'', ce_interface = Some ''i'', ce_wasm = Some ''w'', ce_recorded = 5,
     ce_superseded = None\<rparr>"

definition one_depends :: dependency_db where
  "one_depends = two_contracts\<lparr>static_deps := [\<lparr>sd_contract = 1, sd_name = address_of CHR ''B'', sd_target = Some 2, sd_constraint = ''*''\<rparr>],
     dependency_edges := [edge_12]\<rparr>"

abbreviation on_b :: dep_decl where "on_b \<equiv> \<lparr>dd_name = address_of CHR ''B'', dd_constraint = ''*''\<rparr>"

lemma two_contracts_reached: "dep_step\<^sup>*\<^sup>* no_dependencies two_contracts"
proof -
  have "dep_step no_dependencies (no_dependencies\<lparr>registered_contracts := [hd (registered_contracts two_contracts)]\<rparr>)"
    using registers [of "hd (registered_contracts two_contracts)" no_dependencies] by (simp add: no_dependencies_def)
  moreover have "dep_step (no_dependencies\<lparr>registered_contracts := [hd (registered_contracts two_contracts)]\<rparr>) two_contracts"
    using registers [of "registered_contracts two_contracts ! 1" "no_dependencies\<lparr>registered_contracts := [hd (registered_contracts two_contracts)]\<rparr>"]
    by (simp add: no_dependencies_def two_contracts_def)
  ultimately show ?thesis by (rule converse_rtranclp_into_rtranclp [OF _ r_into_rtranclp])
qed

lemma one_saves: "save_dependencies (\<lambda>_. True) 5 1 Mainnet [on_b] two_contracts = (Ok [Bound 2], one_depends)"
  by code_simp

lemma one_depends_reached: "dep_step\<^sup>*\<^sup>* no_dependencies one_depends"
proof (rule rtranclp.rtrancl_into_rtrancl [OF two_contracts_reached])
  have "row_get gc_id (registered_contracts two_contracts) 1 = Some (hd (registered_contracts two_contracts))" by code_simp
  then show "dep_step two_contracts one_depends"
    by (rule publishes) (use one_saves in \<open>simp add: two_contracts_def\<close>)
qed




theorem same_declaration_no_churn_witness:
  "\<exists>db''. save_dependencies (\<lambda>_. True) 7 1 Mainnet [on_b] one_depends = (Ok [Bound 2], db'') \<and> dependency_edges db'' = [edge_12]"
  using same_declaration_no_churn [OF two_contracts_reached one_saves, of "\<lambda>_. True" 7] by (simp add: one_depends_def)

theorem replay_stable_witness:
  "read_edges (edges_as_of (Some 6) (dependency_edges
     (snd (declare_contract_dependencies (\<lambda>_. ''u'') (\<lambda>_. True) 9 1 [] one_depends)))) = [edge_12]"
proof -
  have "read_edges (edges_as_of (Some 6) (dependency_edges one_depends)) = [edge_12]" by code_simp
  moreover obtain resp db' where "declare_contract_dependencies (\<lambda>_. ''u'') (\<lambda>_. True) 9 1 [] one_depends = (resp, db')"
    by fastforce
  ultimately show ?thesis using replay_stable [OF one_depends_reached, of _ _ 9 _ _ _ _ 6] by fastforce
qed

theorem unsavable_declarations_witness:
  "save_dependencies (\<lambda>_. True) 9 2 Mainnet [on_b] one_depends = (Err (), one_depends)"
proof -
  have row: "row_get gc_id (registered_contracts one_depends) 2 = Some (registered_contracts one_depends ! 1)" by code_simp
  have "resolve_reference (registered_contracts one_depends) (dd_name on_b) Mainnet = Bound 2" by code_simp
  then show ?thesis
    using unsavable_declarations [OF one_depends_reached row, of on_b "[on_b]" on_b "\<lambda>_. True" 9]
    by (simp add: one_depends_def two_contracts_def)
qed

end
