(* ===== verification/Client_Transport.thy ===== *)
theory Client_Transport
  imports Tables
begin

text \<open>
  The execution of requests by the client library: \<open>backend/registry_client/src/http.rs\<close> with the retry policy of
  \<open>config.rs\<close> and the errors of \<open>error.rs\<close>. What an attempt on the network ends in is an input, and so are the decoding of
  JSON bodies and the length of a backoff, which is floating point. Durations are nanoseconds.
\<close>

section \<open>Errors\<close>

datatype transport_kind = Connect | Request | Body | Other_fault

record error_details =
  ed_method :: string
  ed_url :: string
  ed_status :: nat
  ed_code :: "string option"
  ed_message :: "string option"
  ed_request_id :: "string option"
  ed_retry_after :: "nat option"

datatype client_error =
    Transport string nat transport_kind
  | Timed_out string nat
  | Unauthorized error_details
  | Forbidden error_details
  | Not_found error_details
  | Invalid error_details
  | Conflict error_details
  | Idempotency_in_progress error_details
  | Rate_limited error_details "nat option"
  | Upstream error_details
  | Api error_details
  | Invalid_request
  | Cancelled string
  | Malformed_response string

definition eq_ignore_case :: "string \<Rightarrow> string \<Rightarrow> bool" where
  "eq_ignore_case a b \<longleftrightarrow> ascii_lower a = ascii_lower b"

definition from_response :: "error_details \<Rightarrow> client_error" where
  "from_response d =
     (let replay = (case ed_code d of None \<Rightarrow> False | Some c \<Rightarrow> eq_ignore_case c ''IdempotencyKeyInProgress''); s = ed_status d in
      if s = 401 then Unauthorized d
      else if s = 403 then Forbidden d
      else if s = 404 then Not_found d
      else if s = 409 then (if replay then Idempotency_in_progress d else Conflict d)
      else if s = 400 \<or> s = 422 then Invalid d
      else if s = 429 then Rate_limited d (ed_retry_after d)
      else if 500 \<le> s \<and> s < 600 then Upstream d
      else Api d)"

fun is_transient :: "client_error \<Rightarrow> bool" where
  "is_transient (Transport _ _ _) = True"
| "is_transient (Timed_out _ _) = True"
| "is_transient (Rate_limited _ _) = True"
| "is_transient (Upstream _) = True"
| "is_transient (Idempotency_in_progress _) = True"
| "is_transient _ = False"

fun details_of :: "client_error \<Rightarrow> error_details option" where
  "details_of (Unauthorized d) = Some d"
| "details_of (Forbidden d) = Some d"
| "details_of (Not_found d) = Some d"
| "details_of (Invalid d) = Some d"
| "details_of (Conflict d) = Some d"
| "details_of (Idempotency_in_progress d) = Some d"
| "details_of (Upstream d) = Some d"
| "details_of (Api d) = Some d"
| "details_of (Rate_limited d _) = Some d"
| "details_of _ = None"

fun retry_after :: "client_error \<Rightarrow> nat option" where
  "retry_after (Rate_limited _ after) = after"
| "retry_after e = (case details_of e of None \<Rightarrow> None | Some d \<Rightarrow> ed_retry_after d)"

fun finalize_error :: "nat \<Rightarrow> client_error \<Rightarrow> client_error" where
  "finalize_error n (Transport url _ kind) = Transport url n kind"
| "finalize_error n (Timed_out url _) = Timed_out url n"
| "finalize_error n e = e"

definition parse_retry_after :: "string option \<Rightarrow> nat option" where
  "parse_retry_after header =
     (case header of None \<Rightarrow> None | Some raw \<Rightarrow> map_option (\<lambda>n. unat n * 10 ^ 9) (parse_u64 (trim raw)))"

section \<open>Requests\<close>

datatype http_method = GET | HEAD | OPTIONS | POST | PATCH | PUT | DELETE

record request_spec =
  rs_method :: http_method
  rs_path :: string
  rs_query :: "(string \<times> string) list"
  rs_key :: "string option"
  rs_cacheable :: bool

definition IDEMPOTENCY_KEY_MAX_LEN :: nat where "IDEMPOTENCY_KEY_MAX_LEN = 255"

definition with_idempotency_key :: "string option \<Rightarrow> request_spec \<Rightarrow> client_error + request_spec" where
  "with_idempotency_key key spec =
     (case key of
        None \<Rightarrow> Ok (spec\<lparr>rs_key := None\<rparr>)
      | Some k \<Rightarrow> if k = [] \<or> length k > IDEMPOTENCY_KEY_MAX_LEN then Err Invalid_request else Ok (spec\<lparr>rs_key := Some k\<rparr>))"

definition is_safe :: "request_spec \<Rightarrow> bool" where
  "is_safe spec \<longleftrightarrow> rs_method spec \<in> {GET, HEAD, OPTIONS}"

definition url_for :: "string \<Rightarrow> string \<Rightarrow> string" where
  "url_for base path =
     (if starts_with path ''http://'' \<or> starts_with path ''https://'' then path
      else if starts_with path ''/'' then base @ path
      else base @ ''/'' @ path)"

definition normalize_base_url :: "string \<Rightarrow> string" where
  "normalize_base_url url = rev (dropWhile (\<lambda>c. c = CHR ''/'') (rev url))"

fun join_with :: "string \<Rightarrow> string list \<Rightarrow> string" where
  "join_with sep [] = []"
| "join_with sep [x] = x"
| "join_with sep (x # y # ys) = x @ sep @ join_with sep (y # ys)"

definition cache_key :: "string \<Rightarrow> (string \<times> string) list \<Rightarrow> string" where
  "cache_key url query =
     (if query = [] then url
      else url @ ''?'' @ join_with ''&'' (sort (map (\<lambda>(k, v). k @ ''='' @ v) query)))"

section \<open>The retry policy\<close>

record retry_policy =
  max_attempts :: nat
  respect_retry_after :: bool
  max_retry_after :: nat
  retry_on_timeout :: bool
  retry_idempotent_mutations :: bool
  backoff_for :: "nat \<Rightarrow> nat"

definition DEFAULT_MAX_ATTEMPTS :: nat where "DEFAULT_MAX_ATTEMPTS = 3"
definition DEFAULT_MAX_RETRY_AFTER :: nat where "DEFAULT_MAX_RETRY_AFTER = 60 * 10 ^ 9"

definition default_policy :: "(nat \<Rightarrow> nat) \<Rightarrow> retry_policy" where
  "default_policy backoff =
     \<lparr>max_attempts = DEFAULT_MAX_ATTEMPTS, respect_retry_after = True, max_retry_after = DEFAULT_MAX_RETRY_AFTER,
      retry_on_timeout = True, retry_idempotent_mutations = True, backoff_for = backoff\<rparr>"

definition attempts_policy :: "(nat \<Rightarrow> nat) \<Rightarrow> nat \<Rightarrow> retry_policy" where
  "attempts_policy backoff n = (default_policy backoff)\<lparr>max_attempts := max n 1\<rparr>"

definition none_policy :: "(nat \<Rightarrow> nat) \<Rightarrow> retry_policy" where
  "none_policy backoff = (default_policy backoff)\<lparr>max_attempts := 1\<rparr>"

definition allows_retrying :: "retry_policy \<Rightarrow> bool \<Rightarrow> bool \<Rightarrow> bool" where
  "allows_retrying p safe_method has_key \<longleftrightarrow>
     \<not> max_attempts p \<le> 1 \<and> (safe_method \<or> has_key \<and> retry_idempotent_mutations p)"

definition attempts_of :: "retry_policy \<Rightarrow> request_spec \<Rightarrow> nat" where
  "attempts_of p spec = (if allows_retrying p (is_safe spec) (rs_key spec \<noteq> None) then max (max_attempts p) 1 else 1)"

text \<open>What follows a failed attempt: the error that is returned, or the delay before the next attempt.\<close>

definition after_failure :: "retry_policy \<Rightarrow> nat \<Rightarrow> nat \<Rightarrow> client_error \<Rightarrow> client_error + nat" where
  "after_failure p most attempt e =
     (if attempt \<ge> most \<or> \<not> is_transient e then Err (finalize_error attempt e)
      else if respect_retry_after p \<and> (case retry_after e of None \<Rightarrow> False | Some after \<Rightarrow> after > max_retry_after p)
      then Err (finalize_error attempt e)
      else if (case e of Timed_out _ _ \<Rightarrow> \<not> retry_on_timeout p | _ \<Rightarrow> False) then Err (finalize_error attempt e)
      else Ok (case (respect_retry_after p, retry_after e) of (True, Some after) \<Rightarrow> after | _ \<Rightarrow> backoff_for p attempt))"

text \<open>
  The loop over a server with state \<open>'s\<close>: each attempt sends the request, is answered, and either ends the loop or sleeps.
  The last components are the number of attempts sent and the sleeps between them.
\<close>

function send_loop ::
  "retry_policy \<Rightarrow> nat \<Rightarrow> (nat \<Rightarrow> 's \<Rightarrow> (client_error + string) \<times> 's) \<Rightarrow> nat \<Rightarrow> 's \<Rightarrow> nat list \<Rightarrow>
   (client_error + string) \<times> 's \<times> nat \<times> nat list" where
  "send_loop p most server attempt s sleeps =
     (case server (Suc attempt) s of
        (Inr body, s') \<Rightarrow> (Ok body, s', Suc attempt, sleeps)
      | (Inl e, s') \<Rightarrow>
          (case after_failure p most (Suc attempt) e of
             Inl e' \<Rightarrow> (Err e', s', Suc attempt, sleeps)
           | Inr delay \<Rightarrow> send_loop p most server (Suc attempt) s' (sleeps @ [delay])))"
  by pat_completeness auto

termination
  by (relation "measure (\<lambda>(p, most, server, attempt, s, sleeps). most - attempt)")
    (auto simp: after_failure_def split: if_splits)

declare send_loop.simps [simp del]

definition send_inner ::
  "retry_policy \<Rightarrow> string \<Rightarrow> bool \<Rightarrow> request_spec \<Rightarrow> (nat \<Rightarrow> 's \<Rightarrow> (client_error + string) \<times> 's) \<Rightarrow> 's \<Rightarrow> (string \<Rightarrow> string option) \<Rightarrow>
   (client_error + string) \<times> 's \<times> (string \<Rightarrow> string option) \<times> nat \<times> nat list" where
  "send_inner p base has_cache spec server s cache =
     (let url = url_for base (rs_path spec);
          key = (if rs_cacheable spec \<and> rs_method spec = GET \<and> has_cache then Some (cache_key url (rs_query spec)) else None)
      in case (case key of None \<Rightarrow> None | Some k \<Rightarrow> cache k) of
           Some body \<Rightarrow> (Ok body, s, cache, 0, [])
         | None \<Rightarrow>
             (let (r, s', n, sleeps) = send_loop p (attempts_of p spec) server 0 s []
              in (r, s', (case (r, key) of (Inr body, Some k) \<Rightarrow> cache(k \<mapsto> body) | _ \<Rightarrow> cache), n, sleeps)))"

text \<open>Cancellation is looked at first; one that comes while attempts run ends the request where it stands.\<close>

definition send ::
  "bool \<Rightarrow> retry_policy \<Rightarrow> string \<Rightarrow> bool \<Rightarrow> request_spec \<Rightarrow> (nat \<Rightarrow> 's \<Rightarrow> (client_error + string) \<times> 's) \<Rightarrow> 's \<Rightarrow>
   (string \<Rightarrow> string option) \<Rightarrow> (client_error + string) \<times> 's \<times> (string \<Rightarrow> string option) \<times> nat \<times> nat list" where
  "send cancelled p base has_cache spec server s cache =
     (if cancelled then (Err (Cancelled (url_for base (rs_path spec))), s, cache, 0, [])
      else send_inner p base has_cache spec server s cache)"

definition send_json ::
  "(string \<Rightarrow> 'j option) \<Rightarrow> string \<Rightarrow> (client_error + string) \<times> 'r \<Rightarrow> (client_error + 'j) \<times> 'r" where
  "send_json decode url answer =
     (case answer of
        (Inl e, rest) \<Rightarrow> (Err e, rest)
      | (Inr body, rest) \<Rightarrow> ((case decode body of None \<Rightarrow> Err (Malformed_response url) | Some j \<Rightarrow> Ok j), rest))"

section \<open>How often a request is sent\<close>

lemma after_failure_continues: "after_failure p most n e = Ok delay \<Longrightarrow> n < most \<and> is_transient e"
  by (auto simp: after_failure_def split: if_splits)

lemma after_failure_delay:
  assumes "after_failure p most n e = Ok delay" "respect_retry_after p" "retry_after e = Some after"
  shows "delay = after \<and> after \<le> max_retry_after p"
  using assms by (auto simp: after_failure_def split: if_splits)

lemma send_loop_attempts:
  "send_loop p most server attempt s sleeps = (r, s', n, sleeps') \<Longrightarrow> attempt < n \<and> n \<le> max (Suc attempt) most \<and>
   length sleeps' + attempt + 1 = length sleeps + n"
proof (induction p most server attempt s sleeps rule: send_loop.induct)
  case (1 p most server attempt s sleeps)
  show ?case
    using 1(2) 1(1) after_failure_continues [of p most "Suc attempt"]
    by (subst (asm) send_loop.simps) (fastforce split: prod.splits sum.splits)
qed

text \<open>
  A mutation without an idempotency key is sent at most once, whatever fails; any request is sent at most as often as the
  policy allows, with one sleep between two attempts.
\<close>

theorem keyless_mutation_sent_once:
  assumes "send cancelled p base has_cache spec server s cache = (r, s', cache', n, sleeps)"
  shows "n \<le> max (max_attempts p) 1 \<and> length sleeps = n - 1 \<and> (\<not> is_safe spec \<and> rs_key spec = None \<longrightarrow> n \<le> 1)"
proof -
  have "n \<le> attempts_of p spec \<and> length sleeps = n - 1"
    using assms send_loop_attempts [of p "attempts_of p spec" server 0 s "[]"]
    by (fastforce simp: send_def send_inner_def attempts_of_def Let_def split: if_splits option.splits prod.splits)
  moreover have "attempts_of p spec \<le> max (max_attempts p) 1" by (simp add: attempts_of_def)
  moreover have "attempts_of p spec = 1" if "\<not> is_safe spec" "rs_key spec = None" using that by (simp add: attempts_of_def allows_retrying_def)
  ultimately show ?thesis by fastforce
qed

definition publish_spec :: "string option \<Rightarrow> request_spec" where
  "publish_spec key = \<lparr>rs_method = POST, rs_path = ''/api/contracts'', rs_query = [], rs_key = key, rs_cacheable = False\<rparr>"

definition list_spec :: "(string \<times> string) list \<Rightarrow> request_spec" where
  "list_spec query = \<lparr>rs_method = GET, rs_path = ''/api/contracts'', rs_query = query, rs_key = None, rs_cacheable = True\<rparr>"

theorem keyless_mutation_sent_once_witness:
  "snd (snd (snd (send False (default_policy id) ''http://r'' False (publish_spec None)
    (\<lambda>n s. (Err (Timed_out ''http://r/api/contracts'' 1), Suc s)) (0::nat) Map.empty))) = (1, [])"
proof -
  let ?send = "send False (default_policy id) ''http://r'' False (publish_spec None)
    (\<lambda>n s. (Err (Timed_out ''http://r/api/contracts'' 1), Suc s)) (0::nat) Map.empty"
  obtain r s c n sl where run: "?send = (r, s, c, n, sl)" by (metis prod_cases5)
  from keyless_mutation_sent_once [OF run] have "n \<le> 1" "length sl = n - 1" by (simp_all add: publish_spec_def is_safe_def)
  moreover have "fst (snd (snd (snd ?send))) = 1"
    by (simp add: send_def send_inner_def publish_spec_def attempts_of_def allows_retrying_def is_safe_def Let_def send_loop.simps
        after_failure_def)
  ultimately show ?thesis using run by simp
qed

text \<open>
  C29. Two different queries can have one cache key, since names and values are joined unescaped: the second is then answered
  with the body of the first, without being sent.
\<close>

theorem cached_body_of_other_query:
  assumes "send False p base True spec server s Map.empty = (Ok body, s', cache, n, sleeps)" "rs_cacheable spec" "rs_method spec = GET"
    and "rs_query spec = [(name, value @ ''&'' @ name' @ ''='' @ value')]" "name @ ''='' @ value \<le> name' @ ''='' @ value'"
  shows "send False p base True (spec\<lparr>rs_query := [(name, value), (name', value')]\<rparr>) other t cache = (Ok body, t, cache, 0, [])"
proof -
  let ?url = "url_for base (rs_path spec)"
  have "cache_key ?url (rs_query spec) = cache_key ?url [(name, value), (name', value')]"
    using assms(4,5) by (simp add: cache_key_def)
  moreover have "cache (cache_key ?url (rs_query spec)) = Some body"
    using assms(1-3) by (auto simp: send_def send_inner_def Let_def split: prod.splits sum.splits)
  ultimately show ?thesis using assms(2,3) by (cases spec) (simp add: send_def send_inner_def Let_def)
qed

theorem cached_body_of_other_query_witness:
  "send False (default_policy id) ''http://r'' True (list_spec [(''a'', ''1''), (''b'', ''2'')]) (\<lambda>n s. (Ok ''right'', s)) ()
      [''http://r/api/contracts?a=1&b=2'' \<mapsto> ''other''] = (Ok ''other'', (), [''http://r/api/contracts?a=1&b=2'' \<mapsto> ''other''], 0, [])"
proof -
  have key: "cache_key ''http://r/api/contracts'' [(''a'', ''1&b=2'')] = ''http://r/api/contracts?a=1&b=2''"
    by (simp add: cache_key_def)
  have "send False (default_policy id) ''http://r'' True (list_spec [(''a'', ''1&b=2'')]) (\<lambda>n s. (Ok ''other'', s)) () Map.empty =
      (Ok ''other'', (), [''http://r/api/contracts?a=1&b=2'' \<mapsto> ''other''], 1, [])"
    using key by (simp add: send_def send_inner_def list_spec_def url_for_def Let_def send_loop.simps)
  from cached_body_of_other_query [OF this, of "''a''" "''1''" "''b''" "''2''"] show ?thesis
    by (simp add: list_spec_def)
qed

end
