(* ===== verification/Idempotency.thy ===== *)
theory Idempotency
  imports Client_Transport
begin

text \<open>
  The idempotency keys of a publication: the claims of \<open>backend/api/src/cache.rs\<close>, in the process and in Redis, and
  \<open>publish_contract\<close> of \<open>handlers.rs\<close> around them. The publication itself is any function on the database, its answer a
  contract that is written and read as JSON. Requests run as threads; a client that disconnects drops its thread where it
  waits. With the client's retries the whole is a publication over a network that loses requests and answers.
\<close>

section \<open>Claims\<close>

definition IDEMPOTENCY_IN_PROGRESS :: string where "IDEMPOTENCY_IN_PROGRESS = ''__in_progress__''"
definition IDEMPOTENCY_LOCK_TTL_SECS :: nat where "IDEMPOTENCY_LOCK_TTL_SECS = 60"
definition IDEMPOTENCY_RESPONSE_TTL_SECS :: nat where "IDEMPOTENCY_RESPONSE_TTL_SECS = 86400"

datatype idempotency_claim = Fresh | In_progress | Completed string

text \<open>The map in the process, behind a mutex.\<close>

type_synonym local_keys = "string \<Rightarrow> string option"

definition claim_local :: "string \<Rightarrow> local_keys \<Rightarrow> idempotency_claim \<times> local_keys" where
  "claim_local key m =
     (case m key of
        None \<Rightarrow> (Fresh, m(key \<mapsto> IDEMPOTENCY_IN_PROGRESS))
      | Some v \<Rightarrow> if v = IDEMPOTENCY_IN_PROGRESS then (In_progress, m) else (Completed v, m))"

definition complete_local :: "string \<Rightarrow> string \<Rightarrow> local_keys \<Rightarrow> local_keys" where
  "complete_local key body m = m(key \<mapsto> body)"

definition release_local :: "string \<Rightarrow> local_keys \<Rightarrow> local_keys" where
  "release_local key m = m(key := None)"

text \<open>Redis: values with the second in which they expire. A claim is two commands, each of which may fail.\<close>

type_synonym redis_keys = "string \<Rightarrow> (string \<times> nat) option"

definition redis_value :: "nat \<Rightarrow> string \<Rightarrow> redis_keys \<Rightarrow> string option" where
  "redis_value now key m = (case m key of None \<Rightarrow> None | Some (v, expiry) \<Rightarrow> if now < expiry then Some v else None)"

definition redis_set_nx :: "bool \<Rightarrow> nat \<Rightarrow> string \<Rightarrow> redis_keys \<Rightarrow> bool \<times> redis_keys" where
  "redis_set_nx ok now key m =
     (if ok \<and> redis_value now key m = None
      then (True, m(key \<mapsto> (IDEMPOTENCY_IN_PROGRESS, now + IDEMPOTENCY_LOCK_TTL_SECS)))
      else (False, m))"

definition redis_get_claim :: "bool \<Rightarrow> nat \<Rightarrow> string \<Rightarrow> redis_keys \<Rightarrow> idempotency_claim" where
  "redis_get_claim ok now key m =
     (case (if ok then redis_value now key m else None) of
        None \<Rightarrow> Fresh
      | Some v \<Rightarrow> if v = IDEMPOTENCY_IN_PROGRESS then In_progress else Completed v)"

definition claim_redis :: "bool \<Rightarrow> bool \<Rightarrow> nat \<Rightarrow> nat \<Rightarrow> string \<Rightarrow> redis_keys \<Rightarrow> idempotency_claim \<times> redis_keys" where
  "claim_redis ok_set ok_get now now' key m =
     (let (claimed, m') = redis_set_nx ok_set now key m
      in if claimed then (Fresh, m') else (redis_get_claim ok_get now' key m', m'))"

definition complete_redis :: "bool \<Rightarrow> nat \<Rightarrow> string \<Rightarrow> string \<Rightarrow> redis_keys \<Rightarrow> redis_keys" where
  "complete_redis ok now key body m = (if ok then m(key \<mapsto> (body, now + IDEMPOTENCY_RESPONSE_TTL_SECS)) else m)"

definition release_redis :: "bool \<Rightarrow> string \<Rightarrow> redis_keys \<Rightarrow> redis_keys" where
  "release_redis ok key m = (if ok then m(key := None) else m)"

section \<open>Publications\<close>

text \<open>A missing header is none; \<open>printable\<close> is the header value's \<open>to_str\<close>.\<close>

definition extract_idempotency_key :: "(string \<Rightarrow> bool) \<Rightarrow> string option \<Rightarrow> api_error + string option" where
  "extract_idempotency_key printable header =
     (case header of
        None \<Rightarrow> Ok None
      | Some key \<Rightarrow>
          if \<not> printable key \<or> key = [] \<or> length key > IDEMPOTENCY_KEY_MAX_LEN
          then Err (Api_error 400 ''InvalidIdempotencyKey'') else Ok (Some key))"

definition publish_key :: "string \<Rightarrow> string \<Rightarrow> string" where
  "publish_key publisher key = ''publish:'' @ publisher @ '':'' @ key"

text \<open>What JSON gives for contracts: every one is written, read back as it was, and never as the sentinel.\<close>

record 'c json_lib =
  write_json :: "'c \<Rightarrow> string option"
  read_json :: "string \<Rightarrow> 'c option"


definition replay :: "'c json_lib \<Rightarrow> string \<Rightarrow> api_error + 'c" where
  "replay lib body = ok_or (Api_error 500 ''INTERNAL_ERROR'') (read_json lib body)"

definition in_progress_error :: api_error where
  "in_progress_error = Api_error 409 ''IdempotencyKeyInProgress''"

text \<open>The outcome is recorded, or the key released.\<close>

definition settle_key :: "'c json_lib \<Rightarrow> string \<Rightarrow> api_error + 'c \<Rightarrow> local_keys \<Rightarrow> local_keys" where
  "settle_key lib key result m =
     (case result of
        Inl _ \<Rightarrow> release_local key m
      | Inr c \<Rightarrow> (case write_json lib c of None \<Rightarrow> release_local key m | Some body \<Rightarrow> complete_local key body m))"

text \<open>One request by itself: the keys, the database, and the publications made so far, each with its key.\<close>

type_synonym ('c, 'd) server = "local_keys \<times> 'd \<times> (string option \<times> 'c) list"

definition do_work :: "('req \<Rightarrow> 'd \<Rightarrow> (api_error + 'c) \<times> 'd) \<Rightarrow> string option \<Rightarrow> 'req \<Rightarrow> 'd \<times> (string option \<times> 'c) list \<Rightarrow>
    (api_error + 'c) \<times> 'd \<times> (string option \<times> 'c) list" where
  "do_work work key req s =
     (let (db, made) = s; (result, db') = work req db
      in (result, db', (case result of Inl _ \<Rightarrow> made | Inr c \<Rightarrow> made @ [(key, c)])))"

definition publish_keyed ::
  "'c json_lib \<Rightarrow> ('req \<Rightarrow> 'd \<Rightarrow> (api_error + 'c) \<times> 'd) \<Rightarrow> string option \<Rightarrow> 'req \<Rightarrow> ('c, 'd) server \<Rightarrow>
   (api_error + 'c) \<times> ('c, 'd) server" where
  "publish_keyed lib work key req s =
     (let (m, rest) = s in
      case key of
        None \<Rightarrow> (let (result, rest') = do_work work None req rest in (result, m, rest'))
      | Some k \<Rightarrow>
          (case claim_local k m of
             (Completed body, m') \<Rightarrow> (replay lib body, m', rest)
           | (In_progress, m') \<Rightarrow> (Err in_progress_error, m', rest)
           | (Fresh, m') \<Rightarrow> (let (result, rest') = do_work work (Some k) req rest in (result, settle_key lib k result m', rest'))))"

text \<open>\<open>publisher\<close> is the text of the publisher's id, once the address of the request has been checked against the token.\<close>

definition publish_contract ::
  "'c json_lib \<Rightarrow> ('req \<Rightarrow> 'd \<Rightarrow> (api_error + 'c) \<times> 'd) \<Rightarrow> (string \<Rightarrow> bool) \<Rightarrow> api_error + string \<Rightarrow> string option \<Rightarrow> 'req \<Rightarrow>
   ('c, 'd) server \<Rightarrow> (api_error + 'c) \<times> ('c, 'd) server" where
  "publish_contract lib work printable publisher header req s =
     (case publisher of
        Inl e \<Rightarrow> (Err e, s)
      | Inr pid \<Rightarrow>
          (case extract_idempotency_key printable header of
             Inl e \<Rightarrow> (Err e, s)
           | Inr key \<Rightarrow> publish_keyed lib work (map_option (publish_key pid) key) req s))"

section \<open>Requests as threads\<close>








text \<open>What a key says of the publications made with it.\<close>

definition key_ok :: "'c json_lib \<Rightarrow> string option \<Rightarrow> 'c list \<Rightarrow> bool" where
  "key_ok lib v cs \<longleftrightarrow>
     (case v of
        None \<Rightarrow> cs = []
      | Some body \<Rightarrow> if body = IDEMPOTENCY_IN_PROGRESS then length cs \<le> 1
                     else (\<exists>c. cs = [c] \<and> read_json lib body = Some c))"



lemma key_ok_simps [simp]:
  "key_ok lib None cs \<longleftrightarrow> cs = []"
  "key_ok lib (Some IDEMPOTENCY_IN_PROGRESS) cs \<longleftrightarrow> length cs \<le> 1"
  "body \<noteq> IDEMPOTENCY_IN_PROGRESS \<Longrightarrow> key_ok lib (Some body) cs \<longleftrightarrow> (\<exists>c. cs = [c] \<and> read_json lib body = Some c)"
  by (simp_all add: key_ok_def)













section \<open>The threads keep the keys\<close>














section \<open>One success for one key\<close>






section \<open>Redis\<close>

text \<open>
  In Redis a claim keeps others out for sixty seconds: a publication that takes longer does not stop a second one. When Redis
  does not answer, every claim is fresh.
\<close>

theorem redis_lock_expires:
  assumes "redis_value now key m = None" "claim_redis True True now now' key m = (Fresh, m')"
  shows "fst (claim_redis True True later later key m') = (if later < now + 60 then In_progress else Fresh) \<and>
    fst (claim_redis False False later later key m') = Fresh"
  using assms
  by (auto simp: claim_redis_def redis_set_nx_def redis_get_claim_def redis_value_def IDEMPOTENCY_LOCK_TTL_SECS_def Let_def
      split: option.splits if_splits)

section \<open>A publication over the network\<close>











text \<open>When the policy goes on after each lost answer, the loop runs to its end.\<close>

lemma all_answers_lost:
  assumes "\<And>n t. server n t = (Err (Transport url 1 Body), act t)" "tried < most"
    and "\<And>n. n < most \<Longrightarrow> \<exists>d. after_failure p most n (Transport url 1 Body) = Ok d"
  shows "\<exists>sleeps'. send_loop p most server tried s sleeps =
    (Err (Transport url most Body), (act ^^ (most - tried)) s, most, sleeps')"
  using assms(2)
proof (induction "most - tried" arbitrary: tried s sleeps)
  case (Suc d)
  show ?case
  proof (cases "Suc tried = most")
    case True
    then have "most - tried = 1" by simp
    then show ?thesis using True by (subst send_loop.simps) (simp add: assms(1) after_failure_def)
  next
    case False
    then obtain delay where "after_failure p most (Suc tried) (Transport url 1 Body) = Ok delay"
      using assms(3) Suc(3) by fastforce
    moreover have "most - tried = Suc (most - Suc tried)" using Suc(3) by simp
    ultimately show ?thesis
      using Suc(1) [of "Suc tried" "act s" "sleeps @ [delay]"] Suc(2,3) False
      by (subst send_loop.simps) (simp add: assms(1) funpow_Suc_right del: funpow.simps)
  qed
qed simp

text \<open>
  C28. The client retries any mutation that carries a key, but only publishing looks at it: where the server ignores the key and
  the answers are lost, the mutation is carried out once for every attempt the policy allows.
\<close>

theorem unguarded_mutation_repeats:
  assumes "rs_method spec = POST" "rs_key spec = Some k" "retry_idempotent_mutations p" "1 < max_attempts p"
  shows "\<exists>sleeps. send False p base has_cache spec (\<lambda>n t. (Err (Transport url 1 Body), act t)) s cache =
    (Err (Transport url (max_attempts p) Body), (act ^^ max_attempts p) s, cache, max_attempts p, sleeps)"
proof -
  have "attempts_of p spec = max_attempts p" using assms by (simp add: attempts_of_def allows_retrying_def)
  moreover have "\<exists>d. after_failure p (max_attempts p) n (Transport url 1 Body) = Ok d" if "n < max_attempts p" for n
    using that by (simp add: after_failure_def)
  ultimately show ?thesis
    using all_answers_lost [of "\<lambda>n t. (Err (Transport url 1 Body), act t)" url act 0 "max_attempts p" p s "[]"] assms
    by (auto simp: send_def send_inner_def Let_def)
qed

section \<open>Concrete runs\<close>








theorem redis_lock_expires_witness:
  "fst (claim_redis True True 60 60 ''k'' (snd (claim_redis True True 0 0 ''k'' Map.empty))) = Fresh \<and>
   fst (claim_redis True True 59 59 ''k'' (snd (claim_redis True True 0 0 ''k'' Map.empty))) = In_progress"
proof -
  have free: "redis_value 0 ''k'' Map.empty = None" by (simp add: redis_value_def)
  have first: "claim_redis True True 0 0 ''k'' Map.empty = (Fresh, [''k'' \<mapsto> (IDEMPOTENCY_IN_PROGRESS, 60)])"
    by (simp add: claim_redis_def redis_set_nx_def free IDEMPOTENCY_LOCK_TTL_SECS_def)
  show ?thesis
    using redis_lock_expires [OF free first, of 60] redis_lock_expires [OF free first, of 59] first by simp
qed


theorem unguarded_mutation_repeats_witness:
  "fst (snd (send False (default_policy id) ''http://r'' False (publish_spec (Some ''k''))
     (\<lambda>n t. (Err (Transport ''u'' 1 Body), Suc t)) 0 Map.empty)) = 3"
proof -
  have "rs_method (publish_spec (Some ''k'')) = POST" "rs_key (publish_spec (Some ''k'')) = Some ''k''"
    "retry_idempotent_mutations (default_policy id)" "1 < max_attempts (default_policy id)"
    by (simp_all add: publish_spec_def default_policy_def DEFAULT_MAX_ATTEMPTS_def)
  from unguarded_mutation_repeats [OF this, of "''http://r''" False "''u''" Suc 0 Map.empty] show ?thesis
    by (auto simp: default_policy_def DEFAULT_MAX_ATTEMPTS_def numeral_eq_Suc)
qed

end
