(* ===== verification/Spec2Isabelle.thy ===== *)
theory Spec2Isabelle
  imports Semver Contract_Spec Compatibility Pagination Dependency_Risk Dependency_Traversal Indexer
    Rate_Limit Bypass_Spike Market_Runs Payment_Flow Auth Multisig_Runs Ownership_Runs Gated_Updates Db_Resilience
    Signature_Runs Dependency_Runs Idempotency
begin

text \<open>
  A verification library for the Soroban registry: a registry of smart contracts of the Stellar network with
  an HTTP API (\<open>backend/api\<close>), an indexer that fills it from the ledger (\<open>backend/indexer\<close>), a client library
  (\<open>backend/registry_client\<close>) and shared algorithms (\<open>backend/shared\<close>). Definitions are translated from the
  Rust sources and keep their names. This theory imports all others and holds no definition of its own.

  How the parts interact. Deployments reach the tables of contracts through the indexer. Clients reach the API
  through the connection queue and the rate limiter; a request that acts for somebody carries a token of the
  authentication. The owner of a contract passes it on by a signed transfer; two further updates of a contract go
  through a gate that asks for the approvals of a multisignature policy. The marketplace sells licenses for contracts:
  for dollars through Stripe's webhook, for USDC through the payment scanner of the indexer, which posts
  confirmations to the API past the limiter. The compatibility engine compares interfaces that the spec decoder
  reads, and the dependency code walks the edges between contracts and rates their risks.

  Conventions. A Rust string is the list of its UTF-8 bytes. Machine integers are words where the code can wrap,
  saturate or overflow, and \<open>int\<close> or \<open>nat\<close> where the code cannot or the database checks the range. A \<open>Result\<close> is a sum with
  \<open>Err\<close> and \<open>Ok\<close>; a panic is a value of its own (\<open>Auth\<close>). Tables are lists of rows. Each SQL statement
  may fail, by a predicate \<open>ok\<close> on the statements: in a handler that opens a transaction a failure undoes
  everything, in one that runs its statements on the pool what was written before stays. Clocks, random
  identifiers and answers from the network are arguments. Cryptography, base64, JSON, JWT and Stellar address decoding
  are third-party code and parameters; what is assumed of them (that decoding inverts encoding, that UUIDs print
  injectively and without a colon) is a named hypothesis, with a witness that instantiates it.

  \<^item> \<open>Prelude\<close>: machine types, \<open>Result\<close>, orders and stable sorting of the standard library, strings, ordered
    maps, the locales \<open>rust_ord\<close> (a lawful \<open>Ord\<close>) and \<open>keyed_store\<close> (look up and change a row by its key).
    \<open>F64\<close>: rounding of binary floating point. \<open>Tables\<close>: rows, statements and the error of the API. \<open>Validation\<close>: the
    validators of \<open>backend/api/src/validation\<close> that the modelled handlers use.
  \<^item> \<open>Semver\<close> (\<open>shared/src/semver.rs\<close>): parsing, printing, precedence and constraints. The order is a total preorder,
    parsing inverts printing, and matching a constraint is membership in an interval.
  \<^item> \<open>Contract_Spec\<close> (\<open>shared/src/contract_spec.rs\<close>): the XDR reader, with the locales \<open>xdr_reader\<close> (advances inside
    the section) and \<open>xdr_codec\<close> (inverts an encoder). Reading gives back what was encoded; what is read nests at
    most 32 levels (\<open>MAX_TYPE_DEPTH\<close>, the fuel of the recursion, is the counter of the code).
  \<^item> \<open>Compatibility\<close> (\<open>shared/src/contract_compatibility.rs\<close>): the diff and its verdict, refined to what it
    means for the callers of the old interface.
  \<^item> \<open>Pagination\<close> (\<open>registry_client/src/pagination.rs\<close>): the walk over pages. No position is read twice, limits are
    kept, and \<open>collect_all\<close>, a partial function, returns when the number of pages is bounded.
  \<^item> \<open>Dependency_Risk\<close> (\<open>shared/src/dependency_graph.rs\<close>) and \<open>Dependency_Traversal\<close> (\<open>api/src/dependency_graph.rs\<close>,
    \<open>dependency_risk.rs\<close>): findings and their deduplication, the recursive query as levels of a walk, the report. Paths are
    simple, an answer not marked truncated is complete, hidden contracts are not walked through.
  \<^item> \<open>Indexer\<close> (\<open>indexer/src\<close>): backoff, detector, batch writer, checkpoint, reorganisations, poll cycle and restarts, as an
    inductive set of reachable states. No deployment up to the checkpoint is missing from the registry; a healthy
    indexer catches up with the tip; what goes wrong after a crash at the wrong moment.
  \<^item> \<open>Rate_Limit\<close> and \<open>Bypass_Spike\<close> (\<open>api/src/rate_limit.rs\<close>, \<open>quota_handlers.rs\<close>): the two sliding windows per bucket refine
    a specification that forgets nothing; which quota and bucket a request gets; the spike detector by atomic steps.
  \<^item> \<open>Marketplace\<close>, \<open>Usdc_Payments\<close>, \<open>Stripe_Payments\<close>, \<open>Market_Runs\<close> (\<open>api/src/marketplace\<close>): plans, licenses, metering, and
    the two payment paths as threads of statements, with the locale \<open>confirm_env\<close> for what the confirmations rely on and
    its interpretation on the operations of the marketplace. Well-formed tables in every reachable state, one license for one
    payment, final revocation, and the payments that are lost.
  \<^item> \<open>Usdc_Scanner\<close> (\<open>indexer/src/usdc_scanner.rs\<close>) and \<open>Payment_Flow\<close>: the cursor and what is behind it; scanner,
    limiter and marketplace together.
  \<^item> \<open>Auth\<close> (\<open>api/src/auth.rs\<close>, \<open>auth_handlers.rs\<close>, \<open>policy.rs\<close>): runs of the manager as lists of calls. A token that
    validates goes back to a signed challenge; refreshing rotates; revocation is final; a panic that ends the process.
  \<^item> \<open>Multisig\<close> and \<open>Multisig_Runs\<close> (\<open>api/src/multisig_handlers.rs\<close> and the gate of \<open>handlers.rs\<close>): one inductive step relation,
    an invariant of the tables, the quorum behind the gate, and the finality of decisions.
  \<^item> \<open>Ownership_Transfer\<close>, \<open>Transfer_Runs\<close>, \<open>Ownership_Runs\<close> (\<open>api/src/ownership_transfer.rs\<close> and the transfer handlers of
    \<open>handlers.rs\<close>): the handlers refine six atomic effects on the tables, which keep the invariant \<open>ownership_ok\<close>; the
    owner of a contract is accounted for by completed transfers; signed texts determine their message; the
    sweep, a function that terminates by the number of live transfers, expires exactly what is due.
  \<^item> \<open>Gated_Updates\<close> (\<open>handlers.rs\<close>): the change of publisher and of status behind the gate, and who gets through it.
  \<^item> \<open>Db_Resilience\<close> (\<open>api/src/db_resilience.rs\<close>): the circuit breaker driven by its pings, and the request queue as
    threads of atomic operations on 64-bit counters: the concurrency limit is kept, dropped waiters leak.
  \<^item> \<open>Signatures\<close> and \<open>Signature_Runs\<close> (\<open>api/src/signature_verification.rs\<close>): keys, chains of certificates, revocations and
    the cached verification, with the locale \<open>verdict_store\<close> for the cache. The chain check is exact; the cache is right when
    the lengths of keys and signatures are fixed and can be made to answer wrongly when they are not.
  \<^item> \<open>Component_Search\<close>, \<open>Dependency_Graph\<close>, \<open>Dependency_Runs\<close> (\<open>api/src/dependency.rs\<close>, \<open>dependency_handlers.rs\<close> and the
    graph handlers of \<open>handlers.rs\<close>): the two-pass search for strongly connected components, proved to find exactly the classes
    of mutual reachability; declarations as one transaction on two tables that keep mirroring each other; closures, readings as
    of an instant, which later declarations leave alone, and what the graph, the endpoint and the impact analysis call a cycle.
  \<^item> \<open>Client_Transport\<close> (\<open>registry_client/src/http.rs\<close>, \<open>config.rs\<close>, \<open>error.rs\<close>): the loop of attempts, which terminates by the
    attempts left, the retry policy and the response cache.
  \<^item> \<open>Idempotency\<close> (\<open>api/src/cache.rs\<close> and \<open>publish_contract\<close> of \<open>handlers.rs\<close>): publications as threads that claim keys and can be
    dropped, and the client's retries composed with the server's keys: one publication for one key, whatever the network loses.

  Not modelled: the command line client (\<open>cli\<close>), the web front end and the smart contracts of the repository; of the API
  the handlers that wrap single SQL statements or third-party services, routing, metrics and logging; full-text
  search, caches and event streams; the seeder and the verifier, which run external tools. Each is listed in
  the manifest with its reason. Of the modelled files the parts left out are named at the head of their theory.
\<close>

end
